(* ===== verification/Prelude.thy ===== *)
theory Prelude
  imports Main "HOL-Library.Sublist" "HOL-Library.Char_ord" "HOL-Library.List_Lexorder"
begin

text \<open>
  Shared vocabulary of the development: Go strings as byte lists, the functions of Go's
  \<^verbatim>\<open>strings\<close> and \<^verbatim>\<open>strconv\<close> packages the program calls, 64-bit wrap-around, and the
  generic lemmas on lists and sums that the component theories use.
  A Go string is a sequence of bytes, and \<open>char\<close> is a byte here. Case mapping and white
  space are modelled on ASCII bytes; every other byte is left alone.
\<close>

named_theorems str_simps "unfolding the string library on concrete arguments"
named_theorems guard_simps "the guards and early returns of the operations"
named_theorems inv_intros "introduction rules for component invariants"

type_synonym ('e, 'a) result = "'e + 'a"

definition is_ok :: "'e + 'a \<Rightarrow> bool" where
  "is_ok r = (case r of Inl _ \<Rightarrow> False | Inr _ \<Rightarrow> True)"

lemma is_ok_simps [simp]: "\<not> is_ok (Inl e)" "is_ok (Inr a)"
  by (simp_all add: is_ok_def)

lemma is_ok_iff: "is_ok r \<longleftrightarrow> (\<exists>a. r = Inr a)"
  by (cases r) auto

section \<open>Bytes and strings\<close>

definition byte :: "char \<Rightarrow> nat" where
  "byte c = of_char c"

abbreviation chr_nl :: char where
  "chr_nl \<equiv> CHR 0x0A"

abbreviation bslash :: char where
  "bslash \<equiv> CHR 0x5C"

definition is_upper :: "char \<Rightarrow> bool" where
  "is_upper c \<longleftrightarrow> 65 \<le> byte c \<and> byte c \<le> 90"

definition lower_char :: "char \<Rightarrow> char" where
  "lower_char c = (if is_upper c then char_of (byte c + 32) else c)"

definition to_lower :: "string \<Rightarrow> string" where
  "to_lower s = map lower_char s"

definition is_lower :: "char \<Rightarrow> bool" where
  "is_lower c \<longleftrightarrow> 97 \<le> byte c \<and> byte c \<le> 122"

definition upper_char :: "char \<Rightarrow> char" where
  "upper_char c = (if is_lower c then char_of (byte c - 32) else c)"

definition to_upper :: "string \<Rightarrow> string" where
  "to_upper s = map upper_char s"

definition equal_fold :: "string \<Rightarrow> string \<Rightarrow> bool" where
  "equal_fold a b \<longleftrightarrow> to_lower a = to_lower b"

definition is_space :: "char \<Rightarrow> bool" where
  "is_space c \<longleftrightarrow> byte c = 32 \<or> (9 \<le> byte c \<and> byte c \<le> 13)"

definition trim_left :: "(char \<Rightarrow> bool) \<Rightarrow> string \<Rightarrow> string" where
  "trim_left p s = dropWhile p s"

definition trim_right :: "(char \<Rightarrow> bool) \<Rightarrow> string \<Rightarrow> string" where
  "trim_right p s = rev (dropWhile p (rev s))"

definition trim_space :: "string \<Rightarrow> string" where
  "trim_space s = trim_right is_space (trim_left is_space s)"

definition has_prefix :: "string \<Rightarrow> string \<Rightarrow> bool" where
  "has_prefix s p \<longleftrightarrow> prefix p s"

definition has_suffix :: "string \<Rightarrow> string \<Rightarrow> bool" where
  "has_suffix s p \<longleftrightarrow> suffix p s"

definition str_contains :: "string \<Rightarrow> string \<Rightarrow> bool" where
  "str_contains s sub \<longleftrightarrow> sublist sub s"

definition trim_prefix :: "string \<Rightarrow> string \<Rightarrow> string" where
  "trim_prefix s p = (if prefix p s then drop (length p) s else s)"

definition trim_suffix :: "string \<Rightarrow> string \<Rightarrow> string" where
  "trim_suffix s p = (if suffix p s then take (length s - length p) s else s)"

text \<open>\<^verbatim>\<open>strings.Split\<close> with a one-byte separator: always at least one piece.\<close>

fun split_on :: "char \<Rightarrow> string \<Rightarrow> string list" where
  "split_on d [] = [[]]"
| "split_on d (c # s) =
     (if c = d then [] # split_on d s
      else case split_on d s of [] \<Rightarrow> [[c]] | p # ps \<Rightarrow> (c # p) # ps)"

text \<open>\<^verbatim>\<open>strings.Join\<close>.\<close>

fun str_join :: "string \<Rightarrow> string list \<Rightarrow> string" where
  "str_join sep [] = []"
| "str_join sep [x] = x"
| "str_join sep (x # y # xs) = x @ sep @ str_join sep (y # xs)"

text \<open>\<^verbatim>\<open>strings.Cut\<close>: the text before and after the first occurrence of the separator.\<close>

fun str_cut :: "string \<Rightarrow> string \<Rightarrow> string \<times> string \<times> bool" where
  "str_cut sep [] = (if sep = [] then ([], [], True) else ([], [], False))"
| "str_cut sep (c # s) =
     (if prefix sep (c # s) then ([], drop (length sep) (c # s), True)
      else case str_cut sep s of (b, a, f) \<Rightarrow> (c # b, a, f))"

text \<open>\<^verbatim>\<open>strings.ReplaceAll\<close> of a one-byte pattern.\<close>

definition replace_char :: "char \<Rightarrow> string \<Rightarrow> string \<Rightarrow> string" where
  "replace_char c r s = concat (map (\<lambda>x. if x = c then r else [x]) s)"

section \<open>Decimal numbers\<close>

definition digit_char :: "nat \<Rightarrow> char" where
  "digit_char d = char_of (48 + d)"

definition is_digit :: "char \<Rightarrow> bool" where
  "is_digit c \<longleftrightarrow> 48 \<le> byte c \<and> byte c \<le> 57"

definition digit_val :: "char \<Rightarrow> nat" where
  "digit_val c = byte c - 48"

fun nat_digits :: "nat \<Rightarrow> string" where
  "nat_digits n = (if n < 10 then [digit_char n] else nat_digits (n div 10) @ [digit_char (n mod 10)])"

declare nat_digits.simps [simp del]

definition int_digits :: "int \<Rightarrow> string" where
  "int_digits i = (if i < 0 then CHR ''-'' # nat_digits (nat (- i)) else nat_digits (nat i))"

definition digits_val :: "string \<Rightarrow> nat" where
  "digits_val s = foldl (\<lambda>n c. 10 * n + digit_val c) 0 s"

definition max_int64 :: int where
  "max_int64 = 9223372036854775807"

definition min_int64 :: int where
  "min_int64 = - 9223372036854775808"

text \<open>Two's complement wrap-around of a 64-bit \<^verbatim>\<open>int\<close> or \<^verbatim>\<open>time.Duration\<close>.\<close>

definition wrap64 :: "int \<Rightarrow> int" where
  "wrap64 x = (x + 9223372036854775808) mod 18446744073709551616 - 9223372036854775808"

text \<open>\<^verbatim>\<open>strconv.Atoi\<close>: an optional sign, decimal digits, and a 64-bit range check.\<close>

definition atoi :: "string \<Rightarrow> int option" where
  "atoi s =
     (let neg = (s \<noteq> [] \<and> hd s = CHR ''-'');
          body = (if s \<noteq> [] \<and> (hd s = CHR ''-'' \<or> hd s = CHR ''+'') then tl s else s);
          v = (if neg then - int (digits_val body) else int (digits_val body))
      in if body = [] \<or> \<not> list_all is_digit body then None
         else if v < min_int64 \<or> max_int64 < v then None else Some v)"

section \<open>Facts about bytes and strings\<close>

lemma byte_less_256: "byte c < 256"
  by (cases c) (simp add: byte_def)

lemma byte_inject [simp]: "byte c = byte d \<longleftrightarrow> c = d"
  by (simp add: byte_def)

lemma byte_char_of: "n < 256 \<Longrightarrow> byte (char_of n) = n"
  by (simp add: byte_def of_char_of)

lemma char_of_byte [simp]: "char_of (byte c) = c"
  by (simp add: byte_def)

lemma lower_char_idem [simp]: "lower_char (lower_char c) = lower_char c"
  by (auto simp: lower_char_def is_upper_def byte_char_of)

text \<open>Only letters are mapped onto letters, so other bytes are found where they were.\<close>

lemma lower_char_eq_iff: "\<not> is_upper d \<Longrightarrow> \<not> is_lower d \<Longrightarrow> lower_char c = d \<longleftrightarrow> c = d"
  by (auto simp: lower_char_def is_upper_def is_lower_def byte_char_of)

lemma to_lower_idem [simp]: "to_lower (to_lower s) = to_lower s"
  by (simp add: to_lower_def)

lemma length_to_lower [simp]: "length (to_lower s) = length s"
  by (simp add: to_lower_def)

lemma to_lower_Nil_iff [simp]: "to_lower s = [] \<longleftrightarrow> s = []"
  by (simp add: to_lower_def)

lemma to_lower_append [simp]: "to_lower (s @ t) = to_lower s @ to_lower t"
  by (simp add: to_lower_def)

lemma equal_fold_refl [simp]: "equal_fold a a"
  by (simp add: equal_fold_def)

lemma equal_fold_sym: "equal_fold a b \<longleftrightarrow> equal_fold b a"
  by (auto simp: equal_fold_def)

lemma trim_prefix_append [simp]: "trim_prefix (p @ s) p = s"
  by (simp add: trim_prefix_def)

lemma trim_suffix_append [simp]: "trim_suffix (s @ p) p = s"
  by (simp add: trim_suffix_def suffix_def)

lemma trim_left_Nil [simp]: "trim_left p [] = []"
  by (simp add: trim_left_def)

lemma trim_right_Nil [simp]: "trim_right p [] = []"
  by (simp add: trim_right_def)

lemma dropWhile_id: "s = [] \<or> \<not> p (hd s) \<Longrightarrow> dropWhile p s = s"
  by (cases s) auto

text \<open>A string whose first and last byte are not white space is its own trim.\<close>

lemma trim_space_id:
  assumes "s = [] \<or> (\<not> is_space (hd s) \<and> \<not> is_space (last s))"
  shows "trim_space s = s"
proof (cases "s = []")
  case True
  then show ?thesis by (simp add: trim_space_def)
next
  case False
  with assms have "dropWhile is_space s = s" and "dropWhile is_space (rev s) = rev s"
    by (auto intro!: dropWhile_id simp: hd_rev)
  then show ?thesis by (simp add: trim_space_def trim_left_def trim_right_def)
qed

lemma trim_space_no_space: "list_all (\<lambda>c. \<not> is_space c) s \<Longrightarrow> trim_space s = s"
  by (rule trim_space_id) (cases "s = []", auto simp: list_all_iff)

subsection \<open>Splitting and joining\<close>

lemma split_on_not_Nil [simp]: "split_on d s \<noteq> []"
  by (induction s) (auto split: list.splits)

lemma split_on_single: "d \<notin> set s \<Longrightarrow> split_on d s = [s]"
  by (induction s) auto

lemma split_on_append: "d \<notin> set s \<Longrightarrow> split_on d (s @ d # t) = s # split_on d t"
  by (induction s) auto

lemma split_on_no_sep: "p \<in> set (split_on d s) \<Longrightarrow> d \<notin> set p"
proof (induction s arbitrary: p)
  case Nil
  then show ?case by simp
next
  case (Cons c s)
  then show ?case
    by (cases "split_on d s") (auto split: if_splits)
qed

lemma join_split: "str_join [d] (split_on d s) = s"
proof (induction s)
  case Nil
  show ?case by simp
next
  case (Cons c s)
  obtain p ps where eq: "split_on d s = p # ps"
    by (cases "split_on d s") auto
  with Cons.IH show ?case by (cases ps) auto
qed

lemma split_join:
  "xs \<noteq> [] \<Longrightarrow> (\<forall>x \<in> set xs. d \<notin> set x) \<Longrightarrow> split_on d (str_join [d] xs) = xs"
proof (induction xs rule: induct_list012)
  case 1
  then show ?case by simp
next
  case (2 x)
  then show ?case by (simp add: split_on_single)
next
  case (3 x y xs)
  then show ?case by (simp add: split_on_append)
qed

lemma str_join_Cons: "xs \<noteq> [] \<Longrightarrow> str_join sep (x # xs) = x @ sep @ str_join sep xs"
  by (cases xs) auto

lemma str_join_append:
  "xs \<noteq> [] \<Longrightarrow> ys \<noteq> [] \<Longrightarrow> str_join sep (xs @ ys) = str_join sep xs @ sep @ str_join sep ys"
proof (induction xs)
  case Nil
  then show ?case by simp
next
  case (Cons x xs)
  then show ?case by (cases "xs = []") (simp_all add: str_join_Cons)
qed

lemma str_cut_found:
  "c \<notin> set s \<Longrightarrow> str_cut (c # sep) (s @ (c # sep) @ t) = (s, t, True)"
  by (induction s) auto

lemma str_cut_not_found: "c \<notin> set s \<Longrightarrow> str_cut (c # sep) s = (s, [], False)"
  by (induction s) auto

subsection \<open>Decimal digits\<close>

lemma byte_digit_char: "d < 10 \<Longrightarrow> byte (digit_char d) = 48 + d"
  by (simp add: digit_char_def byte_char_of)

lemma is_digit_digit_char [simp]: "d < 10 \<Longrightarrow> is_digit (digit_char d)"
  by (simp add: is_digit_def byte_digit_char)

lemma digit_val_digit_char [simp]: "d < 10 \<Longrightarrow> digit_val (digit_char d) = d"
  by (simp add: digit_val_def byte_digit_char)

lemma nat_digits_not_Nil [simp]: "nat_digits n \<noteq> []"
  by (subst nat_digits.simps) simp

lemma nat_digits_all_digits: "list_all is_digit (nat_digits n)"
proof (induction n rule: nat_digits.induct)
  case (1 n)
  then show ?case by (subst nat_digits.simps) auto
qed

lemma digits_val_snoc: "digits_val (s @ [c]) = 10 * digits_val s + digit_val c"
  by (simp add: digits_val_def)

lemma digits_val_nat_digits [simp]: "digits_val (nat_digits n) = n"
proof (induction n rule: nat_digits.induct)
  case (1 n)
  show ?case
  proof (cases "n < 10")
    case True
    then show ?thesis by (subst nat_digits.simps) (simp add: digits_val_def)
  next
    case False
    then show ?thesis
      by (subst nat_digits.simps) (simp add: digits_val_snoc 1)
  qed
qed

lemma nat_digits_inject [simp]: "nat_digits m = nat_digits n \<longleftrightarrow> m = n"
  by (metis digits_val_nat_digits)

lemma is_digit_no_sign: "is_digit c \<Longrightarrow> c \<noteq> CHR ''-'' \<and> c \<noteq> CHR ''+''"
  by (auto simp: is_digit_def byte_def)

lemma hd_nat_digits: "is_digit (hd (nat_digits n))"
  using nat_digits_all_digits[of n] by (cases "nat_digits n") auto

lemma atoi_nat_digits: "int n \<le> max_int64 \<Longrightarrow> atoi (nat_digits n) = Some (int n)"
  using is_digit_no_sign[OF hd_nat_digits[of n]] nat_digits_all_digits[of n]
  by (simp add: atoi_def min_int64_def)

lemma atoi_range: "atoi s = Some v \<Longrightarrow> min_int64 \<le> v \<and> v \<le> max_int64"
  by (auto simp: atoi_def Let_def split: if_splits)

subsection \<open>64-bit wrap-around\<close>

lemma wrap64_id: "min_int64 \<le> x \<Longrightarrow> x \<le> max_int64 \<Longrightarrow> wrap64 x = x"
  by (simp add: wrap64_def min_int64_def max_int64_def)

lemma wrap64_range: "min_int64 \<le> wrap64 x \<and> wrap64 x \<le> max_int64"
  by (simp add: wrap64_def min_int64_def max_int64_def)

subsection \<open>Computing with bytes and numbers\<close>

text \<open>
  Code equations for evaluation: the tests on bytes read bits, and decimal numbers are summed as
  integers instead of unary numbers.
\<close>

definition bit_value :: "bool \<Rightarrow> nat \<Rightarrow> nat" where
  "bit_value b n = (if b then Suc (n + n) else n + n)"

definition nat_char :: "nat \<Rightarrow> char" where
  "nat_char n = char_of n"

lemma byte_code [code]:
  "byte (Char b0 b1 b2 b3 b4 b5 b6 b7) =
     bit_value b0 (bit_value b1 (bit_value b2 (bit_value b3 (bit_value b4 (bit_value b5 (bit_value b6 (bit_value b7 0)))))))"
  by (simp add: byte_def bit_value_def)

lemma nat_char_code [code]:
  "nat_char n = Char (odd n) (odd (n div 2)) (odd (n div 4)) (odd (n div 8)) (odd (n div 16)) (odd (n div 32)) (odd (n div 64)) (odd (n div 128))"
  by (simp add: nat_char_def char_of_def bit_iff_odd)

lemma is_upper_code [code]:
  "is_upper (Char b0 b1 b2 b3 b4 b5 b6 b7) \<longleftrightarrow>
     \<not> b7 \<and> b6 \<and> \<not> b5 \<and> (b0 \<or> b1 \<or> b2 \<or> b3 \<or> b4) \<and> \<not> (b4 \<and> b3 \<and> (b2 \<or> b1 \<and> b0))"
  by (simp add: is_upper_def byte_def of_bool_def)

lemma is_lower_code [code]:
  "is_lower (Char b0 b1 b2 b3 b4 b5 b6 b7) \<longleftrightarrow>
     \<not> b7 \<and> b6 \<and> b5 \<and> (b0 \<or> b1 \<or> b2 \<or> b3 \<or> b4) \<and> \<not> (b4 \<and> b3 \<and> (b2 \<or> b1 \<and> b0))"
  by (simp add: is_lower_def byte_def of_bool_def)
lemma char_of_nat_char [code_unfold]: "char_of = nat_char"
  by (simp add: fun_eq_iff nat_char_def)

lemma char_of_shifted:
  "char_of (byte (Char b0 b1 b2 b3 b4 False b6 b7) + 32) = Char b0 b1 b2 b3 b4 True b6 b7"
  "char_of (byte (Char b0 b1 b2 b3 b4 True b6 b7) - 32) = Char b0 b1 b2 b3 b4 False b6 b7"
proof -
  have "byte (Char b0 b1 b2 b3 b4 False b6 b7) + 32 = byte (Char b0 b1 b2 b3 b4 True b6 b7)"
    by (simp add: byte_def)
  moreover have "byte (Char b0 b1 b2 b3 b4 True b6 b7) - 32 = byte (Char b0 b1 b2 b3 b4 False b6 b7)"
    by (simp add: byte_def)
  ultimately show "char_of (byte (Char b0 b1 b2 b3 b4 False b6 b7) + 32) = Char b0 b1 b2 b3 b4 True b6 b7"
    "char_of (byte (Char b0 b1 b2 b3 b4 True b6 b7) - 32) = Char b0 b1 b2 b3 b4 False b6 b7"
    by (metis char_of_byte)+
qed

lemma lower_char_code [code]:
  "lower_char (Char b0 b1 b2 b3 b4 b5 b6 b7) =
     (if is_upper (Char b0 b1 b2 b3 b4 b5 b6 b7) then Char b0 b1 b2 b3 b4 True b6 b7 else Char b0 b1 b2 b3 b4 b5 b6 b7)"
  by (cases b5) (simp_all add: lower_char_def is_upper_code char_of_shifted)

lemma upper_char_code [code]:
  "upper_char (Char b0 b1 b2 b3 b4 b5 b6 b7) =
     (if is_lower (Char b0 b1 b2 b3 b4 b5 b6 b7) then Char b0 b1 b2 b3 b4 False b6 b7 else Char b0 b1 b2 b3 b4 b5 b6 b7)"
  by (cases b5) (simp_all add: upper_char_def is_lower_code char_of_shifted)

lemma is_space_code [code]:
  "is_space (Char b0 b1 b2 b3 b4 b5 b6 b7) \<longleftrightarrow>
     \<not> b7 \<and> \<not> b6 \<and> \<not> b4 \<and> (if b5 then \<not> b3 \<and> \<not> b2 \<and> \<not> b1 \<and> \<not> b0 else b3 \<and> (b2 \<or> b1 \<or> b0) \<and> \<not> (b2 \<and> b1))"
  by (simp add: is_space_def byte_def of_bool_def)

lemma is_digit_code [code]:
  "is_digit (Char b0 b1 b2 b3 b4 b5 b6 b7) \<longleftrightarrow> \<not> b7 \<and> \<not> b6 \<and> b5 \<and> b4 \<and> \<not> (b3 \<and> (b2 \<or> b1))"
  by (simp add: is_digit_def byte_def of_bool_def)

lemma digit_val_code [code]:
  "digit_val (Char b0 b1 b2 b3 b4 b5 b6 b7) =
     (if is_digit (Char b0 b1 b2 b3 b4 b5 b6 b7) then bit_value b0 (bit_value b1 (bit_value b2 (bit_value b3 0)))
      else byte (Char b0 b1 b2 b3 b4 b5 b6 b7) - 48)"
  by (simp add: digit_val_def is_digit_code byte_def bit_value_def of_bool_def)

text \<open>Decimal numbers are read in binary, not in unary.\<close>

definition digits_int :: "string \<Rightarrow> int" where
  "digits_int s = foldl (\<lambda>n c. 10 * n + int (digit_val c)) 0 s"

lemma int_foldl_digits: "int (foldl (\<lambda>n c. 10 * n + digit_val c) k s) = foldl (\<lambda>n c. 10 * n + int (digit_val c)) (int k) s"
  by (induction s arbitrary: k) simp_all

lemma int_digits_val [code_unfold]: "int (digits_val s) = digits_int s"
  using int_foldl_digits[of 0 s] by (simp add: digits_val_def digits_int_def)

subsection \<open>Searching\<close>

lemma find_snoc: "find P (xs @ [x]) = (case find P xs of Some y \<Rightarrow> Some y | None \<Rightarrow> if P x then Some x else None)"
  by (induction xs) auto

section \<open>Transition systems with an invariant\<close>

text \<open>
  The contract every state machine of the development meets: an initial condition, a step
  relation and a predicate that holds initially and that every step keeps.  Each component
  interprets it on its own steps.
\<close>

locale invariant_system =
  fixes init :: "'s \<Rightarrow> bool" and step :: "'s \<Rightarrow> 's \<Rightarrow> bool" and good :: "'s \<Rightarrow> bool"
  assumes init_good: "init s \<Longrightarrow> good s"
    and step_good: "good s \<Longrightarrow> step s t \<Longrightarrow> good t"
begin

lemma steps_good: "step\<^sup>*\<^sup>* s t \<Longrightarrow> good s \<Longrightarrow> good t"
  by (induction rule: rtranclp_induct) (auto intro: step_good)

lemma run_good: "step\<^sup>*\<^sup>* s t \<Longrightarrow> init s \<Longrightarrow> good t"
  by (rule steps_good) (auto intro: init_good)

end

text \<open>Running a list of events through a transition function, for the event-driven components.\<close>

definition run_events :: "('e \<Rightarrow> 's \<Rightarrow> 's) \<Rightarrow> 'e list \<Rightarrow> 's \<Rightarrow> 's" where
  "run_events handle es s = foldl (\<lambda>st e. handle e st) s es"

lemma run_events_Nil [simp]: "run_events h [] s = s"
  by (simp add: run_events_def)

lemma run_events_Cons [simp]: "run_events h (e # es) s = run_events h es (h e s)"
  by (simp add: run_events_def)

lemma run_events_append [simp]: "run_events h (es @ fs) s = run_events h fs (run_events h es s)"
  by (simp add: run_events_def)

lemma run_events_invariant:
  "(\<And>e s. P s \<Longrightarrow> P (h e s)) \<Longrightarrow> P s \<Longrightarrow> P (run_events h es s)"
  by (induction es arbitrary: s) auto

end
