(* ===== verification/Cli.thy ===== *)
theory Cli
  imports Prelude
begin

text \<open>
  The command line (\<^verbatim>\<open>internal/cli/cli.go\<close>): \<^verbatim>\<open>Parse\<close> collects the flags and the positional
  arguments in one pass, then checks the positionals against the command's shape.  Every usage
  error is a value of \<open>cli_error\<close>.  The facts say which commands can come out, and that every
  such command can be written as arguments that parse back to it.
\<close>

datatype usage_message =
    MissingCommand
  | NoArguments string
  | AddNeedsPath
  | NeedsProjectName string
  | DaemonNeedsAction
  | UnknownCommand string
  | EngineScopeOnlyGenerate
  | ChildOnlyDaemonRun

datatype cli_error = ErrUsage usage_message

record Command =
  cmd_Name :: string
  cmd_ProjectPath :: string
  cmd_ProjectName :: string
  cmd_JSON :: bool
  cmd_EngineScope :: string
  cmd_DaemonAction :: string
  cmd_Child :: bool

definition zero_Command :: Command where
  "zero_Command =
     \<lparr>cmd_Name = '''', cmd_ProjectPath = '''', cmd_ProjectName = '''', cmd_JSON = False,
      cmd_EngineScope = '''', cmd_DaemonAction = '''', cmd_Child = False\<rparr>"

text \<open>One iteration of the argument loop: a flag changes the command, the rest is positional.\<close>

definition scan_arg :: "Command \<times> string list \<Rightarrow> string \<Rightarrow> Command \<times> string list" where
  "scan_arg st arg =
     (case st of (command, positionals) \<Rightarrow>
        if arg = ''--json'' then (command\<lparr>cmd_JSON := True\<rparr>, positionals)
        else if arg = ''--child'' then (command\<lparr>cmd_Child := True\<rparr>, positionals)
        else if arg = ''--engine-scope'' \<or> arg = ''--engine-scope=project'' then
          (command\<lparr>cmd_EngineScope := ''project''\<rparr>, positionals)
        else if arg = ''--engine-scope=full'' then
          (command\<lparr>cmd_EngineScope := ''full''\<rparr>, positionals)
        else (command, positionals @ [arg]))"

definition scan_args :: "string list \<Rightarrow> Command \<times> string list" where
  "scan_args args = foldl scan_arg (zero_Command, []) args"

definition positional_shape :: "Command \<Rightarrow> string list \<Rightarrow> cli_error + Command" where
  "positional_shape command positionals =
     (let name = cmd_Name command in
      if name \<in> {''doctor'', ''list'', ''watch'', ''mcp''} then
        (if length positionals \<noteq> 1 then Inl (ErrUsage (NoArguments name)) else Inr command)
      else if name = ''add'' then
        (if length positionals \<noteq> 2 then Inl (ErrUsage AddNeedsPath)
         else Inr (command\<lparr>cmd_ProjectPath := positionals ! 1\<rparr>))
      else if name \<in> {''generate'', ''status'', ''remove'', ''index-engine''} then
        (if length positionals \<noteq> 2 then Inl (ErrUsage (NeedsProjectName name))
         else Inr (command\<lparr>cmd_ProjectName := positionals ! 1\<rparr>))
      else if name = ''daemon'' then
        (if length positionals \<noteq> 2 \<or>
            (positionals ! 1 \<noteq> ''run'' \<and> positionals ! 1 \<noteq> ''status'' \<and> positionals ! 1 \<noteq> ''stop'')
         then Inl (ErrUsage DaemonNeedsAction)
         else Inr (command\<lparr>cmd_DaemonAction := positionals ! 1\<rparr>))
      else Inl (ErrUsage (UnknownCommand name)))"

definition Parse :: "string list \<Rightarrow> cli_error + Command" where
  "Parse args =
     (case scan_args args of (command, positionals) \<Rightarrow>
        if positionals = [] then Inl (ErrUsage MissingCommand)
        else case positional_shape (command\<lparr>cmd_Name := positionals ! 0\<rparr>) positionals of
            Inl e \<Rightarrow> Inl e
          | Inr c \<Rightarrow>
              if cmd_EngineScope c \<noteq> '''' \<and> cmd_Name c \<noteq> ''generate'' then
                Inl (ErrUsage EngineScopeOnlyGenerate)
              else if cmd_Child c \<and> (cmd_Name c \<noteq> ''daemon'' \<or> cmd_DaemonAction c \<noteq> ''run'') then
                Inl (ErrUsage ChildOnlyDaemonRun)
              else Inr c)"

section \<open>Well-formed commands\<close>

definition is_flag :: "string \<Rightarrow> bool" where
  "is_flag a \<longleftrightarrow>
     a \<in> {''--json'', ''--child'', ''--engine-scope'', ''--engine-scope=project'',
          ''--engine-scope=full''}"

text \<open>
  What a parsed command satisfies: a known name, exactly the fields that name uses, and the two
  flags that are restricted to one command each.
\<close>

definition valid_scope :: "string \<Rightarrow> bool" where
  "valid_scope s \<longleftrightarrow> s = '''' \<or> s = ''project'' \<or> s = ''full''"

definition wf_command :: "Command \<Rightarrow> bool" where
  "wf_command c \<longleftrightarrow>
     valid_scope (cmd_EngineScope c) \<and>
     (cmd_EngineScope c \<noteq> '''' \<longrightarrow> cmd_Name c = ''generate'') \<and>
     (cmd_Child c \<longrightarrow> cmd_Name c = ''daemon'' \<and> cmd_DaemonAction c = ''run'') \<and>
     (if cmd_Name c \<in> {''doctor'', ''list'', ''watch'', ''mcp''} then
        cmd_ProjectPath c = '''' \<and> cmd_ProjectName c = '''' \<and> cmd_DaemonAction c = ''''
      else if cmd_Name c = ''add'' then
        \<not> is_flag (cmd_ProjectPath c) \<and> cmd_ProjectName c = '''' \<and> cmd_DaemonAction c = ''''
      else if cmd_Name c \<in> {''generate'', ''status'', ''remove'', ''index-engine''} then
        cmd_ProjectPath c = '''' \<and> \<not> is_flag (cmd_ProjectName c) \<and> cmd_DaemonAction c = ''''
      else cmd_Name c = ''daemon'' \<and> cmd_ProjectPath c = '''' \<and> cmd_ProjectName c = '''' \<and>
        cmd_DaemonAction c \<in> {''run'', ''status'', ''stop''})"

definition render_positionals :: "Command \<Rightarrow> string list" where
  "render_positionals c =
     (if cmd_Name c \<in> {''doctor'', ''list'', ''watch'', ''mcp''} then [cmd_Name c]
      else if cmd_Name c = ''add'' then [cmd_Name c, cmd_ProjectPath c]
      else if cmd_Name c = ''daemon'' then [cmd_Name c, cmd_DaemonAction c]
      else [cmd_Name c, cmd_ProjectName c])"

definition render_flags :: "Command \<Rightarrow> string list" where
  "render_flags c =
     (if cmd_JSON c then [''--json''] else []) @
     (if cmd_Child c then [''--child''] else []) @
     (if cmd_EngineScope c = '''' then [] else [''--engine-scope='' @ cmd_EngineScope c])"

definition render_command :: "Command \<Rightarrow> string list" where
  "render_command c = render_positionals c @ render_flags c"

lemma scan_arg_positional: "\<not> is_flag a \<Longrightarrow> scan_arg (c, ps) a = (c, ps @ [a])"
  by (simp add: scan_arg_def is_flag_def)

lemma scan_arg_step:
  "valid_scope (cmd_EngineScope (fst st)) \<Longrightarrow> valid_scope (cmd_EngineScope (fst (scan_arg st a)))"
  "list_all (\<lambda>p. \<not> is_flag p) (snd st) \<Longrightarrow> list_all (\<lambda>p. \<not> is_flag p) (snd (scan_arg st a))"
  "cmd_ProjectPath (fst (scan_arg st a)) = cmd_ProjectPath (fst st)"
  "cmd_ProjectName (fst (scan_arg st a)) = cmd_ProjectName (fst st)"
  "cmd_DaemonAction (fst (scan_arg st a)) = cmd_DaemonAction (fst st)"
  by (cases st, simp add: scan_arg_def valid_scope_def is_flag_def)+

lemma scan_args_run:
  "valid_scope (cmd_EngineScope (fst st)) \<Longrightarrow>
     valid_scope (cmd_EngineScope (fst (foldl scan_arg st args)))"
  "list_all (\<lambda>p. \<not> is_flag p) (snd st) \<Longrightarrow>
     list_all (\<lambda>p. \<not> is_flag p) (snd (foldl scan_arg st args))"
  "cmd_ProjectPath (fst (foldl scan_arg st args)) = cmd_ProjectPath (fst st)"
  "cmd_ProjectName (fst (foldl scan_arg st args)) = cmd_ProjectName (fst st)"
  "cmd_DaemonAction (fst (foldl scan_arg st args)) = cmd_DaemonAction (fst st)"
  by (induction args arbitrary: st) (simp_all add: scan_arg_step)

text \<open>What the scan of any argument list gives the later checks.\<close>

lemma scan_args_facts:
  assumes "scan_args args = (c, ps)"
  shows "valid_scope (cmd_EngineScope c)" "list_all (\<lambda>p. \<not> is_flag p) ps"
    "cmd_ProjectPath c = ''''" "cmd_ProjectName c = ''''" "cmd_DaemonAction c = ''''"
  using assms scan_args_run[of "(zero_Command, [])" args]
  by (simp_all add: scan_args_def zero_Command_def valid_scope_def)

lemma shape_cases:
  assumes "positional_shape (b\<lparr>cmd_Name := ps ! 0\<rparr>) ps = Inr d"
  obtains
      (bare) "ps ! 0 \<in> {''doctor'', ''list'', ''watch'', ''mcp''}" "d = b\<lparr>cmd_Name := ps ! 0\<rparr>"
    | (path) "ps ! 0 = ''add''" "length ps = 2" "d = b\<lparr>cmd_Name := ''add'', cmd_ProjectPath := ps ! 1\<rparr>"
    | (name) "ps ! 0 \<in> {''generate'', ''status'', ''remove'', ''index-engine''}" "length ps = 2"
        "d = b\<lparr>cmd_Name := ps ! 0, cmd_ProjectName := ps ! 1\<rparr>"
    | (action) "ps ! 0 = ''daemon''" "length ps = 2" "ps ! 1 \<in> {''run'', ''status'', ''stop''}"
        "d = b\<lparr>cmd_Name := ''daemon'', cmd_DaemonAction := ps ! 1\<rparr>"
  using assms unfolding positional_shape_def Let_def
  by (simp only: select_convs update_convs surjective split: if_splits) simp_all

lemma shape_wf:
  assumes shape: "positional_shape (b\<lparr>cmd_Name := ps ! 0\<rparr>) ps = Inr d"
    and b: "valid_scope (cmd_EngineScope b)" "list_all (\<lambda>p. \<not> is_flag p) ps"
    "cmd_ProjectPath b = ''''" "cmd_ProjectName b = ''''" "cmd_DaemonAction b = ''''"
    and d: "cmd_EngineScope d = '''' \<or> cmd_Name d = ''generate''"
    "\<not> cmd_Child d \<or> cmd_Name d = ''daemon'' \<and> cmd_DaemonAction d = ''run''"
  shows "wf_command d"
  using shape
proof (cases rule: shape_cases)
  case bare
  then show ?thesis using b d by (elim insertE emptyE) (simp_all add: wf_command_def)
next
  case path
  with b(2) have "\<not> is_flag (ps ! 1)" by (simp add: list_all_length)
  with path b d show ?thesis by (simp add: wf_command_def)
next
  case name
  with b(2) have "\<not> is_flag (ps ! 1)" by (simp add: list_all_length)
  with name show ?thesis using b d by (elim insertE emptyE) (simp_all add: wf_command_def)
next
  case action
  then show ?thesis using b d by (elim insertE emptyE) (simp_all add: wf_command_def)
qed

section \<open>Which commands come out, and that all of them can be written\<close>

text \<open>
  Whatever the arguments, a command that \<^verbatim>\<open>Parse\<close> returns is well formed: its name is one of
  the ten commands, only the fields of that command are filled, the project path or name is not
  a flag, the engine scope is set for \<^verbatim>\<open>generate\<close> only and the child flag for \<^verbatim>\<open>daemon run\<close> only.
\<close>

theorem Parse_sound: "Parse args = Inr c \<Longrightarrow> wf_command c"
proof -
  assume ok: "Parse args = Inr c"
  obtain b ps where scan: "scan_args args = (b, ps)" by (cases "scan_args args")
  note facts = scan_args_facts [OF scan]
  from ok scan have shape: "positional_shape (b\<lparr>cmd_Name := ps ! 0\<rparr>) ps = Inr c"
    and "cmd_EngineScope c = '''' \<or> cmd_Name c = ''generate''"
    and "\<not> cmd_Child c \<or> cmd_Name c = ''daemon'' \<and> cmd_DaemonAction c = ''run''"
    by (auto simp: Parse_def split: if_splits sum.splits)
  then show ?thesis using shape_wf facts by blast
qed

theorem Parse_sound_witness:
  "wf_command (zero_Command\<lparr>cmd_Name := ''generate'', cmd_ProjectName := ''game'',
     cmd_JSON := True, cmd_EngineScope := ''full''\<rparr>)"
  by (rule Parse_sound [of "[''--json'', ''generate'', ''--engine-scope=full'', ''game'']"])
    (simp add: Parse_def scan_args_def scan_arg_def zero_Command_def positional_shape_def Let_def)

lemma wf_command_cases:
  assumes "wf_command c"
  obtains
      (bare) "cmd_Name c \<in> {''doctor'', ''list'', ''watch'', ''mcp''}" "cmd_ProjectPath c = ''''"
        "cmd_ProjectName c = ''''" "cmd_DaemonAction c = ''''"
    | (path) "cmd_Name c = ''add''" "\<not> is_flag (cmd_ProjectPath c)"
        "cmd_ProjectName c = ''''" "cmd_DaemonAction c = ''''"
    | (name) "cmd_Name c \<in> {''generate'', ''status'', ''remove'', ''index-engine''}"
        "cmd_ProjectPath c = ''''" "\<not> is_flag (cmd_ProjectName c)" "cmd_DaemonAction c = ''''"
    | (action) "cmd_Name c = ''daemon''" "cmd_DaemonAction c \<in> {''run'', ''status'', ''stop''}"
        "cmd_ProjectPath c = ''''" "cmd_ProjectName c = ''''"
  using assms unfolding wf_command_def by (simp only: split: if_splits) blast+

lemma scan_positionals:
  "list_all (\<lambda>p. \<not> is_flag p) ps \<Longrightarrow> foldl scan_arg (c, qs) ps = (c, qs @ ps)"
  by (induction ps arbitrary: qs) (simp_all add: scan_arg_positional)

lemma scan_flags:
  "valid_scope (cmd_EngineScope c) \<Longrightarrow>
   foldl scan_arg (zero_Command, ps) (render_flags c) =
     (zero_Command\<lparr>cmd_JSON := cmd_JSON c, cmd_EngineScope := cmd_EngineScope c,
        cmd_Child := cmd_Child c\<rparr>, ps)"
  unfolding valid_scope_def
  by (elim disjE; cases "cmd_JSON c"; cases "cmd_Child c")
    (simp_all add: render_flags_def scan_arg_def zero_Command_def)

lemma positionals_not_flags:
  "wf_command c \<Longrightarrow> list_all (\<lambda>p. \<not> is_flag p) (render_positionals c)"
  by (erule wf_command_cases; (elim insertE emptyE)?)
    (simp_all add: render_positionals_def is_flag_def)

lemma scan_render:
  assumes "wf_command c"
  shows "scan_args (render_command c) =
    (zero_Command\<lparr>cmd_JSON := cmd_JSON c, cmd_EngineScope := cmd_EngineScope c,
       cmd_Child := cmd_Child c\<rparr>, render_positionals c)"
proof -
  have "valid_scope (cmd_EngineScope c)" using assms by (simp add: wf_command_def)
  then show ?thesis
    using scan_positionals [OF positionals_not_flags [OF assms], of zero_Command "[]"]
    by (simp add: scan_args_def render_command_def scan_flags)
qed

lemma shape_render:
  assumes "wf_command c"
  shows "positional_shape
     (zero_Command\<lparr>cmd_JSON := cmd_JSON c, cmd_EngineScope := cmd_EngineScope c,
        cmd_Child := cmd_Child c, cmd_Name := render_positionals c ! 0\<rparr>)
     (render_positionals c) = Inr c"
  using assms
  by (cases rule: wf_command_cases; (elim insertE emptyE)?)
    (simp_all add: positional_shape_def render_positionals_def zero_Command_def Let_def)

text \<open>
  Every well-formed command is reachable: rendering it as arguments, positionals first and the
  flags after, and parsing them gives the same command back.
\<close>

theorem Parse_render: "wf_command c \<Longrightarrow> Parse (render_command c) = Inr c"
proof -
  assume wf: "wf_command c"
  have "render_positionals c \<noteq> []" by (simp add: render_positionals_def)
  moreover have "cmd_EngineScope c = '''' \<or> cmd_Name c = ''generate''"
    "\<not> cmd_Child c \<or> cmd_Name c = ''daemon'' \<and> cmd_DaemonAction c = ''run''"
    using wf unfolding wf_command_def by blast+
  ultimately show ?thesis
    using shape_render [OF wf] unfolding Parse_def scan_render [OF wf] prod.case
    by (auto simp only: if_False sum.case simp_thms)
qed

theorem Parse_render_witness:
  "Parse (render_command (zero_Command\<lparr>cmd_Name := ''daemon'', cmd_DaemonAction := ''run'',
     cmd_Child := True\<rparr>)) =
   Inr (zero_Command\<lparr>cmd_Name := ''daemon'', cmd_DaemonAction := ''run'', cmd_Child := True\<rparr>)"
  by (rule Parse_render) (simp add: wf_command_def zero_Command_def valid_scope_def)

end
