(* ===== verification/Ubtguard.thy ===== *)
theory Ubtguard
  imports Prelude
begin

text \<open>
  The build guard (\<^verbatim>\<open>internal/ubtguard/ubtguard.go\<close>): \<^verbatim>\<open>Busy\<close> finds the first process that looks
  like an Unreal build, \<^verbatim>\<open>Wait\<close> polls the process list with a doubling delay.  The process
  lister and the sleep are the environment: the answers of the \<open>i\<close>-th call are arguments of the
  model.  Durations are 64-bit nanosecond counts with their wrap-around written out, and the
  loop takes fuel; the facts below say how much fuel is enough and how long it can wait.
\<close>

record Process =
  proc_PID :: int
  proc_Name :: string
  proc_Cmdline :: string

definition looks_like_build :: "Process \<Rightarrow> bool" where
  "looks_like_build p =
     (let name = to_lower (proc_Name p); cmd = to_lower (proc_Cmdline p) in
      if name = ''unrealbuildtool.exe'' then True
      else if (name = ''dotnet.exe'' \<or> name = ''cmd.exe'' \<or> name = ''powershell.exe'' \<or> name = ''pwsh.exe'') \<and>
              (str_contains cmd ''unrealbuildtool'' \<or> str_contains cmd ''runubt.bat'' \<or>
               str_contains cmd (bslash # ''build'' @ [bslash] @ ''batchfiles'' @ [bslash] @ ''build.bat'')) then True
      else name = ''unrealeditor-cmd.exe'' \<and> str_contains cmd ''-compile'')"

fun Busy :: "Process list \<Rightarrow> int \<Rightarrow> string" where
  "Busy [] ownPID = ''''"
| "Busy (p # procs) ownPID =
     (if proc_PID p = ownPID then Busy procs ownPID
      else if looks_like_build p then proc_Name p @ '' (pid '' @ int_digits (proc_PID p) @ '')''
      else Busy procs ownPID)"

record Options =
  opt_Initial :: int
  opt_Max :: int
  opt_Total :: int
  opt_OwnPID :: int

definition second :: int where
  "second = 1000000000"

definition default_options :: "Options \<Rightarrow> Options" where
  "default_options o' =
     o'\<lparr>opt_Initial := (if opt_Initial o' \<le> 0 then 15 * second else opt_Initial o'),
        opt_Max := (if opt_Max o' \<le> 0 then 120 * second else opt_Max o'),
        opt_Total := (if opt_Total o' \<le> 0 then 1800 * second else opt_Total o')\<rparr>"

datatype wait_result = WaitNil | ErrBusy string | SleepErr string

text \<open>
  The loop of \<^verbatim>\<open>Wait\<close>.  \<open>lister i\<close> and \<open>sleeper i\<close> answer the \<open>i\<close>-th call; the second component
  of the result is the trace of \<^verbatim>\<open>onWait\<close> notifications, one per sleep.
\<close>

fun wait_loop :: "nat \<Rightarrow> (nat \<Rightarrow> string + Process list) \<Rightarrow> (nat \<Rightarrow> string option) \<Rightarrow> Options \<Rightarrow>
    nat \<Rightarrow> int \<Rightarrow> int \<Rightarrow> (wait_result \<times> (string \<times> int) list) option" where
  "wait_loop 0 lister sleeper o' i delay waited = None"
| "wait_loop (Suc fuel) lister sleeper o' i delay waited =
     (case lister i of
        Inl _ \<Rightarrow> Some (WaitNil, [])
      | Inr procs \<Rightarrow>
          let who = Busy procs (opt_OwnPID o') in
          if who = '''' then Some (WaitNil, [])
          else if opt_Total o' \<le> waited then Some (ErrBusy who, [])
          else case sleeper i of
              Some e \<Rightarrow> Some (SleepErr e, [(who, delay)])
            | None \<Rightarrow>
                let doubled = wrap64 (delay * 2);
                    next_delay = (if opt_Max o' < doubled then opt_Max o' else doubled)
                in map_option (\<lambda>(r, trace). (r, (who, delay) # trace))
                     (wait_loop fuel lister sleeper o' (Suc i) next_delay (wrap64 (waited + delay))))"

definition Wait :: "nat \<Rightarrow> (nat \<Rightarrow> string + Process list) \<Rightarrow> (nat \<Rightarrow> string option) \<Rightarrow> Options \<Rightarrow>
    (wait_result \<times> (string \<times> int) list) option" where
  "Wait fuel lister sleeper o' =
     (let d = default_options o' in wait_loop fuel lister sleeper d 0 (opt_Initial d) 0)"

section \<open>What \<^verbatim>\<open>Busy\<close> finds\<close>

lemma Busy_Nil_iff:
  "Busy procs own = '''' \<longleftrightarrow> (\<forall>p \<in> set procs. proc_PID p = own \<or> \<not> looks_like_build p)"
  by (induction procs) auto

lemma Busy_own_skipped: "Busy procs own = Busy (filter (\<lambda>p. proc_PID p \<noteq> own) procs) own"
  by (induction procs) auto

section \<open>Termination and bounds of the loop\<close>

definition half_int64 :: int where
  "half_int64 = 4611686018427387903"

text \<open>Options for which no 64-bit addition or doubling of the loop can wrap.\<close>

definition sane_options :: "Options \<Rightarrow> bool" where
  "sane_options o' \<longleftrightarrow>
     0 < opt_Initial o' \<and> opt_Initial o' \<le> half_int64 \<and> 0 < opt_Max o' \<and> opt_Max o' \<le> half_int64 \<and>
     0 < opt_Total o' \<and> opt_Total o' \<le> half_int64"

definition max_delay :: "Options \<Rightarrow> int" where
  "max_delay o' = max (opt_Initial o') (opt_Max o')"

lemma no_wrap:
  assumes "sane_options o'" "0 < delay" "delay \<le> max_delay o'" "0 \<le> waited" "waited < opt_Total o'"
  shows "wrap64 (delay * 2) = delay * 2" "wrap64 (waited + delay) = waited + delay"
  using assms
  by (auto intro!: wrap64_id
      simp: sane_options_def max_delay_def half_int64_def max_int64_def min_int64_def max_def
      split: if_splits)

lemma next_delay_ok:
  assumes "sane_options o'" "0 < delay" "delay \<le> max_delay o'"
  shows "0 < (if opt_Max o' < delay * 2 then opt_Max o' else delay * 2)"
    "(if opt_Max o' < delay * 2 then opt_Max o' else delay * 2) \<le> max_delay o'"
  using assms by (auto simp: sane_options_def max_delay_def)

text \<open>Every sleep adds at least one nanosecond, so fuel for the remaining wait is enough.\<close>

lemma wait_loop_terminates:
  assumes "sane_options o'" "0 < delay" "delay \<le> max_delay o'" "0 \<le> waited"
    and "nat (opt_Total o' - waited) < fuel"
  shows "wait_loop fuel lister sleeper o' i delay waited \<noteq> None"
  using assms
proof (induction fuel arbitrary: i delay waited)
  case 0
  then show ?case by simp
next
  case (Suc fuel)
  show ?case
  proof (cases "waited < opt_Total o'")
    case True
    note w = no_wrap [OF Suc.prems(1-4) True] and d = next_delay_ok [OF Suc.prems(1-3)]
    have "wait_loop fuel lister sleeper o' (Suc i)
        (if opt_Max o' < delay * 2 then opt_Max o' else delay * 2) (waited + delay) \<noteq> None"
      using Suc.prems True d by (intro Suc.IH) auto
    then show ?thesis
      by (auto simp: w Let_def split: sum.splits option.splits)
  next
    case False
    then show ?thesis by (auto simp: Let_def split: sum.splits)
  qed
qed

text \<open>One iteration: the loop stops, the sleep fails, or the loop goes on with the next delay.\<close>

lemma wait_loop_step:
  assumes "sane_options o'" "0 < delay" "delay \<le> max_delay o'" "0 \<le> waited"
    and "wait_loop (Suc fuel) lister sleeper o' i delay waited = Some (r, trace)"
  obtains
      (ready) "r = WaitNil" "trace = []"
        "case lister i of Inl _ \<Rightarrow> True | Inr procs \<Rightarrow> Busy procs (opt_OwnPID o') = ''''"
    | (busy) procs where "r = ErrBusy (Busy procs (opt_OwnPID o'))" "trace = []"
        "lister i = Inr procs" "Busy procs (opt_OwnPID o') \<noteq> ''''" "opt_Total o' \<le> waited"
    | (failed) e who where "r = SleepErr e" "sleeper i = Some e" "trace = [(who, delay)]"
        "waited < opt_Total o'"
    | (more) t who where "trace = (who, delay) # t" "waited < opt_Total o'"
        "wait_loop fuel lister sleeper o' (Suc i)
           (if opt_Max o' < delay * 2 then opt_Max o' else delay * 2) (waited + delay) = Some (r, t)"
proof (cases "waited < opt_Total o'")
  case True
  note w = no_wrap [OF assms(1-4) True]
  show thesis
    using assms(5) True ready failed more
    by (auto simp: w Let_def split: sum.splits option.splits if_splits)
next
  case False
  with assms(5) ready busy show thesis
    by (auto simp: Let_def split: sum.splits if_splits)
qed

lemma wait_loop_bound:
  assumes "sane_options o'" "0 < delay" "delay \<le> max_delay o'" "0 \<le> waited"
    and "wait_loop fuel lister sleeper o' i delay waited = Some (r, trace)"
  shows "trace = [] \<or> waited + sum_list (map snd trace) < opt_Total o' + max_delay o'"
  using assms
proof (induction fuel arbitrary: i delay waited r trace)
  case 0
  then show ?case by simp
next
  case (Suc fuel)
  note d = next_delay_ok [OF Suc.prems(1-3)]
  from Suc.prems show ?case
  proof (cases rule: wait_loop_step)
    case (more t who)
    from Suc.IH [OF Suc.prems(1) d _ more(3)] Suc.prems more show ?thesis by auto
  qed (use Suc.prems in auto)
qed

lemma default_options_positive:
  "0 < opt_Initial (default_options o') \<and> 0 < opt_Max (default_options o') \<and>
   0 < opt_Total (default_options o')"
  by (simp add: default_options_def second_def)

text \<open>
  \<^verbatim>\<open>Wait\<close> always returns, whatever the process lister and the sleep answer, and it never
  sleeps longer than the total plus one maximal delay: for options below half the 64-bit range,
  fuel for the total is enough, and the delays announced to \<^verbatim>\<open>onWait\<close> add up to less than that
  bound.
\<close>

theorem Wait_returns_bounded:
  assumes "sane_options (default_options o')" and "nat (opt_Total (default_options o')) < fuel"
  shows "\<exists>r trace. Wait fuel lister sleeper o' = Some (r, trace) \<and>
    sum_list (map snd trace) < opt_Total (default_options o') + max_delay (default_options o')"
proof -
  let ?d = "default_options o'"
  have pos: "0 < opt_Initial ?d" "opt_Initial ?d \<le> max_delay ?d"
    using assms(1) by (simp_all add: sane_options_def max_delay_def)
  obtain r trace where res: "wait_loop fuel lister sleeper ?d 0 (opt_Initial ?d) 0 = Some (r, trace)"
    using wait_loop_terminates [OF assms(1) pos, of 0 fuel] assms(2) by fastforce
  moreover have "sum_list (map snd trace) < opt_Total ?d + max_delay ?d"
    using wait_loop_bound [OF assms(1) pos _ res] default_options_positive[of o'] pos
    by (cases "trace = []") auto
  ultimately show ?thesis by (simp add: Wait_def Let_def)
qed

definition example_build :: Process where
  "example_build = \<lparr>proc_PID = 7, proc_Name = ''UnrealBuildTool.exe'', proc_Cmdline = ''''\<rparr>"

definition example_options :: Options where
  "example_options = \<lparr>opt_Initial = 2, opt_Max = 3, opt_Total = 6, opt_OwnPID = 1\<rparr>"

theorem Wait_returns_bounded_witness:
  "\<exists>r trace. Wait 7 (\<lambda>_. Inr [example_build]) (\<lambda>_. None) example_options = Some (r, trace) \<and>
    sum_list (map snd trace) < 6 + 3"
  using Wait_returns_bounded [of example_options 7 "\<lambda>_. Inr [example_build]" "\<lambda>_. None"]
  by (simp add: sane_options_def default_options_def example_options_def max_delay_def half_int64_def)

lemma wait_loop_outcome:
  assumes "sane_options o'" "0 < delay" "delay \<le> max_delay o'" "0 \<le> waited"
    and "wait_loop fuel lister sleeper o' i delay waited = Some (r, trace)"
  shows "case r of
      ErrBusy who \<Rightarrow> (\<exists>procs. lister (i + length trace) = Inr procs \<and>
        who = Busy procs (opt_OwnPID o') \<and> who \<noteq> '''') \<and>
        opt_Total o' \<le> waited + sum_list (map snd trace)
    | WaitNil \<Rightarrow> (case lister (i + length trace) of Inl _ \<Rightarrow> True
        | Inr procs \<Rightarrow> Busy procs (opt_OwnPID o') = '''')
    | SleepErr e \<Rightarrow> trace \<noteq> [] \<and> sleeper (i + length trace - 1) = Some e"
  using assms
proof (induction fuel arbitrary: i delay waited r trace)
  case 0
  then show ?case by simp
next
  case (Suc fuel)
  note d = next_delay_ok [OF Suc.prems(1-3)]
  from Suc.prems show ?case
  proof (cases rule: wait_loop_step)
    case (more t who)
    from Suc.IH [OF Suc.prems(1) d _ more(3)] Suc.prems(2,4) more(1) show ?thesis
      by (cases r) auto
  qed auto
qed

text \<open>
  \<^verbatim>\<open>Wait\<close> reports the build as still running only when a competing process was in the last
  process list it saw and the whole budget had been slept; it returns nil only when the last
  list showed no competing build or could not be read (a failing lister never blocks
  generation); any other error is the sleep's own.
\<close>

theorem Wait_outcome:
  assumes "sane_options (default_options o')" and "Wait fuel lister sleeper o' = Some (r, trace)"
  shows "case r of
      ErrBusy who \<Rightarrow> (\<exists>procs. lister (length trace) = Inr procs \<and>
        who = Busy procs (opt_OwnPID o') \<and> who \<noteq> '''') \<and>
        opt_Total (default_options o') \<le> sum_list (map snd trace)
    | WaitNil \<Rightarrow> (case lister (length trace) of Inl _ \<Rightarrow> True
        | Inr procs \<Rightarrow> Busy procs (opt_OwnPID o') = '''')
    | SleepErr e \<Rightarrow> trace \<noteq> [] \<and> sleeper (length trace - 1) = Some e"
proof -
  have pos: "0 < opt_Initial (default_options o')"
    "opt_Initial (default_options o') \<le> max_delay (default_options o')"
    using assms(1) by (simp_all add: sane_options_def max_delay_def)
  have own: "opt_OwnPID (default_options o') = opt_OwnPID o'" by (simp add: default_options_def)
  from assms(2) have run: "wait_loop fuel lister sleeper (default_options o') 0
      (opt_Initial (default_options o')) 0 = Some (r, trace)"
    by (simp add: Wait_def Let_def)
  from wait_loop_outcome [OF assms(1) pos _ run] show ?thesis
    by (simp only: own add_0 order_refl simp_thms)
qed

theorem Wait_outcome_witness:
  "opt_Total (default_options example_options) \<le> sum_list (map snd
     [(Busy [example_build] 1, 2), (Busy [example_build] 1, 3), (Busy [example_build] 1, 3)])"
proof -
  let ?w = "Busy [example_build] 1"
  have w: "?w \<noteq> ''''"
    by code_simp
  have run: "Wait 4 (\<lambda>_. Inr [example_build]) (\<lambda>_. None) example_options =
      Some (ErrBusy ?w, [(?w, 2), (?w, 3), (?w, 3)])"
    using w by (simp add: Wait_def default_options_def example_options_def Let_def wrap64_def
        eval_nat_numeral del: Busy.simps)
  have "sane_options (default_options example_options)"
    by (simp add: sane_options_def default_options_def example_options_def half_int64_def)
  from Wait_outcome [OF this run] show ?thesis by simp
qed

end
