(* ===== verification/Paths.thy ===== *)
theory Paths
  imports Prelude
begin

text \<open>
  The functions of Go's \<^verbatim>\<open>path/filepath\<close> that the program calls, for the build whose
  separator is a slash (\<^verbatim>\<open>FromSlash\<close> and \<^verbatim>\<open>ToSlash\<close> are then the identity and there is no
  volume name): \<^verbatim>\<open>Clean\<close>, \<^verbatim>\<open>Join\<close>, \<^verbatim>\<open>Base\<close>, \<^verbatim>\<open>Dir\<close>, \<^verbatim>\<open>Ext\<close>, \<^verbatim>\<open>IsAbs\<close>, \<^verbatim>\<open>Abs\<close> and \<^verbatim>\<open>Rel\<close>, each as an
  executable function on strings.  The main facts say when a path lies under a root: the
  string tests the program makes on the result of \<^verbatim>\<open>Rel\<close> decide exactly the component
  prefix order.  The locale \<open>containment\<close> is the interface the packages share: each has its
  own copy of the test and interprets it.
\<close>

abbreviation sep :: char where
  "sep \<equiv> CHR ''/''"

definition to_slash :: "string \<Rightarrow> string" where
  "to_slash p = p"

definition from_slash :: "string \<Rightarrow> string" where
  "from_slash p = p"

definition is_abs :: "string \<Rightarrow> bool" where
  "is_abs p = has_prefix p ''/''"

text \<open>\<open>out\<close> is the list of components kept so far, last one first.\<close>

fun clean_walk :: "bool \<Rightarrow> string list \<Rightarrow> string list \<Rightarrow> string list" where
  "clean_walk rooted out [] = out"
| "clean_walk rooted out (c # cs) =
     (if c = '''' \<or> c = ''.'' then clean_walk rooted out cs
      else if c = ''..'' then
        (case out of
           x # xs \<Rightarrow> if x \<noteq> ''..'' then clean_walk rooted xs cs
                     else clean_walk rooted (''..'' # out) cs
         | [] \<Rightarrow> if rooted then clean_walk rooted [] cs else clean_walk rooted [''..''] cs)
      else clean_walk rooted (c # out) cs)"

definition path_parts :: "string \<Rightarrow> string list" where
  "path_parts p = rev (clean_walk (is_abs p) [] (split_on sep p))"

definition path_clean :: "string \<Rightarrow> string" where
  "path_clean p =
     (if p = '''' then ''.''
      else if is_abs p then sep # str_join ''/'' (path_parts p)
      else if path_parts p = [] then ''.''
      else str_join ''/'' (path_parts p))"

text \<open>\<^verbatim>\<open>Join\<close> drops leading empty elements, joins the rest with separators and cleans.\<close>

definition path_join :: "string list \<Rightarrow> string" where
  "path_join es =
     (case dropWhile (\<lambda>e. e = '''') es of
        [] \<Rightarrow> ''''
      | e # r \<Rightarrow> path_clean (str_join ''/'' (e # r)))"

abbreviation path_join2 :: "string \<Rightarrow> string \<Rightarrow> string" where
  "path_join2 a b \<equiv> path_join [a, b]"

definition path_base :: "string \<Rightarrow> string" where
  "path_base p =
     (if p = '''' then ''.''
      else let s = trim_right (\<lambda>c. c = sep) p
           in if s = '''' then ''/'' else last (split_on sep s))"

definition path_dir :: "string \<Rightarrow> string" where
  "path_dir p = path_clean (rev (dropWhile (\<lambda>c. c \<noteq> sep) (rev p)))"

text \<open>\<^verbatim>\<open>Ext\<close>: the suffix from the last dot of the last element, empty without a dot.\<close>

definition path_ext :: "string \<Rightarrow> string" where
  "path_ext p =
     (let r = rev p; e = takeWhile (\<lambda>c. c \<noteq> CHR ''.'' \<and> c \<noteq> sep) r
      in case drop (length e) r of
           c # _ \<Rightarrow> if c = CHR ''.'' then CHR ''.'' # rev e else ''''
         | [] \<Rightarrow> '''')"

definition path_abs :: "string \<Rightarrow> string \<Rightarrow> string" where
  "path_abs cwd p = (if is_abs p then path_clean p else path_join2 cwd p)"

text \<open>
  What the program asks the operating system about paths: the working directory (\<open>None\<close> for the
  error of \<^verbatim>\<open>os.Getwd\<close>) and \<^verbatim>\<open>filepath.EvalSymlinks\<close> (\<open>None\<close> for its error).
\<close>

record path_env =
  Getwd :: "string option"
  EvalSymlinks :: "string \<Rightarrow> string option"

text \<open>\<^verbatim>\<open>filepath.Abs\<close>, which only fails when the working directory is unknown.\<close>

definition go_abs :: "path_env \<Rightarrow> string \<Rightarrow> string option" where
  "go_abs env p = (if is_abs p then Some (path_clean p) else map_option (\<lambda>d. path_join2 d p) (Getwd env))"

fun strip_common :: "'a list \<Rightarrow> 'a list \<Rightarrow> 'a list \<times> 'a list" where
  "strip_common (x # xs) (y # ys) = (if x = y then strip_common xs ys else (x # xs, y # ys))"
| "strip_common xs ys = (xs, ys)"

definition word_parts :: "string \<Rightarrow> string list" where
  "word_parts p = filter (\<lambda>c. c \<noteq> '''') (split_on sep p)"

text \<open>
  \<^verbatim>\<open>Rel base targ\<close>, \<open>None\<close> for its error.  The callers pass an absolute base, for which the
  equation is exact.
\<close>

definition path_rel :: "string \<Rightarrow> string \<Rightarrow> string option" where
  "path_rel base targ =
     (let b = path_clean base; t = path_clean targ
      in if t = b then Some ''.''
         else let b' = (if b = ''.'' then '''' else b)
              in if is_abs b' \<noteq> is_abs t then None
                 else case strip_common (word_parts b') (word_parts t) of
                   (bs, ts) \<Rightarrow>
                     if bs \<noteq> [] \<and> hd bs = ''..'' then None
                     else Some (str_join ''/'' (replicate (length bs) ''..'' @ ts)))"

text \<open>
  The test every package writes on the result of \<^verbatim>\<open>Rel\<close>: no error, not \<^verbatim>\<open>..\<close>, no leading
  \<^verbatim>\<open>../\<close>, not absolute.
\<close>

definition rel_inside :: "string option \<Rightarrow> bool" where
  "rel_inside r =
     (case r of
        None \<Rightarrow> False
      | Some rel \<Rightarrow> rel \<noteq> ''..'' \<and> \<not> has_prefix rel ''../'' \<and> \<not> is_abs rel)"

section \<open>Components of cleaned paths\<close>

definition good_part :: "string \<Rightarrow> bool" where
  "good_part c \<longleftrightarrow> c \<noteq> '''' \<and> c \<noteq> ''.'' \<and> c \<noteq> ''..'' \<and> sep \<notin> set c"

lemma clean_walk_rooted_good:
  "list_all good_part out \<Longrightarrow> \<forall>c \<in> set cs. sep \<notin> set c \<Longrightarrow>
   list_all good_part (clean_walk True out cs)"
  by (induction "True" out cs rule: clean_walk.induct)
    (auto simp: good_part_def split: list.splits)

lemma path_parts_good: "is_abs p \<Longrightarrow> list_all good_part (path_parts p)"
  unfolding path_parts_def
  by (simp add: list_all_rev) (rule clean_walk_rooted_good, auto dest: split_on_no_sep)

lemma clean_walk_good_id:
  "list_all good_part cs \<Longrightarrow> clean_walk r out cs = rev cs @ out"
  by (induction cs arbitrary: out) (auto simp: good_part_def)

lemma is_abs_Cons [simp]: "is_abs (c # p) \<longleftrightarrow> c = sep"
  by (auto simp: is_abs_def has_prefix_def)

lemma is_abs_Nil [simp]: "\<not> is_abs []"
  by (simp add: is_abs_def has_prefix_def)

lemma good_no_sep: "list_all good_part xs \<Longrightarrow> \<forall>x \<in> set xs. sep \<notin> set x"
  by (auto simp: good_part_def list_all_iff)

lemma word_parts_join: "list_all good_part xs \<Longrightarrow> word_parts (sep # str_join ''/'' xs) = xs"
proof (cases "xs = []")
  case True
  then show ?thesis by (simp add: word_parts_def)
next
  case False
  assume g: "list_all good_part xs"
  with False have "split_on sep (str_join ''/'' xs) = xs"
    by (intro split_join) (auto simp: good_part_def list_all_iff)
  with g show ?thesis
    by (auto simp: word_parts_def good_part_def list_all_iff intro!: filter_True)
qed

lemma path_parts_join: "list_all good_part xs \<Longrightarrow> path_parts (sep # str_join ''/'' xs) = xs"
proof (cases "xs = []")
  case True
  then show ?thesis by (simp add: path_parts_def)
next
  case False
  assume g: "list_all good_part xs"
  with False have "split_on sep (str_join ''/'' xs) = xs"
    by (intro split_join) (auto simp: good_part_def list_all_iff)
  with g show ?thesis by (simp add: path_parts_def clean_walk_good_id)
qed

lemma path_clean_abs: "is_abs p \<Longrightarrow> path_clean p = sep # str_join ''/'' (path_parts p)"
  by (auto simp: path_clean_def)

lemma is_abs_clean: "is_abs p \<Longrightarrow> is_abs (path_clean p)"
  by (simp add: path_clean_abs)

lemma path_parts_clean [simp]: "is_abs p \<Longrightarrow> path_parts (path_clean p) = path_parts p"
  by (simp add: path_clean_abs path_parts_join path_parts_good)

lemma path_clean_idem: "is_abs p \<Longrightarrow> path_clean (path_clean p) = path_clean p"
  by (simp add: path_clean_abs path_parts_join path_parts_good)

lemma path_clean_eq_iff:
  "is_abs p \<Longrightarrow> is_abs q \<Longrightarrow> path_clean p = path_clean q \<longleftrightarrow> path_parts p = path_parts q"
  by (metis path_clean_abs path_parts_clean)

section \<open>The containment test decides the component prefix order\<close>

lemma strip_common_spec:
  "strip_common xs ys = (bs, ts) \<Longrightarrow>
   \<exists>c. xs = c @ bs \<and> ys = c @ ts \<and> (bs = [] \<or> ts = [] \<or> hd bs \<noteq> hd ts)"
proof (induction xs ys rule: strip_common.induct)
  case (1 x xs y ys)
  then show ?case by (auto split: if_splits)
qed auto

lemma strip_common_prefix:
  "strip_common xs ys = (bs, ts) \<Longrightarrow> bs = [] \<longleftrightarrow> prefix xs ys"
  by (induction xs ys rule: strip_common.induct) (auto split: if_splits)

lemma slash_free_dotdot:
  "sep \<notin> set x \<Longrightarrow> prefix ''../'' (x @ sep # r) \<longleftrightarrow> x = ''..''"
  by (cases x; cases "tl x"; cases "tl (tl x)") auto

lemma dotdot_head:
  assumes "xs \<noteq> []" and "\<forall>x \<in> set xs. sep \<notin> set x"
  shows "str_join ''/'' xs = ''..'' \<or> prefix ''../'' (str_join ''/'' xs) \<longleftrightarrow> hd xs = ''..''"
proof (cases xs)
  case Nil
  with assms show ?thesis by simp
next
  case (Cons x ys)
  show ?thesis
  proof (cases ys)
    case Nil
    have "\<not> prefix ''../'' x"
      using assms Cons by (auto simp: prefix_def)
    with Cons Nil show ?thesis by simp
  next
    case (Cons y zs)
    have "x @ ''/'' @ str_join ''/'' ys \<noteq> ''..''"
      by (cases x; cases "tl x"; cases "tl (tl x)") auto
    with Cons \<open>xs = x # ys\<close> assms show ?thesis
      by (simp add: slash_free_dotdot)
  qed
qed

lemma not_abs_join:
  "xs \<noteq> [] \<Longrightarrow> list_all good_part xs \<Longrightarrow> \<not> is_abs (str_join ''/'' xs)"
  by (cases xs; cases "hd xs"; cases "tl xs") (auto simp: good_part_def)

lemma rel_inside_parts:
  assumes "strip_common bs ts = (bs', ts')" and "bs \<noteq> ts"
    and good: "list_all good_part bs" "list_all good_part ts"
  shows "rel_inside (Some (str_join ''/'' (replicate (length bs') ''..'' @ ts'))) \<longleftrightarrow> prefix bs ts"
proof -
  from strip_common_spec [OF assms(1)] obtain c where c: "bs = c @ bs'" "ts = c @ ts'" by blast
  let ?ws = "replicate (length bs') ''..'' @ ts'"
  have ne: "?ws \<noteq> []" using c assms(2) by auto
  have ns: "\<forall>x \<in> set ?ws. sep \<notin> set x"
    using good_no_sep [OF good(2)] c by auto
  have pre: "bs' = [] \<longleftrightarrow> prefix bs ts" by (rule strip_common_prefix [OF assms(1)])
  note dd = dotdot_head [OF ne ns]
  show ?thesis
  proof (cases "bs' = []")
    case True
    with ne have ts': "ts' \<noteq> []" by simp
    have g': "list_all good_part ts'" using good c by simp
    with ts' have "hd ts' \<noteq> ''..''" by (cases ts') (simp_all add: good_part_def)
    with True dd have "str_join ''/'' ts' \<noteq> ''..''" "\<not> prefix ''../'' (str_join ''/'' ts')"
      by simp_all
    with True pre not_abs_join [OF ts' g'] show ?thesis
      by (simp add: rel_inside_def has_prefix_def)
  next
    case False
    then have "hd ?ws = ''..''" by (cases bs') simp_all
    with dd have "str_join ''/'' ?ws = ''..'' \<or> prefix ''../'' (str_join ''/'' ?ws)" by simp
    with False pre show ?thesis by (auto simp only: rel_inside_def has_prefix_def option.case)
  qed
qed

lemma rel_inside_iff_prefix:
  assumes "is_abs root" and "is_abs path"
  shows "rel_inside (path_rel root path) \<longleftrightarrow> prefix (path_parts root) (path_parts path)"
proof (cases "path_parts path = path_parts root")
  case True
  with assms have "path_rel root path = Some ''.''"
    by (simp add: path_rel_def path_clean_eq_iff)
  with True show ?thesis by (simp add: rel_inside_def has_prefix_def)
next
  case False
  have good: "list_all good_part (path_parts root)" "list_all good_part (path_parts path)"
    using assms by (simp_all add: path_parts_good)
  obtain bs ts where sc: "strip_common (path_parts root) (path_parts path) = (bs, ts)"
    by (cases "strip_common (path_parts root) (path_parts path)")
  from strip_common_spec [OF sc] good have nd: "\<not> (bs \<noteq> [] \<and> hd bs = ''..'')"
    by (cases bs) (auto simp: good_part_def)
  have ne: "path_clean path \<noteq> path_clean root"
    using assms False by (simp add: path_clean_eq_iff)
  have wp: "word_parts (path_clean root) = path_parts root"
    "word_parts (path_clean path) = path_parts path"
    using assms good by (simp_all add: path_clean_abs word_parts_join)
  have dot: "path_clean root \<noteq> ''.''" using assms by (simp add: path_clean_abs)
  have "path_rel root path = Some (str_join ''/'' (replicate (length bs) ''..'' @ ts))"
    using assms ne dot sc nd by (simp add: path_rel_def Let_def wp is_abs_clean)
  with rel_inside_parts [OF sc _ good] False show ?thesis by simp
qed

section \<open>The parent of a path is shorter\<close>

text \<open>Every component counted with one separator: what \<^verbatim>\<open>Clean\<close> may keep of a path's bytes.\<close>

definition weight :: "string list \<Rightarrow> nat" where
  "weight cs = sum_list (map (\<lambda>c. Suc (length c)) cs)"

lemma weight_simps [simp]: "weight [] = 0" "weight (c # cs) = Suc (length c) + weight cs"
  "weight (xs @ ys) = weight xs + weight ys" "weight (rev xs) = weight xs"
  by (simp_all add: weight_def flip: rev_map)

lemma weight_clean_walk: "weight (clean_walk r out cs) \<le> weight out + weight cs"
  by (induction r out cs rule: clean_walk.induct) (auto split: list.splits)

lemma weight_split: "weight (split_on d s) = Suc (length s)"
  by (induction s) (auto split: list.splits)

lemma clean_walk_last_empty: "clean_walk r out (cs @ ['''']) = clean_walk r out cs"
  by (induction r out cs rule: clean_walk.induct) (auto split: list.splits)

lemma length_join_weight: "xs \<noteq> [] \<Longrightarrow> Suc (length (str_join ''/'' xs)) = weight xs"
  by (induction xs rule: induct_list012) auto

lemma split_on_trailing: "split_on d (s @ [d]) = split_on d s @ ['''']"
  by (induction s) (auto split: list.splits)

lemma split_on_middle: "split_on d (s @ d # t) = split_on d s @ split_on d t"
  by (induction s) (auto split: list.splits)

lemma length_clean_trailing:
  assumes "q \<noteq> ''''"
  shows "length (path_clean (q @ ''/'')) \<le> length q"
proof (cases "is_abs q")
  case True
  then obtain r where q: "q = sep # r" by (cases q) auto
  have "weight (path_parts (q @ ''/'')) \<le> Suc (length r)"
    using weight_clean_walk[of True "[]" "split_on sep r"] q split_on_trailing[of sep r]
    by (simp add: path_parts_def clean_walk_last_empty weight_split)
  with q show ?thesis
    using length_join_weight[of "path_parts (q @ ''/'')"]
    by (cases "path_parts (q @ ''/'') = []") (simp_all add: path_clean_abs)
next
  case False
  with assms have na: "\<not> is_abs (q @ ''/'')" by (cases q) auto
  have "weight (path_parts (q @ ''/'')) \<le> Suc (length q)"
    using weight_clean_walk[of False "[]" "split_on sep q"] na
    by (simp add: path_parts_def split_on_trailing clean_walk_last_empty weight_split)
  with na assms show ?thesis
    using length_join_weight[of "path_parts (q @ ''/'')"]
    by (cases "path_parts (q @ ''/'') = []") (auto simp: path_clean_def Suc_le_eq)
qed

text \<open>A measure under which the climb from a path to its parent descends.\<close>

definition climb_measure :: "string \<Rightarrow> nat" where
  "climb_measure p = (if p = ''.'' then 0 else Suc (length p))"

lemma path_dir_measure:
  assumes "path_dir p \<noteq> p"
  shows "climb_measure (path_dir p) < climb_measure p"
proof (cases "sep \<in> set p")
  case False
  then have "path_dir p = ''.''"
    by (simp add: path_dir_def path_clean_def dropWhile_eq_Nil_conv[THEN iffD2])
  with assms show ?thesis by (simp add: climb_measure_def)
next
  case True
  then obtain q r where p: "p = q @ sep # r" and r: "sep \<notin> set r"
    by (metis split_list_last)
  then have d: "path_dir p = path_clean (q @ ''/'')"
    by (simp add: path_dir_def dropWhile_append dropWhile_eq_Nil_conv)
  show ?thesis
  proof (cases "q = ''''")
    case True
    then have "path_dir p = ''/''"
      using d by (simp add: path_clean_def path_parts_def)
    with assms p True show ?thesis by (auto simp: climb_measure_def)
  next
    case False
    have "p \<noteq> ''.''" using p by (cases q) auto
    with length_clean_trailing[OF False] d p show ?thesis
      by (auto simp: climb_measure_def)
  qed
qed

section \<open>Case mapping and the last element\<close>

lemma lower_sep [simp]: "lower_char c = sep \<longleftrightarrow> c = sep" "lower_char c = CHR ''.'' \<longleftrightarrow> c = CHR ''.''"
  by (simp_all add: lower_char_eq_iff is_upper_def is_lower_def byte_def)

lemma lower_dot: "lower_char (CHR ''.'') = CHR ''.''"
  by simp

lemma split_on_to_lower: "split_on sep (to_lower s) = map to_lower (split_on sep s)"
  by (induction s) (auto simp: to_lower_def split: list.splits)

lemma dropWhile_to_lower:
  "(\<And>c. P (lower_char c) = P c) \<Longrightarrow> dropWhile P (to_lower s) = to_lower (dropWhile P s)"
  by (induction s) (auto simp: to_lower_def)

lemma takeWhile_to_lower:
  "(\<And>c. P (lower_char c) = P c) \<Longrightarrow> takeWhile P (to_lower s) = to_lower (takeWhile P s)"
  by (induction s) (auto simp: to_lower_def)

lemma rev_to_lower: "rev (to_lower s) = to_lower (rev s)"
  by (simp add: to_lower_def rev_map)

lemma drop_to_lower: "drop n (to_lower s) = to_lower (drop n s)"
  by (simp add: to_lower_def drop_map)

lemma last_map_to_lower: "xs \<noteq> [] \<Longrightarrow> last (map to_lower xs) = to_lower (last xs)"
  by (rule last_map)

lemma path_base_to_lower: "path_base (to_lower p) = to_lower (path_base p)"
proof -
  have "to_lower ''.'' = ''.''" "to_lower ''/'' = ''/''" by code_simp+
  then show ?thesis
    by (simp add: path_base_def Let_def trim_right_def rev_to_lower dropWhile_to_lower
        split_on_to_lower last_map_to_lower)
qed

lemma path_ext_to_lower: "path_ext (to_lower p) = to_lower (path_ext p)"
proof -
  let ?P = "\<lambda>c. c \<noteq> CHR ''.'' \<and> c \<noteq> sep"
  let ?e = "takeWhile ?P (rev p)"
  have e: "takeWhile ?P (rev (to_lower p)) = to_lower ?e"
    by (simp add: rev_to_lower takeWhile_to_lower)
  have d: "drop (length (to_lower ?e)) (rev (to_lower p)) = to_lower (drop (length ?e) (rev p))"
    by (simp add: rev_to_lower drop_to_lower)
  show ?thesis
    unfolding path_ext_def Let_def e d
    by (cases "drop (length ?e) (rev p)") (simp_all add: to_lower_def rev_map lower_dot)
qed

lemma path_ext_suffix:
  assumes "CHR ''.'' \<notin> set e" "sep \<notin> set e"
  shows "path_ext (s @ CHR ''.'' # e) = CHR ''.'' # e"
proof -
  have "takeWhile (\<lambda>c. c \<noteq> CHR ''.'' \<and> c \<noteq> sep) (rev e @ CHR ''.'' # rev s) = rev e"
    using assms by (subst takeWhile_append2) auto
  then show ?thesis by (simp add: path_ext_def Let_def)
qed

section \<open>The interface of a containment test\<close>

locale containment =
  fixes inside :: "string \<Rightarrow> string \<Rightarrow> bool"
  assumes inside_iff:
    "is_abs root \<Longrightarrow> is_abs path \<Longrightarrow>
     inside path root \<longleftrightarrow> prefix (path_parts root) (path_parts path)"
begin

lemma inside_refl: "is_abs p \<Longrightarrow> inside p p"
  by (simp add: inside_iff)

lemma inside_trans:
  "is_abs p \<Longrightarrow> is_abs q \<Longrightarrow> is_abs r \<Longrightarrow> inside p q \<Longrightarrow> inside q r \<Longrightarrow> inside p r"
  by (simp add: inside_iff)

lemma inside_antisym:
  "is_abs p \<Longrightarrow> is_abs q \<Longrightarrow> inside p q \<Longrightarrow> inside q p \<Longrightarrow> path_clean p = path_clean q"
  by (simp add: inside_iff path_clean_eq_iff prefix_order.order_antisym)

text \<open>Two roots that contain a common path are nested.\<close>

lemma inside_nested:
  "is_abs p \<Longrightarrow> is_abs q \<Longrightarrow> is_abs r \<Longrightarrow> inside p q \<Longrightarrow> inside p r \<Longrightarrow> inside q r \<or> inside r q"
  by (simp add: inside_iff) (blast dest: prefix_same_cases)

lemma inside_clean:
  "is_abs p \<Longrightarrow> is_abs r \<Longrightarrow> inside (path_clean p) r \<longleftrightarrow> inside p r"
  by (simp add: inside_iff is_abs_clean)

end

section \<open>Joining\<close>

lemma path_join2_is_abs: "is_abs d \<Longrightarrow> is_abs (path_join2 d r)"
  by (cases d; cases r) (auto simp: path_join_def intro: is_abs_clean)

lemma foldl_join_is_abs: "is_abs d \<Longrightarrow> is_abs (foldl path_join2 d ms)"
  by (induction ms arbitrary: d) (auto intro: path_join2_is_abs)

lemma clean_walk_append_good: "list_all good_part ms \<Longrightarrow> clean_walk True out (cs @ ms) = rev ms @ clean_walk True out cs"
  by (induction "True" out cs rule: clean_walk.induct) (auto simp: clean_walk_good_id good_part_def split: list.split)

lemma path_join_abs:
  assumes "is_abs d" and "list_all good_part ms" and "ms \<noteq> []"
  shows "is_abs (path_join (d # ms))" "path_clean (path_join (d # ms)) = path_join (d # ms)"
    "path_parts (path_join (d # ms)) = path_parts d @ ms"
proof -
  let ?t = "d @ sep # str_join ''/'' ms"
  have j: "path_join (d # ms) = path_clean ?t"
    using assms(1,3) by (cases d; cases ms) (auto simp: path_join_def)
  have a: "is_abs ?t" using assms(1) by (cases d) auto
  show "is_abs (path_join (d # ms))" unfolding j by (rule is_abs_clean[OF a])
  show "path_clean (path_join (d # ms)) = path_join (d # ms)" unfolding j by (rule path_clean_idem[OF a])
  have "split_on sep ?t = split_on sep d @ ms"
    using split_join[OF assms(3), of sep] good_no_sep[OF assms(2)] by (simp add: split_on_middle)
  then show "path_parts (path_join (d # ms)) = path_parts d @ ms"
    unfolding j path_parts_clean[OF a] using a assms(1,2) by (simp add: path_parts_def clean_walk_append_good)
qed

end
