(* ===== verification/Toolchain.thy ===== *)
theory Toolchain
  imports Paths
begin

text \<open>
  Compiler discovery (\<^verbatim>\<open>internal/toolchain/toolchain.go\<close>): versions and version ranges, the
  engine's SDK configuration, the candidate list and the choice of a clangd.  The process
  runner, the environment and the file system are arguments, as in the code; so is the JSON
  decoder's result for the configuration file.  The two regular expressions are written as the
  deterministic scanners they are.
\<close>

section \<open>Versions\<close>

datatype Version = Version (Major: int) (Minor: int) (Patch: int)

definition Version_String :: "Version \<Rightarrow> string" where
  "Version_String v = int_digits (Major v) @ ''.'' @ int_digits (Minor v) @ ''.'' @ int_digits (Patch v)"

definition Compare :: "Version \<Rightarrow> Version \<Rightarrow> int" where
  "Compare v other =
     (if Major v \<noteq> Major other then (if Major v < Major other then -1 else 1)
      else if Minor v \<noteq> Minor other then (if Minor v < Minor other then -1 else 1)
      else if Patch v \<noteq> Patch other then (if Patch v < Patch other then -1 else 1)
      else 0)"

text \<open>\<open>Compare\<close> is a three-way comparison of a linear order, the lexicographic one.\<close>

instantiation Version :: linorder
begin

definition less_eq_Version :: "Version \<Rightarrow> Version \<Rightarrow> bool" where
  "less_eq_Version v w \<longleftrightarrow> Compare v w \<le> 0"

definition less_Version :: "Version \<Rightarrow> Version \<Rightarrow> bool" where
  "less_Version v w \<longleftrightarrow> Compare v w < 0"

instance
proof
  fix x y z :: Version
  show "x < y \<longleftrightarrow> x \<le> y \<and> \<not> y \<le> x"
    by (auto simp: less_eq_Version_def less_Version_def Compare_def)
  show "x \<le> x" by (simp add: less_eq_Version_def Compare_def)
  show "x \<le> y \<Longrightarrow> y \<le> z \<Longrightarrow> x \<le> z"
    by (auto simp: less_eq_Version_def Compare_def split: if_splits)
  show "x \<le> y \<Longrightarrow> y \<le> x \<Longrightarrow> x = y"
    by (cases x; cases y) (auto simp: less_eq_Version_def Compare_def split: if_splits)
  show "x \<le> y \<or> y \<le> x" by (auto simp: less_eq_Version_def Compare_def)
qed

end

lemma Compare_order:
  "Compare v w < 0 \<longleftrightarrow> v < w" "Compare v w \<le> 0 \<longleftrightarrow> v \<le> w" "0 < Compare v w \<longleftrightarrow> w < v"
  "Compare v w = 0 \<longleftrightarrow> v = w"
proof -
  show "Compare v w < 0 \<longleftrightarrow> v < w" "Compare v w \<le> 0 \<longleftrightarrow> v \<le> w"
    by (simp_all add: less_Version_def less_eq_Version_def)
  show "Compare v w = 0 \<longleftrightarrow> v = w" by (cases v; cases w) (simp add: Compare_def)
  show "0 < Compare v w \<longleftrightarrow> w < v" by (auto simp: less_Version_def Compare_def)
qed

text \<open>White space of the regular expressions: \<^verbatim>\<open>[\t\n\f\r ]\<close>, without the vertical tab.\<close>

definition re_space :: "char \<Rightarrow> bool" where
  "re_space c \<longleftrightarrow> is_space c \<and> byte c \<noteq> 11"

definition take_digits :: "string \<Rightarrow> string \<times> string" where
  "take_digits s = (takeWhile is_digit s, dropWhile is_digit s)"

text \<open>An optional \<^verbatim>\<open>.digits\<close> group: the digits, empty when the group does not match.\<close>

definition dot_digits :: "string \<Rightarrow> string \<times> string" where
  "dot_digits s =
     (case s of
        c # r \<Rightarrow> if c = CHR ''.'' \<and> fst (take_digits r) \<noteq> '''' then take_digits r else ('''', s)
      | [] \<Rightarrow> ('''', s))"

definition version_groups :: "string \<Rightarrow> (string \<times> string \<times> string) option" where
  "version_groups s =
     (case take_digits (dropWhile re_space s) of (d1, r1) \<Rightarrow>
      case dot_digits r1 of (d2, r2) \<Rightarrow>
      case dot_digits r2 of (d3, r3) \<Rightarrow>
        if d1 = '''' \<or> dropWhile re_space r3 \<noteq> '''' then None else Some (d1, d2, d3))"

datatype toolchain_error =
    InvalidVersion string
  | VersionOutOfRange string
  | InvalidRange string
  | MinimumExceedsMaximum string
  | ErrMalformedSDKConfig string
  | ErrCompatibleClangdNotFound

definition version_part :: "string \<Rightarrow> toolchain_error + int" where
  "version_part d =
     (if d = '''' then Inr 0
      else case atoi d of None \<Rightarrow> Inl (VersionOutOfRange d) | Some v \<Rightarrow> Inr v)"

definition ParseVersion :: "string \<Rightarrow> toolchain_error + Version" where
  "ParseVersion s =
     (case version_groups s of
        None \<Rightarrow> Inl (InvalidVersion s)
      | Some (d1, d2, d3) \<Rightarrow>
         (case version_part d1 of Inl e \<Rightarrow> Inl e | Inr a \<Rightarrow>
          case version_part d2 of Inl e \<Rightarrow> Inl e | Inr b \<Rightarrow>
          case version_part d3 of Inl e \<Rightarrow> Inl e | Inr c \<Rightarrow> Inr (Version a b c)))"

record Range =
  range_Minimum :: Version
  range_Maximum :: Version

definition Contains :: "Range \<Rightarrow> Version \<Rightarrow> bool" where
  "Contains r v \<longleftrightarrow> Compare (range_Minimum r) v \<le> 0 \<and> Compare v (range_Maximum r) \<le> 0"

definition ParseRange :: "string \<Rightarrow> toolchain_error + Range" where
  "ParseRange s =
     (case split_on (CHR ''-'') (trim_space s) of
        [p, q] \<Rightarrow>
         (case ParseVersion p of Inl e \<Rightarrow> Inl e | Inr minimum \<Rightarrow>
          case ParseVersion q of Inl e \<Rightarrow> Inl e | Inr maximum \<Rightarrow>
            if 0 < Compare minimum maximum then Inl (MinimumExceedsMaximum s)
            else Inr \<lparr>range_Minimum = minimum, range_Maximum = maximum\<rparr>)
      | _ \<Rightarrow> Inl (InvalidRange s))"

section \<open>The engine's SDK configuration\<close>

record RawSDK =
  raw_Preferred :: string
  raw_PreferredRanges :: "string list"
  raw_Minimum :: string

record Config =
  cfg_Preferred :: Version
  cfg_PreferredRanges :: "Range list"
  cfg_Minimum :: Version

fun parse_ranges :: "Version \<Rightarrow> string list \<Rightarrow> toolchain_error + Range list" where
  "parse_ranges minimum [] = Inr []"
| "parse_ranges minimum (t # ts) =
     (case ParseRange t of
        Inl _ \<Rightarrow> Inl (ErrMalformedSDKConfig ''preferred clang range'')
      | Inr r \<Rightarrow>
          if Compare (range_Maximum r) minimum < 0
          then Inl (ErrMalformedSDKConfig ''preferred clang range is below minimum'')
          else case parse_ranges minimum ts of Inl e \<Rightarrow> Inl e | Inr rs \<Rightarrow> Inr (r # rs))"

text \<open>\<open>decode\<close> is \<^verbatim>\<open>json.Unmarshal\<close> into the raw configuration, \<open>None\<close> for its error.\<close>

definition ParseSDKConfig :: "(string \<Rightarrow> RawSDK option) \<Rightarrow> string \<Rightarrow> toolchain_error + Config" where
  "ParseSDKConfig decode contents =
     (case decode contents of
        None \<Rightarrow> Inl (ErrMalformedSDKConfig ''json'')
      | Some raw \<Rightarrow>
         (case ParseVersion (raw_Minimum raw) of
            Inl _ \<Rightarrow> Inl (ErrMalformedSDKConfig ''minimum clang version'')
          | Inr minimum \<Rightarrow>
              let texts = (if raw_PreferredRanges raw = [] \<and> raw_Preferred raw \<noteq> ''''
                           then [raw_Preferred raw @ ''-'' @ raw_Preferred raw]
                           else raw_PreferredRanges raw)
              in if texts = [] then Inl (ErrMalformedSDKConfig ''preferred clang versions are required'')
                 else case parse_ranges minimum texts of
                     Inl e \<Rightarrow> Inl e
                   | Inr ranges \<Rightarrow>
                       Inr \<lparr>cfg_Preferred = range_Minimum (ranges ! 0),
                            cfg_PreferredRanges = ranges, cfg_Minimum = minimum\<rparr>))"

section \<open>Choosing a clangd\<close>

datatype Source = SourceExplicit | SourceLLVMPath | SourcePath | SourceStandardInstall | SourceVisualStudio

record Candidate =
  cand_Path :: string
  cand_Source :: Source

record Selection =
  sel_Path :: string
  sel_Source :: Source
  sel_Version :: Version

definition word_char :: "char \<Rightarrow> bool" where
  "word_char c \<longleftrightarrow> is_digit c \<or> is_upper c \<or> is_lower c \<or> c = CHR ''_''"

definition suffix_char :: "char \<Rightarrow> bool" where
  "suffix_char c \<longleftrightarrow> is_digit c \<or> is_upper c \<or> is_lower c \<or> c = CHR ''.'' \<or> c = CHR ''-''"

text \<open>At least one white-space byte, then all of them; \<open>None\<close> without one.\<close>

definition skip_spaces :: "string \<Rightarrow> string option" where
  "skip_spaces s = (case s of c # _ \<Rightarrow> if re_space c then Some (dropWhile re_space s) else None | [] \<Rightarrow> None)"

definition match_fold :: "string \<Rightarrow> string \<Rightarrow> string option" where
  "match_fold w s = (if to_lower (take (length w) s) = w then Some (drop (length w) s) else None)"

text \<open>The version text at the head: digits, up to two dotted groups, an optional suffix.\<close>

definition version_token :: "string \<Rightarrow> string option" where
  "version_token s =
     (case take_digits s of (d1, r1) \<Rightarrow>
      if d1 = '''' then None
      else case dot_digits r1 of (d2, r2) \<Rightarrow>
      case (if d2 = '''' then ('''', r2) else dot_digits r2) of (d3, r3) \<Rightarrow>
        let dotted = (\<lambda>d. if d = '''' then '''' else CHR ''.'' # d);
            suf = (case r3 of
                     c # r4 \<Rightarrow> if (c = CHR ''-'' \<or> c = CHR ''+'') \<and> takeWhile suffix_char r4 \<noteq> ''''
                                then c # takeWhile suffix_char r4 else ''''
                   | [] \<Rightarrow> '''')
        in Some (d1 @ dotted d2 @ dotted d3 @ suf))"

definition clangd_here :: "string \<Rightarrow> string option" where
  "clangd_here s =
     (case match_fold ''clangd'' s of None \<Rightarrow> None | Some s1 \<Rightarrow>
      case skip_spaces s1 of None \<Rightarrow> None | Some s2 \<Rightarrow>
      case match_fold ''version'' s2 of None \<Rightarrow> None | Some s3 \<Rightarrow>
      case skip_spaces s3 of None \<Rightarrow> None | Some s4 \<Rightarrow> version_token s4)"

text \<open>The leftmost match; \<open>prev\<close> says whether the byte before is a word byte.\<close>

fun find_clangd_version :: "bool \<Rightarrow> string \<Rightarrow> string option" where
  "find_clangd_version prev [] = None"
| "find_clangd_version prev (c # s) =
     (case (if prev then None else clangd_here (c # s)) of
        Some v \<Rightarrow> Some v
      | None \<Rightarrow> find_clangd_version (word_char c) s)"

text \<open>The loop body's early \<^verbatim>\<open>continue\<close>s: what a candidate contributes, if anything.\<close>

definition probe_candidate :: "Config \<Rightarrow> (string \<Rightarrow> string + string) \<Rightarrow> Candidate \<Rightarrow> Selection option" where
  "probe_candidate config runner candidate =
     (case runner (cand_Path candidate) of
        Inl _ \<Rightarrow> None
      | Inr output \<Rightarrow>
         (case find_clangd_version False output of
            None \<Rightarrow> None
          | Some txt \<Rightarrow>
             (case ParseVersion txt of
                Inl _ \<Rightarrow> None
              | Inr version \<Rightarrow>
                  if Compare version (cfg_Minimum config) < 0 then None
                  else Some \<lparr>sel_Path = cand_Path candidate, sel_Source = cand_Source candidate,
                             sel_Version = version\<rparr>)))"

definition fill_slots :: "Range list \<Rightarrow> Selection option list \<Rightarrow> Selection \<Rightarrow> Selection option list" where
  "fill_slots ranges slots sel =
     map2 (\<lambda>r slot. if slot = None \<and> Contains r (sel_Version sel) then Some sel else slot) ranges slots"

fun scan_candidates :: "Config \<Rightarrow> (string \<Rightarrow> string + string) \<Rightarrow> Range list \<Rightarrow>
    Selection option list \<Rightarrow> Candidate list \<Rightarrow> Selection option list" where
  "scan_candidates config runner ranges slots [] = slots"
| "scan_candidates config runner ranges slots (c # cs) =
     (case probe_candidate config runner c of
        None \<Rightarrow> scan_candidates config runner ranges slots cs
      | Some sel \<Rightarrow> scan_candidates config runner ranges (fill_slots ranges slots sel) cs)"

fun first_slot :: "Selection option list \<Rightarrow> toolchain_error + Selection" where
  "first_slot [] = Inl ErrCompatibleClangdNotFound"
| "first_slot (Some sel # _) = Inr sel"
| "first_slot (None # slots) = first_slot slots"

definition effective_ranges :: "Config \<Rightarrow> Range list" where
  "effective_ranges config =
     (if cfg_PreferredRanges config = [] \<and> cfg_Preferred config \<noteq> Version 0 0 0
      then [\<lparr>range_Minimum = cfg_Preferred config, range_Maximum = cfg_Preferred config\<rparr>]
      else cfg_PreferredRanges config)"

definition SelectClangd :: "Config \<Rightarrow> Candidate list \<Rightarrow> (string \<Rightarrow> string + string) \<Rightarrow>
    toolchain_error + Selection" where
  "SelectClangd config candidates runner =
     (let ranges = effective_ranges config
      in first_slot (scan_candidates config runner ranges (replicate (length ranges) None) candidates))"

section \<open>Candidate discovery\<close>

type_synonym environment = "string \<Rightarrow> string option"

record FileSystem =
  fs_Exists :: "string \<Rightarrow> bool"
  fs_Glob :: "string \<Rightarrow> string list"

definition windowsPath :: "string list \<Rightarrow> string" where
  "windowsPath elements = to_slash (path_join elements)"

definition StandardCandidates :: "environment \<Rightarrow> Candidate list" where
  "StandardCandidates env =
     (case env ''ProgramFiles'' of
        None \<Rightarrow> []
      | Some programFiles \<Rightarrow>
          if trim_space programFiles = '''' then []
          else [\<lparr>cand_Path = windowsPath [programFiles, ''LLVM'', ''bin'', ''clangd.exe''],
                 cand_Source = SourceStandardInstall\<rparr>])"

definition VisualStudioCandidates :: "environment \<Rightarrow> FileSystem option \<Rightarrow> Candidate list" where
  "VisualStudioCandidates env fs =
     (case fs of
        None \<Rightarrow> []
      | Some f \<Rightarrow>
         (case env ''ProgramFiles'' of
            None \<Rightarrow> []
          | Some programFiles \<Rightarrow>
              if trim_space programFiles = '''' then []
              else concat (map (\<lambda>architecture.
                     map (\<lambda>p. \<lparr>cand_Path = p, cand_Source = SourceVisualStudio\<rparr>)
                       (filter (fs_Exists f)
                         (sort (fs_Glob f (windowsPath [programFiles, ''Microsoft Visual Studio'',
                            ''*'', ''*'', ''VC'', ''Tools'', ''Llvm'', architecture, ''bin'', ''clangd.exe''])))))
                     [''x64'', ''x86''])))"

definition joinClangd :: "string \<Rightarrow> string" where
  "joinClangd path =
     (let p = trim_right (\<lambda>c. c = CHR ''/'' \<or> c = bslash) (trim_space path)
      in if p = '''' then ''''
         else if has_suffix (to_lower p) ''clangd.exe'' then p
         else p @ ''/clangd.exe'')"

definition add_candidate :: "string \<Rightarrow> Source \<Rightarrow> Candidate list" where
  "add_candidate path source =
     (if trim_space path \<noteq> '''' then [\<lparr>cand_Path = trim_space path, cand_Source = source\<rparr>] else [])"

definition raw_candidates :: "string \<Rightarrow> environment \<Rightarrow> Candidate list \<Rightarrow> Candidate list \<Rightarrow> Candidate list" where
  "raw_candidates explicit env standard visualStudio =
     add_candidate explicit SourceExplicit @
     (case env ''LLVM_PATH'' of Some v \<Rightarrow> add_candidate (joinClangd v) SourceLLVMPath | None \<Rightarrow> []) @
     (case env ''PATH'' of
        Some v \<Rightarrow> concat (map (\<lambda>d. add_candidate (joinClangd d) SourcePath) (split_on (CHR '';'') v))
      | None \<Rightarrow> []) @
     concat (map (\<lambda>c. add_candidate (cand_Path c) SourceStandardInstall) standard) @
     concat (map (\<lambda>c. add_candidate (cand_Path c) SourceVisualStudio) visualStudio)"

fun dedup_candidates :: "string set \<Rightarrow> Candidate list \<Rightarrow> Candidate list" where
  "dedup_candidates seen [] = []"
| "dedup_candidates seen (c # cs) =
     (if to_lower (cand_Path c) \<in> seen then dedup_candidates seen cs
      else c # dedup_candidates (insert (to_lower (cand_Path c)) seen) cs)"

definition DiscoverCandidates :: "string \<Rightarrow> environment \<Rightarrow> Candidate list \<Rightarrow> Candidate list \<Rightarrow> Candidate list" where
  "DiscoverCandidates explicit env standard visualStudio =
     dedup_candidates {} (raw_candidates explicit env standard visualStudio)"

section \<open>The bundled dotnet\<close>

text \<open>One iteration of the search; the state is the selected path, if any, with its version.\<close>

definition dotnet_step :: "(string \<Rightarrow> bool) \<Rightarrow> (string \<times> Version) option \<Rightarrow> string \<Rightarrow> (string \<times> Version) option" where
  "dotnet_step exists selected path =
     (if \<not> exists path then selected
      else case ParseVersion (path_base (path_dir (path_dir path))) of
          Inl _ \<Rightarrow> selected
        | Inr version \<Rightarrow>
           (case selected of
              None \<Rightarrow> Some (path, version)
            | Some (p, v) \<Rightarrow>
                if 0 < Compare version v \<or> (Compare version v = 0 \<and> path < p)
                then Some (path, version) else Some (p, v)))"

definition FindBundledDotnet :: "string \<Rightarrow> FileSystem \<Rightarrow> string option" where
  "FindBundledDotnet engineRoot fs =
     (let pattern = to_slash (path_join [engineRoot, ''Engine'', ''Binaries'', ''ThirdParty'',
                                         ''DotNet'', ''*'', ''win-x64'', ''dotnet.exe''])
      in map_option fst (foldl (dotnet_step (fs_Exists fs)) None (sort (fs_Glob fs pattern))))"

section \<open>Versions: printing and parsing\<close>

lemma takeWhile_digits: "list_all is_digit d \<Longrightarrow> r = '''' \<or> \<not> is_digit (hd r) \<Longrightarrow> takeWhile is_digit (d @ r) = d"
proof (induction d)
  case Nil
  then show ?case by (cases r) auto
qed auto

lemma dropWhile_digits: "list_all is_digit d \<Longrightarrow> r = '''' \<or> \<not> is_digit (hd r) \<Longrightarrow> dropWhile is_digit (d @ r) = r"
  by (induction d) (auto simp: dropWhile_id)

lemma take_digits_append:
  "list_all is_digit d \<Longrightarrow> r = '''' \<or> \<not> is_digit (hd r) \<Longrightarrow> take_digits (d @ r) = (d, r)"
  by (simp add: take_digits_def takeWhile_digits dropWhile_digits)

lemma not_digit_dot [simp]: "\<not> is_digit (CHR ''.'')"
  by (simp add: is_digit_def byte_def)

lemma digit_not_re_space: "is_digit c \<Longrightarrow> \<not> re_space c"
  by (simp add: is_digit_def re_space_def is_space_def)

lemma dot_digits_append:
  "list_all is_digit d \<Longrightarrow> d \<noteq> '''' \<Longrightarrow> r = '''' \<or> \<not> is_digit (hd r) \<Longrightarrow>
   dot_digits (CHR ''.'' # d @ r) = (d, r)"
  by (simp add: dot_digits_def take_digits_append)

lemma version_groups_digits:
  assumes "list_all is_digit a" "a \<noteq> ''''" "list_all is_digit b" "b \<noteq> ''''" "list_all is_digit c" "c \<noteq> ''''"
  shows "version_groups (a @ ''.'' @ b @ ''.'' @ c) = Some (a, b, c)"
proof -
  have "dropWhile re_space (a @ ''.'' @ b @ ''.'' @ c) = a @ ''.'' @ b @ ''.'' @ c"
    using assms(1,2) by (cases a) (auto simp: digit_not_re_space)
  moreover have "dot_digits (CHR ''.'' # c) = (c, '''')"
    using dot_digits_append[of c "[]"] assms by simp
  ultimately show ?thesis
    using assms by (simp add: version_groups_def take_digits_append dot_digits_append)
qed

lemma version_part_nat: "0 \<le> n \<Longrightarrow> n \<le> max_int64 \<Longrightarrow> version_part (int_digits n) = Inr n"
  by (simp add: version_part_def int_digits_def atoi_nat_digits)

text \<open>
  Printing a version and parsing it back gives the same version, for every version whose parts
  are non-negative 64-bit integers (the registry stores the printed form).
\<close>

theorem ParseVersion_String:
  assumes "0 \<le> Major v" "Major v \<le> max_int64" "0 \<le> Minor v" "Minor v \<le> max_int64"
    "0 \<le> Patch v" "Patch v \<le> max_int64"
  shows "ParseVersion (Version_String v) = Inr v"
proof -
  have "version_groups (Version_String v) =
      Some (int_digits (Major v), int_digits (Minor v), int_digits (Patch v))"
    unfolding Version_String_def
    by (rule version_groups_digits) (use assms in \<open>simp_all add: int_digits_def nat_digits_all_digits\<close>)
  with assms show ?thesis by (cases v) (simp add: ParseVersion_def version_part_nat)
qed

theorem ParseVersion_String_witness:
  "ParseVersion (Version_String (Version 20 1 8)) = Inr (Version 20 1 8)"
  by (rule ParseVersion_String) (simp_all add: max_int64_def)

lemma Contains_iff: "Contains r v \<longleftrightarrow> range_Minimum r \<le> v \<and> v \<le> range_Maximum r"
  by (simp add: Contains_def Compare_order)

section \<open>The configuration\<close>

lemma ParseRange_ordered: "ParseRange t = Inr r \<Longrightarrow> range_Minimum r \<le> range_Maximum r"
  by (auto simp: ParseRange_def Compare_order split: list.splits sum.splits if_splits)

lemma parse_ranges_sound:
  "parse_ranges minimum ts = Inr rs \<Longrightarrow>
   length rs = length ts \<and> (\<forall>r \<in> set rs. range_Minimum r \<le> range_Maximum r \<and> minimum \<le> range_Maximum r)"
proof (induction ts arbitrary: rs)
  case Nil
  then show ?case by simp
next
  case (Cons t ts)
  then show ?case
    by (auto simp: Compare_order split: sum.splits if_splits dest: ParseRange_ordered)
qed

lemma ParseSDKConfig_sound:
  "ParseSDKConfig decode contents = Inr c \<Longrightarrow>
   cfg_PreferredRanges c \<noteq> [] \<and>
   (\<forall>r \<in> set (cfg_PreferredRanges c). range_Minimum r \<le> range_Maximum r \<and> cfg_Minimum c \<le> range_Maximum r)"
proof -
  have sound: "ranges \<noteq> [] \<and> (\<forall>r \<in> set ranges. range_Minimum r \<le> range_Maximum r \<and> m \<le> range_Maximum r)"
    if "parse_ranges m ts = Inr ranges" and "ts \<noteq> []" for m ts ranges
    using parse_ranges_sound[OF that(1)] that(2) by auto
  assume "ParseSDKConfig decode contents = Inr c"
  then show ?thesis
    by (auto simp: ParseSDKConfig_def Let_def simp del: parse_ranges.simps dest!: sound
        split: option.splits sum.splits if_splits)
qed

section \<open>\<^verbatim>\<open>SelectClangd\<close> against its specification\<close>

text \<open>
  The specification: probe all candidates, then take the ranges in the engine's order of
  preference and, for the first range that some probe falls into, the earliest such probe.
\<close>

definition probes :: "Config \<Rightarrow> (string \<Rightarrow> string + string) \<Rightarrow> Candidate list \<Rightarrow> Selection list" where
  "probes config runner candidates = List.map_filter (probe_candidate config runner) candidates"

definition best_in :: "Selection list \<Rightarrow> Range \<Rightarrow> Selection option" where
  "best_in sels r = find (\<lambda>s. Contains r (sel_Version s)) sels"

definition select_spec :: "Config \<Rightarrow> Candidate list \<Rightarrow> (string \<Rightarrow> string + string) \<Rightarrow> toolchain_error + Selection" where
  "select_spec config candidates runner =
     (case List.map_filter (best_in (probes config runner candidates)) (effective_ranges config) of
        [] \<Rightarrow> Inl ErrCompatibleClangdNotFound
      | s # _ \<Rightarrow> Inr s)"

lemma fill_slots_step:
  "fill_slots ranges (map (best_in sels) ranges) s = map (best_in (sels @ [s])) ranges"
  by (induction ranges) (auto simp: fill_slots_def best_in_def find_snoc split: option.splits)

lemma scan_candidates_eq:
  "scan_candidates config runner ranges (map (best_in sels) ranges) cs =
   map (best_in (sels @ probes config runner cs)) ranges"
proof (induction cs arbitrary: sels)
  case Nil
  then show ?case by (simp add: probes_def map_filter_simps)
next
  case (Cons c cs)
  show ?case
  proof (cases "probe_candidate config runner c")
    case None
    with Cons show ?thesis by (simp add: probes_def map_filter_simps)
  next
    case (Some s)
    with Cons.IH[of "sels @ [s]"] show ?thesis
      by (simp add: fill_slots_step probes_def map_filter_simps)
  qed
qed

lemma first_slot_map:
  "first_slot (map f xs) = (case List.map_filter f xs of [] \<Rightarrow> Inl ErrCompatibleClangdNotFound | s # _ \<Rightarrow> Inr s)"
  by (induction xs) (auto simp: map_filter_simps split: option.splits)

lemma SelectClangd_eq_spec:
  "SelectClangd config candidates runner = select_spec config candidates runner"
proof -
  have "replicate (length (effective_ranges config)) None = map (best_in []) (effective_ranges config)"
    by (induction "effective_ranges config") (auto simp: best_in_def map_replicate_const)
  then show ?thesis
    using scan_candidates_eq[of config runner "effective_ranges config" "[]" candidates]
    by (simp add: SelectClangd_def select_spec_def Let_def first_slot_map)
qed

text \<open>
  The one-pass selection with its two parallel arrays computes exactly the specification: the
  first preferred range that any compatible candidate satisfies wins, and within it the earliest
  candidate in discovery order.
\<close>

theorem SelectClangd_refines_spec:
  "SelectClangd config candidates runner = select_spec config candidates runner"
  by (rule SelectClangd_eq_spec)

lemma probe_candidate_sound:
  "probe_candidate config runner c = Some s \<Longrightarrow>
   sel_Path s = cand_Path c \<and> sel_Source s = cand_Source c \<and> cfg_Minimum config \<le> sel_Version s \<and>
   (\<exists>out. runner (cand_Path c) = Inr out)"
  by (auto simp: probe_candidate_def Compare_order split: sum.splits option.splits if_splits)

lemma SelectClangd_sound:
  assumes "SelectClangd config candidates runner = Inr s"
  shows "(\<exists>c \<in> set candidates. sel_Path s = cand_Path c \<and> sel_Source s = cand_Source c) \<and>
    cfg_Minimum config \<le> sel_Version s \<and>
    (\<exists>r \<in> set (effective_ranges config). range_Minimum r \<le> sel_Version s \<and> sel_Version s \<le> range_Maximum r)"
proof -
  from assms have "s \<in> set (List.map_filter (best_in (probes config runner candidates)) (effective_ranges config))"
    unfolding SelectClangd_eq_spec select_spec_def by (auto split: list.splits)
  then obtain r where r: "r \<in> set (effective_ranges config)"
    and "best_in (probes config runner candidates) r = Some s"
    by (auto simp: List.map_filter_def)
  then have "s \<in> set (probes config runner candidates)" and in_r: "Contains r (sel_Version s)"
    by (auto simp: best_in_def find_Some_iff)
  then obtain c where "c \<in> set candidates" and "probe_candidate config runner c = Some s"
    by (auto simp: probes_def List.map_filter_def)
  with probe_candidate_sound r in_r show ?thesis
    unfolding Contains_iff by blast
qed

section \<open>Candidates and the bundled dotnet\<close>

lemma dedup_keys:
  "to_lower ` cand_Path ` set (dedup_candidates seen cs) = to_lower ` cand_Path ` set cs - seen"
  by (induction cs arbitrary: seen) auto

lemma dedup_distinct: "distinct (map (to_lower \<circ> cand_Path) (dedup_candidates seen cs))"
proof (induction cs arbitrary: seen)
  case (Cons c cs)
  have "to_lower (cand_Path c) \<notin> to_lower ` cand_Path ` set (dedup_candidates (insert (to_lower (cand_Path c)) seen) cs)"
    by (simp add: dedup_keys)
  with Cons show ?case by (auto simp: image_comp)
qed simp

lemma dedup_subseq: "subseq (dedup_candidates seen cs) cs"
  by (induction cs arbitrary: seen) auto

text \<open>
  Discovery keeps the source precedence (the result is a subsequence of explicit, LLVM_PATH,
  PATH, standard, Visual Studio), returns no path twice up to case, and loses no location: every
  raw candidate's path is represented.
\<close>

theorem DiscoverCandidates_dedup:
  "subseq (DiscoverCandidates explicit env std vs) (raw_candidates explicit env std vs) \<and>
   distinct (map (to_lower \<circ> cand_Path) (DiscoverCandidates explicit env std vs)) \<and>
   to_lower ` cand_Path ` set (DiscoverCandidates explicit env std vs) =
     to_lower ` cand_Path ` set (raw_candidates explicit env std vs)"
  by (simp add: DiscoverCandidates_def dedup_subseq dedup_distinct dedup_keys)

text \<open>The version a dotnet path is filed under.\<close>

definition dotnet_version :: "string \<Rightarrow> Version option" where
  "dotnet_version path =
     (case ParseVersion (path_base (path_dir (path_dir path))) of Inl _ \<Rightarrow> None | Inr v \<Rightarrow> Some v)"

definition dotnet_better :: "string \<times> Version \<Rightarrow> string \<times> Version \<Rightarrow> bool" where
  "dotnet_better a b \<longleftrightarrow> snd b < snd a \<or> (snd a = snd b \<and> fst a \<le> fst b)"

lemma dotnet_step_eq:
  "dotnet_step exists selected path =
     (case (if exists path then dotnet_version path else None) of
        None \<Rightarrow> selected
      | Some v \<Rightarrow> (case selected of None \<Rightarrow> Some (path, v)
          | Some s \<Rightarrow> if dotnet_better s (path, v) then Some s else Some (path, v)))"
  by (auto simp: dotnet_step_def dotnet_version_def dotnet_better_def Compare_order
      split: sum.splits option.splits)

lemma dotnet_better_trans: "dotnet_better a b \<Longrightarrow> dotnet_better b c \<Longrightarrow> dotnet_better a c"
  by (auto simp: dotnet_better_def)

lemma dotnet_better_total: "\<not> dotnet_better a b \<Longrightarrow> dotnet_better b a"
  by (auto simp: dotnet_better_def)

lemma dotnet_fold_best:
  assumes "foldl (dotnet_step exists) init paths = Some best"
  shows "(init = Some best \<or> fst best \<in> set paths \<and> exists (fst best) \<and> dotnet_version (fst best) = Some (snd best)) \<and>
    (\<forall>s. init = Some s \<longrightarrow> dotnet_better best s) \<and>
    (\<forall>p v. p \<in> set paths \<and> exists p \<and> dotnet_version p = Some v \<longrightarrow> dotnet_better best (p, v))"
  using assms
proof (induction paths arbitrary: init)
  case Nil
  then show ?case by (auto simp: dotnet_better_def)
next
  case (Cons p ps)
  from Cons.IH [of "dotnet_step exists init p"] Cons.prems
  have IH: "(dotnet_step exists init p = Some best \<or> fst best \<in> set ps \<and> exists (fst best) \<and>
        dotnet_version (fst best) = Some (snd best))"
      "\<forall>s. dotnet_step exists init p = Some s \<longrightarrow> dotnet_better best s"
      "\<forall>q v. q \<in> set ps \<and> exists q \<and> dotnet_version q = Some v \<longrightarrow> dotnet_better best (q, v)"
    by auto
  show ?case
  proof (cases "if exists p then dotnet_version p else None")
    case None
    then have "dotnet_step exists init p = init" by (simp add: dotnet_step_eq)
    with IH None show ?thesis by (auto split: if_splits)
  next
    case (Some v)
    then have ex: "exists p" "dotnet_version p = Some v" by (auto split: if_splits)
    show ?thesis
    proof (cases init)
      case None
      with Some have "dotnet_step exists init p = Some (p, v)" by (simp add: dotnet_step_eq)
      with IH ex None show ?thesis by auto
    next
      case (Some s)
      with ex have st: "dotnet_step exists init p = (if dotnet_better s (p, v) then Some s else Some (p, v))"
        by (simp add: dotnet_step_eq)
      show ?thesis
      proof (cases "dotnet_better s (p, v)")
        case True
        with st IH ex Some show ?thesis by (auto dest: dotnet_better_trans)
      next
        case False
        with st IH ex Some dotnet_better_total[OF False] show ?thesis
          by (auto dest: dotnet_better_trans)
      qed
    qed
  qed
qed

lemma FindBundledDotnet_newest:
  assumes "FindBundledDotnet root fs = Some path"
  shows "fs_Exists fs path \<and> (\<exists>v. dotnet_version path = Some v \<and>
    (\<forall>q w. q \<in> set (fs_Glob fs (path_join [root, ''Engine'', ''Binaries'', ''ThirdParty'',
        ''DotNet'', ''*'', ''win-x64'', ''dotnet.exe''])) \<and> fs_Exists fs q \<and> dotnet_version q = Some w \<longrightarrow>
      w < v \<or> (w = v \<and> path \<le> q)))"
proof -
  from assms obtain v where "foldl (dotnet_step (fs_Exists fs)) None (sort (fs_Glob fs
      (path_join [root, ''Engine'', ''Binaries'', ''ThirdParty'', ''DotNet'', ''*'', ''win-x64'', ''dotnet.exe''])))
      = Some (path, v)"
    by (auto simp: FindBundledDotnet_def to_slash_def Let_def)
  from dotnet_fold_best [OF this] show ?thesis by (auto simp: dotnet_better_def)
qed

end
