(* ===== verification/Registry.thy ===== *)
theory Registry
  imports Paths
begin

text \<open>
  The project registry (\<^verbatim>\<open>internal/registry\<close>): the persisted data, its normalisation and
  validation, the locked store with its atomic replacement of \<^verbatim>\<open>registry.json\<close>, and the
  operating-system locks.  The outcome of every system call is an argument (the record \<open>io\<close>), so
  each failure is a branch.  The last section lets several processes run \<^verbatim>\<open>Store.Update\<close> at
  once, interleaved at the granularity of its lock, read and promote, and shows that no update
  is lost.
\<close>

section \<open>The persisted data\<close>

record Engine =
  eng_Root :: string
  eng_Version :: string

record ToolchainInfo =
  ClangdPath :: string
  ClangdVersion :: string

text \<open>\<^verbatim>\<open>time.Time\<close> is the instant in nanoseconds, 0 for the zero time.\<close>

record GenerationState =
  CompilationDatabase :: string
  CacheDir :: string
  LastFingerprint :: string
  LastGeneratedAt :: int
  InvalidationReason :: string

record Project =
  proj_ID :: string
  proj_Name :: string
  UProject :: string
  proj_Target :: string
  proj_Platform :: string
  proj_Configuration :: string
  WatchEnabled :: bool
  proj_Engine :: Engine
  proj_Toolchain :: ToolchainInfo
  proj_Generation :: GenerationState

text \<open>A nil project slice and an empty one are both the empty list.\<close>

record Registry =
  reg_Version :: int
  Projects :: "Project list"

definition CurrentVersion :: int where
  "CurrentVersion = 1"

datatype file_info = Directory | Regular nat | OtherFile

definition Ready :: "(string \<Rightarrow> file_info option) \<Rightarrow> Project \<Rightarrow> bool" where
  "Ready stat p =
     (let g = proj_Generation p in
      if CacheDir g = '''' \<or> CompilationDatabase g = '''' \<or> LastFingerprint g = '''' then False
      else if stat (CacheDir g) \<noteq> Some Directory then False
      else case stat (CompilationDatabase g) of Some (Regular n) \<Rightarrow> 0 < n | _ \<Rightarrow> False)"

datatype registry_error =
    ErrUnsupportedVersion int
  | ErrNormalizePath string
  | ErrProjectIDRequired
  | ErrDuplicateID string
  | ErrDuplicatePath string
  | ErrContext
  | ErrMutationRequired
  | ErrCreateDirectory
  | ErrLockRegistry
  | ErrLockUnavailable
  | ErrReadRegistry
  | ErrDecodeRegistry
  | ErrTrailingData
  | ErrCreateTemporary
  | ErrSetPermissions
  | ErrEncodeRegistry
  | ErrSyncTemporary
  | ErrCloseTemporary
  | ErrPromoteRegistry
  | ErrMutate string

section \<open>Path identity\<close>

text \<open>
  The climb of \<^verbatim>\<open>resolvePathIdentity\<close> to the nearest ancestor that exists.  The code appends to
  \<^verbatim>\<open>missing\<close> and re-joins from its end; here the newest element is the head.
\<close>

function resolve_from :: "(string \<Rightarrow> string option) \<Rightarrow> string \<Rightarrow> string \<Rightarrow> string list \<Rightarrow> string" where
  "resolve_from eval path current missing =
     (case eval current of
        Some resolved \<Rightarrow> path_clean (foldl path_join2 resolved missing)
      | None \<Rightarrow>
          if path_dir current = current then path_clean path
          else resolve_from eval path (path_dir current) (path_base current # missing))"
  by pat_completeness auto
termination
  by (relation "measure (\<lambda>(eval, path, current, missing). climb_measure current)")
    (auto intro: path_dir_measure)

declare resolve_from.simps [simp del]

definition resolvePathIdentity :: "(string \<Rightarrow> string option) \<Rightarrow> string \<Rightarrow> string" where
  "resolvePathIdentity eval path = resolve_from eval path path []"

definition normalizePath :: "path_env \<Rightarrow> string \<Rightarrow> registry_error + string" where
  "normalizePath env path =
     (if path = '''' then Inr ''''
      else case go_abs env path of
          None \<Rightarrow> Inl (ErrNormalizePath path)
        | Some a \<Rightarrow> Inr (resolvePathIdentity (EvalSymlinks env) a))"

section \<open>Normalisation and validation\<close>

text \<open>The five path fields of one project, in the code's order.\<close>

definition normalize_project :: "path_env \<Rightarrow> Project \<Rightarrow> registry_error + Project" where
  "normalize_project env p =
     (case normalizePath env (UProject p) of Inl e \<Rightarrow> Inl e | Inr u \<Rightarrow>
      case normalizePath env (eng_Root (proj_Engine p)) of Inl e \<Rightarrow> Inl e | Inr r \<Rightarrow>
      case normalizePath env (ClangdPath (proj_Toolchain p)) of Inl e \<Rightarrow> Inl e | Inr c \<Rightarrow>
      case normalizePath env (CompilationDatabase (proj_Generation p)) of Inl e \<Rightarrow> Inl e | Inr d \<Rightarrow>
      case normalizePath env (CacheDir (proj_Generation p)) of Inl e \<Rightarrow> Inl e | Inr h \<Rightarrow>
        Inr (p\<lparr>UProject := u,
               proj_Engine := (proj_Engine p)\<lparr>eng_Root := r\<rparr>,
               proj_Toolchain := (proj_Toolchain p)\<lparr>ClangdPath := c\<rparr>,
               proj_Generation := (proj_Generation p)\<lparr>CompilationDatabase := d, CacheDir := h\<rparr>\<rparr>))"

text \<open>The loop over the projects with the two sets of keys seen so far.\<close>

fun normalize_projects :: "path_env \<Rightarrow> string set \<Rightarrow> string set \<Rightarrow> Project list \<Rightarrow>
    registry_error + Project list" where
  "normalize_projects env ids paths [] = Inr []"
| "normalize_projects env ids paths (p # ps) =
     (case normalize_project env p of
        Inl e \<Rightarrow> Inl e
      | Inr q \<Rightarrow>
          if proj_ID q = '''' then Inl ErrProjectIDRequired
          else if to_lower (proj_ID q) \<in> ids then Inl (ErrDuplicateID (proj_ID q))
          else if to_lower (UProject q) \<in> paths then Inl (ErrDuplicatePath (UProject q))
          else case normalize_projects env (insert (to_lower (proj_ID q)) ids)
                      (insert (to_lower (UProject q)) paths) ps of
              Inl e \<Rightarrow> Inl e
            | Inr qs \<Rightarrow> Inr (q # qs))"

definition normalizeAndValidate :: "path_env \<Rightarrow> Registry \<Rightarrow> registry_error + Registry" where
  "normalizeAndValidate env r =
     (if reg_Version r \<noteq> CurrentVersion then Inl (ErrUnsupportedVersion (reg_Version r))
      else case normalize_projects env {} {} (Projects r) of
          Inl e \<Rightarrow> Inl e
        | Inr ps \<Rightarrow> Inr (r\<lparr>Projects := ps\<rparr>))"

section \<open>Locks\<close>

datatype lock_try = LockAcquired | LockContended | LockFailed

definition lockRetries :: nat where
  "lockRetries = 20"

text \<open>
  \<open>tries i\<close> is the outcome of opening and locking the file at attempt \<open>i\<close>; \<open>cancelled i\<close> says
  that the context ended during the wait after it.
\<close>

function lock_loop :: "(nat \<Rightarrow> lock_try) \<Rightarrow> (nat \<Rightarrow> bool) \<Rightarrow> nat \<Rightarrow> registry_error + nat" where
  "lock_loop tries cancelled attempt =
     (if \<not> attempt < lockRetries then Inl ErrLockUnavailable
      else case tries attempt of
          LockAcquired \<Rightarrow> Inr attempt
        | LockFailed \<Rightarrow> Inl ErrLockRegistry
        | LockContended \<Rightarrow>
            if cancelled attempt then Inl ErrContext
            else lock_loop tries cancelled (Suc attempt))"
  by pat_completeness auto
termination by (relation "measure (\<lambda>(t, c, i). lockRetries - i)") auto

declare lock_loop.simps [simp del]

definition store_lock :: "(nat \<Rightarrow> lock_try) \<Rightarrow> (nat \<Rightarrow> bool) \<Rightarrow> registry_error + nat" where
  "store_lock tries cancelled = lock_loop tries cancelled 0"

datatype file_lock_error = LockMkdir | LockOpen | LockAcquire | LockContext

datatype open_try = OpenFailed | Opened lock_try

text \<open>
  \<^verbatim>\<open>AcquireFileLock\<close> waits as long as the lock is contended, so it is given fuel; \<open>None\<close> is
  still waiting.
\<close>

fun acquire_loop :: "nat \<Rightarrow> (nat \<Rightarrow> open_try) \<Rightarrow> (nat \<Rightarrow> bool) \<Rightarrow> nat \<Rightarrow> (file_lock_error + nat) option" where
  "acquire_loop 0 tries cancelled i = None"
| "acquire_loop (Suc fuel) tries cancelled i =
     (case tries i of
        OpenFailed \<Rightarrow> Some (Inl LockOpen)
      | Opened LockAcquired \<Rightarrow> Some (Inr i)
      | Opened LockFailed \<Rightarrow> Some (Inl LockAcquire)
      | Opened LockContended \<Rightarrow>
          if cancelled i then Some (Inl LockContext) else acquire_loop fuel tries cancelled (Suc i))"

definition AcquireFileLock :: "nat \<Rightarrow> bool \<Rightarrow> (nat \<Rightarrow> open_try) \<Rightarrow> (nat \<Rightarrow> bool) \<Rightarrow>
    (file_lock_error + nat) option" where
  "AcquireFileLock fuel mkdir_ok tries cancelled =
     (if \<not> mkdir_ok then Some (Inl LockMkdir) else acquire_loop fuel tries cancelled 0)"

text \<open>The value is \<^verbatim>\<open>acquired\<close>.\<close>

definition TryAcquireFileLock :: "bool \<Rightarrow> open_try \<Rightarrow> file_lock_error + bool" where
  "TryAcquireFileLock mkdir_ok attempt =
     (if \<not> mkdir_ok then Inl LockMkdir
      else case attempt of
          OpenFailed \<Rightarrow> Inl LockOpen
        | Opened LockAcquired \<Rightarrow> Inr True
        | Opened LockContended \<Rightarrow> Inr False
        | Opened LockFailed \<Rightarrow> Inl LockAcquire)"

section \<open>The store\<close>

text \<open>What the directory holds: the registry file, the temporary file, and who owns the lock.\<close>

record disk =
  disk_registry :: "string option"
  disk_temporary :: "string option"
  disk_locked :: bool

record io =
  io_ctx_entry :: bool
  io_ctx_save :: bool
  io_mkdir :: bool
  io_tries :: "nat \<Rightarrow> lock_try"
  io_cancelled :: "nat \<Rightarrow> bool"
  io_read :: bool
  io_create_temp :: bool
  io_chmod :: bool
  io_encode :: bool
  io_sync :: bool
  io_close :: bool
  io_promote :: bool

text \<open>
  \<^verbatim>\<open>encoding/json\<close> for the registry type.  \<open>codec_decode\<close> gives the first value of the text and
  whether anything but white space follows it; \<open>None\<close> is a decoding error.
\<close>

record codec =
  codec_encode :: "Registry \<Rightarrow> string"
  codec_decode :: "string \<Rightarrow> (Registry \<times> bool) option"

definition loadUnlocked :: "codec \<Rightarrow> path_env \<Rightarrow> io \<Rightarrow> disk \<Rightarrow> registry_error + Registry" where
  "loadUnlocked cd env sys d =
     (case disk_registry d of
        None \<Rightarrow> Inr \<lparr>reg_Version = CurrentVersion, Projects = []\<rparr>
      | Some contents \<Rightarrow>
          if \<not> io_read sys then Inl ErrReadRegistry
          else case codec_decode cd contents of
              None \<Rightarrow> Inl ErrDecodeRegistry
            | Some (r, trailing) \<Rightarrow>
                if trailing then Inl ErrTrailingData else normalizeAndValidate env r)"

text \<open>
  The temporary file is created, written, synced, closed and renamed over the registry; the
  deferred \<^verbatim>\<open>os.Remove\<close> deletes it whenever it was not renamed.
\<close>

definition saveUnlocked :: "codec \<Rightarrow> io \<Rightarrow> Registry \<Rightarrow> disk \<Rightarrow> (registry_error + unit) \<times> disk" where
  "saveUnlocked cd sys r d =
     (if \<not> io_create_temp sys then (Inl ErrCreateTemporary, d)
      else let d1 = d\<lparr>disk_temporary := Some ''''\<rparr>; remove = (\<lambda>x. x\<lparr>disk_temporary := None\<rparr>) in
        if \<not> io_chmod sys then (Inl ErrSetPermissions, remove d1)
        else if \<not> io_encode sys then (Inl ErrEncodeRegistry, remove d1)
        else let d2 = d1\<lparr>disk_temporary := Some (codec_encode cd r)\<rparr> in
          if \<not> io_sync sys then (Inl ErrSyncTemporary, remove d2)
          else if \<not> io_close sys then (Inl ErrCloseTemporary, remove d2)
          else if \<not> io_promote sys then (Inl ErrPromoteRegistry, remove d2)
          else (Inr (), remove (d2\<lparr>disk_registry := disk_temporary d2\<rparr>)))"

text \<open>The deferred unlock around the body that runs under the lock.\<close>

definition with_lock :: "io \<Rightarrow> (disk \<Rightarrow> (registry_error + 'a) \<times> disk) \<Rightarrow> disk \<Rightarrow> (registry_error + 'a) \<times> disk" where
  "with_lock sys body d =
     (case store_lock (io_tries sys) (io_cancelled sys) of
        Inl e \<Rightarrow> (Inl e, d)
      | Inr _ \<Rightarrow> (case body (d\<lparr>disk_locked := True\<rparr>) of (res, d') \<Rightarrow> (res, d'\<lparr>disk_locked := False\<rparr>)))"

definition store_Load :: "codec \<Rightarrow> path_env \<Rightarrow> io \<Rightarrow> disk \<Rightarrow> (registry_error + Registry) \<times> disk" where
  "store_Load cd env sys d =
     (if io_ctx_entry sys then (Inl ErrContext, d)
      else if \<not> io_mkdir sys then (Inl ErrCreateDirectory, d)
      else with_lock sys (\<lambda>d. (loadUnlocked cd env sys d, d)) d)"

definition store_Save :: "codec \<Rightarrow> path_env \<Rightarrow> io \<Rightarrow> Registry \<Rightarrow> disk \<Rightarrow> (registry_error + unit) \<times> disk" where
  "store_Save cd env sys r d =
     (case normalizeAndValidate env r of
        Inl e \<Rightarrow> (Inl e, d)
      | Inr r' \<Rightarrow>
          if \<not> io_mkdir sys then (Inl ErrCreateDirectory, d)
          else with_lock sys (\<lambda>d. if io_ctx_save sys then (Inl ErrContext, d) else saveUnlocked cd sys r' d) d)"

text \<open>A mutation is a function on the registry that may fail.\<close>

type_synonym mutation = "Registry \<Rightarrow> registry_error + Registry"

definition store_Update :: "codec \<Rightarrow> path_env \<Rightarrow> io \<Rightarrow> mutation option \<Rightarrow> disk \<Rightarrow> (registry_error + unit) \<times> disk" where
  "store_Update cd env sys mutate d =
     (if io_ctx_entry sys then (Inl ErrContext, d)
      else case mutate of
          None \<Rightarrow> (Inl ErrMutationRequired, d)
        | Some m \<Rightarrow>
            if \<not> io_mkdir sys then (Inl ErrCreateDirectory, d)
            else with_lock sys (\<lambda>d.
              case loadUnlocked cd env sys d of Inl e \<Rightarrow> (Inl e, d) | Inr r \<Rightarrow>
              case m r of Inl e \<Rightarrow> (Inl e, d) | Inr r1 \<Rightarrow>
              case normalizeAndValidate env r1 of Inl e \<Rightarrow> (Inl e, d) | Inr r2 \<Rightarrow>
                if io_ctx_save sys then (Inl ErrContext, d) else saveUnlocked cd sys r2 d) d)"

section \<open>Normalisation and validation: facts\<close>

definition valid_registry :: "Registry \<Rightarrow> bool" where
  "valid_registry r \<longleftrightarrow>
     reg_Version r = CurrentVersion \<and>
     list_all (\<lambda>p. proj_ID p \<noteq> '''') (Projects r) \<and>
     distinct (map (to_lower \<circ> proj_ID) (Projects r)) \<and>
     distinct (map (to_lower \<circ> UProject) (Projects r))"

lemma normalize_project_ID: "normalize_project env p = Inr q \<Longrightarrow> proj_ID q = proj_ID p"
  by (auto simp: normalize_project_def split: sum.splits)

lemma normalize_projects_facts:
  "normalize_projects env ids paths ps = Inr qs \<Longrightarrow>
   list_all (\<lambda>p. proj_ID p \<noteq> '''') qs \<and> map proj_ID qs = map proj_ID ps \<and>
   distinct (map (to_lower \<circ> proj_ID) qs) \<and> (to_lower \<circ> proj_ID) ` set qs \<inter> ids = {} \<and>
   distinct (map (to_lower \<circ> UProject) qs) \<and> (to_lower \<circ> UProject) ` set qs \<inter> paths = {}"
proof (induction ps arbitrary: ids paths qs)
  case Nil
  then show ?case by simp
next
  case (Cons p ps)
  obtain q where q: "normalize_project env p = Inr q" using Cons.prems by (auto split: sum.splits)
  with Cons.prems have fresh: "proj_ID q \<noteq> ''''" "to_lower (proj_ID q) \<notin> ids" "to_lower (UProject q) \<notin> paths"
    by (auto split: if_splits)
  with q Cons.prems obtain qs' where qs: "qs = q # qs'"
    and rest: "normalize_projects env (insert (to_lower (proj_ID q)) ids)
                 (insert (to_lower (UProject q)) paths) ps = Inr qs'"
    by (auto split: sum.splits)
  from Cons.IH[OF rest] fresh show ?case
    by (auto simp: qs normalize_project_ID[OF q])
qed

lemma normalizeAndValidate_valid:
  "normalizeAndValidate env r = Inr r' \<Longrightarrow> valid_registry r' \<and> map proj_ID (Projects r') = map proj_ID (Projects r)"
  by (auto simp: normalizeAndValidate_def valid_registry_def split: if_splits sum.splits
      dest: normalize_projects_facts)

subsection \<open>Normalising twice\<close>

text \<open>
  What \<^verbatim>\<open>filepath.EvalSymlinks\<close> promises on absolute paths: its result is absolute, clean and
  its own evaluation, a path is evaluated component by component, and nothing exists below a
  path that cannot be evaluated.
\<close>

definition sound_eval :: "(string \<Rightarrow> string option) \<Rightarrow> bool" where
  "sound_eval eval \<longleftrightarrow>
     (\<forall>p q. is_abs p \<longrightarrow> eval p = Some q \<longrightarrow> is_abs q \<and> path_clean q = q \<and> eval q = Some q) \<and>
     (\<forall>p q m. is_abs p \<longrightarrow> eval p = Some q \<longrightarrow> good_part m \<longrightarrow> eval (path_join2 p m) = eval (path_join2 q m)) \<and>
     (\<forall>p m. is_abs p \<longrightarrow> eval p = None \<longrightarrow> good_part m \<longrightarrow> eval (path_join2 p m) = None)"

lemma sound_evalD:
  assumes "sound_eval eval" "is_abs p"
  shows "eval p = Some q \<Longrightarrow> is_abs q" "eval p = Some q \<Longrightarrow> path_clean q = q"
    "eval p = Some q \<Longrightarrow> eval q = Some q"
    "eval p = Some q \<Longrightarrow> good_part m \<Longrightarrow> eval (path_join2 q m) = eval (path_join2 p m)"
    "eval p = None \<Longrightarrow> good_part m \<Longrightarrow> eval (path_join2 p m) = None"
  using assms unfolding sound_eval_def by (blast, blast, blast, metis, blast)

lemma path_join2_abs:
  assumes "is_abs p" "good_part m"
  shows "is_abs (path_join2 p m)" "path_clean (path_join2 p m) = path_join2 p m"
    "path_parts (path_join2 p m) = path_parts p @ [m]"
proof -
  have pn: "p \<noteq> ''''" and m: "m \<noteq> ''''" using assms by (auto simp: good_part_def)
  have j: "path_join2 p m = path_clean (p @ ''/'' @ m)" using pn m by (simp add: path_join_def)
  have a: "is_abs (p @ ''/'' @ m)" using assms(1) pn by (cases p) auto
  show "is_abs (path_join2 p m)" unfolding j by (rule is_abs_clean[OF a])
  show "path_clean (path_join2 p m) = path_join2 p m" unfolding j by (rule path_clean_idem[OF a])
  have sp: "split_on sep (p @ sep # m) = split_on sep p @ [m]"
    using assms(2) by (simp add: split_on_middle split_on_single good_part_def)
  have cw: "clean_walk True out (cs @ [m]) = m # clean_walk True out cs" for out cs
    using assms(2) by (induction "True" out cs rule: clean_walk.induct) (auto simp: good_part_def split: list.splits)
  show "path_parts (path_join2 p m) = path_parts p @ [m]"
    unfolding j path_parts_clean[OF a] using a assms(1) sp cw by (simp add: path_parts_def)
qed

lemma path_clean_join: "is_abs p \<Longrightarrow> path_clean p = p \<Longrightarrow> p = sep # str_join ''/'' (path_parts p)"
  using path_clean_abs[of p] by simp

lemma path_join2_text:
  assumes "is_abs p" "path_clean p = p" "good_part m"
  shows "path_join2 p m = (if p = ''/'' then ''/'' @ m else p @ ''/'' @ m)"
proof -
  have "path_join2 p m = sep # str_join ''/'' (path_parts p @ [m])"
    using path_join2_abs[OF assms(1,3)] path_clean_join[of "path_join2 p m"] by simp
  moreover have "p = sep # str_join ''/'' (path_parts p)"
    by (rule path_clean_join[OF assms(1,2)])
  moreover have "path_parts ''/'' = []" by (simp add: path_parts_def)
  ultimately show ?thesis
    by (cases "path_parts p = []") (auto simp add: str_join_append simp del: append_Cons)
qed

lemma path_dir_join2:
  assumes "is_abs p" "path_clean p = p" "good_part m"
  shows "path_dir (path_join2 p m) = p" "path_base (path_join2 p m) = m"
proof -
  have m: "sep \<notin> set m" "m \<noteq> ''''" using assms(3) by (auto simp: good_part_def)
  have drop_m: "rev (dropWhile (\<lambda>c. c \<noteq> sep) (rev (a @ sep # m))) = a @ ''/''" for a
    using m(1) by (simp add: dropWhile_append dropWhile_eq_Nil_conv)
  have trail: "path_clean (p @ ''/'') = p" if "p \<noteq> ''/''"
  proof -
    have "is_abs (p @ ''/'')" using assms(1) by (cases p) auto
    moreover have "path_parts (p @ ''/'') = path_parts p"
      using assms(1) calculation by (simp add: path_parts_def split_on_trailing clean_walk_last_empty)
    ultimately show ?thesis using assms(1,2) path_clean_abs by metis
  qed
  have root: "path_clean ''/'' = ''/''" by (simp add: path_clean_def path_parts_def)
  show "path_dir (path_join2 p m) = p"
    unfolding path_join2_text[OF assms] path_dir_def
    using drop_m[of p] drop_m[of "''''"] trail root by auto
  have lm: "last m \<noteq> sep" using m by (metis last_in_set)
  have "path_base (a @ sep # m) = m" for a
  proof -
    have "trim_right (\<lambda>c. c = sep) (a @ sep # m) = a @ sep # m"
      using lm m(2) by (simp add: trim_right_def) (subst dropWhile_id, auto simp: hd_append hd_rev)
    moreover have "last (split_on sep (a @ sep # m)) = m"
      using m(1) by (simp add: split_on_middle split_on_single)
    ultimately show ?thesis by (simp add: path_base_def)
  qed
  from this[of p] this[of "''''"] show "path_base (path_join2 p m) = m"
    unfolding path_join2_text[OF assms] by auto
qed

lemma path_dir_root [simp]: "path_dir ''/'' = ''/''"
  by (simp add: path_dir_def path_clean_def path_parts_def)

lemma foldl_join_abs:
  "is_abs p \<Longrightarrow> path_clean p = p \<Longrightarrow> list_all good_part ms \<Longrightarrow>
   is_abs (foldl path_join2 p ms) \<and> path_clean (foldl path_join2 p ms) = foldl path_join2 p ms \<and>
   path_parts (foldl path_join2 p ms) = path_parts p @ ms"
  by (induction ms arbitrary: p) (auto simp: path_join2_abs)

lemma path_join_foldl:
  assumes "is_abs p" "path_clean p = p" "list_all good_part ms"
  shows "path_join (p # ms) = foldl path_join2 p ms"
proof (cases "ms = []")
  case True
  with assms show ?thesis by (cases p) (auto simp: path_join_def)
next
  case False
  show ?thesis
    using path_join_abs[OF assms(1,3) False] foldl_join_abs[OF assms]
      path_clean_eq_iff[of "path_join (p # ms)" "foldl path_join2 p ms"] by simp
qed

lemma foldl_join_parts:
  assumes "is_abs p" "path_clean p = p"
  shows "foldl path_join2 ''/'' (path_parts p) = p"
proof -
  have "is_abs ''/''" "path_clean ''/'' = ''/''" "path_parts ''/'' = []"
    by (simp_all add: path_clean_def path_parts_def)
  from foldl_join_abs[OF this(1,2) path_parts_good[OF assms(1)]] this(3)
  have "path_parts (foldl path_join2 ''/'' (path_parts p)) = path_parts p"
    and "is_abs (foldl path_join2 ''/'' (path_parts p))"
    and "path_clean (foldl path_join2 ''/'' (path_parts p)) = foldl path_join2 ''/'' (path_parts p)"
    by simp_all
  with assms show ?thesis using path_clean_abs by metis
qed

text \<open>Below a missing child nothing exists, so the climb reaches the existing ancestor.\<close>

lemma eval_below_None:
  "sound_eval eval \<Longrightarrow> is_abs p \<Longrightarrow> path_clean p = p \<Longrightarrow> list_all good_part ms \<Longrightarrow> eval p = None \<Longrightarrow>
   eval (foldl path_join2 p ms) = None"
proof (induction ms arbitrary: p)
  case Nil
  then show ?case by simp
next
  case (Cons m ms)
  then have "good_part m" by simp
  note j = path_join2_abs[OF Cons.prems(2) this]
  have "eval (path_join2 p m) = None"
    by (rule sound_evalD(5)) (use Cons.prems in simp_all)
  with Cons.IH[OF Cons.prems(1) j(1,2)] Cons.prems(4) show ?case by simp
qed

lemma resolve_climb:
  assumes "sound_eval eval" "is_abs p" "path_clean p = p"
  shows "list_all good_part ms \<Longrightarrow> ms = [] \<or> eval (path_join2 p (hd ms)) = None \<Longrightarrow>
    resolve_from eval path (foldl path_join2 p ms) rest = resolve_from eval path p (ms @ rest)"
proof (induction ms arbitrary: rest rule: rev_induct)
  case Nil
  then show ?case by simp
next
  case (snoc m ms)
  let ?q = "foldl path_join2 p ms"
  have q: "is_abs ?q" "path_clean ?q = ?q" and m: "good_part m"
    using foldl_join_abs[OF assms(2,3)] snoc.prems by auto
  have none: "eval (path_join2 ?q m) = None"
  proof (cases ms)
    case Nil
    with snoc.prems show ?thesis by simp
  next
    case (Cons x xs)
    then have x: "good_part x" "list_all good_part (xs @ [m])" "eval (path_join2 p x) = None"
      using snoc.prems by simp_all
    have "eval (foldl path_join2 (path_join2 p x) (xs @ [m])) = None"
      by (rule eval_below_None[OF assms(1) path_join2_abs(1,2)[OF assms(2) x(1)] x(2,3)])
    with Cons show ?thesis by simp
  qed
  have "path_join2 ?q m \<noteq> ?q"
    using path_join2_abs(3)[OF q(1) m] by (metis append_self_conv list.distinct(1))
  then have "resolve_from eval path (path_join2 ?q m) rest = resolve_from eval path ?q (m # rest)"
    using none path_dir_join2[OF q m] by (subst resolve_from.simps) simp
  also have "\<dots> = resolve_from eval path p (ms @ m # rest)"
    using snoc.prems by (intro snoc.IH) (auto simp: hd_append split: if_splits)
  finally show ?case by simp
qed

lemma existing_ancestor:
  assumes "sound_eval eval" "eval ''/'' \<noteq> None"
  shows "list_all good_part xs \<Longrightarrow>
    \<exists>p q ms. foldl path_join2 ''/'' xs = foldl path_join2 p ms \<and> is_abs p \<and> path_clean p = p \<and>
      list_all good_part ms \<and> eval p = Some q \<and> (ms = [] \<or> eval (path_join2 p (hd ms)) = None)"
proof (induction xs rule: rev_induct)
  case Nil
  from assms(2) obtain q where "eval ''/'' = Some q" by blast
  then show ?case
    by (intro exI[of _ "''/''"] exI[of _ q] exI[of _ "[]"]) (simp add: path_clean_def path_parts_def)
next
  case (snoc x xs)
  then obtain p q ms where eq: "foldl path_join2 ''/'' xs = foldl path_join2 p ms"
    and p: "is_abs p" "path_clean p = p" and ms: "list_all good_part ms" and q: "eval p = Some q"
    and stop: "ms = [] \<or> eval (path_join2 p (hd ms)) = None" by auto
  from snoc.prems have x: "good_part x" by simp
  show ?case
  proof (cases "eval (foldl path_join2 p (ms @ [x]))")
    case None
    then have "ms @ [x] = [] \<or> eval (path_join2 p (hd (ms @ [x]))) = None"
      using stop by (cases ms) auto
    with eq p ms q x show ?thesis
      by (intro exI[of _ p] exI[of _ q] exI[of _ "ms @ [x]"]) simp
  next
    case (Some r)
    with eq p ms x foldl_join_abs[OF p, of "ms @ [x]"] show ?thesis
      by (intro exI[of _ "foldl path_join2 p (ms @ [x])"] exI[of _ r] exI[of _ "[]"]) simp
  qed
qed

lemma resolvePathIdentity_idem:
  assumes ev: "sound_eval eval" and "is_abs a"
  defines "r \<equiv> resolvePathIdentity eval (path_clean a)"
  shows "is_abs r \<and> path_clean r = r \<and> resolvePathIdentity eval r = r"
proof -
  let ?p = "path_clean a"
  have abs: "is_abs ?p" "path_clean ?p = ?p" using assms(2) by (simp_all add: is_abs_clean path_clean_idem)
  have parts: "foldl path_join2 ''/'' (path_parts ?p) = ?p" "list_all good_part (path_parts ?p)"
    using foldl_join_parts[OF abs] path_parts_good[OF abs(1)] by simp_all
  have root: "is_abs ''/''" "path_clean ''/'' = ''/''" by (simp_all add: path_clean_def path_parts_def)
  show ?thesis
  proof (cases "eval ''/''")
    case None
    have "path_parts ?p = [] \<or> eval (path_join2 ''/'' (hd (path_parts ?p))) = None"
      using sound_evalD(5)[OF ev root(1) None] parts(2) by (cases "path_parts ?p") auto
    from resolve_climb[OF ev root parts(2) this, of ?p "[]"] None have "r = ?p"
      by (simp add: r_def resolvePathIdentity_def parts(1) resolve_from.simps[of _ _ "''/''"] abs)
    with abs show ?thesis by (simp add: r_def)
  next
    case (Some q0)
    with existing_ancestor[OF ev _ parts(2)] parts(1)
    obtain p q ms where eq: "?p = foldl path_join2 p ms" and p: "is_abs p" "path_clean p = p"
      and ms: "list_all good_part ms" and q: "eval p = Some q"
      and stop: "ms = [] \<or> eval (path_join2 p (hd ms)) = None" by auto
    have qq: "is_abs q" "path_clean q = q" "eval q = Some q" using sound_evalD[OF ev p(1)] q by auto
    note fj = foldl_join_abs[OF qq(1,2) ms]
    have r: "r = foldl path_join2 q ms"
      using resolve_climb[OF ev p ms stop, of ?p "[]"] q fj
      by (simp add: r_def resolvePathIdentity_def flip: eq) (simp add: resolve_from.simps[of _ _ p])
    have "ms = [] \<or> eval (path_join2 q (hd ms)) = None"
      using stop ms sound_evalD(4)[OF ev p(1) q] by (cases ms) auto
    from resolve_climb[OF ev qq(1,2) ms this, of r "[]"] fj qq(3)
    have "resolvePathIdentity eval r = r"
      by (simp add: r resolvePathIdentity_def resolve_from.simps[of _ _ q])
    with r fj show ?thesis by simp
  qed
qed

definition sound_env :: "path_env \<Rightarrow> bool" where
  "sound_env env \<longleftrightarrow> sound_eval (EvalSymlinks env) \<and> (\<forall>d. Getwd env = Some d \<longrightarrow> is_abs d)"

lemma go_abs_clean:
  assumes "sound_env env" "go_abs env p = Some a" "p \<noteq> ''''"
  shows "\<exists>b. is_abs b \<and> a = path_clean b"
proof (cases "is_abs p")
  case True
  with assms show ?thesis by (auto simp: go_abs_def)
next
  case False
  with assms(2) obtain d where d: "Getwd env = Some d" "a = path_join2 d p"
    by (auto simp: go_abs_def)
  with assms(1) have "is_abs d" by (auto simp: sound_env_def)
  with d(2) assms(3) show ?thesis
    by (intro exI[of _ "d @ ''/'' @ p"]) (cases d, auto simp: path_join_def)
qed

lemma normalizePath_idem:
  assumes "sound_env env" "normalizePath env p = Inr q"
  shows "normalizePath env q = Inr q"
proof (cases "p = ''''")
  case True
  with assms show ?thesis by (simp add: normalizePath_def)
next
  case False
  with assms(2) obtain a where "go_abs env p = Some a" and q: "q = resolvePathIdentity (EvalSymlinks env) a"
    by (auto simp: normalizePath_def split: option.splits)
  with go_abs_clean[OF assms(1) _ False] obtain b where "is_abs b" "a = path_clean b" by blast
  with resolvePathIdentity_idem[of "EvalSymlinks env" b] assms(1)
  have "is_abs q" "path_clean q = q" "resolvePathIdentity (EvalSymlinks env) q = q"
    by (auto simp: q sound_env_def)
  then show ?thesis by (simp add: normalizePath_def go_abs_def)
qed

lemma normalize_project_Inr:
  assumes "normalize_project env p = Inr q"
  obtains u r c d h where "normalizePath env (UProject p) = Inr u"
    "normalizePath env (eng_Root (proj_Engine p)) = Inr r"
    "normalizePath env (ClangdPath (proj_Toolchain p)) = Inr c"
    "normalizePath env (CompilationDatabase (proj_Generation p)) = Inr d"
    "normalizePath env (CacheDir (proj_Generation p)) = Inr h"
    "q = p\<lparr>UProject := u, proj_Engine := (proj_Engine p)\<lparr>eng_Root := r\<rparr>,
           proj_Toolchain := (proj_Toolchain p)\<lparr>ClangdPath := c\<rparr>,
           proj_Generation := (proj_Generation p)\<lparr>CompilationDatabase := d, CacheDir := h\<rparr>\<rparr>"
  using assms unfolding normalize_project_def by (auto split: sum.splits)

lemma normalize_project_idem:
  assumes "sound_env env" "normalize_project env p = Inr q"
  shows "normalize_project env q = Inr q"
proof -
  from assms(2) show ?thesis
  proof (rule normalize_project_Inr, goal_cases)
    case (1 u r c d h)
    from 1(1-5)[THEN normalizePath_idem[OF assms(1)]] 1(6) show ?case
      by (simp add: normalize_project_def)
  qed
qed

lemma normalize_projects_Cons:
  "normalize_projects env ids paths (p # ps) = Inr qs \<longleftrightarrow>
   (\<exists>q qs'. qs = q # qs' \<and> normalize_project env p = Inr q \<and> proj_ID q \<noteq> '''' \<and>
     to_lower (proj_ID q) \<notin> ids \<and> to_lower (UProject q) \<notin> paths \<and>
     normalize_projects env (insert (to_lower (proj_ID q)) ids)
       (insert (to_lower (UProject q)) paths) ps = Inr qs')"
  by (auto split: sum.splits if_splits)

lemma normalize_projects_idem:
  "sound_env env \<Longrightarrow> normalize_projects env ids paths ps = Inr qs \<Longrightarrow>
   normalize_projects env ids paths qs = Inr qs"
proof (induction ps arbitrary: ids paths qs)
  case Nil
  then show ?case by simp
next
  case (Cons p ps)
  from Cons.prems(2) obtain q qs' where q: "qs = q # qs'" "normalize_project env p = Inr q"
    "proj_ID q \<noteq> ''''" "to_lower (proj_ID q) \<notin> ids" "to_lower (UProject q) \<notin> paths"
    "normalize_projects env (insert (to_lower (proj_ID q)) ids)
       (insert (to_lower (UProject q)) paths) ps = Inr qs'"
    unfolding normalize_projects_Cons by blast
  from Cons.IH[OF Cons.prems(1) q(6)] normalize_project_idem[OF Cons.prems(1) q(2)] q
  show ?case by simp
qed

lemma normalizeAndValidate_Inr:
  "normalizeAndValidate env r = Inr r' \<longleftrightarrow>
   reg_Version r = CurrentVersion \<and>
   (\<exists>ps. normalize_projects env {} {} (Projects r) = Inr ps \<and> r' = r\<lparr>Projects := ps\<rparr>)"
  unfolding normalizeAndValidate_def by (auto split: sum.split)

lemma normalizeAndValidate_idem:
  assumes "sound_env env" "normalizeAndValidate env r = Inr r'"
  shows "normalizeAndValidate env r' = Inr r'"
proof -
  from assms(2) obtain ps where "reg_Version r = CurrentVersion" "r' = r\<lparr>Projects := ps\<rparr>"
    and ps: "normalize_projects env {} {} (Projects r) = Inr ps"
    unfolding normalizeAndValidate_Inr by blast
  with normalize_projects_idem[OF assms(1) ps] show ?thesis
    unfolding normalizeAndValidate_Inr by simp
qed

text \<open>
  A registry that passes \<^verbatim>\<open>normalizeAndValidate\<close> has the current version, non-empty IDs that
  are distinct up to case, project files distinct up to case, and the same projects in the same
  order; and, as long as the file system's links do not change, validating it again changes
  nothing, so what \<^verbatim>\<open>Save\<close> writes is what \<^verbatim>\<open>Load\<close> returns.
\<close>

theorem normalizeAndValidate_sound:
  assumes "normalizeAndValidate env r = Inr r'" and "sound_env env"
  shows "reg_Version r' = 1 \<and> list_all (\<lambda>p. proj_ID p \<noteq> '''') (Projects r') \<and>
    distinct (map (to_lower \<circ> proj_ID) (Projects r')) \<and>
    distinct (map (to_lower \<circ> UProject) (Projects r')) \<and>
    map proj_ID (Projects r') = map proj_ID (Projects r) \<and>
    normalizeAndValidate env r' = Inr r'"
  using normalizeAndValidate_valid[OF assms(1)] normalizeAndValidate_idem[OF assms(2,1)]
  by (simp add: valid_registry_def CurrentVersion_def)

text \<open>A file system without links, in which every absolute path exists.\<close>

definition plain_env :: path_env where
  "plain_env = \<lparr>Getwd = Some ''/w'', EvalSymlinks = (\<lambda>p. if is_abs p then Some (path_clean p) else None)\<rparr>"

lemma plain_env_sound: "sound_env plain_env"
proof -
  have join_clean: "path_clean (path_join2 p m) = path_clean (path_join2 (path_clean p) m)"
    if "is_abs p" "good_part m" for p m
    using that path_join2_abs[OF that] path_join2_abs[OF is_abs_clean[OF that(1)] that(2)]
    by (subst path_clean_eq_iff) simp_all
  have "sound_eval (EvalSymlinks plain_env)"
    unfolding sound_eval_def plain_env_def
    by (auto simp: is_abs_clean path_clean_idem path_join2_abs(1) simp flip: join_clean)
  then show ?thesis by (simp add: sound_env_def plain_env_def)
qed

definition sample_project :: "string \<Rightarrow> string \<Rightarrow> Project" where
  "sample_project ident path =
     \<lparr>proj_ID = ident, proj_Name = ident, UProject = path, proj_Target = ident @ ''Editor'',
      proj_Platform = ''Win64'', proj_Configuration = ''Development'', WatchEnabled = True,
      proj_Engine = \<lparr>eng_Root = ''/ue'', eng_Version = ''5.7''\<rparr>,
      proj_Toolchain = \<lparr>ClangdPath = '''', ClangdVersion = ''''\<rparr>,
      proj_Generation = \<lparr>CompilationDatabase = '''', CacheDir = '''', LastFingerprint = '''',
                         LastGeneratedAt = 0, InvalidationReason = ''''\<rparr>\<rparr>"

theorem normalizeAndValidate_sound_witness:
  "normalizeAndValidate plain_env
     \<lparr>reg_Version = 1, Projects = [sample_project ''G'' ''/x/../G.u'']\<rparr> =
   Inr \<lparr>reg_Version = 1, Projects = [sample_project ''G'' ''/G.u'']\<rparr> \<and>
   normalizeAndValidate plain_env
     \<lparr>reg_Version = 1, Projects = [sample_project ''G'' ''/G.u'']\<rparr> =
   Inr \<lparr>reg_Version = 1, Projects = [sample_project ''G'' ''/G.u'']\<rparr>"
proof -
  have n: "normalizeAndValidate plain_env
     \<lparr>reg_Version = 1, Projects = [sample_project ''G'' ''/x/../G.u'']\<rparr> =
   Inr \<lparr>reg_Version = 1, Projects = [sample_project ''G'' ''/G.u'']\<rparr>"
    by code_simp
  from normalizeAndValidate_sound[OF n plain_env_sound] n show ?thesis by simp
qed

section \<open>Locks: facts\<close>

lemma lock_loop_acquired:
  "lock_loop tries cancelled i = Inr k \<Longrightarrow>
   i \<le> k \<and> k < lockRetries \<and> tries k = LockAcquired \<and>
   (\<forall>j. i \<le> j \<and> j < k \<longrightarrow> tries j = LockContended \<and> \<not> cancelled j)"
proof (induction tries cancelled i rule: lock_loop.induct)
  case (1 tries cancelled i)
  show ?case
  proof (cases "tries i = LockContended \<and> \<not> cancelled i \<and> i < lockRetries")
    case True
    have "lock_loop tries cancelled (Suc i) = Inr k"
      using 1(2) True lock_loop.simps[of tries cancelled i] by simp
    with 1(1) True have ih: "Suc i \<le> k \<and> k < lockRetries \<and> tries k = LockAcquired \<and>
        (\<forall>j. Suc i \<le> j \<and> j < k \<longrightarrow> tries j = LockContended \<and> \<not> cancelled j)" by simp
    have "tries j = LockContended \<and> \<not> cancelled j" if "i \<le> j" "j < k" for j
      using ih True that by (cases "j = i") auto
    with ih show ?thesis by auto
  next
    case False
    with 1(2) lock_loop.simps[of tries cancelled i] show ?thesis
      by (auto split: if_splits lock_try.splits)
  qed
qed

lemma store_lock_acquired:
  "store_lock tries cancelled = Inr k \<Longrightarrow> k < 20 \<and> tries k = LockAcquired \<and> (\<forall>j < k. tries j = LockContended)"
  unfolding store_lock_def using lock_loop_acquired[of tries cancelled 0 k] by (auto simp: lockRetries_def)

lemma store_lock_contended:
  assumes "\<forall>j. tries j = LockContended" "\<forall>j. \<not> cancelled j"
  shows "store_lock tries cancelled = Inl ErrLockUnavailable"
proof -
  have "lock_loop tries cancelled i = Inl ErrLockUnavailable" for i
  proof (induction "lockRetries - i" arbitrary: i)
    case 0
    then show ?case by (subst lock_loop.simps) simp
  next
    case (Suc n)
    then show ?case by (subst lock_loop.simps) (simp add: assms)
  qed
  then show ?thesis by (simp add: store_lock_def)
qed

section \<open>The store: facts\<close>

text \<open>Between operations nothing is locked and no temporary file is left.\<close>

definition quiet :: "disk \<Rightarrow> bool" where
  "quiet d \<longleftrightarrow> disk_temporary d = None \<and> \<not> disk_locked d"

lemma saveUnlocked_cases:
  "saveUnlocked cd sys r d = (res, d') \<Longrightarrow> disk_temporary d = None \<Longrightarrow>
   disk_temporary d' = None \<and> disk_locked d' = disk_locked d \<and>
   (res = Inr () \<and> disk_registry d' = Some (codec_encode cd r) \<or>
    (\<exists>e. res = Inl e) \<and> disk_registry d' = disk_registry d)"
  by (auto simp: saveUnlocked_def Let_def split: if_splits)

lemma with_lock_quiet:
  assumes "quiet d" and run: "with_lock sys body d = (res, d')"
    and body: "\<And>r x. body (d\<lparr>disk_locked := True\<rparr>) = (r, x) \<Longrightarrow> disk_temporary x = None"
  shows "quiet d'"
  using assms by (auto simp: with_lock_def quiet_def split: sum.splits prod.splits)

lemma loadUnlocked_locked [simp]: "loadUnlocked cd env sys (d\<lparr>disk_locked := b\<rparr>) = loadUnlocked cd env sys d"
  by (simp add: loadUnlocked_def)

definition update_value :: "path_env \<Rightarrow> mutation \<Rightarrow> Registry \<Rightarrow> registry_error + Registry" where
  "update_value env m r = (case m r of Inl e \<Rightarrow> Inl e | Inr r1 \<Rightarrow> normalizeAndValidate env r1)"

lemma update_value_valid: "update_value env m r = Inr r' \<Longrightarrow> valid_registry r'"
  by (auto simp: update_value_def split: sum.splits dest: normalizeAndValidate_valid)

lemma store_Update_cases:
  assumes "quiet d" and "store_Update cd env sys mutate d = (res, d')"
  shows "quiet d' \<and>
    ((\<exists>m r r'. mutate = Some m \<and> res = Inr () \<and> loadUnlocked cd env sys d = Inr r \<and>
        update_value env m r = Inr r' \<and> disk_registry d' = Some (codec_encode cd r')) \<or>
     (\<exists>e. res = Inl e) \<and> disk_registry d' = disk_registry d)"
proof (cases "io_ctx_entry sys \<or> mutate = None \<or> \<not> io_mkdir sys")
  case True
  with assms show ?thesis by (auto simp: store_Update_def split: if_splits option.splits)
next
  case False
  then obtain m where m: "mutate = Some m" by auto
  let ?body = "\<lambda>d. case loadUnlocked cd env sys d of Inl e \<Rightarrow> (Inl e, d) | Inr r \<Rightarrow>
              case m r of Inl e \<Rightarrow> (Inl e, d) | Inr r1 \<Rightarrow>
              case normalizeAndValidate env r1 of Inl e \<Rightarrow> (Inl e, d) | Inr r2 \<Rightarrow>
                if io_ctx_save sys then (Inl ErrContext, d) else saveUnlocked cd sys r2 d"
  let ?d = "d\<lparr>disk_locked := True\<rparr>"
  have run: "with_lock sys ?body d = (res, d')"
    using assms(2) False m by (simp add: store_Update_def)
  show ?thesis
  proof (cases "store_lock (io_tries sys) (io_cancelled sys)")
    case (Inl e)
    with run assms(1) show ?thesis by (auto simp: with_lock_def)
  next
    case (Inr k)
    obtain x where body: "?body ?d = (res, x)" and d': "d' = x\<lparr>disk_locked := False\<rparr>"
      using run Inr by (auto simp: with_lock_def split: prod.splits)
    have temp: "disk_temporary ?d = None" using assms(1) by (simp add: quiet_def)
    have "disk_temporary x = None \<and>
      ((\<exists>r r'. res = Inr () \<and> loadUnlocked cd env sys d = Inr r \<and>
          update_value env m r = Inr r' \<and> disk_registry x = Some (codec_encode cd r')) \<or>
       (\<exists>e. res = Inl e) \<and> disk_registry x = disk_registry d)"
    proof (cases "\<exists>r r'. loadUnlocked cd env sys d = Inr r \<and> update_value env m r = Inr r' \<and> \<not> io_ctx_save sys")
      case True
      then obtain r r' where r: "loadUnlocked cd env sys d = Inr r" "update_value env m r = Inr r'"
        and "\<not> io_ctx_save sys" by blast
      with body have "saveUnlocked cd sys r' ?d = (res, x)"
        by (auto simp: update_value_def split: sum.splits)
      from saveUnlocked_cases[OF this temp] r show ?thesis by auto
    next
      case False
      with body temp show ?thesis
        by (auto simp: update_value_def split: sum.splits if_splits)
    qed
    with d' m show ?thesis by (auto simp: quiet_def)
  qed
qed

text \<open>
  C11. \<^verbatim>\<open>Store.Update\<close> is atomic: on success the file holds the encoding of the normalised result
  of the mutation applied to what was loaded; on any failure (cancelled context, contended or
  failing lock, unreadable file, refused mutation, invalid result, failing write, sync, close or
  rename) it returns an error and the file is what it was.  In both cases the lock is released
  and no temporary file remains.
\<close>

theorem store_Update_atomic:
  assumes "quiet d" and "store_Update cd env sys (Some m) d = (res, d')"
  shows "quiet d' \<and>
    (case res of
       Inr u \<Rightarrow> \<exists>r r'. loadUnlocked cd env sys d = Inr r \<and> update_value env m r = Inr r' \<and>
                  valid_registry r' \<and> disk_registry d' = Some (codec_encode cd r')
     | Inl e \<Rightarrow> disk_registry d' = disk_registry d)"
  using store_Update_cases[OF assms] by (auto dest: update_value_valid)

definition sample_io :: io where
  "sample_io = \<lparr>io_ctx_entry = False, io_ctx_save = False, io_mkdir = True,
     io_tries = (\<lambda>i. if i < 3 then LockContended else LockAcquired), io_cancelled = (\<lambda>_. False),
     io_read = True, io_create_temp = True, io_chmod = True, io_encode = True, io_sync = True,
     io_close = True, io_promote = True\<rparr>"

definition sample_codec :: codec where
  "sample_codec = \<lparr>codec_encode = (\<lambda>r. nat_digits (length (Projects r))), codec_decode = (\<lambda>_. None)\<rparr>"

definition sample_disk :: disk where
  "sample_disk = \<lparr>disk_registry = None, disk_temporary = None, disk_locked = False\<rparr>"

definition sample_mutation :: mutation where
  "sample_mutation r = Inr (r\<lparr>Projects := Projects r @ [sample_project ''G'' ''/G.u'']\<rparr>)"

lemma sample_Update_ok:
  "store_Update sample_codec plain_env sample_io (Some sample_mutation) sample_disk =
   (Inr (), sample_disk\<lparr>disk_registry := Some ''1''\<rparr>)"
  by code_simp

lemma sample_Update_failed:
  "store_Update sample_codec plain_env (sample_io\<lparr>io_promote := False\<rparr>) (Some sample_mutation) sample_disk =
   (Inl ErrPromoteRegistry, sample_disk)"
  by code_simp

theorem store_Update_atomic_witness:
  "quiet (sample_disk\<lparr>disk_registry := Some ''1''\<rparr>) \<and>
   disk_registry (snd (store_Update sample_codec plain_env (sample_io\<lparr>io_promote := False\<rparr>)
     (Some sample_mutation) sample_disk)) = None"
proof -
  have q: "quiet sample_disk" by (simp add: quiet_def sample_disk_def)
  from store_Update_atomic[OF q sample_Update_ok] store_Update_atomic[OF q sample_Update_failed]
    sample_Update_failed
  show ?thesis by (simp add: sample_disk_def)
qed

section \<open>Concurrent updates\<close>

text \<open>
  Processes run \<^verbatim>\<open>Update\<close> at the same time.  A step of process \<open>i\<close> is one of: taking the free
  lock, \<^verbatim>\<open>loadUnlocked\<close>, promoting the new file, failing anywhere under the lock, and the
  deferred release.  \<open>sh_log\<close> records the mutations whose rename happened, in that order.
\<close>

datatype proc_state = NotRunning | HoldsLock | HasLoaded Registry | Finishing

record shared =
  sh_registry :: "string option"
  sh_owner :: "nat option"
  sh_proc :: "nat \<Rightarrow> proc_state"
  sh_log :: "mutation list"

definition load_text :: "codec \<Rightarrow> path_env \<Rightarrow> string option \<Rightarrow> registry_error + Registry" where
  "load_text cd env t =
     loadUnlocked cd env sample_io \<lparr>disk_registry = t, disk_temporary = None, disk_locked = True\<rparr>"

inductive update_step :: "codec \<Rightarrow> path_env \<Rightarrow> shared \<Rightarrow> shared \<Rightarrow> bool" for cd env where
  take_lock: "sh_owner s = None \<Longrightarrow> sh_proc s i = NotRunning \<Longrightarrow>
    update_step cd env s (s\<lparr>sh_owner := Some i, sh_proc := (sh_proc s)(i := HoldsLock)\<rparr>)"
| load: "sh_proc s i = HoldsLock \<Longrightarrow> load_text cd env (sh_registry s) = Inr r \<Longrightarrow>
    update_step cd env s (s\<lparr>sh_proc := (sh_proc s)(i := HasLoaded r)\<rparr>)"
| promote: "sh_proc s i = HasLoaded r \<Longrightarrow> update_value env m r = Inr r' \<Longrightarrow>
    update_step cd env s (s\<lparr>sh_registry := Some (codec_encode cd r'),
                     sh_proc := (sh_proc s)(i := Finishing), sh_log := sh_log s @ [m]\<rparr>)"
| fail: "sh_proc s i = HoldsLock \<or> sh_proc s i = HasLoaded r \<Longrightarrow>
    update_step cd env s (s\<lparr>sh_proc := (sh_proc s)(i := Finishing)\<rparr>)"
| release: "sh_proc s i = Finishing \<Longrightarrow>
    update_step cd env s (s\<lparr>sh_owner := None, sh_proc := (sh_proc s)(i := NotRunning)\<rparr>)"

definition update_init :: "string option \<Rightarrow> shared \<Rightarrow> bool" where
  "update_init t s \<longleftrightarrow> sh_registry s = t \<and> sh_owner s = None \<and> sh_log s = [] \<and> (\<forall>i. sh_proc s i = NotRunning)"

text \<open>One update with nobody else running.\<close>

definition apply_update :: "codec \<Rightarrow> path_env \<Rightarrow> string option \<Rightarrow> mutation \<Rightarrow> string option" where
  "apply_update cd env t m =
     (case load_text cd env t of Inl e \<Rightarrow> t | Inr r \<Rightarrow>
      case update_value env m r of Inl e \<Rightarrow> t | Inr r' \<Rightarrow> Some (codec_encode cd r'))"

definition update_good :: "codec \<Rightarrow> path_env \<Rightarrow> string option \<Rightarrow> shared \<Rightarrow> bool" where
  "update_good cd env t s \<longleftrightarrow>
     (\<forall>i. sh_proc s i \<noteq> NotRunning \<longrightarrow> sh_owner s = Some i) \<and>
     (\<forall>i r. sh_proc s i = HasLoaded r \<longrightarrow> load_text cd env (sh_registry s) = Inr r) \<and>
     sh_registry s = foldl (apply_update cd env) t (sh_log s)"

lemma update_good_alone:
  "update_good cd env t s \<Longrightarrow> sh_proc s i \<noteq> NotRunning \<Longrightarrow> sh_proc s j \<noteq> NotRunning \<Longrightarrow> i = j"
  unfolding update_good_def by (metis option.inject)

lemma update_goodD:
  assumes "update_good cd env t s"
  shows "sh_proc s i \<noteq> NotRunning \<Longrightarrow> sh_owner s = Some i"
    "sh_proc s i = HasLoaded r \<Longrightarrow> load_text cd env (sh_registry s) = Inr r"
    "sh_registry s = foldl (apply_update cd env) t (sh_log s)"
  using assms unfolding update_good_def by blast+

text \<open>A step of the process that owns the lock leaves every other one idle.\<close>

lemma update_good_step:
  assumes good: "update_good cd env t s" and step: "update_step cd env s s'"
  shows "update_good cd env t s'"
  using step
proof cases
  case (take_lock i)
  have "sh_proc s j = NotRunning" for j
    using update_goodD(1)[OF good, of j] take_lock by auto
  with take_lock update_goodD(3)[OF good] show ?thesis by (auto simp: update_good_def)
next
  case (load i r)
  then have i: "sh_proc s i \<noteq> NotRunning" by simp
  have "sh_proc s j = NotRunning" if "j \<noteq> i" for j
    using update_good_alone[OF good i] that by blast
  with load i update_goodD[OF good] show ?thesis by (auto simp: update_good_def)
next
  case (promote i r m r')
  then have i: "sh_proc s i \<noteq> NotRunning" by simp
  have "sh_proc s j = NotRunning" if "j \<noteq> i" for j
    using update_good_alone[OF good i] that by blast
  moreover have "apply_update cd env (sh_registry s) m = Some (codec_encode cd r')"
    using update_goodD(2)[OF good promote(2)] promote(3) by (simp add: apply_update_def)
  ultimately show ?thesis using promote i update_goodD(1,3)[OF good] by (auto simp: update_good_def)
next
  case (fail i r)
  then have i: "sh_proc s i \<noteq> NotRunning" by auto
  have "sh_proc s j = NotRunning" if "j \<noteq> i" for j
    using update_good_alone[OF good i] that by blast
  with fail i update_goodD(1,3)[OF good] show ?thesis by (auto simp: update_good_def)
next
  case (release i)
  then have i: "sh_proc s i \<noteq> NotRunning" by simp
  have "sh_proc s j = NotRunning" if "j \<noteq> i" for j
    using update_good_alone[OF good i] that by blast
  with release update_goodD(3)[OF good] show ?thesis by (auto simp: update_good_def)
qed

interpretation updates: invariant_system "update_init t" "update_step cd env" "update_good cd env t"
  for t :: "string option" and cd :: codec and env :: path_env
proof
  show "update_init t s \<Longrightarrow> update_good cd env t s" for s
    by (simp add: update_init_def update_good_def)
qed (rule update_good_step)

text \<open>
  C12. No update is lost: however the processes' updates interleave, the registry file is always
  the result of running the updates whose rename succeeded one after the other, in the order of
  their renames, and at most one process is inside the locked section.
\<close>

theorem concurrent_updates_serialise:
  assumes "update_init t s" and "(update_step cd env)\<^sup>*\<^sup>* s s'"
  shows "sh_registry s' = foldl (apply_update cd env) t (sh_log s') \<and>
    (\<forall>i j. sh_proc s' i \<noteq> NotRunning \<and> sh_proc s' j \<noteq> NotRunning \<longrightarrow> i = j)"
  using updates.run_good[OF assms(2,1)] update_goodD(3) update_good_alone by metis

definition sample_shared :: shared where
  "sample_shared = \<lparr>sh_registry = None, sh_owner = None, sh_proc = (\<lambda>_. NotRunning), sh_log = []\<rparr>"

theorem concurrent_updates_serialise_witness:
  "\<exists>s'. (update_step sample_codec plain_env)\<^sup>*\<^sup>* sample_shared s' \<and> length (sh_log s') = 1 \<and>
     sh_registry s' = foldl (apply_update sample_codec plain_env) None (sh_log s')"
proof -
  let ?empty = "\<lparr>reg_Version = CurrentVersion, Projects = []\<rparr>"
  let ?one = "\<lparr>reg_Version = CurrentVersion, Projects = [sample_project ''G'' ''/G.u'']\<rparr>"
  let ?step = "update_step sample_codec plain_env"
  let ?s1 = "sample_shared\<lparr>sh_owner := Some 7, sh_proc := (sh_proc sample_shared)(7 := HoldsLock)\<rparr>"
  let ?s2 = "?s1\<lparr>sh_proc := (sh_proc ?s1)(7 := HasLoaded ?empty)\<rparr>"
  let ?s3 = "?s2\<lparr>sh_registry := Some (codec_encode sample_codec ?one),
                 sh_proc := (sh_proc ?s2)(7 := Finishing), sh_log := sh_log ?s2 @ [sample_mutation]\<rparr>"
  have "?step sample_shared ?s1" by (rule take_lock) (simp_all add: sample_shared_def)
  moreover have "?step ?s1 ?s2"
    by (rule load) (simp_all add: sample_shared_def load_text_def loadUnlocked_def)
  moreover have "update_value plain_env sample_mutation ?empty = Inr ?one" by code_simp
  then have "?step ?s2 ?s3" by (rule promote[rotated]) simp
  ultimately have run: "?step\<^sup>*\<^sup>* sample_shared ?s3"
    by (auto intro: converse_rtranclp_into_rtranclp)
  have "update_init None sample_shared" by (simp add: update_init_def sample_shared_def)
  from concurrent_updates_serialise[OF this run] have
    "sh_registry ?s3 = foldl (apply_update sample_codec plain_env) None (sh_log ?s3)" by (rule conjunct1)
  with run show ?thesis
    by (intro exI[of _ ?s3] conjI) (assumption, simp add: sample_shared_def)
qed

end
