(* ===== verification/Coordinator.thy ===== *)
theory Coordinator
  imports Prelude
begin

text \<open>
  The generation coordinator (\<^verbatim>\<open>internal/watch/coordinator.go\<close>): debounced invalidations, at most
  one generation per project and at most \<^verbatim>\<open>maxConcurrent\<close> at once.  The methods are functions on
  the coordinator's state; the step relation interleaves them with the timers and goroutines they
  leave behind.  A timer that was replaced can still fire, and a callback that has fired can still
  be waiting for the mutex, so both are counted.  The generator and the clock are the environment.
\<close>

section \<open>State\<close>

text \<open>Where a project's goroutine is: waiting for a permit, generating, or reporting its result.\<close>

datatype worker = Waiting | Generating | Reporting

text \<open>
  \<open>ps_armed\<close>: \<^verbatim>\<open>p.timer\<close> is a timer that has not fired; \<open>ps_stale\<close>: live timers \<^verbatim>\<open>p.timer\<close> no longer
  refers to; \<open>ps_fired\<close>: callbacks that have fired and not yet entered \<^verbatim>\<open>start\<close>.  \<open>ps_worker\<close> is the
  project's goroutine.  \<open>ps_dirty\<close> is a ghost: an invalidation was accepted after the last
  generation began.
\<close>

record projectState =
  ps_armed :: bool
  ps_stale :: nat
  ps_fired :: nat
  ps_running :: bool
  ps_pending :: bool
  ps_worker :: "worker option"
  ps_dirty :: bool

record Coordinator =
  co_max :: nat
  co_debounce :: int
  co_permits :: nat
  co_projects :: "string \<Rightarrow> projectState option"
  co_cancelled :: bool
  co_closed :: bool
  co_results :: "(string \<times> bool) list"

definition new_projectState :: projectState where
  "new_projectState = \<lparr>ps_armed = False, ps_stale = 0, ps_fired = 0, ps_running = False,
                       ps_pending = False, ps_worker = None, ps_dirty = False\<rparr>"

definition NewCoordinator :: "int \<Rightarrow> int \<Rightarrow> Coordinator" where
  "NewCoordinator maxConcurrent debounce =
     \<lparr>co_max = (if maxConcurrent < 1 then 1 else nat maxConcurrent),
      co_debounce = (if debounce < 0 then 0 else debounce),
      co_permits = 0, co_projects = (\<lambda>_. None), co_cancelled = False, co_closed = False,
      co_results = []\<rparr>"

definition set_project :: "string \<Rightarrow> projectState \<Rightarrow> Coordinator \<Rightarrow> Coordinator" where
  "set_project ident p c = c\<lparr>co_projects := (co_projects c)(ident \<mapsto> p)\<rparr>"

section \<open>Methods\<close>

text \<open>Assigning a fresh timer to \<^verbatim>\<open>p.timer\<close> without stopping the old one.\<close>

definition arm :: "projectState \<Rightarrow> projectState" where
  "arm p = p\<lparr>ps_stale := (if ps_armed p then Suc (ps_stale p) else ps_stale p), ps_armed := True\<rparr>"

text \<open>\<^verbatim>\<open>p.timer.Stop()\<close>: it only has an effect on a timer that has not fired.\<close>

definition stop_timer :: "projectState \<Rightarrow> projectState" where
  "stop_timer p = p\<lparr>ps_armed := False\<rparr>"

definition Invalidate :: "string \<Rightarrow> Coordinator \<Rightarrow> Coordinator" where
  "Invalidate ident c =
     (if ident = '''' then c
      else if co_closed c then c
      else let p = (case co_projects c ident of None \<Rightarrow> new_projectState | Some p \<Rightarrow> p)
           in if ps_running p then set_project ident (p\<lparr>ps_pending := True, ps_dirty := True\<rparr>) c
              else set_project ident ((arm (stop_timer p))\<lparr>ps_dirty := True\<rparr>) c)"

text \<open>\<^verbatim>\<open>start\<close> up to the creation of the goroutine, run by a callback that has fired.\<close>

definition start :: "string \<Rightarrow> Coordinator \<Rightarrow> Coordinator" where
  "start ident c =
     (case co_projects c ident of
        None \<Rightarrow> c
      | Some p0 \<Rightarrow>
          let p = p0\<lparr>ps_fired := ps_fired p0 - 1\<rparr>
          in if co_closed c \<or> ps_running p then set_project ident p c
             else set_project ident
                    (p\<lparr>ps_armed := False,
                       ps_stale := (if ps_armed p then Suc (ps_stale p) else ps_stale p),
                       ps_running := True, ps_worker := Some Waiting, ps_dirty := False\<rparr>) c)"

definition finish :: "string \<Rightarrow> Coordinator \<Rightarrow> Coordinator" where
  "finish ident c =
     (case co_projects c ident of
        None \<Rightarrow> c
      | Some p0 \<Rightarrow>
          let p = p0\<lparr>ps_running := False\<rparr>
          in if ps_pending p \<and> \<not> co_cancelled c
             then set_project ident (arm (p\<lparr>ps_pending := False\<rparr>)) c
             else set_project ident p c)"

text \<open>The goroutine ends: \<^verbatim>\<open>finish\<close>, then the deferred \<^verbatim>\<open>wg.Done\<close>.\<close>

definition set_worker :: "string \<Rightarrow> worker option \<Rightarrow> Coordinator \<Rightarrow> Coordinator" where
  "set_worker ident w c =
     (case co_projects c ident of None \<Rightarrow> c | Some p \<Rightarrow> set_project ident (p\<lparr>ps_worker := w\<rparr>) c)"

definition worker_end :: "string \<Rightarrow> Coordinator \<Rightarrow> Coordinator" where
  "worker_end ident c = set_worker ident None (finish ident c)"

definition Close_cancel :: "Coordinator \<Rightarrow> Coordinator" where
  "Close_cancel c = c\<lparr>co_cancelled := True\<rparr>"

definition Close_stop :: "Coordinator \<Rightarrow> Coordinator" where
  "Close_stop c = c\<lparr>co_closed := True, co_projects := (\<lambda>i. map_option stop_timer (co_projects c i))\<rparr>"

section \<open>Steps\<close>

inductive coord_step :: "Coordinator \<Rightarrow> Coordinator \<Rightarrow> bool" where
  invalidate: "coord_step c (Invalidate ident c)"
| fire_current: "co_projects c ident = Some p \<Longrightarrow> ps_armed p \<Longrightarrow>
    coord_step c (set_project ident (p\<lparr>ps_armed := False, ps_fired := Suc (ps_fired p)\<rparr>) c)"
| fire_stale: "co_projects c ident = Some p \<Longrightarrow> 0 < ps_stale p \<Longrightarrow>
    coord_step c (set_project ident (p\<lparr>ps_stale := ps_stale p - 1, ps_fired := Suc (ps_fired p)\<rparr>) c)"
| callback: "co_projects c ident = Some p \<Longrightarrow> 0 < ps_fired p \<Longrightarrow> coord_step c (start ident c)"
| permit: "co_projects c ident = Some p \<Longrightarrow> ps_worker p = Some Waiting \<Longrightarrow> co_permits c < co_max c \<Longrightarrow>
    coord_step c (set_worker ident (Some Generating) (c\<lparr>co_permits := Suc (co_permits c)\<rparr>))"
| give_up: "co_projects c ident = Some p \<Longrightarrow> ps_worker p = Some Waiting \<Longrightarrow> co_cancelled c \<Longrightarrow>
    coord_step c (worker_end ident c)"
| generated: "co_projects c ident = Some p \<Longrightarrow> ps_worker p = Some Generating \<Longrightarrow>
    coord_step c (set_worker ident (Some Reporting)
      (c\<lparr>co_permits := co_permits c - 1, co_results := co_results c @ [(ident, failed)]\<rparr>))"
| ended: "co_projects c ident = Some p \<Longrightarrow> ps_worker p = Some Reporting \<Longrightarrow> coord_step c (worker_end ident c)"
| close_cancel: "coord_step c (Close_cancel c)"
| close_stop: "co_cancelled c \<Longrightarrow> coord_step c (Close_stop c)"

section \<open>The invariant\<close>

definition generating :: "Coordinator \<Rightarrow> string set" where
  "generating c = {i. \<exists>p. co_projects c i = Some p \<and> ps_worker p = Some Generating}"

definition project_good :: "bool \<Rightarrow> projectState \<Rightarrow> bool" where
  "project_good cancelled p \<longleftrightarrow>
     (ps_running p \<longleftrightarrow> ps_worker p \<noteq> None) \<and>
     (\<not> cancelled \<and> ps_dirty p \<longrightarrow>
        (if ps_running p then ps_pending p else ps_armed p \<or> 0 < ps_fired p))"

definition coord_good :: "nat \<Rightarrow> Coordinator \<Rightarrow> bool" where
  "coord_good m c \<longleftrightarrow>
     co_max c = m \<and> finite (generating c) \<and> co_permits c = card (generating c) \<and> co_permits c \<le> m \<and>
     (co_closed c \<longrightarrow> co_cancelled c) \<and>
     (\<forall>i p. co_projects c i = Some p \<longrightarrow> project_good (co_cancelled c) p)"

definition is_generating :: "projectState option \<Rightarrow> bool" where
  "is_generating po \<longleftrightarrow> (case po of None \<Rightarrow> False | Some p \<Rightarrow> ps_worker p = Some Generating)"

lemma generating_iff: "i \<in> generating c \<longleftrightarrow> is_generating (co_projects c i)"
  by (auto simp: generating_def is_generating_def split: option.splits)

lemma generating_set_project:
  "generating (set_project i p c) =
   (if ps_worker p = Some Generating then insert i (generating c) else generating c - {i})"
  by (auto simp: generating_iff set_project_def is_generating_def split: if_splits)

lemma set_project_simps [simp]:
  "co_max (set_project i p c) = co_max c" "co_permits (set_project i p c) = co_permits c"
  "co_cancelled (set_project i p c) = co_cancelled c" "co_closed (set_project i p c) = co_closed c"
  "co_projects (set_project i p c) = (co_projects c)(i \<mapsto> p)"
  by (simp_all add: set_project_def)

text \<open>Replacing one project's state by a good one that generates just when the old one did.\<close>

lemma good_set_project:
  assumes "coord_good m c" and "project_good (co_cancelled c) p"
    and "is_generating (Some p) \<longleftrightarrow> is_generating (co_projects c i)"
  shows "coord_good m (set_project i p c)"
proof -
  have "generating (set_project i p c) = generating c"
    using assms(3) generating_iff[of i c]
    by (auto simp: generating_set_project is_generating_def)
  with assms(1,2) show ?thesis by (auto simp: coord_good_def)
qed

lemma good_project: "coord_good m c \<Longrightarrow> co_projects c i = Some p \<Longrightarrow> project_good (co_cancelled c) p"
  by (auto simp: coord_good_def)

lemma good_Invalidate: "coord_good m c \<Longrightarrow> coord_good m (Invalidate i c)"
proof (cases "i = '''' \<or> co_closed c")
  case False
  let ?p = "case co_projects c i of None \<Rightarrow> new_projectState | Some p \<Rightarrow> p"
  assume good: "coord_good m c"
  have pg: "project_good (co_cancelled c) ?p"
    using good_project[OF good, of i] by (auto simp: project_good_def new_projectState_def split: option.split)
  have gen: "is_generating (Some ?p) \<longleftrightarrow> is_generating (co_projects c i)"
    by (auto simp: is_generating_def new_projectState_def split: option.split)
  show ?thesis
  proof (cases "ps_running ?p")
    case True
    have "coord_good m (set_project i (?p\<lparr>ps_pending := True, ps_dirty := True\<rparr>) c)"
      by (rule good_set_project[OF good]) (use pg gen True in \<open>auto simp: project_good_def is_generating_def\<close>)
    with True False show ?thesis by (simp add: Invalidate_def Let_def)
  next
    case nr: False
    have "coord_good m (set_project i ((arm (stop_timer ?p))\<lparr>ps_dirty := True\<rparr>) c)"
      by (rule good_set_project[OF good])
        (use pg gen nr in \<open>auto simp: project_good_def is_generating_def arm_def stop_timer_def\<close>)
    with nr False show ?thesis by (simp add: Invalidate_def Let_def)
  qed
qed (auto simp: Invalidate_def)

lemma good_start:
  assumes "coord_good m c"
  shows "coord_good m (start i c)"
proof (cases "co_projects c i")
  case (Some p)
  note pg = good_project[OF assms Some]
  show ?thesis
  proof (cases "co_closed c \<or> ps_running p")
    case True
    have "coord_good m (set_project i (p\<lparr>ps_fired := ps_fired p - 1\<rparr>) c)"
      by (rule good_set_project[OF assms])
        (use pg Some True assms in \<open>auto simp: project_good_def is_generating_def coord_good_def\<close>)
    with Some True show ?thesis by (auto simp: start_def Let_def)
  next
    case False
    then show ?thesis
      using Some pg
      by (auto simp: start_def Let_def project_good_def is_generating_def intro!: good_set_project[OF assms])
  qed
qed (simp add: start_def assms)

text \<open>The end of a goroutine that does not hold a permit.\<close>

lemma good_worker_end:
  assumes good: "coord_good m c" and p: "co_projects c i = Some p" "ps_worker p \<noteq> Some Generating" "ps_worker p \<noteq> None"
  shows "coord_good m (worker_end i c)"
proof -
  note pg = good_project[OF good p(1)]
  let ?q = "if ps_pending p \<and> \<not> co_cancelled c then arm (p\<lparr>ps_running := False, ps_pending := False\<rparr>)
            else p\<lparr>ps_running := False\<rparr>"
  have "worker_end i c = set_project i (?q\<lparr>ps_worker := None\<rparr>) c"
    using p by (simp add: worker_end_def finish_def set_worker_def Let_def set_project_def)
  moreover have "coord_good m (set_project i (?q\<lparr>ps_worker := None\<rparr>) c)"
    by (rule good_set_project[OF good])
      (use pg p in \<open>auto simp: project_good_def is_generating_def arm_def\<close>)
  ultimately show ?thesis by simp
qed

lemma good_permit:
  assumes good: "coord_good m c" and p: "co_projects c i = Some p" "ps_worker p = Some Waiting"
    and "co_permits c < co_max c"
  shows "coord_good m (set_worker i (Some Generating) (c\<lparr>co_permits := Suc (co_permits c)\<rparr>))"
proof -
  have "i \<notin> generating c" using p by (simp add: generating_iff is_generating_def)
  moreover have "generating (c\<lparr>co_permits := k\<rparr>) = generating c" for k by (simp add: generating_def)
  moreover have "project_good (co_cancelled c) p" using good_project[OF good p(1)] .
  ultimately show ?thesis
    using assms by (auto simp: set_worker_def coord_good_def generating_set_project project_good_def)
qed

lemma good_generated:
  assumes good: "coord_good m c" and p: "co_projects c i = Some p" "ps_worker p = Some Generating"
  shows "coord_good m (set_worker i (Some Reporting) (c\<lparr>co_permits := co_permits c - 1, co_results := rs\<rparr>))"
proof -
  have "i \<in> generating c" using p by (simp add: generating_iff is_generating_def)
  moreover have "generating (c\<lparr>co_permits := k, co_results := rs\<rparr>) = generating c" for k
    by (simp add: generating_def)
  moreover have "project_good (co_cancelled c) p" using good_project[OF good p(1)] .
  ultimately show ?thesis
    using assms by (auto simp: set_worker_def coord_good_def generating_set_project project_good_def card_Diff_singleton)
qed

lemma good_Close_stop:
  assumes "coord_good m c" "co_cancelled c"
  shows "coord_good m (Close_stop c)"
proof -
  have "generating (Close_stop c) = generating c"
    by (auto simp: generating_iff Close_stop_def is_generating_def stop_timer_def split: option.splits)
  with assms show ?thesis
    by (auto simp: coord_good_def Close_stop_def project_good_def stop_timer_def)
qed

lemma coord_good_step:
  assumes "coord_good m c" and "coord_step c c'"
  shows "coord_good m c'"
  using assms(2)
proof cases
  case (fire_current i p)
  with good_project[OF assms(1)] show ?thesis
    by (auto simp: project_good_def is_generating_def intro!: good_set_project[OF assms(1)])
next
  case (fire_stale i p)
  with good_project[OF assms(1)] show ?thesis
    by (auto simp: project_good_def is_generating_def intro!: good_set_project[OF assms(1)])
next
  case close_cancel
  have "generating (Close_cancel c) = generating c" by (simp add: generating_def Close_cancel_def)
  with close_cancel assms(1) show ?thesis by (auto simp: coord_good_def Close_cancel_def project_good_def)
next
  case (generated i p failed)
  with good_generated[OF assms(1)] show ?thesis by simp
qed (use assms(1) in \<open>auto intro: good_Invalidate good_start good_permit good_worker_end good_Close_stop\<close>)

definition coord_init :: "int \<Rightarrow> int \<Rightarrow> Coordinator \<Rightarrow> bool" where
  "coord_init m d c \<longleftrightarrow> c = NewCoordinator m d"

interpretation coordinator: invariant_system "coord_init m d" coord_step "coord_good (max 1 (nat m))"
  for m d :: int
proof
  show "coord_init m d c \<Longrightarrow> coord_good (max 1 (nat m)) c" for c
    by (auto simp: coord_init_def NewCoordinator_def coord_good_def generating_def)
qed (rule coord_good_step)

text \<open>
  C13. In every reachable state of the coordinator the permits in use are exactly the projects that
  are generating, at most \<^verbatim>\<open>maxConcurrent\<close> (at least one) of them; a project is marked running
  just while it has a goroutine, so two generations of one project never overlap; and no
  invalidation is lost: until the context is cancelled, a project invalidated since its last
  generation began is either pending behind the running one or has a timer or callback that will
  start the next one.
\<close>

theorem coordinator_safe:
  assumes "coord_step\<^sup>*\<^sup>* (NewCoordinator m d) c"
  shows "co_permits c = card (generating c) \<and> card (generating c) \<le> max 1 (nat m) \<and>
    (\<forall>i p. co_projects c i = Some p \<longrightarrow>
       (ps_running p \<longleftrightarrow> ps_worker p \<noteq> None) \<and>
       (\<not> co_cancelled c \<and> ps_dirty p \<longrightarrow>
          (if ps_running p then ps_pending p else ps_armed p \<or> 0 < ps_fired p)))"
proof -
  have "coord_good (max 1 (nat m)) c"
    by (rule coordinator.run_good[OF assms, of m d]) (simp add: coord_init_def)
  then show ?thesis by (auto simp: coord_good_def project_good_def)
qed

lemma NewCoordinator_simps [simp]:
  "co_projects (NewCoordinator m d) = (\<lambda>_. None)" "co_closed (NewCoordinator m d) = False"
  "co_cancelled (NewCoordinator m d) = False" "co_permits (NewCoordinator m d) = 0"
  "co_max (NewCoordinator m d) = (if m < 1 then 1 else nat m)"
  by (simp_all add: NewCoordinator_def)

theorem coordinator_safe_witness:
  "card (generating (Invalidate ''Game'' (NewCoordinator 0 5))) \<le> 1 \<and>
   map_option ps_armed (co_projects (Invalidate ''Game'' (NewCoordinator 0 5)) ''Game'') = Some True"
proof -
  have "coord_step\<^sup>*\<^sup>* (NewCoordinator 0 5) (Invalidate ''Game'' (NewCoordinator 0 5))"
    by (rule r_into_rtranclp) (rule invalidate)
  from coordinator_safe[OF this] show ?thesis
    by (simp add: Invalidate_def Let_def arm_def stop_timer_def new_projectState_def)
qed

section \<open>Every invalidation can be served\<close>

lemma coord_good_steps: "coord_step\<^sup>*\<^sup>* c c' \<Longrightarrow> coord_good m c \<Longrightarrow> coord_good m c'"
  by (induction rule: rtranclp_induct) (auto intro: coord_good_step)

lemma obtain_permit:
  assumes good: "coord_good m c" and m: "0 < m"
    and p: "co_projects c i = Some p" "ps_worker p = Some Waiting"
  shows "\<exists>c'. coord_step\<^sup>*\<^sup>* c c' \<and> co_projects c' i = Some (p\<lparr>ps_worker := Some Generating\<rparr>) \<and>
    co_cancelled c' = co_cancelled c"
proof -
  have free: "\<exists>c'. coord_step c c' \<and> co_projects c' i = Some (p\<lparr>ps_worker := Some Generating\<rparr>) \<and>
      co_cancelled c' = co_cancelled c"
    if "co_permits c < co_max c" "co_projects c i = Some p" for c
    by (rule exI, rule conjI, rule permit[OF that(2) p(2) that(1)])
      (use that in \<open>simp add: set_worker_def set_project_def\<close>)
  show ?thesis
  proof (cases "co_permits c < co_max c")
    case True
    with free[OF True p(1)] show ?thesis by blast
  next
    case False
    with good m have "generating c \<noteq> {}" by (auto simp: coord_good_def)
    then obtain j q where j: "co_projects c j = Some q" "ps_worker q = Some Generating"
      by (auto simp: generating_def)
    let ?c = "set_worker j (Some Reporting) (c\<lparr>co_permits := co_permits c - 1, co_results := co_results c @ [(j, False)]\<rparr>)"
    have s: "coord_step c ?c" by (rule generated[OF j])
    have "i \<noteq> j" using p j by auto
    then have "co_projects ?c i = Some p" "co_permits ?c < co_max ?c" "co_cancelled ?c = co_cancelled c"
      using p j good m by (auto simp: set_worker_def set_project_def coord_good_def)
    with free[of ?c] s show ?thesis by (metis converse_rtranclp_into_rtranclp r_into_rtranclp)
  qed
qed

definition begins :: "string \<Rightarrow> Coordinator \<Rightarrow> bool" where
  "begins i c \<longleftrightarrow> (\<exists>p. co_projects c i = Some p \<and> ps_worker p = Some Generating \<and> \<not> ps_dirty p)"

lemma serve_fired:
  assumes good: "coord_good m c" and m: "0 < m" and open_c: "\<not> co_cancelled c"
    and p: "co_projects c i = Some p" "\<not> ps_running p" "0 < ps_fired p"
  shows "\<exists>c'. coord_step\<^sup>*\<^sup>* c c' \<and> begins i c'"
proof -
  have nc: "\<not> co_closed c" using good open_c by (auto simp: coord_good_def)
  have s: "coord_step c (start i c)" by (rule callback[OF p(1,3)])
  obtain q where q: "co_projects (start i c) i = Some q" "ps_worker q = Some Waiting" "\<not> ps_dirty q"
    using p nc by (simp add: start_def Let_def)
  from obtain_permit[OF coord_good_step[OF good s] m q(1,2)] q(3) s
  show ?thesis unfolding begins_def
    by (metis (no_types, lifting) converse_rtranclp_into_rtranclp projectState.select_convs(6,7)
        projectState.simps(13) projectState.surjective projectState.update_convs(6))
qed

lemma serve_idle:
  assumes good: "coord_good m c" and m: "0 < m" and open_c: "\<not> co_cancelled c"
    and p: "co_projects c i = Some p" "\<not> ps_running p" "ps_armed p \<or> 0 < ps_fired p"
  shows "\<exists>c'. coord_step\<^sup>*\<^sup>* c c' \<and> begins i c'"
proof (cases "0 < ps_fired p")
  case True
  with serve_fired[OF good m open_c p(1,2)] show ?thesis .
next
  case False
  with p have armed: "ps_armed p" by simp
  let ?q = "p\<lparr>ps_armed := False, ps_fired := Suc (ps_fired p)\<rparr>"
  have s: "coord_step c (set_project i ?q c)" by (rule fire_current[OF p(1) armed])
  from serve_fired[OF coord_good_step[OF good s] m, of i ?q] open_c p(2)
  obtain c' where "coord_step\<^sup>*\<^sup>* (set_project i ?q c) c'" "begins i c'" by auto
  with s show ?thesis by (meson converse_rtranclp_into_rtranclp)
qed

lemma serve_reporting:
  assumes good: "coord_good m c" and m: "0 < m" and open_c: "\<not> co_cancelled c"
    and p: "co_projects c i = Some p" "ps_worker p = Some Reporting" "ps_pending p"
  shows "\<exists>c'. coord_step\<^sup>*\<^sup>* c c' \<and> begins i c'"
proof -
  have s: "coord_step c (worker_end i c)" by (rule ended[OF p(1,2)])
  obtain q where q: "co_projects (worker_end i c) i = Some q" "\<not> ps_running q" "ps_armed q"
    and o': "\<not> co_cancelled (worker_end i c)"
    using p open_c by (simp add: worker_end_def finish_def set_worker_def Let_def arm_def)
  from serve_idle[OF coord_good_step[OF good s] m o' q(1,2)] q(3) s
  show ?thesis by (meson converse_rtranclp_into_rtranclp)
qed

lemma serve_generating:
  assumes good: "coord_good m c" and m: "0 < m" and open_c: "\<not> co_cancelled c"
    and p: "co_projects c i = Some p" "ps_worker p = Some Generating" "ps_pending p"
  shows "\<exists>c'. coord_step\<^sup>*\<^sup>* c c' \<and> begins i c'"
proof -
  let ?c = "set_worker i (Some Reporting) (c\<lparr>co_permits := co_permits c - 1, co_results := co_results c @ [(i, False)]\<rparr>)"
  have s: "coord_step c ?c" by (rule generated[OF p(1,2)])
  obtain q where q: "co_projects ?c i = Some q" "ps_worker q = Some Reporting" "ps_pending q"
    and o': "\<not> co_cancelled ?c"
    using p open_c by (simp add: set_worker_def)
  from serve_reporting[OF coord_good_step[OF good s] m o' q] s
  show ?thesis by (meson converse_rtranclp_into_rtranclp)
qed

text \<open>
  C14. From every reachable state whose context is not cancelled, a project with an unserved
  invalidation can be brought to a generation that begins after that invalidation, without any
  further invalidation: goroutines waiting for permits, replaced timers and queued callbacks
  never block it.
\<close>

theorem invalidation_served:
  assumes run: "coord_step\<^sup>*\<^sup>* (NewCoordinator m d) c" and "\<not> co_cancelled c"
    and p: "co_projects c i = Some p" "ps_dirty p"
  shows "\<exists>c'. coord_step\<^sup>*\<^sup>* c c' \<and> begins i c'"
proof -
  have pos: "0 < max 1 (nat m)" by simp
  have good: "coord_good (max 1 (nat m)) c"
    by (rule coordinator.run_good[OF run, of m d]) (simp add: coord_init_def)
  note pg = good_project[OF good p(1)]
  show ?thesis
  proof (cases "ps_worker p")
    case None
    with pg assms serve_idle[OF good pos] show ?thesis by (auto simp: project_good_def)
  next
    case (Some w)
    with pg assms have pend: "ps_pending p" by (auto simp: project_good_def)
    show ?thesis
    proof (cases w)
      case Waiting
      with Some obtain_permit[OF good pos p(1)] obtain c1 where
        c1: "coord_step\<^sup>*\<^sup>* c c1" "co_projects c1 i = Some (p\<lparr>ps_worker := Some Generating\<rparr>)"
          "co_cancelled c1 = co_cancelled c" by blast
      with serve_generating[OF coord_good_steps[OF c1(1) good] pos _ c1(2)] pend assms(2)
      show ?thesis by (auto intro: rtranclp_trans)
    next
      case Generating
      with Some pend assms(2) show ?thesis by (intro serve_generating[OF good pos _ p(1)]) auto
    next
      case Reporting
      with Some pend assms(2) show ?thesis by (intro serve_reporting[OF good pos _ p(1)]) auto
    qed
  qed
qed

theorem invalidation_served_witness:
  "\<exists>c'. coord_step\<^sup>*\<^sup>* (Invalidate ''Game'' (NewCoordinator 2 5)) c' \<and> begins ''Game'' c'"
proof -
  have "coord_step\<^sup>*\<^sup>* (NewCoordinator 2 5) (Invalidate ''Game'' (NewCoordinator 2 5))"
    by (rule r_into_rtranclp) (rule invalidate)
  then show ?thesis
  proof (rule invalidation_served)
    show "\<not> co_cancelled (Invalidate ''Game'' (NewCoordinator 2 5))"
      and "co_projects (Invalidate ''Game'' (NewCoordinator 2 5)) ''Game'' =
        Some (new_projectState\<lparr>ps_armed := True, ps_dirty := True\<rparr>)"
      and "ps_dirty (new_projectState\<lparr>ps_armed := True, ps_dirty := True\<rparr>)"
      by (simp_all add: Invalidate_def Let_def arm_def stop_timer_def new_projectState_def)
  qed
qed

section \<open>After Close\<close>

definition all_idle :: "Coordinator \<Rightarrow> bool" where
  "all_idle c \<longleftrightarrow> (\<forall>i p. co_projects c i = Some p \<longrightarrow> ps_worker p = None)"

lemma closed_step:
  assumes "co_closed c \<and> all_idle c \<and> co_results c = rs" and "coord_step c c'"
  shows "co_closed c' \<and> all_idle c' \<and> co_results c' = rs"
  using assms(2,1)
  by cases (auto simp: all_idle_def Invalidate_def start_def Let_def set_project_def Close_cancel_def
      Close_stop_def stop_timer_def split: option.splits if_splits)

lemma closed_steps:
  "coord_step\<^sup>*\<^sup>* c c' \<Longrightarrow> co_closed c \<and> all_idle c \<Longrightarrow>
   co_closed c' \<and> all_idle c' \<and> co_results c' = co_results c"
proof (induction rule: rtranclp_induct)
  case (step y z)
  then show ?case using closed_step[of y "co_results c" z] by blast
qed simp

text \<open>
  Once \<^verbatim>\<open>Close\<close> has returned (the coordinator is closed and its wait group is empty), no
  generation ever begins and no result is ever reported, whatever invalidations, late timers or
  queued callbacks still arrive.
\<close>

theorem closed_is_final:
  assumes "co_closed c" "all_idle c" and "coord_step\<^sup>*\<^sup>* c c'"
  shows "all_idle c' \<and> co_results c' = co_results c"
  using closed_steps[OF assms(3)] assms(1,2) by blast

theorem closed_is_final_witness:
  "all_idle (Invalidate ''Game'' (Close_stop (Close_cancel (NewCoordinator 2 5))))"
proof -
  let ?c = "Close_stop (Close_cancel (NewCoordinator 2 5))"
  have "co_closed ?c" "all_idle ?c" by (simp_all add: Close_stop_def Close_cancel_def all_idle_def)
  moreover have "coord_step\<^sup>*\<^sup>* ?c (Invalidate ''Game'' ?c)"
    by (rule r_into_rtranclp) (rule invalidate)
  ultimately show ?thesis by (rule closed_is_final[THEN conjunct1])
qed

end
