(* ===== verification/Watcher.thy ===== *)
theory Watcher
  imports Paths
begin

text \<open>
  Translating file-system events (\<^verbatim>\<open>internal/watch/classify.go\<close>, \<^verbatim>\<open>watcher.go\<close>, the interface of
  \<^verbatim>\<open>backend.go\<close> and the walking backend of \<^verbatim>\<open>backend_other.go\<close>): which events renew a compilation
  database, which are source edits, which directories are watched.  An fsnotify operation mask is
  the set of its bits.  \<^verbatim>\<open>os.Stat\<close> and the native backend's \<^verbatim>\<open>Add\<close> are arguments.  The calls the
  watcher makes on its coordinator, its source-write callback and its backend are logged in its
  state in the order they happen.
\<close>

section \<open>Classification\<close>

datatype fs_op = Create | Write | Remove | Rename | Chmod

definition isSourceFile :: "string \<Rightarrow> bool" where
  "isSourceFile name \<longleftrightarrow> to_lower (path_ext name) \<in>
     {''.c'', ''.cc'', ''.cpp'', ''.cxx'', ''.h'', ''.hh'', ''.hpp'', ''.hxx'', ''.inl''}"

definition RequiresCompDB :: "string \<Rightarrow> fs_op set \<Rightarrow> bool" where
  "RequiresCompDB path op_bits =
     (let p = to_lower (to_slash path); base = path_base p
      in if has_suffix base ''.build.cs'' \<or> has_suffix base ''.target.cs'' \<or>
            has_suffix base ''.uproject'' \<or> has_suffix base ''.uplugin'' then True
         else if \<not> isSourceFile base then False
         else op_bits \<inter> {Create, Remove, Rename} \<noteq> {})"

definition IgnoredDirectory :: "string \<Rightarrow> bool" where
  "IgnoredDirectory path \<longleftrightarrow>
     (\<exists>segment \<in> set (split_on sep (to_lower (to_slash path))).
        segment \<in> {''binaries'', ''intermediate'', ''saved'', ''deriveddatacache'', ''.git''})"

section \<open>State\<close>

record ProjectRoots =
  root_ID :: string
  ProjectRoot :: string
  EngineRoot :: string

record SourceWrite =
  sw_ProjectID :: string
  sw_Path :: string
  sw_Removed :: bool
  sw_ChangeType :: int

record WatchSpec =
  spec_Root :: string
  spec_Recursive :: bool

record fs_event =
  ev_Name :: string
  ev_Op :: "fs_op set"

datatype stat_result = StatDir | StatFile | StatMissing | StatError

datatype watch_error = ErrWatcherClosed | ErrIDAndRootRequired | ErrCanonical | ErrStat | ErrNative string

text \<open>
  \<open>w_dirs\<close> is the set of watched roots (\<^verbatim>\<open>sync.Map\<close>), \<open>w_error\<close> the one error kept by \<^verbatim>\<open>failOnce\<close>;
  the last three fields log the calls made.
\<close>

record Watcher =
  w_dirs :: "string list"
  w_projects :: "ProjectRoots list"
  w_closed :: bool
  w_error :: "watch_error option"
  w_invalidated :: "string list"
  w_writes :: "SourceWrite list"
  w_removed :: "string list"

text \<open>The environment: whether there is a coordinator and a write callback, the file system, and
  the native backend's answer to \<^verbatim>\<open>Add\<close>.\<close>

record watch_env =
  has_coordinator :: bool
  has_sourceWrite :: bool
  os_Stat :: "string \<Rightarrow> stat_result"
  native_Add :: "WatchSpec \<Rightarrow> bool"
  watch_paths :: path_env

section \<open>Roots and directories\<close>

definition contains :: "string \<Rightarrow> string \<Rightarrow> bool" where
  "contains root path =
     (case path_rel root path of
        None \<Rightarrow> False
      | Some relative \<Rightarrow>
          if is_abs relative \<or> relative = ''..'' then False else \<not> has_prefix relative ''../'')"

lemma contains_rel_inside: "contains root path = rel_inside (path_rel root path)"
  by (auto simp: contains_def rel_inside_def split: option.split)

interpretation watch_contains: containment "\<lambda>path root. contains root path"
  by unfold_locales (simp add: contains_rel_inside rel_inside_iff_prefix)

definition canonicalRoot :: "path_env \<Rightarrow> string \<Rightarrow> watch_error + string" where
  "canonicalRoot env root =
     (case go_abs env root of
        None \<Rightarrow> Inl ErrCanonical
      | Some absolute \<Rightarrow>
          Inr (path_clean (case EvalSymlinks env absolute of Some r \<Rightarrow> r | None \<Rightarrow> absolute)))"

definition projectsFor :: "Watcher \<Rightarrow> string \<Rightarrow> string list" where
  "projectsFor w path =
     map root_ID (filter (\<lambda>p. contains (ProjectRoot p) path \<or>
        (EngineRoot p \<noteq> '''' \<and> contains (EngineRoot p) path)) (w_projects w))"

definition relevant_under :: "string \<Rightarrow> string \<Rightarrow> bool" where
  "relevant_under root path =
     (if root = '''' then False
      else case path_rel root path of
          None \<Rightarrow> False
        | Some rel \<Rightarrow>
            if rel = ''..'' \<or> is_abs rel then False
            else to_lower (hd (split_on sep (to_slash rel))) \<in> {''source'', ''plugins'', ''config''})"

definition isRelevantDirectory :: "Watcher \<Rightarrow> string \<Rightarrow> bool" where
  "isRelevantDirectory w path \<longleftrightarrow>
     (\<exists>p \<in> set (w_projects w). \<exists>root \<in> {ProjectRoot p, EngineRoot p}. relevant_under root path)"

definition isRelevantRootDirectory :: "Watcher \<Rightarrow> string \<Rightarrow> bool" where
  "isRelevantRootDirectory w path \<longleftrightarrow>
     (\<exists>p \<in> set (w_projects w). \<exists>root \<in> {ProjectRoot p, EngineRoot p}. root \<noteq> '''' \<and>
        (\<exists>name \<in> {''Source'', ''Plugins'', ''Config''}. equal_fold (path_clean path) (path_join2 root name)))"

definition isWatchedDirectory :: "Watcher \<Rightarrow> string \<Rightarrow> bool" where
  "isWatchedDirectory w path \<longleftrightarrow> path_clean path \<in> set (w_dirs w)"

section \<open>Operations\<close>

definition addRoot :: "watch_env \<Rightarrow> WatchSpec \<Rightarrow> Watcher \<Rightarrow> (watch_error + unit) \<times> Watcher" where
  "addRoot env spec w =
     (let path = path_clean (spec_Root spec) in
      if IgnoredDirectory path then (Inr (), w)
      else if path \<in> set (w_dirs w) then (Inr (), w)
      else if native_Add env (spec\<lparr>spec_Root := path\<rparr>) then (Inr (), w\<lparr>w_dirs := path # w_dirs w\<rparr>)
      else (Inl (ErrNative path), w))"

definition addTree :: "watch_env \<Rightarrow> string \<Rightarrow> Watcher \<Rightarrow> (watch_error + unit) \<times> Watcher" where
  "addTree env root w = addRoot env \<lparr>spec_Root = root, spec_Recursive = True\<rparr> w"

fun addRelevant :: "watch_env \<Rightarrow> string \<Rightarrow> string list \<Rightarrow> Watcher \<Rightarrow> (watch_error + unit) \<times> Watcher" where
  "addRelevant env root [] w = (Inr (), w)"
| "addRelevant env root (name # names) w =
     (let path = path_join2 root name in
      case os_Stat env path of
        StatMissing \<Rightarrow> addRelevant env root names w
      | StatError \<Rightarrow> (Inl ErrStat, w)
      | _ \<Rightarrow> (case addRoot env \<lparr>spec_Root = path, spec_Recursive = True\<rparr> w of
               (Inl e, w') \<Rightarrow> (Inl e, w')
             | (Inr _, w') \<Rightarrow> addRelevant env root names w'))"

definition relevant_names :: "string list" where
  "relevant_names = [''Source'', ''Plugins'', ''Config'']"

definition addRelevantTrees :: "watch_env \<Rightarrow> string \<Rightarrow> Watcher \<Rightarrow> (watch_error + unit) \<times> Watcher" where
  "addRelevantTrees env root w = addRelevant env root relevant_names w"

text \<open>A root of a project: the root itself, then its relevant trees.\<close>

definition add_root_and_trees :: "watch_env \<Rightarrow> string \<Rightarrow> Watcher \<Rightarrow> (watch_error + unit) \<times> Watcher" where
  "add_root_and_trees env root w =
     (case addRoot env \<lparr>spec_Root = root, spec_Recursive = False\<rparr> w of
        (Inl e, w') \<Rightarrow> (Inl e, w')
      | (Inr _, w') \<Rightarrow> addRelevantTrees env root w')"

definition AddProject :: "watch_env \<Rightarrow> ProjectRoots \<Rightarrow> Watcher \<Rightarrow> (watch_error + unit) \<times> Watcher" where
  "AddProject env project w =
     (if w_closed w then (Inl ErrWatcherClosed, w)
      else if root_ID project = '''' \<or> ProjectRoot project = '''' then (Inl ErrIDAndRootRequired, w)
      else case canonicalRoot (watch_paths env) (ProjectRoot project) of Inl e \<Rightarrow> (Inl e, w) | Inr pr \<Rightarrow>
      case (if EngineRoot project = '''' then Inr ''''
            else case canonicalRoot (watch_paths env) (EngineRoot project) of
                Inl e \<Rightarrow> Inl e | Inr er \<Rightarrow> Inr (path_join2 er ''Engine'')) of Inl e \<Rightarrow> (Inl e, w) | Inr er \<Rightarrow>
      case add_root_and_trees env pr w of (Inl e, w1) \<Rightarrow> (Inl e, w1) | (Inr _, w1) \<Rightarrow>
      case (if er = '''' then (Inr (), w1) else add_root_and_trees env er w1) of
        (Inl e, w2) \<Rightarrow> (Inl e, w2)
      | (Inr _, w2) \<Rightarrow>
          (Inr (), w2\<lparr>w_projects := w_projects w2 @ [project\<lparr>ProjectRoot := pr, EngineRoot := er\<rparr>]\<rparr>))"

text \<open>\<^verbatim>\<open>fail\<close>: only the first error is kept.\<close>

definition fail :: "watch_error \<Rightarrow> Watcher \<Rightarrow> Watcher" where
  "fail e w = (case w_error w of None \<Rightarrow> w\<lparr>w_error := Some e\<rparr> | Some _ \<Rightarrow> w)"

definition removeTree :: "string \<Rightarrow> Watcher \<Rightarrow> Watcher" where
  "removeTree root0 w =
     (let root = path_clean root0 in
      w\<lparr>w_removed := w_removed w @ filter (contains root) (w_dirs w),
        w_dirs := filter (\<lambda>p. \<not> contains root p) (w_dirs w)\<rparr>)"

definition invalidate_all :: "watch_env \<Rightarrow> string list \<Rightarrow> Watcher \<Rightarrow> Watcher" where
  "invalidate_all env ids w =
     (if has_coordinator env then w\<lparr>w_invalidated := w_invalidated w @ ids\<rparr> else w)"

text \<open>The source-write callback for every project of the event.\<close>

definition report_writes :: "watch_env \<Rightarrow> fs_event \<Rightarrow> string list \<Rightarrow> Watcher \<Rightarrow> Watcher" where
  "report_writes env event ids w =
     (if isSourceFile (path_base (ev_Name event)) \<and>
         ev_Op event \<inter> {Write, Create, Remove, Rename} \<noteq> {} \<and> has_sourceWrite env
      then let removed = (ev_Op event \<inter> {Remove, Rename} \<noteq> {} \<and> os_Stat env (ev_Name event) = StatMissing);
               changeType = (if ev_Op event \<inter> {Create, Rename} \<noteq> {} \<and> \<not> removed then 1
                             else if removed then 3 else 2)
           in w\<lparr>w_writes := w_writes w @
                  map (\<lambda>i. \<lparr>sw_ProjectID = i, sw_Path = ev_Name event, sw_Removed = removed,
                           sw_ChangeType = changeType\<rparr>) ids\<rparr>
      else w)"

definition is_new_directory :: "watch_env \<Rightarrow> Watcher \<Rightarrow> fs_event \<Rightarrow> bool" where
  "is_new_directory env w event \<longleftrightarrow>
     ev_Op event \<inter> {Create, Rename} \<noteq> {} \<and> os_Stat env (ev_Name event) = StatDir \<and>
     isRelevantDirectory w (ev_Name event)"

definition handleEvent :: "watch_env \<Rightarrow> fs_event \<Rightarrow> Watcher \<Rightarrow> Watcher" where
  "handleEvent env event w =
     (if IgnoredDirectory (ev_Name event) then w
      else let ids = projectsFor w (ev_Name event) in
        if is_new_directory env w event then
          (if isRelevantRootDirectory w (ev_Name event) then
             (case addTree env (ev_Name event) w of
                (Inl e, w') \<Rightarrow> fail e w'
              | (Inr _, w') \<Rightarrow> invalidate_all env ids w')
           else invalidate_all env ids w)
        else let w1 = report_writes env event ids w in
          if RequiresCompDB (ev_Name event) (ev_Op event) \<and> has_coordinator env
          then invalidate_all env ids w1
          else if ev_Op event \<inter> {Remove, Rename} \<noteq> {} \<and> isRelevantDirectory w1 (ev_Name event) then
            invalidate_all env ids
              (if isWatchedDirectory w1 (ev_Name event) then removeTree (ev_Name event) w1 else w1)
          else w1)"

definition Watcher_Close :: "Watcher \<Rightarrow> Watcher" where
  "Watcher_Close w = w\<lparr>w_closed := True\<rparr>"

section \<open>The walking backend\<close>

text \<open>
  \<^verbatim>\<open>filepath.WalkDir\<close> over a directory tree: \<open>Unreadable\<close> is an entry whose walk reports an error.
  The result is the watched directories, or \<open>None\<close> when the walk stops on an error; the native
  \<^verbatim>\<open>Add\<close> of one directory is the argument.
\<close>

datatype entry = FileEntry string | DirEntry string "entry list" | Unreadable string

fun walk_add :: "(string \<Rightarrow> bool) \<Rightarrow> bool \<Rightarrow> string \<Rightarrow> entry \<Rightarrow> string list option"
  and walk_children :: "(string \<Rightarrow> bool) \<Rightarrow> string \<Rightarrow> entry list \<Rightarrow> string list option" where
  "walk_add add is_root path (FileEntry _) = Some []"
| "walk_add add is_root path (Unreadable _) = None"
| "walk_add add is_root path (DirEntry _ es) =
     (if \<not> is_root \<and> IgnoredDirectory path then Some []
      else if \<not> add path then None
      else case walk_children add path es of None \<Rightarrow> None | Some ps \<Rightarrow> Some (path # ps))"
| "walk_children add path [] = Some []"
| "walk_children add path (e # es) =
     (case walk_add add False
             (path_join2 path (case e of FileEntry n \<Rightarrow> n | DirEntry n _ \<Rightarrow> n | Unreadable n \<Rightarrow> n)) e of
        None \<Rightarrow> None
      | Some ps \<Rightarrow> (case walk_children add path es of None \<Rightarrow> None | Some qs \<Rightarrow> Some (ps @ qs)))"

definition backend_Add :: "(string \<Rightarrow> bool) \<Rightarrow> (string \<Rightarrow> entry) \<Rightarrow> WatchSpec \<Rightarrow> string list option" where
  "backend_Add add tree spec =
     (if \<not> spec_Recursive spec then (if add (spec_Root spec) then Some [spec_Root spec] else None)
      else walk_add add True (spec_Root spec) (tree (spec_Root spec)))"

section \<open>Effects of an event\<close>

lemma addRoot_log [simp]:
  "w_invalidated (snd (addRoot env spec w)) = w_invalidated w"
  "w_writes (snd (addRoot env spec w)) = w_writes w"
  "w_projects (snd (addRoot env spec w)) = w_projects w"
  "w_error (snd (addRoot env spec w)) = w_error w"
  by (simp_all add: addRoot_def Let_def)

lemma log_simps [simp]:
  "w_invalidated (fail e w) = w_invalidated w" "w_writes (fail e w) = w_writes w"
  "w_invalidated (removeTree r w) = w_invalidated w" "w_writes (removeTree r w) = w_writes w"
  "w_writes (invalidate_all env ids w) = w_writes w"
  "w_invalidated (invalidate_all env ids w) = w_invalidated w @ (if has_coordinator env then ids else [])"
  "w_invalidated (report_writes env ev ids w) = w_invalidated w"
  "w_projects (report_writes env ev ids w) = w_projects w"
  "w_dirs (report_writes env ev ids w) = w_dirs w"
  "w_dirs (invalidate_all env ids w) = w_dirs w" "w_dirs (fail e w) = w_dirs w"
  by (simp_all add: fail_def removeTree_def Let_def invalidate_all_def report_writes_def split: option.split)

lemma isRelevantDirectory_writes [simp]:
  "isRelevantDirectory (report_writes env ev ids w) path = isRelevantDirectory w path"
  by (simp add: isRelevantDirectory_def)

text \<open>A source file is never a build description, whose extensions are others.\<close>

lemma source_not_description:
  assumes "isSourceFile (path_base p)"
  shows "RequiresCompDB p bits \<longleftrightarrow> bits \<inter> {Create, Remove, Rename} \<noteq> {}"
proof -
  let ?b = "path_base (to_lower p)"
  have src: "isSourceFile ?b"
    using assms by (simp add: isSourceFile_def path_base_to_lower path_ext_to_lower)
  have no: "\<not> has_suffix ?b (d @ CHR ''.'' # e)"
    if "CHR ''.'' \<notin> set e" "sep \<notin> set e" "to_lower (CHR ''.'' # e) = CHR ''.'' # e"
      "CHR ''.'' # e \<notin> {''.c'', ''.cc'', ''.cpp'', ''.cxx'', ''.h'', ''.hh'', ''.hpp'', ''.hxx'', ''.inl''}" for d e
  proof
    assume "has_suffix ?b (d @ CHR ''.'' # e)"
    then obtain s where b: "?b = s @ d @ CHR ''.'' # e" by (auto simp: has_suffix_def suffix_def)
    have "path_ext ?b = CHR ''.'' # e"
      unfolding b using path_ext_suffix[OF that(1,2), of "s @ d"] by simp
    with src that show False by (simp add: isSourceFile_def)
  qed
  have t: "to_lower ''.cs'' = ''.cs''" "to_lower ''.uproject'' = ''.uproject''" "to_lower ''.uplugin'' = ''.uplugin''"
    by code_simp+
  have "\<not> has_suffix ?b ''.build.cs''" using no[of "''cs''" "''.build''"] t by simp
  moreover have "\<not> has_suffix ?b ''.target.cs''" using no[of "''cs''" "''.target''"] t by simp
  moreover have "\<not> has_suffix ?b ''.uproject''" using no[of "''uproject''" "''''"] t by simp
  moreover have "\<not> has_suffix ?b ''.uplugin''" using no[of "''uplugin''" "''''"] t by simp
  ultimately show ?thesis using src by (simp add: RequiresCompDB_def Let_def to_slash_def)
qed

text \<open>
  An ordinary save of a source file (a write or chmod without create, remove or rename, outside
  generated directories) never renews a compilation database: no project is invalidated, nothing
  is attached or detached, and every project that contains the file gets exactly one "changed"
  notification, in registration order, if there is a listener.
\<close>

theorem ordinary_edit_only_notifies:
  assumes "\<not> IgnoredDirectory (ev_Name ev)" and "ev_Op ev \<inter> {Create, Remove, Rename} = {}"
    and "Write \<in> ev_Op ev" and "isSourceFile (path_base (ev_Name ev))"
  shows "handleEvent env ev w =
    (if has_sourceWrite env
     then w\<lparr>w_writes := w_writes w @
            map (\<lambda>i. \<lparr>sw_ProjectID = i, sw_Path = ev_Name ev, sw_Removed = False, sw_ChangeType = 2\<rparr>)
              (projectsFor w (ev_Name ev))\<rparr>
     else w)"
proof -
  have none: "Create \<notin> ev_Op ev" "Remove \<notin> ev_Op ev" "Rename \<notin> ev_Op ev" using assms(2) by auto
  have "\<not> is_new_directory env w ev" using none by (simp add: is_new_directory_def)
  moreover have "\<not> RequiresCompDB (ev_Name ev) (ev_Op ev)"
    using source_not_description[OF assms(4)] assms(2) by blast
  moreover have "ev_Op ev \<inter> {Remove, Rename} = {}" "ev_Op ev \<inter> {Create, Rename} = {}"
    "ev_Op ev \<inter> {Write, Create, Remove, Rename} \<noteq> {}" using none assms(3) by auto
  ultimately show ?thesis
    using assms(1,4) by (simp add: handleEvent_def Let_def report_writes_def)
qed

definition sample_watch_env :: watch_env where
  "sample_watch_env = \<lparr>has_coordinator = True, has_sourceWrite = True, os_Stat = (\<lambda>_. StatFile),
     native_Add = (\<lambda>_. True), watch_paths = \<lparr>Getwd = None, EvalSymlinks = (\<lambda>_. None)\<rparr>\<rparr>"

definition sample_watcher :: Watcher where
  "sample_watcher = \<lparr>w_dirs = [''/g''],
     w_projects = [\<lparr>root_ID = ''G'', ProjectRoot = ''/g'', EngineRoot = ''''\<rparr>], w_closed = False,
     w_error = None, w_invalidated = [], w_writes = [], w_removed = []\<rparr>"

theorem ordinary_edit_only_notifies_witness:
  "w_writes (handleEvent sample_watch_env \<lparr>ev_Name = ''/g/Source/A.cpp'', ev_Op = {Write}\<rparr> sample_watcher) =
     [\<lparr>sw_ProjectID = ''G'', sw_Path = ''/g/Source/A.cpp'', sw_Removed = False, sw_ChangeType = 2\<rparr>]"
proof -
  let ?ev = "\<lparr>ev_Name = ''/g/Source/A.cpp'', ev_Op = {Write}\<rparr>"
  have i: "\<not> IgnoredDirectory (ev_Name ?ev)" by code_simp
  have s: "isSourceFile (path_base (ev_Name ?ev))" by code_simp
  have p: "projectsFor sample_watcher (ev_Name ?ev) = [''G'']" by code_simp
  have "handleEvent sample_watch_env ?ev sample_watcher =
     (if has_sourceWrite sample_watch_env
     then sample_watcher\<lparr>w_writes := w_writes sample_watcher @
            map (\<lambda>i. \<lparr>sw_ProjectID = i, sw_Path = ev_Name ?ev, sw_Removed = False, sw_ChangeType = 2\<rparr>)
              (projectsFor sample_watcher (ev_Name ?ev))\<rparr>
     else sample_watcher)"
    by (rule ordinary_edit_only_notifies[OF i _ _ s]) simp_all
  with p show ?thesis by (simp add: sample_watch_env_def sample_watcher_def)
qed

text \<open>When an event invalidates, it invalidates exactly the projects that contain its path.\<close>

definition attach_fails :: "watch_env \<Rightarrow> Watcher \<Rightarrow> string \<Rightarrow> bool" where
  "attach_fails env w path \<longleftrightarrow> isRelevantRootDirectory w path \<and> \<not> is_ok (fst (addTree env path w))"

definition invalidates :: "watch_env \<Rightarrow> Watcher \<Rightarrow> fs_event \<Rightarrow> bool" where
  "invalidates env w ev \<longleftrightarrow>
     has_coordinator env \<and> \<not> IgnoredDirectory (ev_Name ev) \<and>
     (if is_new_directory env w ev then \<not> attach_fails env w (ev_Name ev)
      else RequiresCompDB (ev_Name ev) (ev_Op ev) \<or>
           ev_Op ev \<inter> {Remove, Rename} \<noteq> {} \<and> isRelevantDirectory w (ev_Name ev))"

lemma addTree_log [simp]: "w_invalidated (snd (addTree env p w)) = w_invalidated w"
  by (simp add: addTree_def)

text \<open>
  An event invalidates either nothing or exactly the projects whose project or engine root
  contains its path, in registration order; it does so just when there is a coordinator, the path
  is outside the generated directories, and it is a new directory below a source root that could
  be attached, a change to the build model, or the disappearance of such a directory.
\<close>

theorem handleEvent_invalidates:
  "w_invalidated (handleEvent env ev w) =
     w_invalidated w @ (if invalidates env w ev then projectsFor w (ev_Name ev) else [])"
proof (cases "is_new_directory env w ev")
  case True
  obtain r w' where at: "addTree env (ev_Name ev) w = (r, w')" by fastforce
  with addTree_log[of env "ev_Name ev" w] have "w_invalidated w' = w_invalidated w" by simp
  with at True show ?thesis
    by (cases r) (auto simp: handleEvent_def Let_def invalidates_def attach_fails_def)
next
  case False
  then show ?thesis
    by (auto simp: handleEvent_def Let_def invalidates_def)
qed

section \<open>The watched directories\<close>

definition dirs_good :: "Watcher \<Rightarrow> bool" where
  "dirs_good w \<longleftrightarrow> distinct (w_dirs w) \<and> list_all (\<lambda>d. \<not> IgnoredDirectory d) (w_dirs w)"

lemma addRoot_dirs:
  "addRoot env spec w = (r, w') \<Longrightarrow>
   set (w_dirs w) \<subseteq> set (w_dirs w') \<and> (dirs_good w \<longrightarrow> dirs_good w') \<and> w_projects w' = w_projects w \<and>
   (is_ok r \<longrightarrow> IgnoredDirectory (path_clean (spec_Root spec)) \<or> path_clean (spec_Root spec) \<in> set (w_dirs w'))"
  by (auto simp: addRoot_def Let_def dirs_good_def split: if_splits)

lemma addRelevant_dirs:
  "addRelevant env root names w = (r, w') \<Longrightarrow>
   set (w_dirs w) \<subseteq> set (w_dirs w') \<and> (dirs_good w \<longrightarrow> dirs_good w') \<and> w_projects w' = w_projects w \<and>
   (is_ok r \<longrightarrow> (\<forall>n \<in> set names. os_Stat env (path_join2 root n) \<in> {StatDir, StatFile} \<longrightarrow>
      IgnoredDirectory (path_clean (path_join2 root n)) \<or> path_clean (path_join2 root n) \<in> set (w_dirs w')))"
proof (induction names arbitrary: w)
  case Nil
  then show ?case by simp
next
  case (Cons n names)
  let ?p = "path_join2 root n"
  show ?case
  proof (cases "os_Stat env ?p")
    case StatMissing
    with Cons show ?thesis by (simp add: Let_def)
  next
    case StatError
    with Cons.prems show ?thesis by (auto simp: Let_def)
  next
    case StatDir
    obtain r1 w1 where a: "addRoot env \<lparr>spec_Root = ?p, spec_Recursive = True\<rparr> w = (r1, w1)" by fastforce
    note d = addRoot_dirs[OF a]
    show ?thesis
    proof (cases r1)
      case (Inl e)
      with Cons.prems StatDir a d show ?thesis by (auto simp: Let_def)
    next
      case (Inr u)
      with Cons.prems StatDir a have "addRelevant env root names w1 = (r, w')" by (simp add: Let_def)
      from Cons.IH[OF this] d Inr show ?thesis by auto
    qed
  next
    case StatFile
    obtain r1 w1 where a: "addRoot env \<lparr>spec_Root = ?p, spec_Recursive = True\<rparr> w = (r1, w1)" by fastforce
    note d = addRoot_dirs[OF a]
    show ?thesis
    proof (cases r1)
      case (Inl e)
      with Cons.prems StatFile a d show ?thesis by (auto simp: Let_def)
    next
      case (Inr u)
      with Cons.prems StatFile a have "addRelevant env root names w1 = (r, w')" by (simp add: Let_def)
      from Cons.IH[OF this] d Inr show ?thesis by auto
    qed
  qed
qed

text \<open>What a root that was added covers.\<close>

definition covered :: "watch_env \<Rightarrow> string \<Rightarrow> Watcher \<Rightarrow> bool" where
  "covered env root w \<longleftrightarrow>
     (IgnoredDirectory (path_clean root) \<or> path_clean root \<in> set (w_dirs w)) \<and>
     (\<forall>n \<in> set relevant_names. os_Stat env (path_join2 root n) \<in> {StatDir, StatFile} \<longrightarrow>
        IgnoredDirectory (path_clean (path_join2 root n)) \<or> path_clean (path_join2 root n) \<in> set (w_dirs w))"

lemma covered_mono: "covered env root w \<Longrightarrow> set (w_dirs w) \<subseteq> set (w_dirs w') \<Longrightarrow> covered env root w'"
  unfolding covered_def by blast

lemma add_root_and_trees_dirs:
  assumes "add_root_and_trees env root w = (r, w')"
  shows "set (w_dirs w) \<subseteq> set (w_dirs w') \<and> (dirs_good w \<longrightarrow> dirs_good w') \<and> w_projects w' = w_projects w \<and>
    (is_ok r \<longrightarrow> covered env root w')"
proof -
  obtain r1 w1 where a: "addRoot env \<lparr>spec_Root = root, spec_Recursive = False\<rparr> w = (r1, w1)" by fastforce
  note d = addRoot_dirs[OF a]
  show ?thesis
  proof (cases r1)
    case (Inl e)
    with a d assms show ?thesis by (auto simp: add_root_and_trees_def)
  next
    case (Inr u)
    with a assms have "addRelevant env root relevant_names w1 = (r, w')"
      by (simp add: add_root_and_trees_def addRelevantTrees_def)
    note t = addRelevant_dirs[OF this]
    have "covered env root w'" if "is_ok r"
      unfolding covered_def
    proof (rule conjI)
      show "IgnoredDirectory (path_clean root) \<or> path_clean root \<in> set (w_dirs w')"
        using d Inr t by auto
      show "\<forall>n \<in> set relevant_names. os_Stat env (path_join2 root n) \<in> {StatDir, StatFile} \<longrightarrow>
        IgnoredDirectory (path_clean (path_join2 root n)) \<or> path_clean (path_join2 root n) \<in> set (w_dirs w')"
        using t that by blast
    qed
    then show ?thesis using t d by auto
  qed
qed

lemma AddProject_cases:
  assumes "AddProject env project w = (r, w')"
  shows "set (w_dirs w) \<subseteq> set (w_dirs w') \<and> (dirs_good w \<longrightarrow> dirs_good w') \<and>
    (case r of
       Inl e \<Rightarrow> w_projects w' = w_projects w
     | Inr u \<Rightarrow> \<exists>p. w_projects w' = w_projects w @ [p] \<and> root_ID p = root_ID project \<and>
                 covered env (ProjectRoot p) w' \<and> (EngineRoot p \<noteq> '''' \<longrightarrow> covered env (EngineRoot p) w'))"
proof (cases "w_closed w \<or> root_ID project = '''' \<or> ProjectRoot project = ''''")
  case True
  then have "\<exists>e. AddProject env project w = (Inl e, w)" by (auto simp: AddProject_def)
  with assms show ?thesis by auto
next
  case False
  let ?er = "if EngineRoot project = '''' then Inr ''''
            else case canonicalRoot (watch_paths env) (EngineRoot project) of
                Inl e \<Rightarrow> Inl e | Inr er \<Rightarrow> Inr (path_join2 er ''Engine'')"
  show ?thesis
  proof (cases "canonicalRoot (watch_paths env) (ProjectRoot project)")
    case (Inl e)
    with False assms show ?thesis by (auto simp: AddProject_def)
  next
    case pr: (Inr pr)
    show ?thesis
    proof (cases ?er)
      case (Inl e)
      with False pr assms show ?thesis by (auto simp: AddProject_def)
    next
      case er: (Inr er)
      obtain r1 w1 where a1: "add_root_and_trees env pr w = (r1, w1)" by fastforce
      note d1 = add_root_and_trees_dirs[OF a1]
      show ?thesis
      proof (cases r1)
        case (Inl e)
        with False pr er a1 d1 assms show ?thesis by (auto simp: AddProject_def)
      next
        case r1: (Inr u)
        obtain r2 w2 where a2: "(if er = '''' then (Inr (), w1) else add_root_and_trees env er w1) = (r2, w2)"
          by fastforce
        have d2: "set (w_dirs w1) \<subseteq> set (w_dirs w2)" "dirs_good w1 \<longrightarrow> dirs_good w2"
          "w_projects w2 = w_projects w1" "is_ok r2 \<longrightarrow> er \<noteq> '''' \<longrightarrow> covered env er w2"
          using a2 add_root_and_trees_dirs[of env er w1 r2 w2] by (auto split: if_splits)
        let ?w = "w2\<lparr>w_projects := w_projects w2 @ [project\<lparr>ProjectRoot := pr, EngineRoot := er\<rparr>]\<rparr>"
        have cov: "covered env pr w2" using d1 d2(1) r1 covered_mono by fastforce
        have w': "(r, w') = (case r2 of Inl e \<Rightarrow> (Inl e, w2) | Inr _ \<Rightarrow> (Inr (), ?w))"
          using False pr er a1 r1 a2 assms by (auto simp: AddProject_def split: sum.splits)
        show ?thesis
        proof (cases r2)
          case (Inl e)
          with w' d1 d2 show ?thesis by auto
        next
          case (Inr u)
          then have r: "r = Inr ()" "w' = ?w" using w' by simp_all
          have "dirs_good w \<longrightarrow> dirs_good w'" using d1 d2(2) by (simp add: r dirs_good_def)
          moreover have "covered env er w'" if "er \<noteq> ''''"
            using d2(4) Inr that by (simp add: r covered_def)
          moreover have "covered env pr w'" using cov by (simp add: r covered_def)
          ultimately show ?thesis using d1 d2(1,3) by (auto simp: r)
        qed
      qed
    qed
  qed
qed

lemma dirs_good_cong: "w_dirs w' = w_dirs w \<Longrightarrow> dirs_good w' = dirs_good w"
  by (simp add: dirs_good_def)

lemma dirs_good_removeTree: "dirs_good w \<Longrightarrow> dirs_good (removeTree r w)"
  by (auto simp: dirs_good_def removeTree_def Let_def list_all_iff)

lemma dirs_good_handleEvent: "dirs_good w \<Longrightarrow> dirs_good (handleEvent env ev w)"
proof (cases "is_new_directory env w ev")
  case True
  assume g: "dirs_good w"
  obtain r w' where at: "addRoot env \<lparr>spec_Root = ev_Name ev, spec_Recursive = True\<rparr> w = (r, w')" by fastforce
  with addRoot_dirs[OF at] g have "dirs_good w'" by simp
  with at g True show ?thesis
    by (cases r) (auto simp: handleEvent_def Let_def addTree_def dirs_good_def)
next
  case False
  assume g: "dirs_good w"
  have "dirs_good (report_writes env ev ids w)" for ids using g by (simp add: dirs_good_def)
  moreover from this have "dirs_good (invalidate_all env ids' (report_writes env ev ids w))" for ids ids'
    by (simp add: dirs_good_def)
  moreover have "dirs_good (invalidate_all env ids' (removeTree p (report_writes env ev ids w)))" for ids ids' p
    using dirs_good_removeTree[of "report_writes env ev ids w" p] calculation(1) by (simp add: dirs_good_def)
  ultimately show ?thesis using g False by (simp add: handleEvent_def Let_def)
qed

text \<open>Operations on a watcher, in any order.\<close>

datatype watch_op = OpAdd ProjectRoots | OpEvent fs_event | OpClose

fun do_watch_op :: "watch_env \<Rightarrow> watch_op \<Rightarrow> Watcher \<Rightarrow> Watcher" where
  "do_watch_op env (OpAdd p) w = snd (AddProject env p w)"
| "do_watch_op env (OpEvent ev) w = handleEvent env ev w"
| "do_watch_op env OpClose w = Watcher_Close w"

definition new_watcher :: Watcher where
  "new_watcher = \<lparr>w_dirs = [], w_projects = [], w_closed = False, w_error = None,
                  w_invalidated = [], w_writes = [], w_removed = []\<rparr>"

text \<open>
  Whatever projects are added (successfully or not) and whatever events arrive, the watcher
  never watches a directory twice and never one inside a generated directory
  (\<^verbatim>\<open>Binaries\<close>, \<^verbatim>\<open>Intermediate\<close>, \<^verbatim>\<open>Saved\<close>, \<^verbatim>\<open>DerivedDataCache\<close>, \<^verbatim>\<open>.git\<close>).
\<close>

theorem watched_directories_good:
  "distinct (w_dirs (run_events (do_watch_op env) ops new_watcher)) \<and>
   list_all (\<lambda>d. \<not> IgnoredDirectory d) (w_dirs (run_events (do_watch_op env) ops new_watcher))"
proof -
  have "dirs_good (do_watch_op env e w)" if "dirs_good w" for e w
  proof (cases e)
    case (OpAdd p)
    obtain r w' where "AddProject env p w = (r, w')" by fastforce
    with AddProject_cases[OF this] that OpAdd show ?thesis by simp
  next
    case (OpEvent ev)
    with that show ?thesis by (simp add: dirs_good_handleEvent)
  next
    case OpClose
    with that show ?thesis by (simp add: Watcher_Close_def dirs_good_def)
  qed
  then have "dirs_good (run_events (do_watch_op env) ops new_watcher)"
    by (rule run_events_invariant) (simp_all add: new_watcher_def dirs_good_def)
  then show ?thesis by (simp add: dirs_good_def)
qed

text \<open>
  \<^verbatim>\<open>AddProject\<close> registers the project only when it succeeded, and then the project root, the
  engine root (if any) and each of their existing \<^verbatim>\<open>Source\<close>, \<^verbatim>\<open>Plugins\<close> and \<^verbatim>\<open>Config\<close> trees is watched
  unless it lies in a generated directory; a failed call registers nothing, and no call ever stops
  watching a directory.
\<close>

theorem AddProject_registers:
  assumes "AddProject env project w = (r, w')"
  shows "set (w_dirs w) \<subseteq> set (w_dirs w') \<and>
    (case r of
       Inl e \<Rightarrow> w_projects w' = w_projects w
     | Inr u \<Rightarrow> \<exists>p. w_projects w' = w_projects w @ [p] \<and> root_ID p = root_ID project \<and>
                 covered env (ProjectRoot p) w' \<and> (EngineRoot p \<noteq> '''' \<longrightarrow> covered env (EngineRoot p) w'))"
  using AddProject_cases[OF assms] by blast

lemma sample_AddProject:
  "AddProject sample_watch_env \<lparr>root_ID = ''H'', ProjectRoot = ''/h'', EngineRoot = ''''\<rparr> sample_watcher =
   (Inr (), sample_watcher\<lparr>w_dirs := [''/h/Config'', ''/h/Plugins'', ''/h/Source'', ''/h'', ''/g''],
      w_projects := w_projects sample_watcher @ [\<lparr>root_ID = ''H'', ProjectRoot = ''/h'', EngineRoot = ''''\<rparr>]\<rparr>)"
  by code_simp

theorem AddProject_registers_witness:
  "set (w_dirs sample_watcher) \<subseteq> set [''/h/Config'', ''/h/Plugins'', ''/h/Source'', ''/h'', ''/g'']"
  using AddProject_registers[OF sample_AddProject] by simp

text \<open>A directory that disappears takes everything watched below it with it.\<close>

lemma removeTree_removes:
  "d \<in> set (w_dirs (removeTree root w)) \<longleftrightarrow> d \<in> set (w_dirs w) \<and> \<not> contains (path_clean root) d"
  by (auto simp: removeTree_def Let_def)

end
