(* ===== verification/RootBackend.thy ===== *)
theory RootBackend
  imports Watcher "HOL-Library.Word"
begin

text \<open>
  The Windows directory-change backend (\<^verbatim>\<open>internal/watch/backend_windows.go\<close>): one overlapped
  \<^verbatim>\<open>ReadDirectoryChanges\<close> per watched root, drained through one completion port.  While a read is
  outstanding the kernel owns the watch's buffer and \<^verbatim>\<open>Overlapped\<close>, so the watch must stay
  registered and its handle open until the packet has been drained; \<open>wr_outstanding\<close> is the
  ghost that says so.  The outcome of every system call is an argument.  Watches are numbered
  in the order they are created.
\<close>

section \<open>State\<close>

datatype watchState = WatchActive | WatchCanceling | WatchClosed

record windowsRootWatch =
  wr_root :: string
  wr_recursive :: bool
  wr_state :: watchState
  wr_open :: bool
  wr_stopped :: bool
  wr_outstanding :: bool

datatype backend_error =
    ErrBackendClosed
  | ErrExists string bool
  | ErrCreateFile
  | ErrCompletionPort
  | ErrReadChanges
  | ErrCancel
  | ErrCancelTimeout string
  | ErrQueueStatus
  | ErrNotifyOverflow
  | ErrEventOverflow
  | ErrClosePort

text \<open>
  \<open>wb_store\<close> holds every watch ever created, \<open>wb_watches\<close> the map by root, \<open>wb_events\<close> and
  \<open>wb_error\<close> the two buffered channels.
\<close>

record windowsRootBackend =
  wb_next :: nat
  wb_store :: "nat \<Rightarrow> windowsRootWatch option"
  wb_watches :: "string \<Rightarrow> nat option"
  wb_events :: "fs_event list"
  wb_error :: "backend_error option"
  wb_closed :: bool
  wb_done :: bool
  wb_port :: bool

definition new_backend :: windowsRootBackend where
  "new_backend = \<lparr>wb_next = 0, wb_store = (\<lambda>_. None), wb_watches = (\<lambda>_. None), wb_events = [],
                  wb_error = None, wb_closed = False, wb_done = False, wb_port = True\<rparr>"

definition set_watch :: "nat \<Rightarrow> windowsRootWatch \<Rightarrow> windowsRootBackend \<Rightarrow> windowsRootBackend" where
  "set_watch k w b = b\<lparr>wb_store := (wb_store b)(k \<mapsto> w)\<rparr>"

section \<open>Operations\<close>

definition sendError :: "backend_error \<Rightarrow> windowsRootBackend \<Rightarrow> windowsRootBackend" where
  "sendError e b = (case wb_error b of None \<Rightarrow> b\<lparr>wb_error := Some e\<rparr> | Some _ \<Rightarrow> b)"

definition backend_Add_win :: "bool \<Rightarrow> bool \<Rightarrow> bool \<Rightarrow> WatchSpec \<Rightarrow> windowsRootBackend \<Rightarrow>
    (backend_error + unit) \<times> windowsRootBackend" where
  "backend_Add_win create_ok port_ok read_ok spec b =
     (if wb_closed b then (Inl ErrBackendClosed, b)
      else let root = path_clean (spec_Root spec);
               existing = (case wb_watches b root of None \<Rightarrow> None | Some k \<Rightarrow> wb_store b k) in
        case (case existing of Some w \<Rightarrow> if wr_state w \<noteq> WatchClosed then Some w else None | None \<Rightarrow> None) of
          Some w \<Rightarrow>
            (if wr_recursive w = spec_Recursive spec then (Inr (), b)
             else (Inl (ErrExists root (wr_recursive w)), b))
        | None \<Rightarrow>
            if \<not> create_ok then (Inl ErrCreateFile, b)
            else if \<not> port_ok then (Inl ErrCompletionPort, b)
            else let k = wb_next b;
                     w = \<lparr>wr_root = root, wr_recursive = spec_Recursive spec, wr_state = WatchActive,
                          wr_open = True, wr_stopped = False, wr_outstanding = read_ok\<rparr>;
                     b1 = b\<lparr>wb_next := Suc k, wb_watches := (wb_watches b)(root \<mapsto> k)\<rparr>
              in if read_ok then (Inr (), set_watch k w b1)
                 else (Inl ErrReadChanges,
                       (set_watch k (w\<lparr>wr_open := False\<rparr>) b1)\<lparr>wb_watches := (wb_watches b)(root := None)\<rparr>))"

definition finishLocked :: "nat \<Rightarrow> windowsRootWatch \<Rightarrow> windowsRootBackend \<Rightarrow> windowsRootBackend" where
  "finishLocked k w b =
     (if wr_state w = WatchClosed then set_watch k w b
      else set_watch k (w\<lparr>wr_state := WatchClosed, wr_open := False, wr_stopped := True\<rparr>)
             (b\<lparr>wb_watches := (wb_watches b)(wr_root w := None)\<rparr>))"

datatype cancel_result = CancelOk | CancelNotFound | CancelFailed

text \<open>\<^verbatim>\<open>Remove\<close> under the mutex: \<open>Inr (Some k)\<close> is the watch it then waits for.\<close>

definition Remove_begin :: "cancel_result \<Rightarrow> string \<Rightarrow> windowsRootBackend \<Rightarrow>
    (backend_error + nat option) \<times> windowsRootBackend" where
  "Remove_begin cancel root0 b =
     (let root = path_clean root0 in
      case wb_watches b root of
        None \<Rightarrow> (Inr None, b)
      | Some k \<Rightarrow>
          (case wb_store b k of
             None \<Rightarrow> (Inr None, b)
           | Some w \<Rightarrow>
               if wr_state w = WatchClosed then (Inr None, b)
               else if wr_state w = WatchActive then
                 (if cancel = CancelFailed then (Inl ErrCancel, b)
                  else (Inr (Some k), set_watch k (w\<lparr>wr_state := WatchCanceling\<rparr>) b))
               else (Inr (Some k), b)))"

text \<open>The wait: the watch has stopped, or five seconds have passed.\<close>

definition Remove_wait :: "nat \<Rightarrow> windowsRootBackend \<Rightarrow> backend_error + unit" where
  "Remove_wait k b =
     (case wb_store b k of
        Some w \<Rightarrow> if wr_stopped w then Inr () else Inl (ErrCancelTimeout (wr_root w))
      | None \<Rightarrow> Inr ())"

text \<open>One record of the notification buffer; the action codes are those of the Windows API.\<close>

record notify =
  nt_next :: "32 word"
  nt_action :: nat
  nt_name :: string

definition action_op :: "nat \<Rightarrow> fs_op set" where
  "action_op a = (if a = 1 \<or> a = 5 then {Create} else if a = 2 then {Remove}
                  else if a = 3 then {Write} else if a = 4 then {Rename} else {})"

text \<open>
  The walk over the buffer, with the 32-bit offset arithmetic of the code; \<open>None\<close> when the fuel is
  spent, which only a buffer whose offsets wrap around can do.
\<close>

fun parse_from :: "nat \<Rightarrow> (32 word \<Rightarrow> notify) \<Rightarrow> string \<Rightarrow> 32 word \<Rightarrow> 32 word \<Rightarrow> fs_event list option" where
  "parse_from 0 buffer root bytes offset = (if offset < bytes then None else Some [])"
| "parse_from (Suc fuel) buffer root bytes offset =
     (if \<not> offset < bytes then Some []
      else let raw = buffer offset;
               events = (if action_op (nt_action raw) = {} then []
                         else [\<lparr>ev_Name = path_join2 root (nt_name raw), ev_Op = action_op (nt_action raw)\<rparr>])
           in if nt_next raw = 0 then Some events
              else map_option (append events) (parse_from fuel buffer root bytes (offset + nt_next raw)))"

definition parseEventsLocked :: "(32 word \<Rightarrow> notify) \<Rightarrow> windowsRootWatch \<Rightarrow> 32 word \<Rightarrow> fs_event list option" where
  "parseEventsLocked buffer w bytes = parse_from (unat bytes) buffer (wr_root w) bytes 0"

definition event_capacity :: nat where
  "event_capacity = 256"

fun send_events :: "fs_event list \<Rightarrow> windowsRootBackend \<Rightarrow> windowsRootBackend" where
  "send_events [] b = b"
| "send_events (e # es) b =
     (if length (wb_events b) < event_capacity then send_events es (b\<lparr>wb_events := wb_events b @ [e]\<rparr>)
      else if wb_done b then b
      else send_events es (sendError ErrEventOverflow b))"

datatype completion = Aborted | MoreData | OtherError | Completed "fs_event list"

text \<open>
  One packet drained from the port for watch \<open>k\<close>: the kernel's ownership ends, then the code's
  branches in order.  \<open>read_ok\<close> is the outcome of the next \<^verbatim>\<open>ReadDirectoryChanges\<close>.
\<close>

definition completion_step :: "bool \<Rightarrow> completion \<Rightarrow> nat \<Rightarrow> windowsRootBackend \<Rightarrow> windowsRootBackend" where
  "completion_step read_ok packet k b =
     (case wb_store b k of
        None \<Rightarrow> b
      | Some w0 \<Rightarrow>
          let w = w0\<lparr>wr_outstanding := False\<rparr> in
          if wr_state w = WatchCanceling \<or> packet = Aborted then finishLocked k w b
          else case packet of
              MoreData \<Rightarrow> sendError ErrNotifyOverflow (finishLocked k (w\<lparr>wr_state := WatchCanceling\<rparr>) b)
            | OtherError \<Rightarrow> sendError ErrQueueStatus (finishLocked k (w\<lparr>wr_state := WatchCanceling\<rparr>) b)
            | Aborted \<Rightarrow> b
            | Completed events \<Rightarrow>
                if wr_state w = WatchActive then
                  (if read_ok then send_events events (set_watch k (w\<lparr>wr_outstanding := True\<rparr>) b)
                   else sendError ErrReadChanges (finishLocked k (w\<lparr>wr_state := WatchCanceling\<rparr>) b))
                else send_events events (set_watch k w b))"

text \<open>\<^verbatim>\<open>Close\<close> after its removals: it only shuts the port when every one of them succeeded.\<close>

definition Close_finish :: "backend_error option \<Rightarrow> windowsRootBackend \<Rightarrow> (backend_error + unit) \<times> windowsRootBackend" where
  "Close_finish closeErr b =
     (if wb_closed b then (Inr (), b)
      else case closeErr of
          Some e \<Rightarrow> (Inl e, b)
        | None \<Rightarrow> (Inr (), b\<lparr>wb_closed := True, wb_done := True, wb_port := False\<rparr>))"

section \<open>Steps\<close>

text \<open>
  \<^verbatim>\<open>Close\<close> holds \<^verbatim>\<open>closeMu\<close>, which excludes \<^verbatim>\<open>Add\<close>, and removes every root of the map; its last step
  is therefore enabled only when each root it removed has left the map.
\<close>

inductive backend_step :: "windowsRootBackend \<Rightarrow> windowsRootBackend \<Rightarrow> bool" where
  add: "backend_step b (snd (backend_Add_win create_ok port_ok read_ok spec b))"
| remove: "backend_step b (snd (Remove_begin cancel root b))"
| complete: "wb_port b \<Longrightarrow> wb_store b k = Some w \<Longrightarrow> wr_outstanding w \<Longrightarrow>
    backend_step b (completion_step read_ok packet k b)"
| receive: "backend_step b (b\<lparr>wb_events := tl (wb_events b)\<rparr>)"
| receive_error: "backend_step b (b\<lparr>wb_error := None\<rparr>)"
| close_failed: "backend_step b (snd (Close_finish (Some e) b))"
| close_done: "(\<forall>root. wb_watches b root = None) \<Longrightarrow> backend_step b (snd (Close_finish None b))"

definition watch_ok :: "windowsRootBackend \<Rightarrow> nat \<Rightarrow> windowsRootWatch \<Rightarrow> bool" where
  "watch_ok b k w \<longleftrightarrow>
     (if wr_outstanding w
      then wr_state w \<noteq> WatchClosed \<and> wr_open w \<and> \<not> wr_stopped w \<and> wb_watches b (wr_root w) = Some k
      else \<not> wr_open w)"

definition backend_good :: "windowsRootBackend \<Rightarrow> bool" where
  "backend_good b \<longleftrightarrow>
     (\<forall>k w. wb_store b k = Some w \<longrightarrow> k < wb_next b \<and> watch_ok b k w) \<and>
     (\<forall>root k. wb_watches b root = Some k \<longrightarrow>
        (\<exists>w. wb_store b k = Some w \<and> wr_root w = root \<and> wr_outstanding w)) \<and>
     (wb_closed b \<longrightarrow> (\<forall>root. wb_watches b root = None)) \<and>
     (wb_port b = (\<not> wb_closed b)) \<and> length (wb_events b) \<le> event_capacity"

section \<open>The notification buffer is walked to its end\<close>

text \<open>Offsets that stay below \<open>2\<^sup>3\<^sup>2\<close>, as a buffer of 64 KiB guarantees.\<close>

definition offsets_fit :: "(32 word \<Rightarrow> notify) \<Rightarrow> 32 word \<Rightarrow> bool" where
  "offsets_fit buffer bytes \<longleftrightarrow> (\<forall>off < bytes. unat off + unat (nt_next (buffer off)) < 2 ^ 32)"

lemma parse_from_terminates:
  "offsets_fit buffer bytes \<Longrightarrow> unat bytes - unat offset \<le> fuel \<Longrightarrow>
   \<exists>es. parse_from fuel buffer root bytes offset = Some es"
proof (induction fuel arbitrary: offset)
  case 0
  then show ?case by (simp add: word_less_nat_alt)
next
  case (Suc fuel)
  show ?case
  proof (cases "offset < bytes \<and> nt_next (buffer offset) \<noteq> 0")
    case True
    let ?n = "nt_next (buffer offset)"
    have "unat offset + unat ?n < 2 ^ 32" using Suc.prems(1) True by (auto simp: offsets_fit_def)
    then have "unat (offset + ?n) = unat offset + unat ?n" by (simp add: unat_add_lem[THEN iffD1])
    moreover have "0 < unat ?n" using True by (simp add: unat_gt_0)
    ultimately have "unat bytes - unat (offset + ?n) \<le> fuel"
      using Suc.prems(2) True by (simp add: word_less_nat_alt)
    from Suc.IH[OF Suc.prems(1) this] True show ?thesis by (auto simp: Let_def)
  next
    case False
    then show ?thesis by (auto simp: Let_def)
  qed
qed

lemma parseEvents_returns:
  "offsets_fit buffer bytes \<Longrightarrow> \<exists>es. parseEventsLocked buffer w bytes = Some es"
  unfolding parseEventsLocked_def by (rule parse_from_terminates) simp_all

section \<open>The invariant\<close>

lemma sendError_simps [simp]:
  "wb_store (sendError e b) = wb_store b" "wb_watches (sendError e b) = wb_watches b"
  "wb_next (sendError e b) = wb_next b" "wb_closed (sendError e b) = wb_closed b"
  "wb_port (sendError e b) = wb_port b" "wb_events (sendError e b) = wb_events b"
  by (simp_all add: sendError_def split: option.split)

lemma send_events_simps [simp]:
  "wb_store (send_events es b) = wb_store b" "wb_watches (send_events es b) = wb_watches b"
  "wb_next (send_events es b) = wb_next b" "wb_closed (send_events es b) = wb_closed b"
  "wb_port (send_events es b) = wb_port b"
  by (induction es arbitrary: b) auto

lemma send_events_capacity:
  "length (wb_events b) \<le> event_capacity \<Longrightarrow> length (wb_events (send_events es b)) \<le> event_capacity"
  by (induction es arbitrary: b) auto

lemma set_watch_simps [simp]:
  "wb_store (set_watch k w b) = (wb_store b)(k \<mapsto> w)" "wb_watches (set_watch k w b) = wb_watches b"
  "wb_next (set_watch k w b) = wb_next b" "wb_closed (set_watch k w b) = wb_closed b"
  "wb_port (set_watch k w b) = wb_port b" "wb_events (set_watch k w b) = wb_events b"
  by (simp_all add: set_watch_def)

text \<open>Only the store, the map and the flags matter to the invariant.\<close>

lemma backend_good_cong:
  "backend_good b \<Longrightarrow> wb_store b' = wb_store b \<Longrightarrow> wb_watches b' = wb_watches b \<Longrightarrow> wb_next b' = wb_next b \<Longrightarrow>
   wb_closed b' = wb_closed b \<Longrightarrow> wb_port b' = wb_port b \<Longrightarrow> length (wb_events b') \<le> event_capacity \<Longrightarrow>
   backend_good b'"
  unfolding backend_good_def watch_ok_def by simp

lemma backend_goodD:
  assumes "backend_good b"
  shows "wb_store b k = Some w \<Longrightarrow> k < wb_next b" "wb_store b k = Some w \<Longrightarrow> watch_ok b k w"
    "wb_watches b root = Some k \<Longrightarrow> \<exists>w. wb_store b k = Some w \<and> wr_root w = root \<and> wr_outstanding w"
    "length (wb_events b) \<le> event_capacity"
  using assms unfolding backend_good_def by blast+

lemma good_set_watch:
  assumes good: "backend_good b" and w0: "wb_store b k = Some w0" "wr_outstanding w0"
    and w: "wr_root w = wr_root w0" "wr_outstanding w" "wr_state w \<noteq> WatchClosed" "wr_open w" "\<not> wr_stopped w"
  shows "backend_good (set_watch k w b)"
proof -
  have "watch_ok b k w0" using backend_goodD(2)[OF good w0(1)] .
  with w0 w have "watch_ok b k w" by (simp add: watch_ok_def)
  with good w0 w show ?thesis
    unfolding backend_good_def by (auto simp: watch_ok_def) (metis option.inject)
qed

lemma good_finish:
  assumes good: "backend_good b" and w0: "wb_store b k = Some w0" "wr_outstanding w0"
    and w: "wr_root w = wr_root w0" "\<not> wr_outstanding w" "wr_state w \<noteq> WatchClosed"
  shows "backend_good (finishLocked k w b)"
proof -
  have own: "wb_watches b (wr_root w0) = Some k"
    using backend_goodD(2)[OF good w0(1)] w0(2) by (simp add: watch_ok_def)
  have others: "wb_watches b (wr_root v) \<noteq> Some k" if "wb_store b j = Some v" "j \<noteq> k" "wr_outstanding v" for j v
    using backend_goodD(2)[OF good that(1)] that by (auto simp: watch_ok_def)
  have "wr_root v \<noteq> wr_root w0" if "wb_store b j = Some v" "j \<noteq> k" "wr_outstanding v" for j v
    using others[OF that] own by metis
  with good w0 w own show ?thesis
    unfolding backend_good_def
    by (auto simp: finishLocked_def watch_ok_def split: if_splits) (metis option.inject)+
qed

lemma good_completion:
  assumes good: "backend_good b" and w0: "wb_store b k = Some w0" "wr_outstanding w0"
  shows "backend_good (completion_step read_ok packet k b)"
proof -
  let ?w = "w0\<lparr>wr_outstanding := False\<rparr>"
  have ok: "wr_state w0 \<noteq> WatchClosed" "wr_open w0" "\<not> wr_stopped w0"
    using backend_goodD(2)[OF good w0(1)] w0(2) by (simp_all add: watch_ok_def)
  have fin: "backend_good (finishLocked k ?w b)"
    by (rule good_finish[OF good w0]) (use ok in simp_all)
  have fin2: "backend_good (sendError e (finishLocked k (?w\<lparr>wr_state := WatchCanceling\<rparr>) b))" for e
  proof -
    have "backend_good (finishLocked k (?w\<lparr>wr_state := WatchCanceling\<rparr>) b)"
      by (rule good_finish[OF good w0]) (use ok in simp_all)
    from backend_good_cong[OF this] backend_goodD(4)[OF this] show ?thesis by simp
  qed
  have again: "backend_good (send_events es (set_watch k (?w\<lparr>wr_outstanding := True\<rparr>) b))" for es
  proof -
    have g: "backend_good (set_watch k (?w\<lparr>wr_outstanding := True\<rparr>) b)"
      by (rule good_set_watch[OF good w0]) (use ok in simp_all)
    show ?thesis
      by (rule backend_good_cong[OF g]) (use send_events_capacity[OF backend_goodD(4)[OF g]] in simp_all)
  qed
  show ?thesis
  proof (cases "wr_state w0")
    case WatchActive
    with fin fin2 again w0 show ?thesis
      by (cases packet) (simp_all add: completion_step_def Let_def)
  next
    case WatchCanceling
    with fin w0 show ?thesis by (simp add: completion_step_def Let_def)
  qed (use ok in simp)
qed

lemma good_Add:
  assumes good: "backend_good b"
  shows "backend_good (snd (backend_Add_win create_ok port_ok read_ok spec b))"
proof (cases "wb_closed b")
  case False
  let ?root = "path_clean (spec_Root spec)"
  show ?thesis
  proof (cases "wb_watches b ?root")
    case (Some k)
    then obtain w where w: "wb_store b k = Some w" "wr_outstanding w"
      using backend_goodD(3)[OF good] by blast
    then have "wr_state w \<noteq> WatchClosed"
      using backend_goodD(2)[OF good w(1)] by (simp add: watch_ok_def)
    with good False Some w show ?thesis by (simp add: backend_Add_win_def Let_def)
  next
    case None
    let ?k = "wb_next b"
    have fresh: "wb_store b j = Some v \<Longrightarrow> j \<noteq> ?k" for j v
      using backend_goodD(1)[OF good, of j v] by auto
    have unused: "wb_watches b r \<noteq> Some ?k" for r
      using backend_goodD(3)[OF good, of r ?k] fresh by blast
    have free: "wr_root v \<noteq> ?root" if "wb_store b j = Some v" "wr_outstanding v" for j v
      using backend_goodD(2)[OF good that(1)] that(2) None by (auto simp: watch_ok_def)
    show ?thesis
    proof (cases "create_ok \<and> port_ok")
      case True
      with good False None fresh unused free show ?thesis
        unfolding backend_good_def
        by (cases read_ok) (auto simp: backend_Add_win_def Let_def watch_ok_def less_Suc_eq)
    next
      case False
      with good \<open>\<not> wb_closed b\<close> None show ?thesis by (auto simp: backend_Add_win_def Let_def)
    qed
  qed
qed (simp add: backend_Add_win_def good)

lemma good_Remove:
  assumes good: "backend_good b"
  shows "backend_good (snd (Remove_begin cancel root b))"
proof (cases "wb_watches b (path_clean root)")
  case (Some k)
  then obtain w where w: "wb_store b k = Some w" "wr_outstanding w"
    using backend_goodD(3)[OF good] by blast
  have ok: "wr_open w" "\<not> wr_stopped w"
    using backend_goodD(2)[OF good w(1)] w(2) by (simp_all add: watch_ok_def)
  have "backend_good (set_watch k (w\<lparr>wr_state := WatchCanceling\<rparr>) b)"
    by (rule good_set_watch[OF good w]) (use ok w in simp_all)
  with good Some w show ?thesis by (simp add: Remove_begin_def Let_def)
qed (simp add: Remove_begin_def Let_def good)

lemma backend_good_step:
  assumes good: "backend_good b" and step: "backend_step b b'"
  shows "backend_good b'"
  using step
proof cases
  case (complete k w read_ok packet)
  with good_completion[OF good] show ?thesis by simp
next
  case receive
  with backend_good_cong[OF good] backend_goodD(4)[OF good] show ?thesis by simp
next
  case receive_error
  with backend_good_cong[OF good] backend_goodD(4)[OF good] show ?thesis by simp
next
  case (close_failed e)
  with good show ?thesis by (simp add: Close_finish_def)
next
  case close_done
  then have idle: "\<not> wr_outstanding w" if "wb_store b k = Some w" for k w
    using backend_goodD(2)[OF good that] by (auto simp: watch_ok_def)
  show ?thesis
  proof (cases "wb_closed b")
    case True
    with close_done good show ?thesis by (simp add: Close_finish_def)
  next
    case False
    with close_done good idle show ?thesis
      unfolding backend_good_def by (simp add: Close_finish_def watch_ok_def)
  qed
qed (use good good_Add good_Remove in simp_all)

interpretation backend: invariant_system "\<lambda>b. b = new_backend" backend_step backend_good
proof
  show "b = new_backend \<Longrightarrow> backend_good b" for b
    by (simp add: new_backend_def backend_good_def)
qed (rule backend_good_step)

text \<open>
  C30. The kernel never owns memory of a watch that is gone: in every reachable state a watch with
  an outstanding read is registered under its root, not closed, and its handle is open; a watch
  without one has its handle closed; once the backend is closed (its completion port with it) no
  read is outstanding; and the event channel stays within its capacity.
\<close>

theorem outstanding_reads_stay_alive:
  assumes "backend_step\<^sup>*\<^sup>* new_backend b"
  shows "(\<forall>k w. wb_store b k = Some w \<longrightarrow>
      (wr_outstanding w \<longrightarrow> wr_open w \<and> wr_state w \<noteq> WatchClosed \<and> wb_watches b (wr_root w) = Some k \<and> wb_port b) \<and>
      (\<not> wr_outstanding w \<longrightarrow> \<not> wr_open w)) \<and> length (wb_events b) \<le> 256"
proof -
  have good: "backend_good b" by (rule backend.run_good[OF assms]) simp
  have "wb_port b" if "wb_store b k = Some w" "wr_outstanding w" for k w
  proof -
    have "wb_watches b (wr_root w) = Some k"
      using backend_goodD(2)[OF good that(1)] that(2) by (simp add: watch_ok_def)
    then have "\<not> wb_closed b" using good unfolding backend_good_def by auto
    then show ?thesis using good unfolding backend_good_def by blast
  qed
  with backend_goodD(2)[OF good] backend_goodD(4)[OF good] show ?thesis
    by (auto simp: watch_ok_def event_capacity_def)
qed

theorem outstanding_reads_stay_alive_witness:
  "\<exists>b w. backend_step\<^sup>*\<^sup>* new_backend b \<and> wb_store b 0 = Some w \<and> wr_state w = WatchCanceling \<and>
     wr_outstanding w \<and> wb_port b"
proof -
  let ?w = "\<lparr>wr_root = ''/g'', wr_recursive = True, wr_state = WatchCanceling,
             wr_open = True, wr_stopped = False, wr_outstanding = True\<rparr>"
  let ?b1 = "snd (backend_Add_win True True True \<lparr>spec_Root = ''/g'', spec_Recursive = True\<rparr> new_backend)"
  let ?b2 = "snd (Remove_begin CancelNotFound ''/g'' ?b1)"
  have run: "backend_step\<^sup>*\<^sup>* new_backend ?b2"
    by (meson add remove rtranclp.rtrancl_into_rtrancl rtranclp.rtrancl_refl)
  have s: "wb_store ?b2 0 = Some ?w" by code_simp
  note live = outstanding_reads_stay_alive[OF run, THEN conjunct1, rule_format, OF s, THEN conjunct1, rule_format]
  have "wb_port ?b2" using live by simp
  with run s show ?thesis by (intro exI[of _ ?b2] exI[of _ ?w]) simp
qed

end
