(* ===== verification/Utf8.thy ===== *)
theory Utf8
  imports Prelude
begin

text \<open>
  UTF-8 as Go's \<^verbatim>\<open>unicode/utf8\<close> decodes it.  \<open>rune_width\<close> is the width of the rune at the head
  of a byte string; an invalid byte is a rune of width one that is not \<open>valid_rune\<close>.  \<open>runes\<close>
  cuts a string the way \<^verbatim>\<open>for range\<close> does, and \<open>to_valid_utf8\<close> is \<^verbatim>\<open>strings.ToValidUTF8\<close>.
\<close>

definition in_range :: "nat \<Rightarrow> nat \<Rightarrow> char \<Rightarrow> bool" where
  "in_range lo hi c \<longleftrightarrow> lo \<le> byte c \<and> byte c \<le> hi"

abbreviation cont_byte :: "char \<Rightarrow> bool" where
  "cont_byte c \<equiv> in_range 128 191 c"

text \<open>The length of the valid encoding at the head of the string, \<open>0\<close> when there is none.\<close>

definition encoded_length :: "string \<Rightarrow> nat" where
  "encoded_length s =
     (case s of
        [] \<Rightarrow> 0
      | a # r \<Rightarrow>
          if byte a < 128 then 1
          else if in_range 194 223 a then
            (case r of b # _ \<Rightarrow> if cont_byte b then 2 else 0 | [] \<Rightarrow> 0)
          else if in_range 224 239 a then
            (case r of
               b # c # _ \<Rightarrow>
                 if (if byte a = 224 then in_range 160 191 b
                     else if byte a = 237 then in_range 128 159 b else cont_byte b) \<and> cont_byte c
                 then 3 else 0
             | _ \<Rightarrow> 0)
          else if in_range 240 244 a then
            (case r of
               b # c # d # _ \<Rightarrow>
                 if (if byte a = 240 then in_range 144 191 b
                     else if byte a = 244 then in_range 128 143 b else cont_byte b) \<and>
                    cont_byte c \<and> cont_byte d
                 then 4 else 0
             | _ \<Rightarrow> 0)
          else 0)"

definition rune_width :: "string \<Rightarrow> nat" where
  "rune_width s = (if encoded_length s = 0 then 1 else encoded_length s)"

definition valid_rune :: "string \<Rightarrow> bool" where
  "valid_rune r \<longleftrightarrow> r \<noteq> [] \<and> encoded_length r = length r"

function runes :: "string \<Rightarrow> string list" where
  "runes s = (if s = [] then [] else take (rune_width s) s # runes (drop (rune_width s) s))"
  by pat_completeness auto
termination
  by (relation "measure length") (auto simp: rune_width_def)

declare runes.simps [simp del]

definition valid_utf8 :: "string \<Rightarrow> bool" where
  "valid_utf8 s \<longleftrightarrow> list_all valid_rune (runes s)"

text \<open>A maximal run of invalid bytes becomes one replacement.\<close>

fun replace_invalid :: "string \<Rightarrow> bool \<Rightarrow> string list \<Rightarrow> string" where
  "replace_invalid repl skipping [] = []"
| "replace_invalid repl skipping (r # rs) =
     (if valid_rune r then r @ replace_invalid repl False rs
      else (if skipping then [] else repl) @ replace_invalid repl True rs)"

definition to_valid_utf8 :: "string \<Rightarrow> string \<Rightarrow> string" where
  "to_valid_utf8 s repl = replace_invalid repl False (runes s)"

text \<open>U+FFFD, the replacement character.\<close>

definition replacement_char :: string where
  "replacement_char = [CHR 0xEF, CHR 0xBF, CHR 0xBD]"

section \<open>Cutting into runes\<close>

lemma runes_Nil [simp]: "runes [] = []"
  by (simp add: runes.simps)

lemma encoded_length_le: "encoded_length s \<le> length s"
  by (auto simp: encoded_length_def split: list.splits)

lemma rune_width_pos [simp]: "0 < rune_width s" "rune_width s \<noteq> 0"
  by (simp_all add: rune_width_def)

lemma concat_runes [simp]: "concat (runes s) = s"
proof (induction s rule: runes.induct)
  case (1 s)
  then show ?case by (subst runes.simps) (auto simp: append_take_drop_id)
qed

lemma runes_nonempty: "r \<in> set (runes s) \<Longrightarrow> r \<noteq> []"
proof (induction s rule: runes.induct)
  case (1 s)
  then show ?case
    by (subst (asm) (2) runes.simps) (auto split: if_splits)
qed

text \<open>Decoding looks at the bytes of the rune only: what follows does not matter.\<close>

lemma encoded_length_le_4: "encoded_length s \<le> 4"
  by (simp add: encoded_length_def split: list.split)

lemma encoded_length_append:
  assumes "encoded_length r = length r" "r \<noteq> []"
  shows "encoded_length (r @ s) = length r"
proof -
  have "length r \<le> 4" using assms(1) encoded_length_le_4[of r] by simp
  then consider a where "r = [a]" | a b where "r = [a, b]" | a b c where "r = [a, b, c]"
    | a b c d where "r = [a, b, c, d]"
    using assms(2) by (cases r; cases "tl r"; cases "tl (tl r)"; cases "tl (tl (tl r))") auto
  then show ?thesis
    by cases (use assms in \<open>simp_all add: encoded_length_def split: if_splits\<close>)
qed

lemma runes_append_valid: "valid_rune r \<Longrightarrow> runes (r @ s) = r # runes s"
  by (subst runes.simps) (simp add: valid_rune_def rune_width_def encoded_length_append)

lemma runes_concat: "list_all valid_rune rs \<Longrightarrow> runes (concat rs) = rs"
  by (induction rs) (simp_all add: runes_append_valid)

lemma valid_concat: "list_all valid_rune rs \<Longrightarrow> valid_utf8 (concat rs)"
  by (simp add: valid_utf8_def runes_concat)

lemma valid_utf8_Nil [simp]: "valid_utf8 []"
  by (simp add: valid_utf8_def)

lemma valid_replacement: "valid_rune replacement_char"
  by code_simp

lemma replace_invalid_valid:
  "valid_rune repl \<Longrightarrow>
   \<exists>rs'. list_all valid_rune rs' \<and> replace_invalid repl skipping rs = concat rs' \<and>
     length rs' \<le> length rs"
proof (induction rs arbitrary: skipping)
  case Nil
  then show ?case by (intro exI [of _ "[]"]) simp
next
  case (Cons r rs)
  show ?case
  proof (cases "valid_rune r")
    case True
    from Cons.IH [OF Cons.prems, of False] obtain rs' where
      "list_all valid_rune rs'" "replace_invalid repl False rs = concat rs'" "length rs' \<le> length rs"
      by blast
    with True show ?thesis by (intro exI [of _ "r # rs'"]) simp
  next
    case False
    from Cons.IH [OF Cons.prems, of True] obtain rs' where
      rs': "list_all valid_rune rs'" "replace_invalid repl True rs = concat rs'" "length rs' \<le> length rs"
      by blast
    show ?thesis
    proof (cases skipping)
      case True
      with False rs' show ?thesis by (intro exI [of _ rs']) simp
    next
      case no_run: False
      with False rs' Cons.prems show ?thesis by (intro exI [of _ "repl # rs'"]) simp
    qed
  qed
qed

lemma to_valid_utf8_valid: "valid_utf8 (to_valid_utf8 s replacement_char)"
  using replace_invalid_valid [OF valid_replacement, of False "runes s"]
  by (auto simp: to_valid_utf8_def dest: valid_concat)

lemma replace_invalid_id: "list_all valid_rune rs \<Longrightarrow> replace_invalid repl skipping rs = concat rs"
  by (induction rs arbitrary: skipping) auto

lemma to_valid_utf8_id: "valid_utf8 s \<Longrightarrow> to_valid_utf8 s repl = s"
  by (simp add: to_valid_utf8_def valid_utf8_def replace_invalid_id)

lemma take_runes_valid: "valid_utf8 s \<Longrightarrow> valid_utf8 (concat (take n (runes s)))"
  unfolding valid_utf8_def
  by (subst runes_concat) (auto simp: list_all_iff dest: in_set_takeD)

end
