(* ===== verification/Json.thy ===== *)
theory Json
  imports Utf8
begin

text \<open>
  JSON values and \<^verbatim>\<open>encoding/json\<close>'s \<^verbatim>\<open>Marshal\<close>.  A struct is the list of its fields in declaration
  order (an omitted empty field is left out by the type's own encoder), numbers are the integers
  the program marshals; any other number is kept as its literal.  Strings are escaped as the encoder does with HTML escaping on; an
  invalid UTF-8 byte is written as the escape of U+FFFD.
\<close>

datatype json =
    JNull
  | JBool bool
  | JInt int
  | JNum string
  | JStr string
  | JArr "json list"
  | JObj "(string \<times> json) list"

definition hex_digit :: "nat \<Rightarrow> char" where
  "hex_digit d = (if d < 10 then char_of (48 + d) else char_of (87 + d))"

definition escape_byte :: "char \<Rightarrow> string" where
  "escape_byte c =
     (let b = byte c in
      if b = 34 \<or> b = 92 then [bslash, c]
      else if b = 8 then [bslash, CHR ''b'']
      else if b = 9 then [bslash, CHR ''t'']
      else if b = 10 then [bslash, CHR ''n'']
      else if b = 12 then [bslash, CHR ''f'']
      else if b = 13 then [bslash, CHR ''r'']
      else if b < 32 \<or> b = 38 \<or> b = 60 \<or> b = 62 then
        [bslash, CHR ''u'', CHR ''0'', CHR ''0'', hex_digit (b div 16), hex_digit (b mod 16)]
      else [c])"

definition escape_rune :: "string \<Rightarrow> string" where
  "escape_rune r =
     (case r of
        [c] \<Rightarrow> if byte c < 128 then escape_byte c else bslash # ''ufffd''
      | _ \<Rightarrow>
          if r = [CHR 0xE2, CHR 0x80, CHR 0xA8] then bslash # ''u2028''
          else if r = [CHR 0xE2, CHR 0x80, CHR 0xA9] then bslash # ''u2029''
          else r)"

definition quote_json :: "string \<Rightarrow> string" where
  "quote_json s = CHR 0x22 # concat (map escape_rune (runes s)) @ [CHR 0x22]"

fun json_encode :: "json \<Rightarrow> string" where
  "json_encode JNull = ''null''"
| "json_encode (JBool b) = (if b then ''true'' else ''false'')"
| "json_encode (JInt i) = int_digits i"
| "json_encode (JNum t) = t"
| "json_encode (JStr s) = quote_json s"
| "json_encode (JArr xs) = ''['' @ str_join '','' (map json_encode xs) @ '']''"
| "json_encode (JObj fs) =
     ''{'' @ str_join '','' (map (\<lambda>(k, v). quote_json k @ '':'' @ json_encode v) fs) @ ''}''"

definition json_size :: "json \<Rightarrow> nat" where
  "json_size j = length (json_encode j)"

text \<open>The encoded length of a string is additive over its runes.\<close>

definition escaped_length :: "string list \<Rightarrow> nat" where
  "escaped_length rs = sum_list (map (\<lambda>r. length (escape_rune r)) rs)"

lemma length_quote_json: "length (quote_json s) = 2 + escaped_length (runes s)"
  by (simp add: quote_json_def escaped_length_def length_concat comp_def)

lemma escaped_length_append [simp]:
  "escaped_length (xs @ ys) = escaped_length xs + escaped_length ys"
  by (simp add: escaped_length_def)

lemma escaped_length_take: "m \<le> n \<Longrightarrow> escaped_length (take m rs) \<le> escaped_length (take n rs)"
proof -
  assume "m \<le> n"
  then have "take n rs = take m rs @ drop m (take n rs)"
    by (metis append_take_drop_id min.absorb1 take_take)
  then show ?thesis by (metis escaped_length_append le_add1)
qed

lemma sum_list_length_join:
  "length (str_join sep xs) = sum_list (map length xs) + (length xs - 1) * length sep"
  by (induction sep xs rule: str_join.induct) auto

lemma json_size_arr:
  "json_size (JArr xs) = 2 + sum_list (map json_size xs) + (length xs - 1)"
  by (simp add: json_size_def [abs_def] sum_list_length_join comp_def)

text \<open>Dropping trailing elements of an array never makes the encoding longer.\<close>

lemma json_size_arr_take: "json_size (JArr (take n xs)) \<le> json_size (JArr xs)"
proof -
  have "sum_list (map json_size (take n xs)) \<le> sum_list (map json_size (take n xs @ drop n xs))"
    by (simp only: map_append sum_list_append le_add1)
  moreover have "length (take n xs) - 1 \<le> length xs - 1" by simp
  ultimately show ?thesis by (simp add: json_size_arr)
qed

section \<open>Unmarshalling\<close>

text \<open>
  \<^verbatim>\<open>encoding/json\<close>'s \<^verbatim>\<open>Unmarshal\<close> of a parsed value into a Go variable that holds \<open>old\<close>: \<open>None\<close> is
  a type error, null leaves the variable, a struct takes the fields it knows (up to case, in the
  order of the text) and ignores the others.
\<close>

definition dec_str :: "json \<Rightarrow> string \<Rightarrow> string option" where
  "dec_str j old = (case j of JStr s \<Rightarrow> Some s | JNull \<Rightarrow> Some old | _ \<Rightarrow> None)"

definition dec_int :: "json \<Rightarrow> int \<Rightarrow> int option" where
  "dec_int j old =
     (case j of JInt i \<Rightarrow> if min_int64 \<le> i \<and> i \<le> max_int64 then Some i else None
      | JNull \<Rightarrow> Some old | _ \<Rightarrow> None)"

fun dec_all :: "('a \<Rightarrow> 'b option) \<Rightarrow> 'a list \<Rightarrow> 'b list option" where
  "dec_all f [] = Some []"
| "dec_all f (x # xs) =
     (case f x of None \<Rightarrow> None | Some y \<Rightarrow>
      case dec_all f xs of None \<Rightarrow> None | Some ys \<Rightarrow> Some (y # ys))"

definition dec_list :: "(json \<Rightarrow> 'a option) \<Rightarrow> json \<Rightarrow> 'a list option" where
  "dec_list f j = (case j of JArr xs \<Rightarrow> dec_all f xs | JNull \<Rightarrow> Some [] | _ \<Rightarrow> None)"

type_synonym 'r field_decoders = "(string \<times> (json \<Rightarrow> 'r \<Rightarrow> 'r option)) list"

definition dec_field :: "'r field_decoders \<Rightarrow> string \<times> json \<Rightarrow> 'r option \<Rightarrow> 'r option" where
  "dec_field known kv acc =
     (case acc of None \<Rightarrow> None | Some r \<Rightarrow>
      case find (\<lambda>d. equal_fold (fst d) (fst kv)) known of
        None \<Rightarrow> Some r
      | Some d \<Rightarrow> snd d (snd kv) r)"

definition dec_struct :: "'r field_decoders \<Rightarrow> json \<Rightarrow> 'r \<Rightarrow> 'r option" where
  "dec_struct known j old =
     (case j of JObj fs \<Rightarrow> fold (dec_field known) fs (Some old) | JNull \<Rightarrow> Some old | _ \<Rightarrow> None)"

lemma dec_all_length: "dec_all f xs = Some ys \<Longrightarrow> length ys = length xs"
  by (induction xs arbitrary: ys) (auto split: option.splits)

lemma dec_all_map: "(\<And>x. x \<in> set xs \<Longrightarrow> f x = Some (g x)) \<Longrightarrow> dec_all f xs = Some (map g xs)"
  by (induction xs) auto

text \<open>Fields the struct does not know leave it alone.\<close>

lemma dec_struct_unknown:
  "list_all (\<lambda>kv. list_all (\<lambda>d. \<not> equal_fold (fst d) (fst kv)) known) fs \<Longrightarrow>
   dec_struct known (JObj fs) old = Some old"
proof (induction fs)
  case Nil
  then show ?case by (simp add: dec_struct_def)
next
  case (Cons kv fs)
  then have "find (\<lambda>d. equal_fold (fst d) (fst kv)) known = None"
    by (auto simp: find_None_iff list_all_iff)
  with Cons show ?case by (simp add: dec_struct_def dec_field_def)
qed

end
