(* ===== verification/LspTypes.thy ===== *)
theory LspTypes
  imports Json
begin

text \<open>
  The language server's result types (\<^verbatim>\<open>internal/lsp/client.go\<close>), how they are marshalled for the
  MCP results that carry them, how clangd's location unions are decoded, and the two functions that
  bound a result.
\<close>

section \<open>Types\<close>

record Position =
  pos_Line :: int
  pos_Character :: int

record lsp_Range =
  rng_Start :: Position
  rng_End :: Position

record Location =
  loc_URI :: string
  loc_Range :: lsp_Range

record LocationLink =
  link_TargetURI :: string
  link_TargetRange :: lsp_Range
  link_TargetSelectionRange :: lsp_Range

record Symbol =
  sym_Name :: string
  sym_Kind :: int
  sym_Location :: Location
  sym_ContainerName :: string

datatype DocumentSymbol =
  DocumentSymbol (ds_Name: string) (ds_Kind: int) (ds_Range: lsp_Range) (ds_SelectionRange: lsp_Range)
    (ds_Children: "DocumentSymbol list")

record MarkupContent =
  mk_Kind :: string
  mk_Value :: string

record HoverResult =
  hv_Contents :: MarkupContent
  hv_Range :: "lsp_Range option"

record CallHierarchyItem =
  ch_Name :: string
  ch_Kind :: int
  ch_URI :: string
  ch_Range :: lsp_Range
  ch_SelectionRange :: lsp_Range

record CallHierarchyCall =
  call_From :: "CallHierarchyItem option"
  call_To :: "CallHierarchyItem option"
  call_FromRanges :: "lsp_Range list"

definition zero_Position :: Position where
  "zero_Position = \<lparr>pos_Line = 0, pos_Character = 0\<rparr>"

definition zero_Range :: lsp_Range where
  "zero_Range = \<lparr>rng_Start = zero_Position, rng_End = zero_Position\<rparr>"

section \<open>Marshalling\<close>

definition json_Position :: "Position \<Rightarrow> json" where
  "json_Position p = JObj [(''line'', JInt (pos_Line p)), (''character'', JInt (pos_Character p))]"

definition json_Range :: "lsp_Range \<Rightarrow> json" where
  "json_Range r = JObj [(''start'', json_Position (rng_Start r)), (''end'', json_Position (rng_End r))]"

definition json_Location :: "Location \<Rightarrow> json" where
  "json_Location l = JObj [(''uri'', JStr (loc_URI l)), (''range'', json_Range (loc_Range l))]"

text \<open>\<^verbatim>\<open>omitempty\<close>.\<close>

definition omit_empty :: "string \<Rightarrow> string \<Rightarrow> (string \<times> json) list" where
  "omit_empty k v = (if v = '''' then [] else [(k, JStr v)])"

definition json_Symbol :: "Symbol \<Rightarrow> json" where
  "json_Symbol s =
     JObj ([(''name'', JStr (sym_Name s)), (''kind'', JInt (sym_Kind s)), (''location'', json_Location (sym_Location s))]
           @ omit_empty ''containerName'' (sym_ContainerName s))"

definition json_MarkupContent :: "MarkupContent \<Rightarrow> json" where
  "json_MarkupContent m = JObj [(''kind'', JStr (mk_Kind m)), (''value'', JStr (mk_Value m))]"

definition json_HoverResult :: "HoverResult \<Rightarrow> json" where
  "json_HoverResult h =
     JObj ((''contents'', json_MarkupContent (hv_Contents h)) #
           (case hv_Range h of None \<Rightarrow> [] | Some r \<Rightarrow> [(''range'', json_Range r)]))"

definition json_CallHierarchyItem :: "CallHierarchyItem \<Rightarrow> json" where
  "json_CallHierarchyItem c =
     JObj [(''name'', JStr (ch_Name c)), (''kind'', JInt (ch_Kind c)), (''uri'', JStr (ch_URI c)),
           (''range'', json_Range (ch_Range c)), (''selectionRange'', json_Range (ch_SelectionRange c))]"

definition json_LocationLink :: "LocationLink \<Rightarrow> json" where
  "json_LocationLink l =
     JObj [(''targetUri'', JStr (link_TargetURI l)), (''targetRange'', json_Range (link_TargetRange l)),
           (''targetSelectionRange'', json_Range (link_TargetSelectionRange l))]"

section \<open>Unmarshalling\<close>

definition Position_fields :: "Position field_decoders" where
  "Position_fields =
     [(''line'', \<lambda>v r. map_option (\<lambda>i. r\<lparr>pos_Line := i\<rparr>) (dec_int v (pos_Line r))),
      (''character'', \<lambda>v r. map_option (\<lambda>i. r\<lparr>pos_Character := i\<rparr>) (dec_int v (pos_Character r)))]"

definition Range_fields :: "lsp_Range field_decoders" where
  "Range_fields =
     [(''start'', \<lambda>v r. map_option (\<lambda>p. r\<lparr>rng_Start := p\<rparr>) (dec_struct Position_fields v (rng_Start r))),
      (''end'', \<lambda>v r. map_option (\<lambda>p. r\<lparr>rng_End := p\<rparr>) (dec_struct Position_fields v (rng_End r)))]"

definition Location_fields :: "Location field_decoders" where
  "Location_fields =
     [(''uri'', \<lambda>v r. map_option (\<lambda>s. r\<lparr>loc_URI := s\<rparr>) (dec_str v (loc_URI r))),
      (''range'', \<lambda>v r. map_option (\<lambda>s. r\<lparr>loc_Range := s\<rparr>) (dec_struct Range_fields v (loc_Range r)))]"

definition LocationLink_fields :: "LocationLink field_decoders" where
  "LocationLink_fields =
     [(''targetUri'', \<lambda>v r. map_option (\<lambda>s. r\<lparr>link_TargetURI := s\<rparr>) (dec_str v (link_TargetURI r))),
      (''targetRange'', \<lambda>v r. map_option (\<lambda>s. r\<lparr>link_TargetRange := s\<rparr>)
         (dec_struct Range_fields v (link_TargetRange r))),
      (''targetSelectionRange'', \<lambda>v r. map_option (\<lambda>s. r\<lparr>link_TargetSelectionRange := s\<rparr>)
         (dec_struct Range_fields v (link_TargetSelectionRange r)))]"

definition zero_Location :: Location where
  "zero_Location = \<lparr>loc_URI = '''', loc_Range = zero_Range\<rparr>"

definition zero_LocationLink :: LocationLink where
  "zero_LocationLink = \<lparr>link_TargetURI = '''', link_TargetRange = zero_Range, link_TargetSelectionRange = zero_Range\<rparr>"

text \<open>
  \<^verbatim>\<open>decodeLocations\<close>: \<open>None\<close> is its error.  A parsed value stands for the raw message; the raw text
  \<^verbatim>\<open>null\<close> is the only one that parses to null without surrounding white space, which a raw message
  of a decoded frame never has.
\<close>

definition decodeLocations :: "json \<Rightarrow> Location list option" where
  "decodeLocations data =
     (if data = JNull then Some []
      else case dec_list (\<lambda>j. dec_struct Location_fields j zero_Location) data of
          Some many \<Rightarrow> Some many
        | None \<Rightarrow>
           (case dec_struct Location_fields data zero_Location of
              Some one \<Rightarrow>
                if loc_URI one \<noteq> '''' then Some [one]
                else map_option (map (\<lambda>x. \<lparr>loc_URI = link_TargetURI x, loc_Range = link_TargetSelectionRange x\<rparr>))
                       (dec_list (\<lambda>j. dec_struct LocationLink_fields j zero_LocationLink) data)
            | None \<Rightarrow>
                map_option (map (\<lambda>x. \<lparr>loc_URI = link_TargetURI x, loc_Range = link_TargetSelectionRange x\<rparr>))
                  (dec_list (\<lambda>j. dec_struct LocationLink_fields j zero_LocationLink) data)))"

section \<open>Bounding results\<close>

definition limit_items :: "int \<Rightarrow> 'a list \<Rightarrow> 'a list" where
  "limit_items m items = (if 0 < m \<and> m < int (length items) then take (nat m) items else items)"

text \<open>\<^verbatim>\<open>visit\<close> threads \<^verbatim>\<open>remaining\<close> through the traversal.\<close>

fun visit_symbols :: "nat \<Rightarrow> DocumentSymbol list \<Rightarrow> DocumentSymbol list \<times> nat" where
  "visit_symbols remaining [] = ([], remaining)"
| "visit_symbols 0 (v # vs) = ([], 0)"
| "visit_symbols (Suc remaining) (DocumentSymbol n k r sr cs # vs) =
     (case visit_symbols remaining cs of (cs', rem1) \<Rightarrow>
      case visit_symbols rem1 vs of (vs', rem2) \<Rightarrow>
        (DocumentSymbol n k r sr cs' # vs', rem2))"

definition limitDocumentSymbols :: "DocumentSymbol list \<Rightarrow> int \<Rightarrow> DocumentSymbol list" where
  "limitDocumentSymbols items m = (if m \<le> 0 then items else fst (visit_symbols (nat m) items))"

text \<open>The symbols in reading order: a symbol before its children, without them.\<close>

fun preorder :: "DocumentSymbol list \<Rightarrow> (string \<times> int \<times> lsp_Range \<times> lsp_Range) list" where
  "preorder [] = []"
| "preorder (DocumentSymbol n k r sr cs # vs) = (n, k, r, sr) # preorder cs @ preorder vs"

lemma visit_symbols_preorder:
  "visit_symbols rem vs = (out, rem') \<Longrightarrow>
   preorder out = take rem (preorder vs) \<and> rem' = rem - length (preorder vs)"
proof (induction rem vs arbitrary: out rem' rule: visit_symbols.induct)
  case (3 rem n k r sr cs vs)
  obtain cs' rem1 where c: "visit_symbols rem cs = (cs', rem1)" by fastforce
  obtain vs' rem2 where v: "visit_symbols rem1 vs = (vs', rem2)" by fastforce
  from 3(1)[OF c] 3(2)[OF c[symmetric] v] 3(3) c v show ?case by auto
qed auto

text \<open>
  Limiting a symbol tree keeps exactly the first \<^verbatim>\<open>max\<close> symbols in reading order (a parent before
  its children), so no child survives its parent and at most \<^verbatim>\<open>max\<close> symbols are returned; without
  a limit the tree is unchanged.
\<close>

theorem limitDocumentSymbols_preorder:
  "preorder (limitDocumentSymbols items m) = (if m \<le> 0 then preorder items else take (nat m) (preorder items))"
proof (cases "m \<le> 0")
  case False
  obtain out rem' where "visit_symbols (nat m) items = (out, rem')" by fastforce
  with visit_symbols_preorder[OF this] False show ?thesis by (simp add: limitDocumentSymbols_def)
qed (simp add: limitDocumentSymbols_def)

section \<open>Location links are not decoded\<close>

lemma link_fields_unknown:
  "dec_struct Location_fields (json_LocationLink l) zero_Location = Some zero_Location"
  unfolding json_LocationLink_def
  by (rule dec_struct_unknown) (simp add: Location_fields_def, code_simp)

text \<open>
  An array of location links never reaches the branch that was written for it: the decoder for
  plain locations accepts it first, ignoring the fields it does not know, so every link comes back
  as a location with an empty URI and a zero range.
\<close>

theorem decodeLocations_loses_links:
  "decodeLocations (JArr (map json_LocationLink links)) = Some (replicate (length links) zero_Location)"
proof -
  have "dec_all (\<lambda>j. dec_struct Location_fields j zero_Location) (map json_LocationLink links) =
      Some (map (\<lambda>_. zero_Location) (map json_LocationLink links))"
    by (rule dec_all_map) (auto simp: link_fields_unknown)
  then show ?thesis by (simp add: decodeLocations_def dec_list_def map_replicate_const)
qed

end
