(* ===== verification/Url.thy ===== *)
theory Url
  imports Prelude
begin

text \<open>
  The part of Go's \<^verbatim>\<open>net/url\<close> the program relies on: \<^verbatim>\<open>Parse\<close> as far as the scheme, the host and the
  path of the result, \<^verbatim>\<open>EscapedPath\<close>, \<^verbatim>\<open>PathUnescape\<close> and the printing of a URL with a scheme and a
  path.  A URL is a byte string.  The zone of a bracketed IPv6 host is decoded like the rest of
  the host.
\<close>

section \<open>Percent encoding\<close>

definition hex_value :: "char \<Rightarrow> nat option" where
  "hex_value c =
     (let n = byte c in
      if is_digit c then Some (n - 48)
      else if 97 \<le> n \<and> n \<le> 102 then Some (n - 97 + 10)
      else if 65 \<le> n \<and> n \<le> 70 then Some (n - 65 + 10)
      else None)"

definition upper_hex :: "nat \<Rightarrow> char" where
  "upper_hex d = (if d < 10 then char_of (48 + d) else char_of (55 + d))"

abbreviation percent :: char where
  "percent \<equiv> CHR ''%''"

text \<open>\<open>accept\<close> is the test a mode makes on a byte that is not escaped, \<open>accept_hex\<close> on an escape.\<close>

fun url_unescape :: "(char \<Rightarrow> bool) \<Rightarrow> (nat \<Rightarrow> bool) \<Rightarrow> string \<Rightarrow> string option" where
  "url_unescape accept accept_hex [] = Some []"
| "url_unescape accept accept_hex (c # r) =
     (if c = percent then
        (case r of
           a # b # r' \<Rightarrow>
             (case (hex_value a, hex_value b) of
                (Some m, Some n) \<Rightarrow>
                  if accept_hex (16 * m + n)
                  then map_option ((#) (char_of (16 * m + n))) (url_unescape accept accept_hex r')
                  else None
              | _ \<Rightarrow> None)
         | _ \<Rightarrow> None)
      else if accept c then map_option ((#) c) (url_unescape accept accept_hex r)
      else None)"

text \<open>\<^verbatim>\<open>PathUnescape\<close>, and the decoding of a path or a fragment.\<close>

definition path_unescape :: "string \<Rightarrow> string option" where
  "path_unescape s = url_unescape (\<lambda>_. True) (\<lambda>_. True) s"

definition is_alnum :: "char \<Rightarrow> bool" where
  "is_alnum c \<longleftrightarrow> is_digit c \<or> is_lower c \<or> is_upper c"

text \<open>The bytes of a path that are printed as they are.\<close>

definition path_plain :: "char \<Rightarrow> bool" where
  "path_plain c \<longleftrightarrow> is_alnum c \<or> c \<in> set ''-_.~$&+,/:;=@''"

definition url_escape_path :: "string \<Rightarrow> string" where
  "url_escape_path s =
     concat (map (\<lambda>c. if path_plain c then [c]
                      else [percent, upper_hex (byte c div 16), upper_hex (byte c mod 16)]) s)"

definition host_plain :: "char \<Rightarrow> bool" where
  "host_plain c \<longleftrightarrow> 128 \<le> byte c \<or> is_alnum c \<or> c \<in> set ''-_.~!$&()*+,;=:[]<>'' \<or> byte c = 39 \<or> byte c = 34"

text \<open>In a host only non-ASCII bytes and the percent sign itself may be escaped.\<close>

definition host_unescape :: "string \<Rightarrow> string option" where
  "host_unescape s = url_unescape host_plain (\<lambda>n. 128 \<le> n \<or> n = 37) s"

section \<open>Parsing\<close>

record url =
  url_Scheme :: string
  url_Host :: string
  url_Path :: string
  url_RawPath :: string

fun scheme_end :: "bool \<Rightarrow> string \<Rightarrow> string \<Rightarrow> (string \<times> string) option option" where
  "scheme_end first acc [] = Some None"
| "scheme_end first acc (c # r) =
     (if is_lower c \<or> is_upper c then scheme_end False (acc @ [c]) r
      else if is_digit c \<or> c \<in> set ''+-.'' then
        (if first then Some None else scheme_end False (acc @ [c]) r)
      else if c = CHR '':'' then (if first then None else Some (Some (acc, r)))
      else Some None)"

text \<open>\<^verbatim>\<open>getScheme\<close>: the scheme, empty when there is none, and the rest; \<open>None\<close> for its error.\<close>

definition getScheme :: "string \<Rightarrow> (string \<times> string) option" where
  "getScheme s =
     (case scheme_end True [] s of
        None \<Rightarrow> None
      | Some None \<Rightarrow> Some ('''', s)
      | Some (Some (sch, rest)) \<Rightarrow> Some (sch, rest))"

definition valid_optional_port :: "string \<Rightarrow> bool" where
  "valid_optional_port p = (case p of [] \<Rightarrow> True | c # r \<Rightarrow> c = CHR '':'' \<and> list_all is_digit r)"

text \<open>What follows the last occurrence of a byte, with the byte, or nothing without one.\<close>

definition from_last :: "char \<Rightarrow> string \<Rightarrow> string option" where
  "from_last c s = (if c \<in> set s then Some (c # rev (takeWhile (\<lambda>x. x \<noteq> c) (rev s))) else None)"

definition parseHost :: "string \<Rightarrow> string option" where
  "parseHost host =
     (if has_prefix host ''['' then
        (case from_last (CHR '']'') host of
           None \<Rightarrow> None
         | Some t \<Rightarrow> if valid_optional_port (tl t) then host_unescape host else None)
      else case from_last (CHR '':'') host of
          Some port \<Rightarrow> if valid_optional_port port then host_unescape host else None
        | None \<Rightarrow> host_unescape host)"

definition valid_userinfo :: "string \<Rightarrow> bool" where
  "valid_userinfo s = list_all (\<lambda>c. is_alnum c \<or> c \<in> set ''-._:~!$&()*+,;=%@'' \<or> byte c = 39) s"

definition parseAuthority :: "string \<Rightarrow> string option" where
  "parseAuthority a =
     (case from_last (CHR ''@'') a of
        None \<Rightarrow> parseHost a
      | Some t \<Rightarrow>
          (case parseHost (tl t) of
             None \<Rightarrow> None
           | Some h \<Rightarrow>
               let userinfo = take (length a - length t) a
               in if valid_userinfo userinfo \<and> path_unescape userinfo \<noteq> None then Some h else None))"

text \<open>\<^verbatim>\<open>setPath\<close>: the raw path is only kept when printing the decoded one would not give it back.\<close>

definition setPath :: "string \<Rightarrow> string \<Rightarrow> string \<Rightarrow> url option" where
  "setPath scheme host p =
     (case path_unescape p of
        None \<Rightarrow> None
      | Some path \<Rightarrow>
          Some \<lparr>url_Scheme = scheme, url_Host = host, url_Path = path,
                url_RawPath = (if p = url_escape_path path then '''' else p)\<rparr>)"

definition is_ctl :: "char \<Rightarrow> bool" where
  "is_ctl c \<longleftrightarrow> byte c < 32 \<or> byte c = 127"

definition parse_without_fragment :: "string \<Rightarrow> url option" where
  "parse_without_fragment raw =
     (if list_ex is_ctl raw then None
      else if raw = ''*'' then Some \<lparr>url_Scheme = '''', url_Host = '''', url_Path = ''*'', url_RawPath = ''''\<rparr>
      else case getScheme raw of
          None \<Rightarrow> None
        | Some (sch, rest0) \<Rightarrow>
            let scheme = to_lower sch; rest = fst (str_cut ''?'' rest0) in
            if \<not> has_prefix rest ''/'' \<and> scheme \<noteq> '''' then
              Some \<lparr>url_Scheme = scheme, url_Host = '''', url_Path = '''', url_RawPath = ''''\<rparr>
            else if \<not> has_prefix rest ''/'' \<and> CHR '':'' \<in> set (fst (str_cut ''/'' rest)) then None
            else if (scheme \<noteq> '''' \<or> \<not> has_prefix rest ''///'') \<and> has_prefix rest ''//'' then
              (let authority = takeWhile (\<lambda>c. c \<noteq> CHR ''/'') (drop 2 rest);
                   path = dropWhile (\<lambda>c. c \<noteq> CHR ''/'') (drop 2 rest)
               in case parseAuthority authority of
                    None \<Rightarrow> None
                  | Some host \<Rightarrow> setPath scheme host path)
            else setPath scheme '''' rest)"

definition url_parse :: "string \<Rightarrow> url option" where
  "url_parse raw =
     (case str_cut ''#'' raw of (u, fragment, _) \<Rightarrow>
        (case parse_without_fragment u of
           None \<Rightarrow> None
         | Some r \<Rightarrow> if fragment = '''' \<or> path_unescape fragment \<noteq> None then Some r else None))"

definition valid_encoded_path :: "string \<Rightarrow> bool" where
  "valid_encoded_path s =
     list_all (\<lambda>c. c \<in> set ''!$&()*+,;=:@[]%'' \<or> byte c = 39 \<or> path_plain c) s"

definition EscapedPath :: "url \<Rightarrow> string" where
  "EscapedPath u =
     (if url_RawPath u \<noteq> '''' \<and> valid_encoded_path (url_RawPath u) \<and>
         path_unescape (url_RawPath u) = Some (url_Path u)
      then url_RawPath u
      else if url_Path u = ''*'' then ''*''
      else url_escape_path (url_Path u))"

text \<open>\<^verbatim>\<open>(&url.URL{Scheme: s, Path: p}).String()\<close> for a non-empty scheme.\<close>

definition url_String :: "string \<Rightarrow> string \<Rightarrow> string" where
  "url_String scheme p =
     scheme @ '':'' @ (if p \<noteq> '''' then ''//'' else '''') @
     EscapedPath \<lparr>url_Scheme = scheme, url_Host = '''', url_Path = p, url_RawPath = ''''\<rparr>"

section \<open>Decoding undoes encoding\<close>

lemma hex_value_upper_hex [simp]: "d < 16 \<Longrightarrow> hex_value (upper_hex d) = Some d"
  by (auto simp: hex_value_def upper_hex_def byte_char_of is_digit_def Let_def)

lemma percent_not_plain: "\<not> path_plain percent"
  by code_simp

lemma path_unescape_simps:
  "path_unescape [] = Some []"
  "c \<noteq> percent \<Longrightarrow> path_unescape (c # r) = map_option ((#) c) (path_unescape r)"
  "m < 16 \<Longrightarrow> n < 16 \<Longrightarrow>
   path_unescape (percent # upper_hex m # upper_hex n # r) =
   map_option ((#) (char_of (16 * m + n))) (path_unescape r)"
  by (simp_all add: path_unescape_def)

lemma path_unescape_escape: "path_unescape (url_escape_path s) = Some s"
proof (induction s)
  case Nil
  then show ?case by (simp add: url_escape_path_def path_unescape_simps)
next
  case (Cons c s)
  have b: "16 * (byte c div 16) + byte c mod 16 = byte c" by simp
  have m: "byte c div 16 < 16" using byte_less_256[of c] by simp
  show ?case
  proof (cases "path_plain c")
    case True
    then have "c \<noteq> percent" using percent_not_plain by blast
    with True Cons show ?thesis by (simp add: url_escape_path_def path_unescape_simps)
  next
    case False
    have e: "url_escape_path (c # s) =
        percent # upper_hex (byte c div 16) # upper_hex (byte c mod 16) # url_escape_path s"
      using False by (simp add: url_escape_path_def)
    show ?thesis
      unfolding e using path_unescape_simps(3)[OF m, of "byte c mod 16"] Cons by (simp add: b)
  qed
qed

lemma star_unescape: "path_unescape ''*'' = Some ''*''"
  by code_simp

lemma unescape_EscapedPath: "path_unescape (EscapedPath u) = Some (url_Path u)"
  by (simp add: EscapedPath_def path_unescape_escape star_unescape)

lemma escape_chars: "c \<in> set (url_escape_path s) \<Longrightarrow> c = percent \<or> path_plain c"
proof -
  have h: "path_plain (upper_hex d)" if "d < 16" for d
  proof -
    have "d < 10 \<or> d \<in> {10, 11, 12, 13, 14, 15}" using that by auto
    then show ?thesis
      by (auto simp: path_plain_def is_alnum_def upper_hex_def is_digit_def is_upper_def byte_char_of)
  qed
  assume "c \<in> set (url_escape_path s)"
  then obtain x where x: "x \<in> set s"
    and c: "c \<in> set (if path_plain x then [x]
                   else [percent, upper_hex (byte x div 16), upper_hex (byte x mod 16)])"
    unfolding url_escape_path_def set_concat set_map by blast
  have "byte x div 16 < 16" using byte_less_256[of x] by simp
  with c h show ?thesis by (auto split: if_splits)
qed

lemma plain_range: "path_plain c \<Longrightarrow> \<not> is_ctl c \<and> c \<noteq> CHR ''?'' \<and> c \<noteq> CHR ''#''"
  by (auto simp: path_plain_def is_alnum_def is_digit_def is_lower_def is_upper_def is_ctl_def byte_def)

lemma escape_no_special:
  "CHR ''?'' \<notin> set (url_escape_path s)" "CHR ''#'' \<notin> set (url_escape_path s)"
  "\<not> list_ex is_ctl (url_escape_path s)"
proof -
  have "\<not> is_ctl c \<and> c \<noteq> CHR ''?'' \<and> c \<noteq> CHR ''#''" if "c \<in> set (url_escape_path s)" for c
    using escape_chars[OF that] plain_range[of c] by (auto simp: is_ctl_def byte_def)
  then show "CHR ''?'' \<notin> set (url_escape_path s)" "CHR ''#'' \<notin> set (url_escape_path s)"
    "\<not> list_ex is_ctl (url_escape_path s)"
    by (auto simp: list_ex_iff)
qed

lemma str_cut_none: "d \<notin> set s \<Longrightarrow> str_cut [d] s = (s, [], False)"
  by (rule str_cut_not_found)

lemma getScheme_file: "getScheme (''file:'' @ r) = Some (''file'', r)"
  by (simp add: getScheme_def is_lower_def is_upper_def is_digit_def byte_def)

text \<open>Printing a file URL and parsing it gives the path back.\<close>

lemma url_parse_String:
  assumes p: "has_prefix p ''/''"
  shows "url_parse (url_String ''file'' p) =
         Some \<lparr>url_Scheme = ''file'', url_Host = '''', url_Path = p, url_RawPath = ''''\<rparr>"
proof -
  let ?e = "url_escape_path p"
  obtain q where q: "p = CHR ''/'' # q"
    using p by (cases p) (auto simp: has_prefix_def)
  have plain: "path_plain (CHR ''/'')" by code_simp
  have e: "?e = CHR ''/'' # url_escape_path q"
    using plain by (simp add: q url_escape_path_def)
  have st: "url_String ''file'' p = ''file://'' @ ?e"
    by (simp add: url_String_def EscapedPath_def q)
  have nohash: "CHR ''#'' \<notin> set (''file://'' @ ?e)" using escape_no_special by auto
  have ctl: "\<not> list_ex is_ctl (''file://'' @ ?e)"
    using escape_no_special(3)[of p] by (auto simp: is_ctl_def byte_def)
  have noq: "str_cut ''?'' (url_escape_path q) = (url_escape_path q, [], False)"
    by (rule str_cut_none) (rule escape_no_special)
  have host: "parseAuthority '''' = Some ''''" by code_simp
  have low: "to_lower ''file'' = ''file''" by code_simp
  have sch: "getScheme (''file://'' @ ?e) = Some (''file'', ''//'' @ ?e)"
    using getScheme_file[of "''//'' @ ?e"] by simp
  have "parse_without_fragment (''file://'' @ ?e) = setPath ''file'' '''' ?e"
    unfolding parse_without_fragment_def sch
    using ctl by (simp add: noq low has_prefix_def e host Let_def)
  then show ?thesis
    unfolding url_parse_def st str_cut_none[OF nohash]
    by (simp add: setPath_def path_unescape_escape)
qed

end
