(* ===== verification/McpPaths.thy ===== *)
theory McpPaths
  imports Registry LspTypes Url
begin

text \<open>
  What the MCP server lets a client see (\<^verbatim>\<open>internal/mcpserver/server.go\<close>): \<^verbatim>\<open>safePath\<close>, which admits a
  path only when it resolves to a place under the project or the engine, the decoding of file
  URIs, and the filters on what clangd returned.
\<close>

section \<open>Errors\<close>

text \<open>An error: the sentinels \<^verbatim>\<open>errors.Is\<close> finds in it, and its text.\<close>

datatype sentinel =
    ErrProjectRequired | ErrProjectNotFound | ErrPathForbidden | ErrPathNotFound | ErrPathInvalid
  | ErrLimitExceeded | ErrInvalidLimits | ErrToolBusy | ErrIndexBuilding | ErrDeadlineExceeded

record go_error =
  ge_is :: "sentinel list"
  ge_text :: string

definition sentinel_error :: "sentinel \<Rightarrow> go_error" where
  "sentinel_error s =
     \<lparr>ge_is = [s],
      ge_text = (case s of
          ErrProjectRequired \<Rightarrow> ''project_id is required''
        | ErrProjectNotFound \<Rightarrow> ''project not found''
        | ErrPathForbidden \<Rightarrow> ''path is outside the selected project or engine''
        | ErrPathNotFound \<Rightarrow> ''path does not exist''
        | ErrPathInvalid \<Rightarrow> ''path syntax is invalid''
        | ErrLimitExceeded \<Rightarrow> ''request exceeds configured limit''
        | ErrInvalidLimits \<Rightarrow> ''configured response limit is too small''
        | ErrToolBusy \<Rightarrow> ''too many concurrent tool calls''
        | ErrIndexBuilding \<Rightarrow> ''background index is still building''
        | ErrDeadlineExceeded \<Rightarrow> ''context deadline exceeded'')\<rparr>"

definition plain_error :: "string \<Rightarrow> go_error" where
  "plain_error t = \<lparr>ge_is = [], ge_text = t\<rparr>"

section \<open>Safe paths\<close>

text \<open>
  The operating system: working directory and symlink resolution, and, for a path that does not
  resolve, what kind of error it was.
\<close>

datatype eval_failure = NotExist | InvalidSyntax | OtherFailure go_error

record safe_env =
  sf_paths :: path_env
  sf_failure :: "string \<Rightarrow> eval_failure"

text \<open>The containment test both loops make.\<close>

definition safe_inside :: "string \<Rightarrow> string \<Rightarrow> bool" where
  "safe_inside path root =
     (case path_rel root path of
        None \<Rightarrow> False
      | Some rel \<Rightarrow> rel \<noteq> ''..'' \<and> \<not> has_prefix rel (''..'' @ [sep]) \<and> \<not> is_abs rel)"

definition lexically_inside :: "safe_env \<Rightarrow> string \<Rightarrow> string \<Rightarrow> bool" where
  "lexically_inside env path root =
     (if root = '''' then False
      else case go_abs (sf_paths env) root of None \<Rightarrow> False | Some rootAbs \<Rightarrow> safe_inside path rootAbs)"

definition really_inside :: "safe_env \<Rightarrow> string \<Rightarrow> string \<Rightarrow> bool" where
  "really_inside env resolved root =
     (if root = '''' then False
      else case EvalSymlinks (sf_paths env) root of None \<Rightarrow> False | Some rr \<Rightarrow> safe_inside resolved rr)"

definition safePath :: "safe_env \<Rightarrow> string \<Rightarrow> string list \<Rightarrow> (go_error, string) result" where
  "safePath env path roots =
     (case go_abs (sf_paths env) path of
        None \<Rightarrow> Inl (plain_error ''getwd'')
      | Some full \<Rightarrow>
          if has_prefix full [bslash, bslash] then Inl (sentinel_error ErrPathForbidden)
          else case EvalSymlinks (sf_paths env) full of
              None \<Rightarrow>
                (case sf_failure env full of
                   NotExist \<Rightarrow>
                     if list_ex (lexically_inside env full) roots then Inl (sentinel_error ErrPathNotFound)
                     else Inl (sentinel_error ErrPathForbidden)
                 | InvalidSyntax \<Rightarrow> Inl (sentinel_error ErrPathInvalid)
                 | OtherFailure e \<Rightarrow> Inl e)
            | Some resolved \<Rightarrow>
                if list_ex (really_inside env resolved) roots then Inr resolved
                else Inl (sentinel_error ErrPathForbidden))"

section \<open>File URIs\<close>

text \<open>\<^verbatim>\<open>runtimeGOOS\<close> of the build the path functions are modelled for.\<close>

definition runtimeGOOS :: string where
  "runtimeGOOS = ''linux''"

definition fileURIPath :: "string \<Rightarrow> string \<Rightarrow> (go_error, string) result" where
  "fileURIPath raw goos =
     (case url_parse raw of
        None \<Rightarrow> Inl (sentinel_error ErrPathForbidden)
      | Some u \<Rightarrow>
          if url_Scheme u \<noteq> ''file'' then Inl (sentinel_error ErrPathForbidden)
          else if url_Host u \<noteq> '''' \<and> url_Host u \<noteq> ''localhost'' then Inl (sentinel_error ErrPathForbidden)
          else case path_unescape (EscapedPath u) of
              None \<Rightarrow> Inl (sentinel_error ErrPathForbidden)
            | Some p \<Rightarrow>
                if p = '''' then Inl (sentinel_error ErrPathForbidden)
                else if goos = ''windows'' then
                  Inr (replace_char sep [bslash]
                        (if 3 \<le> length p \<and> p ! 0 = sep \<and> p ! 2 = CHR '':'' then tl p else p))
                else Inr p)"

definition project_roots :: "Project \<Rightarrow> string list" where
  "project_roots p = [path_dir (UProject p), eng_Root (proj_Engine p)]"

definition allowed :: "safe_env \<Rightarrow> Project \<Rightarrow> string \<Rightarrow> bool" where
  "allowed env p uri =
     (case fileURIPath uri runtimeGOOS of
        Inl _ \<Rightarrow> False
      | Inr path \<Rightarrow> is_ok (safePath env path (project_roots p)))"

section \<open>Filters\<close>

text \<open>The loop of the three filters: what is dropped makes the result truncated.\<close>

fun filter_allowed :: "('a \<Rightarrow> bool) \<Rightarrow> bool \<Rightarrow> 'a list \<Rightarrow> 'a list \<times> bool" where
  "filter_allowed ok truncated [] = ([], truncated)"
| "filter_allowed ok truncated (v # vs) =
     (if ok v then (case filter_allowed ok truncated vs of (out, t) \<Rightarrow> (v # out, t))
      else filter_allowed ok True vs)"

definition filterSymbols :: "safe_env \<Rightarrow> Project \<Rightarrow> Symbol list \<Rightarrow> bool \<Rightarrow> Symbol list \<times> bool" where
  "filterSymbols env p vs truncated =
     filter_allowed (\<lambda>v. loc_URI (sym_Location v) = '''' \<or> allowed env p (loc_URI (sym_Location v))) truncated vs"

definition filterLocations :: "safe_env \<Rightarrow> Project \<Rightarrow> Location list \<Rightarrow> bool \<Rightarrow> Location list \<times> bool" where
  "filterLocations env p vs truncated = filter_allowed (\<lambda>v. allowed env p (loc_URI v)) truncated vs"

definition filterCalls :: "safe_env \<Rightarrow> Project \<Rightarrow> CallHierarchyItem list \<Rightarrow> bool \<Rightarrow> CallHierarchyItem list \<times> bool" where
  "filterCalls env p vs truncated = filter_allowed (\<lambda>v. allowed env p (ch_URI v)) truncated vs"

definition in_path_scope :: "safe_env \<Rightarrow> string \<Rightarrow> Symbol \<Rightarrow> bool" where
  "in_path_scope env scope v =
     (case fileURIPath (loc_URI (sym_Location v)) runtimeGOOS of
        Inl _ \<Rightarrow> False
      | Inr path \<Rightarrow>
          (case EvalSymlinks (sf_paths env) path of
             None \<Rightarrow> False
           | Some resolved \<Rightarrow> resolved = scope \<or> has_prefix resolved (scope @ [sep])))"

definition filterSymbolsByPathScope :: "safe_env \<Rightarrow> string \<Rightarrow> Symbol list \<Rightarrow> Symbol list" where
  "filterSymbolsByPathScope env scope vs = filter (in_path_scope env scope) vs"

section \<open>Safe paths are exactly the contained ones\<close>

lemma safe_inside_rel: "safe_inside path root = rel_inside (path_rel root path)"
  by (simp add: safe_inside_def rel_inside_def split: option.split)

interpretation safe_contains: containment safe_inside
  by unfold_locales (simp add: safe_inside_rel rel_inside_iff_prefix)

text \<open>\<^verbatim>\<open>EvalSymlinks\<close> of an absolute path is absolute and clean.\<close>

definition sound_symlinks :: "safe_env \<Rightarrow> bool" where
  "sound_symlinks env \<longleftrightarrow>
     (\<forall>p q. is_abs p \<longrightarrow> EvalSymlinks (sf_paths env) p = Some q \<longrightarrow> is_abs q \<and> path_clean q = q) \<and>
     (\<forall>d. Getwd (sf_paths env) = Some d \<longrightarrow> is_abs d)"

text \<open>\<open>path\<close> resolves to \<open>resolved\<close>, and that lies under what a root resolves to.\<close>

definition resolves_under :: "safe_env \<Rightarrow> string \<Rightarrow> string list \<Rightarrow> string \<Rightarrow> bool" where
  "resolves_under env path roots resolved \<longleftrightarrow>
     (\<exists>full root rr. go_abs (sf_paths env) path = Some full \<and> EvalSymlinks (sf_paths env) full = Some resolved \<and>
        root \<in> set roots \<and> root \<noteq> '''' \<and> EvalSymlinks (sf_paths env) root = Some rr \<and>
        prefix (path_parts rr) (path_parts resolved))"

lemma go_abs_is_abs:
  assumes "sound_symlinks env" and "go_abs (sf_paths env) p = Some q"
  shows "is_abs q"
proof -
  have j: "is_abs (path_join2 d r)" if "is_abs d" for d r
    using that by (cases d; cases r) (auto simp: path_join_def intro: is_abs_clean)
  show ?thesis
    using assms by (auto simp: go_abs_def sound_symlinks_def intro: j is_abs_clean split: if_splits)
qed

lemma abs_not_unc: "is_abs q \<Longrightarrow> \<not> has_prefix q [bslash, bslash]"
  by (cases q) (auto simp: has_prefix_def)

lemma safePath_iff:
  assumes env: "sound_symlinks env" and roots: "\<forall>r \<in> set roots. r \<noteq> '''' \<longrightarrow> is_abs r"
  shows "safePath env path roots = Inr resolved \<longleftrightarrow> resolves_under env path roots resolved"
proof (cases "go_abs (sf_paths env) path")
  case None
  then show ?thesis by (simp add: safePath_def resolves_under_def)
next
  case (Some full)
  then have a: "is_abs full" by (rule go_abs_is_abs[OF env])
  have inside: "really_inside env q root \<longleftrightarrow>
      root \<noteq> '''' \<and> (\<exists>rr. EvalSymlinks (sf_paths env) root = Some rr \<and> prefix (path_parts rr) (path_parts q))"
    if "EvalSymlinks (sf_paths env) full = Some q" "root \<in> set roots" for q root
    using that a env roots unfolding sound_symlinks_def
    by (auto simp: really_inside_def safe_contains.inside_iff split: option.split)
  show ?thesis
    using Some abs_not_unc[OF a] inside
    by (auto simp: safePath_def resolves_under_def list_ex_iff split: option.split eval_failure.split if_splits)
qed


lemma not_found_inside:
  "safePath env path roots = Inl (sentinel_error ErrPathNotFound) \<Longrightarrow>
   (\<And>f e. sf_failure env f = OtherFailure e \<Longrightarrow> ErrPathNotFound \<notin> set (ge_is e)) \<Longrightarrow>
   \<exists>full root. go_abs (sf_paths env) path = Some full \<and> root \<in> set roots \<and> lexically_inside env full root"
  by (fastforce simp: safePath_def list_ex_iff sentinel_error_def plain_error_def
      split: option.splits eval_failure.splits if_splits)

text \<open>
  C18. \<^verbatim>\<open>safePath\<close> admits exactly the paths that resolve to a place under a resolved root, component
  by component, whatever symbolic links, dots and doubled separators the path contains; and only
  paths that lie under a root as written are told not to exist.
\<close>

theorem safePath_exact:
  assumes "sound_symlinks env" and "\<forall>r \<in> set roots. r \<noteq> '''' \<longrightarrow> is_abs r"
    and "\<forall>f e. sf_failure env f = OtherFailure e \<longrightarrow> ErrPathNotFound \<notin> set (ge_is e)"
  shows "(safePath env path roots = Inr resolved \<longleftrightarrow> resolves_under env path roots resolved) \<and>
    (safePath env path roots = Inl (sentinel_error ErrPathNotFound) \<longrightarrow>
       (\<exists>full root. go_abs (sf_paths env) path = Some full \<and> root \<in> set roots \<and> lexically_inside env full root))"
  using safePath_iff[OF assms(1,2)] not_found_inside[of env path roots] assms(3) by blast

definition sample_safe_env :: safe_env where
  "sample_safe_env =
     \<lparr>sf_paths = \<lparr>Getwd = Some ''/w'', EvalSymlinks = (\<lambda>p. if p = ''/p/link'' then Some ''/q/x'' else
                    if is_abs p then Some (path_clean p) else None)\<rparr>,
      sf_failure = (\<lambda>_. NotExist)\<rparr>"

lemma sample_safe_env_sound: "sound_symlinks sample_safe_env"
proof -
  have c: "path_clean ''/q/x'' = ''/q/x''" by code_simp
  show ?thesis
    using path_clean_idem is_abs_clean
    by (auto simp: sound_symlinks_def sample_safe_env_def c split: if_splits)
qed

theorem safePath_exact_witness:
  "resolves_under sample_safe_env ''/p/a/../b.cpp'' [''/p''] ''/p/b.cpp'' \<and>
   \<not> resolves_under sample_safe_env ''/p/link'' [''/p''] ''/q/x''"
proof -
  have r: "\<forall>r \<in> set [''/p'']. r \<noteq> '''' \<longrightarrow> is_abs r" by simp
  have f: "\<forall>f e. sf_failure sample_safe_env f = OtherFailure e \<longrightarrow> ErrPathNotFound \<notin> set (ge_is e)"
    by (simp add: sample_safe_env_def)
  have "safePath sample_safe_env ''/p/a/../b.cpp'' [''/p''] = Inr ''/p/b.cpp''"
    "safePath sample_safe_env ''/p/link'' [''/p''] \<noteq> Inr ''/q/x''" by code_simp+
  with safePath_exact[OF sample_safe_env_sound r f] show ?thesis by blast
qed

section \<open>The paths of file URIs\<close>

lemma path_unescape_abs: "path_unescape (sep # p) = Some q \<Longrightarrow> is_abs q"
  by (auto simp: path_unescape_def)

lemma setPath_abs: "setPath scheme host p = Some u \<Longrightarrow> p = '''' \<or> is_abs p \<Longrightarrow> url_Path u = '''' \<or> is_abs (url_Path u)"
  by (cases p) (auto simp: setPath_def path_unescape_simps dest: path_unescape_abs split: option.splits)

lemma dropWhile_abs: "dropWhile (\<lambda>c. c \<noteq> sep) s = '''' \<or> is_abs (dropWhile (\<lambda>c. c \<noteq> sep) s)"
  by (induction s) auto

lemma prefix_abs: "has_prefix r ''/'' \<Longrightarrow> is_abs r"
  by (simp add: is_abs_def)

lemma setPath_scheme: "setPath s h p = Some u \<Longrightarrow> url_Scheme u = s"
  by (auto simp: setPath_def split: option.splits)

lemma parse_cases:
  assumes "parse_without_fragment raw = Some u"
  shows "url_Scheme u = '''' \<or> url_Path u = '''' \<or>
    (\<exists>s h p. setPath s h p = Some u \<and> (s = '''' \<or> p = '''' \<or> is_abs p))"
proof (cases "raw = ''*''")
  case True
  with assms show ?thesis by (auto simp: parse_without_fragment_def split: if_splits)
next
  case False
  with assms obtain sch rest0 where g: "getScheme raw = Some (sch, rest0)"
    by (auto simp: parse_without_fragment_def split: if_splits option.splits)
  let ?rest = "fst (str_cut ''?'' rest0)"
  let ?after = "dropWhile (\<lambda>c. c \<noteq> CHR ''/'') (drop 2 ?rest)"
  consider "url_Path u = ''''" | h where "setPath (to_lower sch) h ?after = Some u"
    | "setPath (to_lower sch) '''' ?rest = Some u" "has_prefix ?rest ''/'' \<or> to_lower sch = ''''"
    using assms False g
    by (auto simp: parse_without_fragment_def Let_def split: if_splits option.splits)
  then show ?thesis
  proof cases
    case 2
    with dropWhile_abs[of "drop 2 ?rest"] show ?thesis by blast
  qed (use prefix_abs in blast)+
qed

lemma parse_abs:
  assumes "parse_without_fragment raw = Some u" and "url_Scheme u = ''file''"
  shows "url_Path u = '''' \<or> is_abs (url_Path u)"
  using parse_cases[OF assms(1)] assms(2) setPath_abs setPath_scheme by fastforce

lemma fileURIPath_abs:
  assumes "fileURIPath raw runtimeGOOS = Inr p"
  shows "is_abs p"
proof -
  from assms obtain u where u: "url_parse raw = Some u" "url_Scheme u = ''file''" "url_Path u = p" "p \<noteq> ''''"
    by (auto simp: fileURIPath_def runtimeGOOS_def unescape_EscapedPath split: option.splits if_splits)
  from u(1) obtain v where "parse_without_fragment v = Some u"
    by (auto simp: url_parse_def split: prod.splits option.splits if_splits)
  from parse_abs[OF this u(2)] u show ?thesis by auto
qed

section \<open>Scoping by a path prefix\<close>

lemma clean_text: "is_abs p \<Longrightarrow> path_clean p = p \<Longrightarrow> p = sep # str_join ''/'' (path_parts p)"
  by (metis path_clean_abs)

lemma scope_prefix:
  assumes s: "is_abs scope" "path_clean scope = scope" "scope \<noteq> ''/''"
    and r: "is_abs resolved" "path_clean resolved = resolved"
  shows "resolved = scope \<or> has_prefix resolved (scope @ [sep]) \<longleftrightarrow>
         prefix (path_parts scope) (path_parts resolved)"
proof -
  let ?A = "path_parts scope" and ?B = "path_parts resolved"
  have tA: "scope = sep # str_join ''/'' ?A" and tB: "resolved = sep # str_join ''/'' ?B"
    using s r by (simp_all add: clean_text[symmetric])
  have gA: "list_all good_part ?A" and gB: "list_all good_part ?B" using s r by (simp_all add: path_parts_good)
  have A: "?A \<noteq> []" using s tA by auto
  have sA: "split_on sep (str_join ''/'' ?A) = ?A"
    by (rule split_join[OF A]) (use good_no_sep[OF gA] in blast)
  show ?thesis
  proof
    assume "resolved = scope \<or> has_prefix resolved (scope @ [sep])"
    then show "prefix ?A ?B"
    proof
      assume "has_prefix resolved (scope @ [sep])"
      then obtain t where "resolved = (scope @ [sep]) @ t" by (auto simp: has_prefix_def prefix_def)
      then have "sep # str_join ''/'' ?B = (sep # str_join ''/'' ?A) @ sep # t"
        unfolding tA[symmetric] tB[symmetric] by simp
      then have j: "str_join ''/'' ?B = str_join ''/'' ?A @ sep # t" by simp
      then have B: "?B \<noteq> []" by auto
      have "split_on sep (str_join ''/'' ?B) = ?B"
        by (rule split_join[OF B]) (use good_no_sep[OF gB] in blast)
      with j sA show ?thesis by (metis prefixI split_on_middle)
    qed simp
  next
    assume "prefix ?A ?B"
    then obtain C where C: "?B = ?A @ C" by (auto simp: prefix_def)
    show "resolved = scope \<or> has_prefix resolved (scope @ [sep])"
    proof (cases "C = []")
      case True
      with C tA tB show ?thesis by simp
    next
      case False
      have "resolved = scope @ [sep] @ str_join ''/'' C"
        using tA tB by (simp add: C str_join_append[OF A False])
      then show ?thesis by (simp add: has_prefix_def)
    qed
  qed
qed

text \<open>
  Scoping \<^verbatim>\<open>search_symbols\<close> by a directory keeps, in order, exactly the symbols whose file resolves
  to that directory or below it.
\<close>

theorem path_scope_exact:
  assumes "sound_symlinks env" and "is_abs scope" and "path_clean scope = scope" and "scope \<noteq> ''/''"
  shows "filterSymbolsByPathScope env scope vs =
    filter (\<lambda>v. \<exists>path resolved. fileURIPath (loc_URI (sym_Location v)) runtimeGOOS = Inr path \<and>
        EvalSymlinks (sf_paths env) path = Some resolved \<and>
        prefix (path_parts scope) (path_parts resolved)) vs"
  unfolding filterSymbolsByPathScope_def
proof (rule filter_cong[OF refl])
  fix v
  show "in_path_scope env scope v = (\<exists>path resolved. fileURIPath (loc_URI (sym_Location v)) runtimeGOOS = Inr path \<and>
        EvalSymlinks (sf_paths env) path = Some resolved \<and> prefix (path_parts scope) (path_parts resolved))"
  proof (cases "fileURIPath (loc_URI (sym_Location v)) runtimeGOOS")
    case (Inr path)
    have "is_abs resolved \<and> path_clean resolved = resolved" if "EvalSymlinks (sf_paths env) path = Some resolved" for resolved
      using assms(1) fileURIPath_abs[OF Inr] that by (auto simp: sound_symlinks_def)
    with Inr scope_prefix[OF assms(2-4)] show ?thesis
      by (auto simp: in_path_scope_def split: option.split)
  qed (simp add: in_path_scope_def)
qed

definition sample_symbol :: "string \<Rightarrow> Symbol" where
  "sample_symbol uri = \<lparr>sym_Name = ''f'', sym_Kind = 12,
     sym_Location = \<lparr>loc_URI = uri, loc_Range = zero_Range\<rparr>, sym_ContainerName = ''''\<rparr>"

theorem path_scope_exact_witness:
  "filter (\<lambda>v. \<exists>path resolved. fileURIPath (loc_URI (sym_Location v)) runtimeGOOS = Inr path \<and>
        EvalSymlinks (sf_paths sample_safe_env) path = Some resolved \<and>
        prefix (path_parts ''/p/src'') (path_parts resolved))
     [sample_symbol ''file:///p/src/a.cpp'', sample_symbol ''file:///p/src2/b.cpp''] =
   [sample_symbol ''file:///p/src/a.cpp'']"
proof -
  have c: "path_clean ''/p/src'' = ''/p/src''" by code_simp
  have "filterSymbolsByPathScope sample_safe_env ''/p/src''
      [sample_symbol ''file:///p/src/a.cpp'', sample_symbol ''file:///p/src2/b.cpp''] =
      [sample_symbol ''file:///p/src/a.cpp'']" by code_simp
  then show ?thesis
    using path_scope_exact[OF sample_safe_env_sound _ c] by simp
qed

text \<open>
  Scoping by the file system root drops every symbol: the separator appended to the scope gives
  a doubled separator, which no resolved path starts with, although every path lies below the root.
\<close>

theorem root_scope_drops_everything:
  assumes "sound_symlinks env" and "\<forall>p. EvalSymlinks (sf_paths env) p \<noteq> Some ''/''"
  shows "filterSymbolsByPathScope env ''/'' vs = []"
proof -
  have "\<not> in_path_scope env ''/'' v" for v
  proof (cases "fileURIPath (loc_URI (sym_Location v)) runtimeGOOS")
    case (Inr path)
    have "\<not> has_prefix resolved ''//''" if e: "EvalSymlinks (sf_paths env) path = Some resolved" for resolved
    proof
      assume p: "has_prefix resolved ''//''"
      have c: "is_abs resolved" "path_clean resolved = resolved"
        using assms(1) fileURIPath_abs[OF Inr] e by (auto simp: sound_symlinks_def)
      then have t: "resolved = sep # str_join ''/'' (path_parts resolved)" by (rule clean_text)
      with p obtain r where r: "str_join ''/'' (path_parts resolved) = sep # r"
        by (metis (no_types, lifting) append_Cons has_prefix_def list.inject prefix_def)
      then have ne: "path_parts resolved \<noteq> []" by auto
      from not_abs_join[OF ne path_parts_good[OF c(1)]] r show False by simp
    qed
    with assms(2) Inr show ?thesis by (auto simp: in_path_scope_def split: option.split)
  qed (simp add: in_path_scope_def)
  then show ?thesis by (simp add: filterSymbolsByPathScope_def)
qed

definition sample_rooted_env :: safe_env where
  "sample_rooted_env =
     \<lparr>sf_paths = \<lparr>Getwd = Some ''/w'', EvalSymlinks = (\<lambda>p. if is_abs p \<and> path_clean p \<noteq> ''/'' then Some (path_clean p) else None)\<rparr>,
      sf_failure = (\<lambda>_. NotExist)\<rparr>"

theorem root_scope_drops_everything_witness:
  "filterSymbolsByPathScope sample_rooted_env ''/'' [sample_symbol ''file:///p/src/a.cpp''] = []"
proof -
  have "sound_symlinks sample_rooted_env"
    using path_clean_idem is_abs_clean by (auto simp: sound_symlinks_def sample_rooted_env_def split: if_splits)
  moreover have "\<forall>p. EvalSymlinks (sf_paths sample_rooted_env) p \<noteq> Some ''/''"
    by (simp add: sample_rooted_env_def)
  ultimately show ?thesis by (rule root_scope_drops_everything)
qed

section \<open>The filters\<close>

lemma filter_allowed_eq:
  "filter_allowed ok t vs = (filter ok vs, t \<or> list_ex (\<lambda>v. \<not> ok v) vs)"
  by (induction ok t vs rule: filter_allowed.induct) auto

end
