(* ===== verification/Bufio.thy ===== *)
theory Bufio
  imports Prelude
begin

text \<open>
  \<^verbatim>\<open>ReadSlice\<close> of a \<^verbatim>\<open>bufio.Reader\<close>, which both wire formats of the program read with: the bytes up
  to and including the next newline, or a full buffer without one, or what is left at the end of
  the stream.  A stream is the list of the bytes still to come.
\<close>

datatype slice_end = SliceLine | SliceFull | SliceEOF

text \<open>\<^verbatim>\<open>ReadSlice\<close> on a buffer of \<open>bsz\<close> bytes.\<close>

definition read_slice :: "nat \<Rightarrow> string \<Rightarrow> string \<times> slice_end \<times> string" where
  "read_slice bsz s =
     (let chunk = take bsz s in
      if chr_nl \<in> set chunk
      then let n = Suc (length (takeWhile (\<lambda>c. c \<noteq> chr_nl) chunk)) in (take n s, SliceLine, drop n s)
      else if bsz \<le> length s then (chunk, SliceFull, drop bsz s)
      else (s, SliceEOF, []))"

lemma read_slice_full_shorter:
  "read_slice bsz s = (chunk, SliceFull, rest) \<Longrightarrow> 0 < bsz \<Longrightarrow> length rest < length s"
  by (auto simp: read_slice_def Let_def split: if_splits)

lemma read_slice_parts:
  "read_slice bsz s = (chunk, e, rest) \<Longrightarrow> s = chunk @ rest \<and> (e = SliceLine \<longrightarrow> chunk \<noteq> [])"
  by (auto simp: read_slice_def Let_def split: if_splits)

lemma takeWhile_nl: "chr_nl \<notin> set l \<Longrightarrow> takeWhile (\<lambda>c. c \<noteq> chr_nl) (l @ chr_nl # r) = l"
  by (induction l) auto

lemma read_slice_line:
  assumes "chr_nl \<notin> set l"
  shows "read_slice n (l @ chr_nl # r) =
    (if length l < n then (l @ [chr_nl], SliceLine, r)
     else (take n l, SliceFull, drop n l @ chr_nl # r))"
proof (cases "length l < n")
  case True
  then have t: "take n (l @ chr_nl # r) = l @ chr_nl # take (n - Suc (length l)) r"
    by (simp add: take_Cons')
  have "takeWhile (\<lambda>c. c \<noteq> chr_nl) (take n (l @ chr_nl # r)) = l"
    unfolding t by (rule takeWhile_nl[OF assms])
  with True t show ?thesis by (simp add: read_slice_def Let_def)
next
  case False
  have "chr_nl \<notin> set (take n l)" using assms by (auto dest: in_set_takeD)
  with False show ?thesis by (simp add: read_slice_def Let_def)
qed

end
