(* ===== verification/McpText.thy ===== *)
theory McpText
  imports McpPaths Json Bufio
begin

text \<open>
  How the MCP server keeps its answers within the response limit (\<^verbatim>\<open>internal/mcpserver/server.go\<close>):
  the item budgets, the check of the encoded size, the cut of a text to the longest prefix that
  fits, and the bounded reading of a source excerpt.
\<close>

section \<open>Results\<close>

record mcp_DocumentSymbol =
  mds_Name :: string
  mds_Kind :: int
  mds_Range :: lsp_Range
  mds_SelectionRange :: lsp_Range

record SearchSymbolsResult =
  ssr_Items :: "Symbol list"
  ssr_Truncated :: bool
  ssr_IndexState :: string

record LocationsResult =
  lr_Items :: "Location list"
  lr_Truncated :: bool

record DocumentSymbolsResult =
  dsr_Items :: "mcp_DocumentSymbol list"
  dsr_Truncated :: bool

record mcp_HoverResult =
  mhr_Item :: "HoverResult option"
  mhr_Truncated :: bool

record ReadSymbolSourceResult =
  rsr_Path :: string
  rsr_StartLine :: int
  rsr_EndLine :: int
  rsr_Text :: string
  rsr_Truncated :: bool

definition json_SearchSymbolsResult :: "SearchSymbolsResult \<Rightarrow> json" where
  "json_SearchSymbolsResult r =
     JObj ([(''items'', JArr (map json_Symbol (ssr_Items r))), (''truncated'', JBool (ssr_Truncated r))]
           @ omit_empty ''index_state'' (ssr_IndexState r))"

definition json_LocationsResult :: "LocationsResult \<Rightarrow> json" where
  "json_LocationsResult r =
     JObj [(''items'', JArr (map json_Location (lr_Items r))), (''truncated'', JBool (lr_Truncated r))]"

definition json_mcp_DocumentSymbol :: "mcp_DocumentSymbol \<Rightarrow> json" where
  "json_mcp_DocumentSymbol d =
     JObj [(''name'', JStr (mds_Name d)), (''kind'', JInt (mds_Kind d)), (''range'', json_Range (mds_Range d)),
           (''selection_range'', json_Range (mds_SelectionRange d))]"

definition json_DocumentSymbolsResult :: "DocumentSymbolsResult \<Rightarrow> json" where
  "json_DocumentSymbolsResult r =
     JObj [(''items'', JArr (map json_mcp_DocumentSymbol (dsr_Items r))), (''truncated'', JBool (dsr_Truncated r))]"

definition json_mcp_HoverResult :: "mcp_HoverResult \<Rightarrow> json" where
  "json_mcp_HoverResult r =
     JObj ((case mhr_Item r of None \<Rightarrow> [] | Some h \<Rightarrow> [(''item'', json_HoverResult h)])
           @ [(''truncated'', JBool (mhr_Truncated r))])"

definition json_ReadSymbolSourceResult :: "ReadSymbolSourceResult \<Rightarrow> json" where
  "json_ReadSymbolSourceResult r =
     JObj [(''path'', JStr (rsr_Path r)), (''start_line'', JInt (rsr_StartLine r)), (''end_line'', JInt (rsr_EndLine r)),
           (''text'', JStr (rsr_Text r)), (''truncated'', JBool (rsr_Truncated r))]"

section \<open>Limits on the encoded size\<close>

definition fits_limit :: "int \<Rightarrow> json \<Rightarrow> bool" where
  "fits_limit limit j \<longleftrightarrow> int (json_size j) \<le> limit"

definition bounded :: "int \<Rightarrow> ('r \<Rightarrow> json) \<Rightarrow> 'r \<Rightarrow> (go_error, 'r) result" where
  "bounded limit enc v = (if fits_limit limit (enc v) then Inr v else Inl (sentinel_error ErrLimitExceeded))"

text \<open>The loop of the three budget functions.\<close>

fun trim_budget :: "('a \<Rightarrow> int) \<Rightarrow> int \<Rightarrow> int \<Rightarrow> bool \<Rightarrow> 'a list \<Rightarrow> 'a list \<times> bool" where
  "trim_budget cost m used tr [] = ([], tr)"
| "trim_budget cost m used tr (v # vs) =
     (if m < used + cost v then ([], True)
      else case trim_budget cost m (used + cost v) tr vs of (out, t) \<Rightarrow> (v # out, t))"

definition symbol_cost :: "Symbol \<Rightarrow> int" where
  "symbol_cost v = int (length (sym_Name v)) + int (length (sym_ContainerName v)) + 128"

definition location_cost :: "Location \<Rightarrow> int" where
  "location_cost v = int (length (loc_URI v)) + 96"

definition document_symbol_cost :: "mcp_DocumentSymbol \<Rightarrow> int" where
  "document_symbol_cost v = int (length (mds_Name v)) + 96"

definition trimSymbols :: "Symbol list \<Rightarrow> int \<Rightarrow> bool \<Rightarrow> Symbol list \<times> bool" where
  "trimSymbols vs m tr = trim_budget symbol_cost m 0 tr vs"

definition trimLocations :: "Location list \<Rightarrow> int \<Rightarrow> bool \<Rightarrow> Location list \<times> bool" where
  "trimLocations vs m tr = trim_budget location_cost m 0 tr vs"

definition trimDocumentSymbols :: "mcp_DocumentSymbol list \<Rightarrow> int \<Rightarrow> bool \<Rightarrow> mcp_DocumentSymbol list \<times> bool" where
  "trimDocumentSymbols vs m tr = trim_budget document_symbol_cost m 0 tr vs"

fun flattenSymbols :: "DocumentSymbol list \<Rightarrow> mcp_DocumentSymbol list" where
  "flattenSymbols [] = []"
| "flattenSymbols (DocumentSymbol n k r s cs # xs) =
     \<lparr>mds_Name = n, mds_Kind = k, mds_Range = r, mds_SelectionRange = s\<rparr> # flattenSymbols cs @ flattenSymbols xs"

section \<open>Cutting a text\<close>

fun rune_offsets :: "nat \<Rightarrow> string list \<Rightarrow> nat list" where
  "rune_offsets n [] = [n]"
| "rune_offsets n (r # rs) = n # rune_offsets (n + length r) rs"

function fit_search :: "(nat \<Rightarrow> bool) \<Rightarrow> nat \<Rightarrow> nat \<Rightarrow> nat" where
  "fit_search fits low high =
     (if low < high then
        let mid = low + (high - low + 1) div 2
        in if fits mid then fit_search fits mid high else fit_search fits low (mid - 1)
      else low)"
  by pat_completeness auto
termination by (relation "measure (\<lambda>(fits, low, high). high - low)") auto

declare fit_search.simps [simp del]

definition fitText :: "int \<Rightarrow> string \<Rightarrow> (string \<Rightarrow> bool \<Rightarrow> 'r) \<Rightarrow> ('r \<Rightarrow> json) \<Rightarrow> (go_error, 'r) result" where
  "fitText limit text0 build enc =
     (let t = to_valid_utf8 text0 replacement_char; full = build t False in
      if fits_limit limit (enc full) then Inr full
      else
        let boundaries = rune_offsets 0 (runes t);
            fits = (\<lambda>mid. fits_limit limit (enc (build (take (boundaries ! mid) t) True)));
            low = fit_search fits 0 (length boundaries - 1)
        in bounded limit enc (build (take (boundaries ! low) t) True))"

definition hover_build :: "HoverResult \<Rightarrow> string \<Rightarrow> bool \<Rightarrow> mcp_HoverResult" where
  "hover_build v t truncated =
     \<lparr>mhr_Item = Some (v\<lparr>hv_Contents := (hv_Contents v)\<lparr>mk_Value := t\<rparr>\<rparr>), mhr_Truncated = truncated\<rparr>"

definition source_build :: "string \<Rightarrow> int \<Rightarrow> int \<Rightarrow> bool \<Rightarrow> string \<Rightarrow> bool \<Rightarrow> ReadSymbolSourceResult" where
  "source_build path start e truncated t shortened =
     \<lparr>rsr_Path = path, rsr_StartLine = start, rsr_EndLine = e, rsr_Text = t, rsr_Truncated = truncated \<or> shortened\<rparr>"

definition fitSourceResult :: "int \<Rightarrow> string \<Rightarrow> int \<Rightarrow> int \<Rightarrow> string \<Rightarrow> bool \<Rightarrow> (go_error, ReadSymbolSourceResult) result" where
  "fitSourceResult limit path start e source truncated =
     fitText limit source (source_build path start e truncated) json_ReadSymbolSourceResult"

section \<open>Reading an excerpt\<close>

text \<open>
  The bytes an open file yields, and whether reading ends in an error instead of the end of the
  file.  \<open>scan_lines\<close> are the tokens of \<^verbatim>\<open>bufio.Scanner\<close> and whether it stops at a line that does not
  fit its buffer of 64 KiB (the line with its newline, or without one at the end of the file).
\<close>

record source_file =
  src_bytes :: string
  src_error :: "go_error option"

definition max_token :: int where
  "max_token = 65536"

definition drop_cr :: "string \<Rightarrow> string" where
  "drop_cr l = (if has_suffix l [CHR 0x0D] then butlast l else l)"

function scan_lines :: "string \<Rightarrow> string list \<times> bool" where
  "scan_lines s =
     (if s = '''' then ([], False)
      else
        let l = takeWhile (\<lambda>c. c \<noteq> chr_nl) s in
        if max_token \<le> int (length l) then ([], True)
        else case scan_lines (drop (Suc (length l)) s) of (ls, tooLong) \<Rightarrow> (drop_cr l # ls, tooLong))"
  by pat_completeness auto
termination by (relation "measure length") (auto simp: le_diff_conv)

declare scan_lines.simps [simp del]

text \<open>
  How the loop ends: with the early return, or by leaving the loop (\<open>exhausted\<close>: the scanner had no
  more tokens), or because the context is done.
\<close>

datatype source_end =
    EarlyReturn int string
  | LoopLeft bool int int string bool
  | SourceCancelled go_error

text \<open>\<open>line\<close> and \<open>e\<close> are the counters of the loop, \<open>b\<close> the builder; \<open>done_at n\<close> is the context's error after n lines.\<close>

fun source_loop :: "(int \<Rightarrow> go_error option) \<Rightarrow> int \<Rightarrow> int \<Rightarrow> int \<Rightarrow> int \<Rightarrow> int \<Rightarrow> string \<Rightarrow> string list \<Rightarrow> source_end" where
  "source_loop done_at start endl limit line e b [] = LoopLeft True line e b False"
| "source_loop done_at start endl limit line e b (part # parts) =
     (if done_at line \<noteq> None then SourceCancelled (the (done_at line))
      else let line' = line + 1 in
        if line' < start then source_loop done_at start endl limit line' e b parts
        else if endl < line' then LoopLeft False line' e b False
        else
          let later = (start \<le> e); need = int (length part) + (if later then 1 else 0) in
          if limit < int (length b) + need then
            (let remaining = limit - int (length b);
                 nl = (later \<and> 0 < remaining);
                 b1 = (if nl then b @ [chr_nl] else b);
                 remaining1 = (if nl then remaining - 1 else remaining);
                 cut = (0 < remaining1);
                 b2 = (if cut then b1 @ take (nat remaining1) part else b1)
             in LoopLeft False line' (if nl \<or> cut then line' else e) b2 True)
          else
            let b1 = (if later then b @ [chr_nl] else b) @ part in
            if line' = endl then EarlyReturn line' b1
            else source_loop done_at start endl limit line' line' b1 parts)"

definition source_limit :: "int \<Rightarrow> int \<Rightarrow> int" where
  "source_limit maxSource maxBytes = (if 0 < maxBytes \<and> maxBytes < maxSource then maxBytes else maxSource)"

text \<open>The reading part of \<^verbatim>\<open>ReadSymbolSource\<close>, after the file is open.\<close>

definition read_source :: "(int \<Rightarrow> go_error option) \<Rightarrow> source_file \<Rightarrow> int \<Rightarrow> string \<Rightarrow> int \<Rightarrow> int \<Rightarrow> int
    \<Rightarrow> (go_error, ReadSymbolSourceResult) result" where
  "read_source done_at f out_limit path start endl limit =
     (case scan_lines (src_bytes f) of (parts, tooLong) \<Rightarrow>
        (case source_loop done_at start endl limit 0 (start - 1) '''' parts of
           SourceCancelled err \<Rightarrow> Inl err
         | EarlyReturn e b \<Rightarrow> fitSourceResult out_limit path start e b False
         | LoopLeft exhausted line e b truncated \<Rightarrow>
             if exhausted \<and> (tooLong \<or> src_error f \<noteq> None) \<and> done_at line \<noteq> None then Inl (the (done_at line))
             else if exhausted \<and> tooLong then Inl (plain_error ''bufio.Scanner: token too long'')
             else if exhausted \<and> src_error f \<noteq> None then Inl (the (src_error f))
             else if line < start then Inl (plain_error ''start_line is outside the file'')
             else fitSourceResult out_limit path start e b truncated))"


section \<open>The budgets\<close>

lemma trim_budget_spec:
  "\<exists>n \<le> length vs. trim_budget cost m used tr vs = (take n vs, tr \<or> n < length vs) \<and>
     (used \<le> m \<longrightarrow> used + sum_list (map cost (take n vs)) \<le> m) \<and>
     (n < length vs \<longrightarrow> m < used + sum_list (map cost (take (Suc n) vs)))"
proof (induction vs arbitrary: used)
  case Nil
  show ?case by simp
next
  case (Cons v vs)
  show ?case
  proof (cases "m < used + cost v")
    case True
    then show ?thesis by (intro exI[of _ 0]) simp
  next
    case False
    from Cons.IH[of "used + cost v"] obtain n where n: "n \<le> length vs"
      "trim_budget cost m (used + cost v) tr vs = (take n vs, tr \<or> n < length vs)"
      "used + cost v \<le> m \<longrightarrow> used + cost v + sum_list (map cost (take n vs)) \<le> m"
      "n < length vs \<longrightarrow> m < used + cost v + sum_list (map cost (take (Suc n) vs))" by blast
    with False show ?thesis by (intro exI[of _ "Suc n"]) (auto simp: add.assoc)
  qed
qed

text \<open>The contract of the three budget functions, which differ in the cost of an item.\<close>

locale item_budget =
  fixes trim :: "'a list \<Rightarrow> int \<Rightarrow> bool \<Rightarrow> 'a list \<times> bool" and cost :: "'a \<Rightarrow> int"
  assumes trim_is: "trim vs m tr = trim_budget cost m 0 tr vs"
    and cost_pos: "0 < cost v"
begin

lemma longest_prefix:
  assumes "0 \<le> m"
  shows "\<exists>n \<le> length vs. trim vs m tr = (take n vs, tr \<or> n < length vs) \<and>
     sum_list (map cost (take n vs)) \<le> m \<and> (n < length vs \<longrightarrow> m < sum_list (map cost (take (Suc n) vs)))"
  using trim_budget_spec[of vs cost m 0 tr] assms by (simp add: trim_is)

lemma count_bounded:
  assumes "0 \<le> m"
  shows "int (length (fst (trim vs m tr))) \<le> m"
proof -
  from longest_prefix[OF assms] obtain n where n: "n \<le> length vs" "trim vs m tr = (take n vs, tr \<or> n < length vs)"
    "sum_list (map cost (take n vs)) \<le> m" by blast
  have "int (length xs) \<le> sum_list (map cost xs)" for xs
  proof (induction xs)
    case (Cons x xs)
    with cost_pos[of x] show ?case by simp
  qed simp
  from order_trans[OF this n(3)] n(2) show ?thesis by simp
qed

end

interpretation symbols: item_budget trimSymbols symbol_cost
  by unfold_locales (simp_all add: trimSymbols_def symbol_cost_def)

interpretation locations: item_budget trimLocations location_cost
  by unfold_locales (simp_all add: trimLocations_def location_cost_def)

interpretation document_symbols: item_budget trimDocumentSymbols document_symbol_cost
  by unfold_locales (simp_all add: trimDocumentSymbols_def document_symbol_cost_def)

text \<open>
  Each budget keeps the longest prefix of the items whose costs add up to at most the limit, and
  reports truncation exactly when it dropped something (or something was dropped before).
\<close>

theorem budgets_keep_longest_prefix:
  assumes "0 \<le> m"
  shows "(\<exists>n \<le> length vs. trimSymbols vs m tr = (take n vs, tr \<or> n < length vs) \<and>
      sum_list (map symbol_cost (take n vs)) \<le> m \<and> (n < length vs \<longrightarrow> m < sum_list (map symbol_cost (take (Suc n) vs)))) \<and>
    (\<exists>n \<le> length ls. trimLocations ls m tr = (take n ls, tr \<or> n < length ls) \<and>
      sum_list (map location_cost (take n ls)) \<le> m \<and> (n < length ls \<longrightarrow> m < sum_list (map location_cost (take (Suc n) ls)))) \<and>
    (\<exists>n \<le> length ds. trimDocumentSymbols ds m tr = (take n ds, tr \<or> n < length ds) \<and>
      sum_list (map document_symbol_cost (take n ds)) \<le> m \<and>
      (n < length ds \<longrightarrow> m < sum_list (map document_symbol_cost (take (Suc n) ds))))"
  using symbols.longest_prefix[OF assms, of vs tr] locations.longest_prefix[OF assms, of ls tr]
    document_symbols.longest_prefix[OF assms, of ds tr] by simp

theorem budgets_keep_longest_prefix_witness:
  "\<exists>n \<le> 2. trimLocations [zero_Location, zero_Location] 100 False = (take n [zero_Location, zero_Location], n < 2) \<and>
     sum_list (map location_cost (take n [zero_Location, zero_Location])) \<le> 100"
  using budgets_keep_longest_prefix[of 100 "[]" False "[zero_Location, zero_Location]" "[]"] by (auto simp: numeral_2_eq_2)

section \<open>Sizes of encodings\<close>

lemma json_size_obj:
  "json_size (JObj fs) = 2 + sum_list (map (\<lambda>(k, v). length (quote_json k) + 1 + json_size v) fs) + (length fs - 1)"
  by (simp add: json_size_def sum_list_length_join comp_def case_prod_unfold)

lemma json_size_field: "(k, v) \<in> set fs \<Longrightarrow> json_size v < json_size (JObj fs)"
proof -
  assume m: "(k, v) \<in> set fs"
  have "length (quote_json k) + 1 + json_size v \<le> sum_list (map (\<lambda>(k, v). length (quote_json k) + 1 + json_size v) fs)"
    using m by (intro member_le_sum_list) (force, simp)
  then show ?thesis unfolding json_size_obj by linarith
qed

lemma json_size_elem: "v \<in> set xs \<Longrightarrow> json_size v < json_size (JArr xs)"
proof -
  assume "v \<in> set xs"
  then have "json_size v \<le> sum_list (map json_size xs)" by (intro member_le_sum_list) (simp, simp)
  then show ?thesis unfolding json_size_arr by linarith
qed

lemma json_size_str: "json_size (JStr s) = 2 + escaped_length (runes s)"
  by (simp add: json_size_def length_quote_json)

lemma runes_replicate: "runes (replicate n (CHR ''a'')) = replicate n ''a''"
proof -
  have "valid_rune ''a''" by code_simp
  then have "runes (concat (replicate n ''a'')) = replicate n ''a''"
    by (intro runes_concat) (simp add: list_all_iff)
  moreover have "concat (replicate n ''a'') = replicate n (CHR ''a'')" by (induction n) simp_all
  ultimately show ?thesis by simp
qed

lemma json_size_replicate: "json_size (JStr (replicate n (CHR ''a''))) = n + 2"
proof -
  have "length (escape_rune ''a'') = 1" by code_simp
  then show ?thesis by (simp add: json_size_str runes_replicate escaped_length_def sum_list_replicate)
qed

text \<open>
  The symbol budget does not count the URI of a symbol, so trimming does not make a result fit:
  for every limit there is a symbol the budget keeps without truncation although the result with it
  exceeds the limit, and the whole search then fails instead of being shortened.
\<close>

theorem symbol_budget_ignores_uri:
  "limit < 129 \<or>
   (\<exists>s. trimSymbols [s] limit False = ([s], False) \<and>
      bounded limit json_SearchSymbolsResult \<lparr>ssr_Items = [s], ssr_Truncated = False, ssr_IndexState = st\<rparr> =
      Inl (sentinel_error ErrLimitExceeded))"
proof (cases "limit < 129")
  case False
  let ?u = "replicate (nat limit) (CHR ''a'')"
  let ?l = "\<lparr>loc_URI = ?u, loc_Range = zero_Range\<rparr>"
  let ?s = "\<lparr>sym_Name = ''f'', sym_Kind = 12, sym_Location = ?l, sym_ContainerName = ''''\<rparr>"
  let ?r = "\<lparr>ssr_Items = [?s], ssr_Truncated = False, ssr_IndexState = st\<rparr>"
  have "json_size (JStr ?u) < json_size (json_Location ?l)"
    unfolding json_Location_def by (rule json_size_field[of "''uri''"]) simp
  also have "\<dots> < json_size (json_Symbol ?s)"
    unfolding json_Symbol_def by (rule json_size_field[of "''location''"]) simp
  also have "\<dots> < json_size (JArr [json_Symbol ?s])" by (rule json_size_elem) simp
  also have "\<dots> < json_size (json_SearchSymbolsResult ?r)"
    unfolding json_SearchSymbolsResult_def by (rule json_size_field[of "''items''"]) simp
  finally have "\<not> fits_limit limit (json_SearchSymbolsResult ?r)"
    using False by (simp add: fits_limit_def json_size_replicate)
  moreover have "trimSymbols [?s] limit False = ([?s], False)"
    using False by (simp add: trimSymbols_def symbol_cost_def)
  ultimately show ?thesis unfolding bounded_def by metis
qed simp


section \<open>The longest text that fits\<close>

lemma length_rune_offsets [simp]: "length (rune_offsets n rs) = Suc (length rs)"
  by (induction n rs rule: rune_offsets.induct) simp_all

lemma rune_offsets_nth: "k \<le> length rs \<Longrightarrow> rune_offsets n rs ! k = n + length (concat (take k rs))"
proof (induction n rs arbitrary: k rule: rune_offsets.induct)
  case (2 n r rs)
  then show ?case by (cases k) simp_all
qed simp

lemma take_rune_offsets: "k \<le> length (runes t) \<Longrightarrow> take (rune_offsets 0 (runes t) ! k) t = concat (take k (runes t))"
proof -
  assume k: "k \<le> length (runes t)"
  have "t = concat (take k (runes t)) @ concat (drop k (runes t))"
    by (metis append_take_drop_id concat_append concat_runes)
  then have "take (length (concat (take k (runes t)))) t = concat (take k (runes t))"
    by (metis append_eq_conv_conj)
  with rune_offsets_nth[OF k, of 0] show ?thesis by simp
qed

lemma fit_search_spec:
  assumes "\<And>m n. m \<le> n \<Longrightarrow> n \<le> high \<Longrightarrow> fits n \<Longrightarrow> fits m" and "low \<le> high"
  shows "low \<le> fit_search fits low high \<and> fit_search fits low high \<le> high \<and>
    (fit_search fits low high = low \<or> fits (fit_search fits low high)) \<and>
    (\<forall>j. fit_search fits low high < j \<longrightarrow> j \<le> high \<longrightarrow> \<not> fits j)"
  using assms
proof (induction fits low high rule: fit_search.induct)
  case (1 fits low high)
  let ?mid = "low + (high - low + 1) div 2"
  show ?case
  proof (cases "low < high")
    case False
    with 1(4) show ?thesis by (subst (1 2 3 4 5) fit_search.simps) simp
  next
    case lt: True
    then have mid: "low < ?mid" "?mid \<le> high" by auto
    show ?thesis
    proof (cases "fits ?mid")
      case True
      have e: "fit_search fits low high = fit_search fits ?mid high"
        using lt True by (subst fit_search.simps) (simp add: Let_def)
      have "?mid \<le> fit_search fits ?mid high \<and> fit_search fits ?mid high \<le> high \<and>
          (fit_search fits ?mid high = ?mid \<or> fits (fit_search fits ?mid high)) \<and>
          (\<forall>j. fit_search fits ?mid high < j \<longrightarrow> j \<le> high \<longrightarrow> \<not> fits j)"
        by (rule 1(1)[OF lt refl True _ mid(2)]) (rule 1(3))
      with mid(1) True show ?thesis unfolding e by auto
    next
      case False
      have e: "fit_search fits low high = fit_search fits low (?mid - 1)"
        using lt False by (subst fit_search.simps) (simp add: Let_def)
      have dn: "fits m" if "m \<le> n" "n \<le> ?mid - 1" "fits n" for m n
        using 1(3)[OF that(1) _ that(3)] that(2) mid by auto
      have no: "\<not> fits j" if "?mid \<le> j" "j \<le> high" for j
        using 1(3)[OF that] False by blast
      have le: "low \<le> ?mid - 1" "?mid - 1 \<le> high" using mid by linarith+
      have r: "low \<le> fit_search fits low (?mid - 1) \<and> fit_search fits low (?mid - 1) \<le> ?mid - 1 \<and>
          (fit_search fits low (?mid - 1) = low \<or> fits (fit_search fits low (?mid - 1))) \<and>
          (\<forall>j. fit_search fits low (?mid - 1) < j \<longrightarrow> j \<le> ?mid - 1 \<longrightarrow> \<not> fits j)"
        by (rule 1(2)[OF lt refl False dn le(1)])
      show ?thesis
        unfolding e
      proof (intro conjI allI impI)
        fix j assume "fit_search fits low (?mid - 1) < j" "j \<le> high"
        then show "\<not> fits j" using r no by (cases "j \<le> ?mid - 1") auto
      qed (use r le(2) order_trans in blast)+
    qed
  qed
qed

text \<open>
  What \<^verbatim>\<open>fitText\<close> needs of a result: its encoded size depends on the text only through the text's own
  encoded size.
\<close>

locale text_result =
  fixes build :: "string \<Rightarrow> bool \<Rightarrow> 'r" and enc :: "'r \<Rightarrow> json"
  assumes size_text: "json_size (enc (build t tr)) + length (quote_json u) = json_size (enc (build u tr)) + length (quote_json t)"
begin

abbreviation cut :: "string \<Rightarrow> nat \<Rightarrow> 'r" where
  "cut t k \<equiv> build (concat (take k (runes t))) True"

lemma runes_cut: "valid_utf8 t \<Longrightarrow> runes (concat (take k (runes t))) = take k (runes t)"
  by (rule runes_concat) (auto simp: valid_utf8_def list_all_iff dest: in_set_takeD)

lemma size_mono:
  assumes "valid_utf8 t" "m \<le> n"
  shows "json_size (enc (cut t m)) \<le> json_size (enc (cut t n))"
  using size_text[of "concat (take m (runes t))" True "concat (take n (runes t))"] escaped_length_take[OF assms(2), of "runes t"]
  by (simp add: length_quote_json runes_cut[OF assms(1)])

lemma fits_mono:
  "valid_utf8 t \<Longrightarrow> m \<le> n \<Longrightarrow> fits_limit limit (enc (cut t n)) \<Longrightarrow> fits_limit limit (enc (cut t m))"
  using size_mono[of t m n] by (simp add: fits_limit_def)

lemma fitText_longest:
  fixes text0
  defines "t \<equiv> to_valid_utf8 text0 replacement_char"
  shows "(\<exists>v. fitText limit text0 build enc = Inr v \<and> fits_limit limit (enc v) \<and>
      (v = build t False \<or>
       (\<not> fits_limit limit (enc (build t False)) \<and>
        (\<exists>k \<le> length (runes t). v = cut t k \<and> (\<forall>j. k < j \<longrightarrow> j \<le> length (runes t) \<longrightarrow> \<not> fits_limit limit (enc (cut t j))))))) \<or>
    (fitText limit text0 build enc = Inl (sentinel_error ErrLimitExceeded) \<and>
       \<not> fits_limit limit (enc (build t False)) \<and> \<not> fits_limit limit (enc (build '''' True)))"
proof (cases "fits_limit limit (enc (build t False))")
  case True
  then show ?thesis by (simp add: fitText_def t_def Let_def)
next
  case False
  have v: "valid_utf8 t" unfolding t_def by (rule to_valid_utf8_valid)
  let ?bs = "rune_offsets 0 (runes t)" and ?h = "length (runes t)"
  let ?fits = "\<lambda>mid. fits_limit limit (enc (build (take (?bs ! mid) t) True))"
  let ?low = "fit_search ?fits 0 ?h"
  have f: "?fits k \<longleftrightarrow> fits_limit limit (enc (cut t k))" if "k \<le> ?h" for k
    using take_rune_offsets[OF that] by simp
  have mono: "?fits m" if "m \<le> n" "n \<le> ?h" "?fits n" for m n
    using fits_mono[OF v that(1)] that f by auto
  have s: "?low \<le> ?h" "?low = 0 \<or> ?fits ?low" "\<And>j. ?low < j \<Longrightarrow> j \<le> ?h \<Longrightarrow> \<not> ?fits j"
    using fit_search_spec[of ?h ?fits 0, OF mono] by auto
  have e: "fitText limit text0 build enc = bounded limit enc (cut t ?low)"
    using False take_rune_offsets[OF s(1)] by (simp add: fitText_def t_def[symmetric] Let_def)
  show ?thesis
  proof (cases "fits_limit limit (enc (cut t ?low))")
    case True
    with e False s f show ?thesis by (auto simp: bounded_def)
  next
    case bad: False
    with s f have "?low = 0" by auto
    with bad e False show ?thesis by (simp add: bounded_def)
  qed
qed

end

lemma json_size_JStr: "json_size (JStr s) = length (quote_json s)"
  by (simp add: json_size_def)

interpretation hover_text: text_result "hover_build v" json_mcp_HoverResult for v
  by unfold_locales
    (simp add: hover_build_def json_mcp_HoverResult_def json_HoverResult_def json_MarkupContent_def json_size_obj json_size_JStr)

interpretation source_text: text_result "source_build path start e truncated" json_ReadSymbolSourceResult
  for path start e truncated
  by unfold_locales (simp add: source_build_def json_ReadSymbolSourceResult_def json_size_obj json_size_JStr)


text \<open>
  A source excerpt is returned whole when it fits, and otherwise cut to the longest prefix, at a
  character boundary, whose encoding fits the limit; it fails only when not even the empty excerpt
  fits.  What is returned never exceeds the limit.
\<close>

theorem fitSourceResult_longest:
  "let t = to_valid_utf8 source replacement_char; rs = runes t;
       cut = (\<lambda>k. source_build path start e truncated (concat (take k rs)) True);
       fits = (\<lambda>r. fits_limit limit (json_ReadSymbolSourceResult r)) in
   (\<exists>r. fitSourceResult limit path start e source truncated = Inr r \<and> fits r \<and>
      (r = source_build path start e truncated t False \<or>
       (\<not> fits (source_build path start e truncated t False) \<and>
        (\<exists>k \<le> length rs. r = cut k \<and> (\<forall>j. k < j \<longrightarrow> j \<le> length rs \<longrightarrow> \<not> fits (cut j)))))) \<or>
   (fitSourceResult limit path start e source truncated = Inl (sentinel_error ErrLimitExceeded) \<and>
      \<not> fits (source_build path start e truncated t False) \<and>
      \<not> fits (source_build path start e truncated '''' True))"
  unfolding Let_def fitSourceResult_def by (rule source_text.fitText_longest)

theorem fitSourceResult_longest_witness:
  "\<not> fits_limit 76 (json_ReadSymbolSourceResult (source_build ''/a.h'' 1 1 False ''abcdefghij'' False))"
proof -
  have v: "to_valid_utf8 ''abcdefghij'' replacement_char = ''abcdefghij''" by code_simp
  have "fitSourceResult 76 ''/a.h'' 1 1 ''abcdefghij'' False \<noteq> Inr (source_build ''/a.h'' 1 1 False ''abcdefghij'' False)"
    by code_simp
  with fitSourceResult_longest[of "''abcdefghij''" "''/a.h''" 1 1 False 76] show ?thesis
    unfolding Let_def v by auto
qed

section \<open>Excerpts\<close>

text \<open>The text of the lines \<open>start\<close> to \<open>endl\<close>, without any limit.\<close>

definition excerpt :: "int \<Rightarrow> int \<Rightarrow> string list \<Rightarrow> string" where
  "excerpt start endl parts = str_join [chr_nl] (take (nat (endl - start + 1)) (drop (nat (start - 1)) parts))"

text \<open>What the loop has when it is inside the range: \<open>b\<close>, and the lines still to come.\<close>

definition joined :: "string \<Rightarrow> bool \<Rightarrow> string list \<Rightarrow> string" where
  "joined b later rest = (if rest = [] then b else b @ (if later then [chr_nl] else []) @ str_join [chr_nl] rest)"

lemma joined_Cons: "joined b later (p # ps) = joined ((if later then b @ [chr_nl] else b) @ p) True ps"
  by (simp add: joined_def str_join_Cons)

lemma source_loop_range:
  assumes "start \<le> line + 1" "line < endl" "int (length b) \<le> limit"
  shows "let j = joined b (start \<le> line) (take (nat (endl - line)) parts) in
    (int (length j) \<le> limit \<and> endl - line \<le> int (length parts) \<and>
       source_loop (\<lambda>_. None) start endl limit line line b parts = EarlyReturn endl j) \<or>
    (int (length j) \<le> limit \<and> int (length parts) < endl - line \<and>
       source_loop (\<lambda>_. None) start endl limit line line b parts =
         LoopLeft True (line + int (length parts)) (line + int (length parts)) j False) \<or>
    (limit < int (length j) \<and> parts \<noteq> [] \<and>
       (\<exists>l e. source_loop (\<lambda>_. None) start endl limit line line b parts = LoopLeft False l e (take (nat limit) j) True \<and>
          line \<le> e \<and> e \<le> endl \<and> e \<le> line + int (length parts) \<and> line < l))"
  using assms
proof (induction parts arbitrary: line b)
  case Nil
  then show ?case by (simp add: joined_def)
next
  case (Cons part parts)
  let ?b = "(if start \<le> line then b @ [chr_nl] else b) @ part"
  let ?rest = "take (nat (endl - (line + 1))) parts"
  have "nat (endl - line) = Suc (nat (endl - (line + 1)))" using Cons.prems(2) by simp
  then have j: "joined b (start \<le> line) (take (nat (endl - line)) (part # parts)) = joined ?b True ?rest"
    by (simp add: joined_Cons)
  have lb: "int (length ?b) = int (length b) + (int (length part) + (if start \<le> line then 1 else 0))" by simp
  have ext: "\<exists>more. joined ?b True ?rest = ?b @ more" by (simp add: joined_def)
  show ?case
  proof (cases "limit < int (length ?b)")
    case True
    obtain more where more: "joined ?b True ?rest = ?b @ more" using ext by blast
    have cut: "take (nat limit) (joined ?b True ?rest) = take (nat limit) ?b"
      unfolding more using True by simp
    have len: "limit < int (length (joined ?b True ?rest))" unfolding more using True by simp
    let ?rem = "limit - int (length b)"
    let ?nl = "start \<le> line \<and> 0 < ?rem"
    let ?rem1 = "if ?nl then ?rem - 1 else ?rem"
    let ?b1 = "if ?nl then b @ [chr_nl] else b"
    have e: "source_loop (\<lambda>_. None) start endl limit line line b (part # parts) =
        LoopLeft False (line + 1) (if ?nl \<or> 0 < ?rem1 then line + 1 else line)
          (if 0 < ?rem1 then ?b1 @ take (nat ?rem1) part else ?b1) True"
      using True Cons.prems lb by (simp add: Let_def)
    have "(if 0 < ?rem1 then ?b1 @ take (nat ?rem1) part else ?b1) = take (nat limit) ?b"
    proof (cases "start \<le> line")
      case later: True
      show ?thesis
      proof (cases "0 < ?rem")
        case True
        then have "nat limit = length (b @ [chr_nl]) + nat (?rem - 1)" by simp
        with later True show ?thesis by simp
      next
        case False
        then have "nat limit = length b" using Cons.prems(3) by simp
        with later False show ?thesis by simp
      qed
    next
      case False
      have "nat limit = length b + nat ?rem" using Cons.prems(3) by simp
      with False show ?thesis by simp
    qed
    with e cut len Cons.prems show ?thesis unfolding j Let_def by auto
  next
    case fits: False
    show ?thesis
    proof (cases "line + 1 = endl")
      case True
      then have "joined ?b True ?rest = ?b" by (simp add: joined_def)
      with True fits lb Cons.prems show ?thesis unfolding j Let_def by (simp add: Let_def)
    next
      case False
      have e: "source_loop (\<lambda>_. None) start endl limit line line b (part # parts) =
          source_loop (\<lambda>_. None) start endl limit (line + 1) (line + 1) ?b parts"
        using False fits lb Cons.prems by (simp add: Let_def)
      have "start \<le> line + 1 + 1" "line + 1 < endl" "int (length ?b) \<le> limit" "(start \<le> line + 1) = True"
        using False fits Cons.prems by auto
      from Cons.IH[OF this(1-3), unfolded this(4)] show ?thesis
        unfolding j e Let_def by fastforce
    qed
  qed
qed

lemma source_loop_skip:
  assumes "line + int (length skipped) < start"
  shows "source_loop (\<lambda>_. None) start endl limit line e b (skipped @ parts) =
         source_loop (\<lambda>_. None) start endl limit (line + int (length skipped)) e b parts"
  using assms by (induction skipped arbitrary: line) (simp_all add: Let_def add.assoc)

text \<open>
  \<^verbatim>\<open>ReadSymbolSource\<close> reads what it says: for a file that can be read, the excerpt handed to the
  size limit is the requested lines joined by newlines, cut at exactly the byte limit when they are
  longer, which is then reported; the end line lies in the requested range and in the file, and is
  the last requested line of the file when nothing was cut; a start beyond the file is an error.
\<close>

theorem read_source_excerpt:
  assumes "1 \<le> start" and "start \<le> endl" and "0 < limit"
    and "scan_lines (src_bytes f) = (parts, False)" and "src_error f = None"
  shows "(int (length parts) < start \<and>
      read_source (\<lambda>_. None) f out path start endl limit = Inl (plain_error ''start_line is outside the file'')) \<or>
    (start \<le> int (length parts) \<and>
      (\<exists>e. start - 1 \<le> e \<and> e \<le> endl \<and> e \<le> int (length parts) \<and>
         (int (length (excerpt start endl parts)) \<le> limit \<longrightarrow> e = min endl (int (length parts))) \<and>
         read_source (\<lambda>_. None) f out path start endl limit =
           fitSourceResult out path start e (take (nat limit) (excerpt start endl parts))
             (limit < int (length (excerpt start endl parts)))))"
proof (cases "int (length parts) < start")
  case True
  have "source_loop (\<lambda>_. None) start endl limit 0 (start - 1) '''' parts = LoopLeft True (int (length parts)) (start - 1) '''' False"
    using source_loop_skip[of 0 parts start endl limit "start - 1" "''''" "[]"] True by simp
  with True assms(4,5) show ?thesis by (simp add: read_source_def)
next
  case False
  let ?k = "nat (start - 1)"
  let ?rest = "drop ?k parts"
  let ?j = "excerpt start endl parts"
  have k: "int ?k = start - 1" "int (length (take ?k parts)) = start - 1" "int (length ?rest) = int (length parts) - (start - 1)"
    using assms(1) False by auto
  have "source_loop (\<lambda>_. None) start endl limit 0 (start - 1) '''' (take ?k parts @ ?rest) =
      source_loop (\<lambda>_. None) start endl limit (0 + int (length (take ?k parts))) (start - 1) '''' ?rest"
    by (rule source_loop_skip) (use k(2) in linarith)
  then have e: "source_loop (\<lambda>_. None) start endl limit 0 (start - 1) '''' parts =
      source_loop (\<lambda>_. None) start endl limit (start - 1) (start - 1) '''' ?rest"
    using k(2) by simp
  have "nat (endl - (start - 1)) = nat (endl - start + 1)" by (simp add: algebra_simps)
  then have j: "joined '''' (start \<le> start - 1) (take (nat (endl - (start - 1))) ?rest) = ?j"
    by (simp add: joined_def excerpt_def)
  have p: "start \<le> start - 1 + 1" "start - 1 < endl" "int (length '''') \<le> limit" using assms by simp_all
  have whole: "take (nat limit) ?j = ?j" if "int (length ?j) \<le> limit" using that by simp
  show ?thesis
    using source_loop_range[OF p, of ?rest, unfolded j Let_def] e False assms(4,5) k(3) whole assms(1,2)
    by (auto simp: read_source_def)
qed

definition sample_source :: source_file where
  "sample_source = \<lparr>src_bytes = ''one'' @ [chr_nl] @ ''two'' @ [chr_nl] @ ''three'', src_error = None\<rparr>"

theorem read_source_excerpt_witness:
  "\<exists>e. 1 \<le> e \<and> e \<le> 3 \<and>
     read_source (\<lambda>_. None) sample_source 1000 ''/a.h'' 2 3 6 = fitSourceResult 1000 ''/a.h'' 2 e (''two'' @ [chr_nl] @ ''th'') True"
proof -
  have s: "scan_lines (src_bytes sample_source) = ([''one'', ''two'', ''three''], False)" by code_simp
  have ex: "excerpt 2 3 [''one'', ''two'', ''three''] = ''two'' @ [chr_nl] @ ''three''" by code_simp
  have "src_error sample_source = None" by (simp add: sample_source_def)
  from read_source_excerpt[OF _ _ _ s this, of 2 3 6 1000 "''/a.h''"] show ?thesis
    unfolding ex by simp
qed

end
