(* ===== verification/McpCalls.thy ===== *)
theory McpCalls
  imports McpText
begin

text \<open>
  The call hierarchy of the MCP server (\<^verbatim>\<open>internal/mcpserver/server.go\<close>): the bounded breadth-first
  walk over the calls clangd reports, the graph it collects, and the trimming of the graph to the
  response limit.
\<close>

section \<open>The graph\<close>

text \<open>
  Go slices are marshalled differently when they are nil, so a slice is \<open>None\<close> when it is nil and
  \<open>Some xs\<close> otherwise.
\<close>

type_synonym 'a slice = "'a list option"

definition items_of :: "'a slice \<Rightarrow> 'a list" where
  "items_of s = (case s of None \<Rightarrow> [] | Some xs \<Rightarrow> xs)"

definition go_append :: "'a slice \<Rightarrow> 'a \<Rightarrow> 'a slice" where
  "go_append s x = Some (items_of s @ [x])"

definition json_slice :: "('a \<Rightarrow> json) \<Rightarrow> 'a slice \<Rightarrow> json" where
  "json_slice enc s = (case s of None \<Rightarrow> JNull | Some xs \<Rightarrow> JArr (map enc xs))"

record CallHierarchyNode =
  chn_ID :: string
  chn_Item :: CallHierarchyItem

record CallHierarchyEdge =
  che_From :: string
  che_To :: string

record CallHierarchyResult =
  chr_Roots :: "string slice"
  chr_Nodes :: "CallHierarchyNode slice"
  chr_Edges :: "CallHierarchyEdge slice"
  chr_Truncated :: bool

definition json_CallHierarchyResult :: "CallHierarchyResult \<Rightarrow> json" where
  "json_CallHierarchyResult r =
     JObj [(''roots'', json_slice JStr (chr_Roots r)),
           (''nodes'', json_slice (\<lambda>n. JObj [(''id'', JStr (chn_ID n)), (''item'', json_CallHierarchyItem (chn_Item n))]) (chr_Nodes r)),
           (''edges'', json_slice (\<lambda>e. JObj [(''from'', JStr (che_From e)), (''to'', JStr (che_To e))]) (chr_Edges r)),
           (''truncated'', JBool (chr_Truncated r))]"

definition callKey :: "CallHierarchyItem \<Rightarrow> string" where
  "callKey v =
     (let r = ch_Range v in
      str_join '':'' [ch_URI v, int_digits (pos_Line (rng_Start r)), int_digits (pos_Character (rng_Start r)),
                      int_digits (pos_Line (rng_End r)), int_digits (pos_Character (rng_End r))])"

abbreviation nodes :: "CallHierarchyResult \<Rightarrow> CallHierarchyNode list" where
  "nodes r \<equiv> items_of (chr_Nodes r)"

abbreviation edges :: "CallHierarchyResult \<Rightarrow> CallHierarchyEdge list" where
  "edges r \<equiv> items_of (chr_Edges r)"

abbreviation roots :: "CallHierarchyResult \<Rightarrow> string list" where
  "roots r \<equiv> items_of (chr_Roots r)"

text \<open>The result and the map of keys seen; the flag says whether the node is new.\<close>

definition addCallNode :: "CallHierarchyItem \<Rightarrow> CallHierarchyResult \<times> string list
    \<Rightarrow> bool \<times> CallHierarchyResult \<times> string list" where
  "addCallNode item = (\<lambda>(r, seen).
     let key = callKey item in
     if key \<in> set seen then (False, r, seen)
     else (True, r\<lparr>chr_Nodes := go_append (chr_Nodes r) \<lparr>chn_ID = key, chn_Item = item\<rparr>\<rparr>, key # seen))"

section \<open>The walk\<close>

fun add_roots :: "int \<Rightarrow> CallHierarchyItem list \<Rightarrow> CallHierarchyResult \<times> string list \<Rightarrow> CallHierarchyResult \<times> string list" where
  "add_roots m [] st = st"
| "add_roots m (root # rest) st =
     (if m \<le> int (length (nodes (fst st))) then ((fst st)\<lparr>chr_Truncated := True\<rparr>, snd st)
      else case addCallNode root st of
          (added, r, seen) \<Rightarrow>
            add_roots m rest
              (if added then r\<lparr>chr_Roots := go_append (chr_Roots r) (callKey root)\<rparr> else r, seen))"

text \<open>
  The calls of one item of the frontier: \<open>next\<close> collects the items of the following depth.  A call
  without the wanted end, or one outside the project, is dropped; at the item limit the loop ends.
\<close>

fun follow_calls :: "(CallHierarchyItem \<Rightarrow> bool) \<Rightarrow> int \<Rightarrow> bool \<Rightarrow> CallHierarchyItem \<Rightarrow> CallHierarchyCall list
    \<Rightarrow> (CallHierarchyResult \<times> string list) \<times> CallHierarchyItem list
    \<Rightarrow> (CallHierarchyResult \<times> string list) \<times> CallHierarchyItem list" where
  "follow_calls ok m incoming from [] st = st"
| "follow_calls ok m incoming from (call # calls) st =
     (let ((r, seen), next) = st in
      case (if incoming then call_From call else call_To call) of
        None \<Rightarrow> follow_calls ok m incoming from calls ((r\<lparr>chr_Truncated := True\<rparr>, seen), next)
      | Some to \<Rightarrow>
          if \<not> ok to then follow_calls ok m incoming from calls ((r\<lparr>chr_Truncated := True\<rparr>, seen), next)
          else
            let cost = (if callKey to \<in> set seen then 1 else 2) in
            if m < int (length (nodes r)) + int (length (edges r)) + cost
            then ((r\<lparr>chr_Truncated := True\<rparr>, seen), next)
            else case addCallNode to (r, seen) of
                (added, r1, seen1) \<Rightarrow>
                  follow_calls ok m incoming from calls
                    ((r1\<lparr>chr_Edges := go_append (chr_Edges r1) \<lparr>che_From = callKey from, che_To = callKey to\<rparr>\<rparr>, seen1),
                     if added then next @ [to] else next))"

fun follow_frontier :: "(CallHierarchyItem \<Rightarrow> go_error + CallHierarchyCall list) \<Rightarrow> (CallHierarchyItem \<Rightarrow> bool) \<Rightarrow> int \<Rightarrow> bool
    \<Rightarrow> CallHierarchyItem list \<Rightarrow> (CallHierarchyResult \<times> string list) \<times> CallHierarchyItem list
    \<Rightarrow> go_error + (CallHierarchyResult \<times> string list) \<times> CallHierarchyItem list" where
  "follow_frontier calls_of ok m incoming [] st = Inr st"
| "follow_frontier calls_of ok m incoming (from # rest) st =
     (case calls_of from of
        Inl e \<Rightarrow> Inl e
      | Inr calls \<Rightarrow> follow_frontier calls_of ok m incoming rest (follow_calls ok m incoming from calls st))"

text \<open>The loop over the depths, \<open>n\<close> of them left.\<close>

fun walk_calls :: "(CallHierarchyItem \<Rightarrow> go_error + CallHierarchyCall list) \<Rightarrow> (CallHierarchyItem \<Rightarrow> bool) \<Rightarrow> int \<Rightarrow> bool
    \<Rightarrow> nat \<Rightarrow> CallHierarchyItem list \<Rightarrow> CallHierarchyResult \<times> string list
    \<Rightarrow> go_error + CallHierarchyResult \<times> string list" where
  "walk_calls calls_of ok m incoming 0 frontier st = Inr st"
| "walk_calls calls_of ok m incoming (Suc n) frontier st =
     (if frontier = [] \<or> chr_Truncated (fst st) then Inr st
      else case follow_frontier calls_of ok m incoming frontier (st, []) of
          Inl e \<Rightarrow> Inl e
        | Inr (st', next) \<Rightarrow> walk_calls calls_of ok m incoming n next st')"

section \<open>Trimming\<close>

definition removeCallID :: "string slice \<Rightarrow> string \<Rightarrow> string slice" where
  "removeCallID s key = map_option (filter (\<lambda>v. v \<noteq> key)) s"

abbreviation call_fits :: "int \<Rightarrow> CallHierarchyResult \<Rightarrow> bool" where
  "call_fits limit r \<equiv> is_ok (bounded limit json_CallHierarchyResult r)"

text \<open>The two loops: drop the last edge until it fits, then the last node.\<close>

function trim_edges :: "int \<Rightarrow> CallHierarchyResult \<Rightarrow> bool \<times> CallHierarchyResult" where
  "trim_edges limit r =
     (if edges r = [] then (False, r)
      else let r' = r\<lparr>chr_Edges := map_option butlast (chr_Edges r)\<rparr>
           in if call_fits limit r' then (True, r') else trim_edges limit r')"
  by pat_completeness auto
termination
  by (relation "measure (\<lambda>(limit, r). length (edges r))") (auto simp: items_of_def split: option.splits)

function trim_nodes :: "int \<Rightarrow> CallHierarchyResult \<Rightarrow> bool \<times> CallHierarchyResult" where
  "trim_nodes limit r =
     (if nodes r = [] then (False, r)
      else let removed = chn_ID (last (nodes r));
               r' = r\<lparr>chr_Nodes := map_option butlast (chr_Nodes r), chr_Roots := removeCallID (chr_Roots r) removed\<rparr>
           in if call_fits limit r' then (True, r') else trim_nodes limit r')"
  by pat_completeness auto
termination
  by (relation "measure (\<lambda>(limit, r). length (nodes r))") (auto simp: items_of_def split: option.splits)

declare trim_edges.simps [simp del] trim_nodes.simps [simp del]

definition trimCallHierarchy :: "CallHierarchyResult \<Rightarrow> int \<Rightarrow> (go_error, CallHierarchyResult) result" where
  "trimCallHierarchy r limit =
     (if call_fits limit r then Inr r
      else case trim_edges limit (r\<lparr>chr_Truncated := True\<rparr>) of
          (True, r1) \<Rightarrow> Inr r1
        | (False, r1) \<Rightarrow>
            (case trim_nodes limit r1 of
               (True, r2) \<Rightarrow> Inr r2
             | (False, r2) \<Rightarrow> bounded limit json_CallHierarchyResult r2))"

text \<open>
  The part of \<^verbatim>\<open>CallHierarchy\<close> after the requests are validated: \<open>prepared\<close> is what clangd returned for
  the position, \<open>incoming\<close> is \<open>None\<close> for the direction \<^verbatim>\<open>prepare\<close>.
\<close>

definition empty_calls :: "bool \<Rightarrow> CallHierarchyResult" where
  "empty_calls truncated = \<lparr>chr_Roots = None, chr_Nodes = None, chr_Edges = None, chr_Truncated = truncated\<rparr>"

definition collect_calls :: "(CallHierarchyItem \<Rightarrow> go_error + CallHierarchyCall list) \<Rightarrow> safe_env \<Rightarrow> Project \<Rightarrow> int \<Rightarrow> int
    \<Rightarrow> bool option \<Rightarrow> nat \<Rightarrow> CallHierarchyItem list \<Rightarrow> (go_error, CallHierarchyResult) result" where
  "collect_calls calls_of env p m limit incoming depth prepared =
     (case filterCalls env p prepared False of (starts, filtered) \<Rightarrow>
        let st = add_roots m starts (empty_calls filtered, []) in
        if incoming = None \<or> depth = 0 then trimCallHierarchy (fst st) limit
        else case walk_calls calls_of (\<lambda>i. allowed env p (ch_URI i)) m (the incoming) depth
                    (map chn_Item (nodes (fst st))) st of
            Inl e \<Rightarrow> Inl e
          | Inr st' \<Rightarrow> trimCallHierarchy (fst st') limit)"

section \<open>The graph is closed and bounded\<close>

lemma items_of_simps [simp]: "items_of None = []" "items_of (Some xs) = xs"
  by (simp_all add: items_of_def)

lemma items_of_append [simp]: "items_of (go_append s x) = items_of s @ [x]"
  by (simp add: go_append_def)

lemma items_of_map [simp]: "items_of (map_option f s) = (if s = None then [] else f (items_of s))"
  by (cases s) simp_all

definition node_ids :: "CallHierarchyResult \<Rightarrow> string list" where
  "node_ids r = map chn_ID (nodes r)"

text \<open>A graph whose IDs are the keys of its items, distinct, with roots and edges inside.\<close>

definition closed_graph :: "(CallHierarchyItem \<Rightarrow> bool) \<Rightarrow> CallHierarchyResult \<Rightarrow> bool" where
  "closed_graph ok r \<longleftrightarrow>
     distinct (node_ids r) \<and>
     (\<forall>n \<in> set (nodes r). chn_ID n = callKey (chn_Item n) \<and> ok (chn_Item n)) \<and>
     set (roots r) \<subseteq> set (node_ids r) \<and>
     (\<forall>e \<in> set (edges r). che_From e \<in> set (node_ids r) \<and> che_To e \<in> set (node_ids r))"

definition walk_good :: "(CallHierarchyItem \<Rightarrow> bool) \<Rightarrow> int \<Rightarrow> CallHierarchyResult \<times> string list \<Rightarrow> bool" where
  "walk_good ok m = (\<lambda>(r, seen).
     closed_graph ok r \<and> set seen = set (node_ids r) \<and> int (length (nodes r)) + int (length (edges r)) \<le> m)"

lemma addCallNode_cases:
  "addCallNode item (r, seen) =
   (if callKey item \<in> set seen then (False, r, seen)
    else (True, r\<lparr>chr_Nodes := go_append (chr_Nodes r) \<lparr>chn_ID = callKey item, chn_Item = item\<rparr>\<rparr>, callKey item # seen))"
  by (simp add: addCallNode_def Let_def)

lemma node_ids_add [simp]:
  "node_ids (r\<lparr>chr_Nodes := go_append (chr_Nodes r) n\<rparr>) = node_ids r @ [chn_ID n]"
  "node_ids (r\<lparr>chr_Edges := es\<rparr>) = node_ids r" "node_ids (r\<lparr>chr_Roots := rs\<rparr>) = node_ids r"
  "node_ids (r\<lparr>chr_Truncated := t\<rparr>) = node_ids r"
  by (simp_all add: node_ids_def)

lemma walk_good_truncated [simp]: "walk_good ok m (r\<lparr>chr_Truncated := t\<rparr>, seen) = walk_good ok m (r, seen)"
  by (simp add: walk_good_def closed_graph_def)

lemma walk_good_add_node:
  assumes "walk_good ok m (r, seen)" and "callKey item \<notin> set seen" and "ok item"
    and "int (length (nodes r)) + int (length (edges r)) + 1 \<le> m"
  shows "walk_good ok m (r\<lparr>chr_Nodes := go_append (chr_Nodes r) \<lparr>chn_ID = callKey item, chn_Item = item\<rparr>\<rparr>, callKey item # seen)"
  using assms by (auto simp: walk_good_def closed_graph_def)

lemma walk_good_add_edge:
  assumes "walk_good ok m (r, seen)" and "from \<in> set seen" "to \<in> set seen"
    and "int (length (nodes r)) + int (length (edges r)) + 1 \<le> m"
  shows "walk_good ok m (r\<lparr>chr_Edges := go_append (chr_Edges r) \<lparr>che_From = from, che_To = to\<rparr>\<rparr>, seen)"
  using assms by (auto simp: walk_good_def closed_graph_def)

lemma add_roots_good:
  assumes "walk_good ok m st" and "edges (fst st) = []" and "\<forall>x \<in> set xs. ok x"
  shows "walk_good ok m (add_roots m xs st) \<and> edges (fst (add_roots m xs st)) = []"
  using assms
proof (induction xs arbitrary: st)
  case (Cons root rest)
  obtain r seen where st: "st = (r, seen)" by (cases st)
  show ?case
  proof (cases "m \<le> int (length (nodes r))")
    case True
    with Cons.prems st show ?thesis by simp
  next
    case False
    show ?thesis
    proof (cases "callKey root \<in> set seen")
      case True
      then have "addCallNode root st = (False, r, seen)" by (simp add: st addCallNode_cases)
      with Cons False st show ?thesis by simp
    next
      case new: False
      let ?r = "r\<lparr>chr_Nodes := go_append (chr_Nodes r) \<lparr>chn_ID = callKey root, chn_Item = root\<rparr>\<rparr>"
      let ?r2 = "?r\<lparr>chr_Roots := go_append (chr_Roots ?r) (callKey root)\<rparr>"
      have a: "addCallNode root st = (True, ?r, callKey root # seen)" using new by (simp add: st addCallNode_cases)
      have g: "walk_good ok m (?r, callKey root # seen)"
        by (rule walk_good_add_node) (use Cons.prems False new st in auto)
      then have "walk_good ok m (?r2, callKey root # seen)"
        by (auto simp: walk_good_def closed_graph_def)
      moreover have "edges ?r2 = []" using Cons.prems(2) st by simp
      ultimately have "walk_good ok m (add_roots m rest (?r2, callKey root # seen)) \<and>
          edges (fst (add_roots m rest (?r2, callKey root # seen))) = []"
        using Cons.IH[of "(?r2, callKey root # seen)"] Cons.prems(3) by simp
      moreover have "add_roots m (root # rest) st = add_roots m rest (?r2, callKey root # seen)"
        using False a st by simp
      ultimately show ?thesis by simp
    qed
  qed
qed simp

text \<open>The items of the frontier are nodes already.\<close>

definition known_items :: "CallHierarchyItem list \<Rightarrow> string list \<Rightarrow> bool" where
  "known_items xs seen \<longleftrightarrow> (\<forall>x \<in> set xs. callKey x \<in> set seen)"

lemma follow_calls_good:
  assumes "walk_good ok m (fst st)" and "callKey from \<in> set (snd (fst st))" and "known_items (snd st) (snd (fst st))"
  shows "walk_good ok m (fst (follow_calls ok m incoming from calls st)) \<and>
    set (snd (fst st)) \<subseteq> set (snd (fst (follow_calls ok m incoming from calls st))) \<and>
    known_items (snd (follow_calls ok m incoming from calls st)) (snd (fst (follow_calls ok m incoming from calls st)))"
  using assms
proof (induction calls arbitrary: st)
  case (Cons call calls)
  obtain r seen "next" where st: "st = ((r, seen), next)" by (metis surj_pair)
  let ?to = "if incoming then call_From call else call_To call"
  let ?dropped = "((r\<lparr>chr_Truncated := True\<rparr>, seen), next)"
  have d: "walk_good ok m (fst ?dropped)" "callKey from \<in> set (snd (fst ?dropped))" "known_items (snd ?dropped) (snd (fst ?dropped))"
    using Cons.prems st by simp_all
  show ?case
  proof (cases ?to)
    case None
    with Cons.IH[OF d] st show ?thesis by (simp add: Let_def)
  next
    case (Some to)
    show ?thesis
    proof (cases "ok to")
      case False
      with Some Cons.IH[OF d] st show ?thesis by (simp add: Let_def)
    next
      case ok: True
      let ?cost = "if callKey to \<in> set seen then 1 else 2 :: int"
      show ?thesis
      proof (cases "m < int (length (nodes r)) + int (length (edges r)) + ?cost")
        case True
        with Some ok d st show ?thesis by (simp add: Let_def)
      next
        case fits: False
        obtain added r1 seen1 where a: "addCallNode to (r, seen) = (added, r1, seen1)" by (metis surj_pair)
        let ?r2 = "r1\<lparr>chr_Edges := go_append (chr_Edges r1) \<lparr>che_From = callKey from, che_To = callKey to\<rparr>\<rparr>"
        let ?next = "if added then next @ [to] else next"
        have g1: "walk_good ok m (r1, seen1) \<and> set seen \<subseteq> set seen1 \<and> callKey to \<in> set seen1 \<and>
            int (length (nodes r1)) + int (length (edges r1)) + 1 \<le> m"
        proof (cases "callKey to \<in> set seen")
          case True
          with a fits Cons.prems(1) st show ?thesis by (auto simp: addCallNode_cases)
        next
          case False
          have "walk_good ok m (r\<lparr>chr_Nodes := go_append (chr_Nodes r) \<lparr>chn_ID = callKey to, chn_Item = to\<rparr>\<rparr>, callKey to # seen)"
            by (rule walk_good_add_node) (use False ok fits Cons.prems(1) st in auto)
          with False a fits show ?thesis by (auto simp: addCallNode_cases)
        qed
        have g2: "walk_good ok m (?r2, seen1)"
          by (rule walk_good_add_edge) (use g1 Cons.prems(2) st in auto)
        have k: "known_items ?next seen1"
          using g1 Cons.prems(3) st by (auto simp: known_items_def)
        have "follow_calls ok m incoming from (call # calls) st = follow_calls ok m incoming from calls ((?r2, seen1), ?next)"
          using Some ok fits a st by (simp add: Let_def)
        moreover have "callKey from \<in> set seen1" using g1 Cons.prems(2) st by auto
        ultimately show ?thesis
          using Cons.IH[of "((?r2, seen1), ?next)"] g1 g2 k st by auto
      qed
    qed
  qed
qed simp

lemma follow_frontier_good:
  assumes "follow_frontier calls_of ok m incoming frontier st = Inr st'"
    and "walk_good ok m (fst st)" and "known_items frontier (snd (fst st))" and "known_items (snd st) (snd (fst st))"
  shows "walk_good ok m (fst st') \<and> known_items (snd st') (snd (fst st'))"
  using assms
proof (induction frontier arbitrary: st)
  case (Cons src rest)
  then obtain calls where c: "calls_of src = Inr calls" by (auto split: sum.splits)
  let ?st = "follow_calls ok m incoming src calls st"
  have g: "walk_good ok m (fst ?st)" "set (snd (fst st)) \<subseteq> set (snd (fst ?st))" "known_items (snd ?st) (snd (fst ?st))"
    using follow_calls_good[OF Cons.prems(2) _ Cons.prems(4), of src incoming calls] Cons.prems(3)
    by (auto simp: known_items_def)
  have "known_items rest (snd (fst ?st))" using g(2) Cons.prems(3) by (auto simp: known_items_def)
  with Cons.IH[of ?st] Cons.prems(1) c g show ?case by simp
qed simp

lemma walk_calls_good:
  assumes "walk_calls calls_of ok m incoming n frontier st = Inr st'"
    and "walk_good ok m st" and "known_items frontier (snd st)"
  shows "walk_good ok m st'"
  using assms
proof (induction n arbitrary: frontier st)
  case (Suc n)
  show ?case
  proof (cases "frontier = [] \<or> chr_Truncated (fst st)")
    case True
    with Suc.prems show ?thesis by auto
  next
    case False
    with Suc.prems(1) obtain st1 "next" where f: "follow_frontier calls_of ok m incoming frontier (st, []) = Inr (st1, next)"
      and w: "walk_calls calls_of ok m incoming n next st1 = Inr st'"
      by (auto split: sum.splits)
    from follow_frontier_good[OF f] Suc.prems(2,3)
    have "walk_good ok m st1" "known_items next (snd st1)" by (auto simp: known_items_def)
    with Suc.IH[OF w] show ?thesis by blast
  qed
qed simp

section \<open>Trimming keeps the graph closed\<close>

text \<open>A graph without edges, or any part of a closed graph that keeps all nodes.\<close>

lemma closed_butlast_edges:
  "closed_graph ok r \<Longrightarrow> closed_graph ok (r\<lparr>chr_Edges := map_option butlast (chr_Edges r)\<rparr>)"
  by (auto simp: closed_graph_def dest: in_set_butlastD)

lemma closed_butlast_nodes:
  assumes g: "closed_graph ok r" and e: "edges r = []" and n: "nodes r \<noteq> []"
  shows "closed_graph ok (r\<lparr>chr_Nodes := map_option butlast (chr_Nodes r),
    chr_Roots := removeCallID (chr_Roots r) (chn_ID (last (nodes r)))\<rparr>)"
proof -
  obtain ns x where ns: "nodes r = ns @ [x]" using n by (metis append_butlast_last_id)
  then have so: "chr_Nodes r = Some (ns @ [x])" by (cases "chr_Nodes r") auto
  have rt: "set (items_of (removeCallID (chr_Roots r) k)) = set (roots r) - {k}" for k
    by (cases "chr_Roots r") (auto simp: removeCallID_def)
  show ?thesis
    using g e unfolding closed_graph_def node_ids_def
    by (auto simp: so rt)
qed

lemma trim_edges_good:
  "closed_graph ok r \<Longrightarrow> trim_edges limit r = (b, r') \<Longrightarrow>
   closed_graph ok r' \<and> length (nodes r') + length (edges r') \<le> length (nodes r) + length (edges r) \<and>
   (if b then call_fits limit r' else edges r' = [])"
proof (induction limit r rule: trim_edges.induct)
  case (1 limit r)
  show ?case
  proof (cases "edges r = []")
    case True
    with 1(2,3) show ?thesis by (subst (asm) trim_edges.simps) simp
  next
    case False
    let ?r = "r\<lparr>chr_Edges := map_option butlast (chr_Edges r)\<rparr>"
    have g: "closed_graph ok ?r" by (rule closed_butlast_edges[OF 1(2)])
    have e: "length (edges ?r) \<le> length (edges r)" by simp
    show ?thesis
    proof (cases "call_fits limit ?r")
      case True
      with False 1(3) have "b" "r' = ?r" by (subst (asm) trim_edges.simps; simp add: Let_def)+
      with True g e show ?thesis by simp
    next
      case no: False
      with False 1(3) have "trim_edges limit ?r = (b, r')" by (subst (asm) trim_edges.simps) (simp add: Let_def)
      from 1(1)[OF False refl no g this] e show ?thesis by auto
    qed
  qed
qed

lemma trim_nodes_good:
  "closed_graph ok r \<Longrightarrow> edges r = [] \<Longrightarrow> trim_nodes limit r = (b, r') \<Longrightarrow>
   closed_graph ok r' \<and> edges r' = [] \<and> length (nodes r') \<le> length (nodes r) \<and> (b \<longrightarrow> call_fits limit r')"
proof (induction limit r rule: trim_nodes.induct)
  case (1 limit r)
  show ?case
  proof (cases "nodes r = []")
    case True
    with 1(2-) show ?thesis by (subst (asm) trim_nodes.simps) simp
  next
    case False
    let ?r = "r\<lparr>chr_Nodes := map_option butlast (chr_Nodes r), chr_Roots := removeCallID (chr_Roots r) (chn_ID (last (nodes r)))\<rparr>"
    have g: "closed_graph ok ?r" by (rule closed_butlast_nodes[OF 1(2,3) False])
    have e: "edges ?r = []" "length (nodes ?r) \<le> length (nodes r)" using 1(3) by simp_all
    show ?thesis
    proof (cases "call_fits limit ?r")
      case True
      with False 1(4) have "b" "r' = ?r" by (subst (asm) trim_nodes.simps; simp add: Let_def)+
      with True g e show ?thesis by simp
    next
      case no: False
      with False 1(4) have "trim_nodes limit ?r = (b, r')" by (subst (asm) trim_nodes.simps) (simp add: Let_def)
      from 1(1)[OF False refl refl no g e(1) this] e show ?thesis by auto
    qed
  qed
qed

lemma trimCallHierarchy_good:
  assumes "closed_graph ok r" and "trimCallHierarchy r limit = Inr r'"
  shows "closed_graph ok r' \<and> length (nodes r') + length (edges r') \<le> length (nodes r) + length (edges r) \<and>
    fits_limit limit (json_CallHierarchyResult r')"
proof -
  have fits: "call_fits limit x \<longleftrightarrow> fits_limit limit (json_CallHierarchyResult x)" for x
    by (simp add: bounded_def)
  have g: "closed_graph ok (r\<lparr>chr_Truncated := True\<rparr>)" using assms(1) by (simp add: closed_graph_def)
  obtain b1 r1 where e: "trim_edges limit (r\<lparr>chr_Truncated := True\<rparr>) = (b1, r1)" by (metis surj_pair)
  obtain b2 r2 where n: "trim_nodes limit r1 = (b2, r2)" by (metis surj_pair)
  note ge = trim_edges_good[OF g e]
  show ?thesis
  proof (cases "call_fits limit r")
    case True
    with assms show ?thesis by (simp add: trimCallHierarchy_def fits)
  next
    case False
    show ?thesis
    proof (cases b1)
      case True
      with assms(2) False e ge show ?thesis by (simp add: trimCallHierarchy_def fits)
    next
      case nb: False
      then have gn: "closed_graph ok r2 \<and> edges r2 = [] \<and> length (nodes r2) \<le> length (nodes r1) \<and> (b2 \<longrightarrow> call_fits limit r2)"
        using trim_nodes_good[OF _ _ n, of ok] ge by simp
      have "r' = r2 \<and> fits_limit limit (json_CallHierarchyResult r2)"
        using assms(2) False e n nb gn by (cases b2) (auto simp: trimCallHierarchy_def fits bounded_def split: if_splits)
      with gn ge show ?thesis by simp
    qed
  qed
qed

lemma collect_calls_helper:
  assumes "collect_calls calls_of env p m limit incoming depth prepared = Inr r" and "0 \<le> m"
  shows "closed_graph (\<lambda>i. allowed env p (ch_URI i)) r \<and> int (length (nodes r)) + int (length (edges r)) \<le> m \<and>
    fits_limit limit (json_CallHierarchyResult r)"
proof -
  let ?ok = "\<lambda>i. allowed env p (ch_URI i)"
  obtain starts filtered where f: "filterCalls env p prepared False = (starts, filtered)" by (metis surj_pair)
  have oks: "\<forall>x \<in> set starts. ?ok x" using f by (auto simp: filterCalls_def filter_allowed_eq)
  let ?st = "add_roots m starts (empty_calls filtered, [])"
  have "walk_good ?ok m (empty_calls filtered, [])"
    using assms(2) by (simp add: walk_good_def closed_graph_def empty_calls_def node_ids_def)
  then have g0: "walk_good ?ok m ?st"
    using add_roots_good[of ?ok m "(empty_calls filtered, [])" starts] oks by (simp add: empty_calls_def)
  have fin: "closed_graph ?ok x' \<and> int (length (nodes x')) + int (length (edges x')) \<le> m \<and>
      fits_limit limit (json_CallHierarchyResult x')"
    if "walk_good ?ok m y" "trimCallHierarchy (fst y) limit = Inr x'" for y x'
    using that trimCallHierarchy_good[of ?ok "fst y" limit x'] by (cases y) (auto simp: walk_good_def)
  show ?thesis
  proof (cases "incoming = None \<or> depth = 0")
    case True
    with assms(1) f g0 fin show ?thesis by (simp add: collect_calls_def Let_def)
  next
    case False
    with assms(1) f obtain st' where
      w: "walk_calls calls_of ?ok m (the incoming) depth (map chn_Item (nodes (fst ?st))) ?st = Inr st'"
      and t: "trimCallHierarchy (fst st') limit = Inr r"
      by (auto simp: collect_calls_def Let_def split: sum.splits)
    have "known_items (map chn_Item (nodes (fst ?st))) (snd ?st)"
      using g0 by (cases ?st) (auto simp: known_items_def walk_good_def closed_graph_def node_ids_def)
    from walk_calls_good[OF w g0 this] t fin show ?thesis by blast
  qed
qed

text \<open>
  C23. A call hierarchy is a closed, bounded graph of files the client may see: node IDs are distinct
  and are the keys of their items, every item lies in the project or the engine, roots and both ends
  of every edge are nodes, nodes and edges together are at most the item limit, and the encoding is
  within the response limit, whatever clangd answered and however the graph was trimmed.
\<close>

theorem call_hierarchy_closed:
  assumes "collect_calls calls_of env p m limit incoming depth prepared = Inr r" and "0 \<le> m"
  shows "distinct (map chn_ID (nodes r)) \<and>
    (\<forall>n \<in> set (nodes r). chn_ID n = callKey (chn_Item n) \<and> allowed env p (ch_URI (chn_Item n))) \<and>
    set (roots r) \<subseteq> chn_ID ` set (nodes r) \<and>
    (\<forall>e \<in> set (edges r). che_From e \<in> chn_ID ` set (nodes r) \<and> che_To e \<in> chn_ID ` set (nodes r)) \<and>
    int (length (nodes r)) + int (length (edges r)) \<le> m \<and>
    fits_limit limit (json_CallHierarchyResult r)"
  using collect_calls_helper[OF assms] unfolding closed_graph_def node_ids_def set_map by blast

definition sample_item :: "string \<Rightarrow> CallHierarchyItem" where
  "sample_item uri = \<lparr>ch_Name = '''', ch_Kind = 12, ch_URI = uri, ch_Range = zero_Range, ch_SelectionRange = zero_Range\<rparr>"

definition sample_project_p :: Project where
  "sample_project_p =
     \<lparr>proj_ID = ''p'', proj_Name = ''P'', UProject = ''/p/P.uproject'', proj_Target = '''', proj_Platform = '''',
      proj_Configuration = '''', WatchEnabled = False, proj_Engine = \<lparr>eng_Root = ''/e'', eng_Version = ''5.4''\<rparr>,
      proj_Toolchain = \<lparr>ClangdPath = '''', ClangdVersion = ''''\<rparr>,
      proj_Generation = \<lparr>CompilationDatabase = '''', CacheDir = '''', LastFingerprint = '''', LastGeneratedAt = 0,
        InvalidationReason = ''''\<rparr>\<rparr>"

definition sample_calls :: "CallHierarchyItem \<Rightarrow> go_error + CallHierarchyCall list" where
  "sample_calls i = Inr [\<lparr>call_From = Some (sample_item ''file:/p/b''), call_To = None, call_FromRanges = []\<rparr>]"

theorem call_hierarchy_closed_witness:
  "\<exists>r. collect_calls sample_calls sample_safe_env sample_project_p 5 2000 None 0 [sample_item ''file:/p/a''] = Inr r \<and>
     length (nodes r) = 1 \<and> int (length (nodes r)) + int (length (edges r)) \<le> 5"
proof -
  have e: "map_sum (\<lambda>_. ()) (\<lambda>r. length (nodes r)) (collect_calls sample_calls sample_safe_env sample_project_p 5 2000 None 0
      [sample_item ''file:/p/a'']) = Inr 1"
    by code_simp
  then obtain r where r: "collect_calls sample_calls sample_safe_env sample_project_p 5 2000 None 0
      [sample_item ''file:/p/a''] = Inr r" "length (nodes r) = 1"
    by (auto simp: map_sum_def split: sum.splits)
  have "0 \<le> (5::int)" by simp
  from call_hierarchy_closed[OF r(1) this] r show ?thesis by blast
qed

end
