(* ===== verification/McpStdio.thy ===== *)
theory McpStdio
  imports Bufio
begin

text \<open>
  The byte side of the MCP server (\<^verbatim>\<open>internal/mcpserver/limits.go\<close>, \<^verbatim>\<open>stdio.go\<close>): the limits, the
  bounded reader and writer of newline-delimited JSON-RPC frames, the validation of a request
  frame before any handler sees it, and the bounded proxy between two streams.  The JSON scanner
  of the standard library is an argument that gives the shallow structure of a text with the raw
  text of its members; what \<^verbatim>\<open>json.Unmarshal\<close> makes of it for the types used here is modelled.
\<close>

section \<open>Limits\<close>

record Limits =
  MaxItems :: int
  MaxQueryBytes :: int
  MaxPathBytes :: int
  MaxSourceBytes :: int
  MaxResponseBytes :: int
  MaxRequestBytes :: int
  MaxRequestIDBytes :: int
  MaxCallDepth :: int
  MaxConcurrentTools :: int
  Timeout :: int

definition positive_or :: "int \<Rightarrow> int \<Rightarrow> int" where
  "positive_or v d = (if v \<le> 0 then d else v)"

definition normalized :: "Limits \<Rightarrow> Limits" where
  "normalized l =
     \<lparr>MaxItems = positive_or (MaxItems l) 100,
      MaxQueryBytes = positive_or (MaxQueryBytes l) 512,
      MaxPathBytes = positive_or (MaxPathBytes l) 4096,
      MaxSourceBytes = positive_or (MaxSourceBytes l) 32768,
      MaxResponseBytes = positive_or (MaxResponseBytes l) 32768,
      MaxRequestBytes = positive_or (MaxRequestBytes l) 65536,
      MaxRequestIDBytes = positive_or (MaxRequestIDBytes l) 128,
      MaxCallDepth = positive_or (MaxCallDepth l) 3,
      MaxConcurrentTools = positive_or (MaxConcurrentTools l) 8,
      Timeout = positive_or (Timeout l) 30000000000\<rparr>"

definition minimumResponseBytes :: int where
  "minimumResponseBytes = 512"

definition protocolEnvelopeBytes :: int where
  "protocolEnvelopeBytes = 256"

definition maxRequestIDTokenBytes :: int where
  "maxRequestIDTokenBytes = protocolEnvelopeBytes - 128"

text \<open>\<^verbatim>\<open>True\<close> for the nil error of \<^verbatim>\<open>validate\<close>.\<close>

definition limits_valid :: "Limits \<Rightarrow> bool" where
  "limits_valid l =
     (if 0 < MaxResponseBytes l \<and> MaxResponseBytes l < minimumResponseBytes then False
      else if (0 < MaxRequestBytes l \<and> MaxRequestBytes l < 2) \<or>
              (0 < MaxRequestIDBytes l \<and>
                 (MaxRequestIDBytes l < 1 \<or> maxRequestIDTokenBytes < MaxRequestIDBytes l)) then False
      else True)"

section \<open>Decoding what the validation looks at\<close>

text \<open>
  The shallow structure of a JSON text: a number with its value when it is an integer literal that
  fits 64 bits, an object with the raw text of each member in order.  The scanner yields \<open>None\<close> on
  a syntax error anywhere in the text.
\<close>

datatype json_kind =
    KNull
  | KBool bool
  | KNumber "int option"
  | KString string
  | KArray
  | KObject "(string \<times> string) list"

type_synonym scanner = "string \<Rightarrow> json_kind option"

text \<open>Decoding into a \<^verbatim>\<open>string\<close> or \<^verbatim>\<open>int\<close> variable that holds \<open>old\<close>; null leaves it.\<close>

definition decode_string :: "scanner \<Rightarrow> string \<Rightarrow> string \<Rightarrow> string option" where
  "decode_string scan raw old =
     (case scan raw of Some (KString s) \<Rightarrow> Some s | Some KNull \<Rightarrow> Some old | _ \<Rightarrow> None)"

definition decode_int :: "scanner \<Rightarrow> string \<Rightarrow> int \<Rightarrow> int option" where
  "decode_int scan raw old =
     (case scan raw of Some (KNumber (Some n)) \<Rightarrow> Some n | Some KNull \<Rightarrow> Some old | _ \<Rightarrow> None)"

text \<open>Decoding into a map: later members replace earlier ones, null gives the nil map.\<close>

definition decode_map :: "scanner \<Rightarrow> string \<Rightarrow> (string \<rightharpoonup> string) option" where
  "decode_map scan raw =
     (case scan raw of
        Some (KObject ms) \<Rightarrow> Some (map_of (rev ms))
      | Some KNull \<Rightarrow> Some (\<lambda>_. None)
      | _ \<Rightarrow> None)"

definition decode_keys :: "scanner \<Rightarrow> string \<Rightarrow> string list" where
  "decode_keys scan raw = (case scan raw of Some (KObject ms) \<Rightarrow> remdups (map fst ms) | _ \<Rightarrow> [])"

record request_frame =
  rq_ID :: string
  rq_Method :: string
  rq_Name :: string
  rq_Arguments :: string

definition no_request :: request_frame where
  "no_request = \<lparr>rq_ID = '''', rq_Method = '''', rq_Name = '''', rq_Arguments = ''''\<rparr>"

definition params_field :: "scanner \<Rightarrow> string \<times> string \<Rightarrow> request_frame option \<Rightarrow> request_frame option" where
  "params_field scan kv rq =
     (case rq of None \<Rightarrow> None | Some q \<Rightarrow>
        if equal_fold (fst kv) ''name''
        then map_option (\<lambda>s. q\<lparr>rq_Name := s\<rparr>) (decode_string scan (snd kv) (rq_Name q))
        else if equal_fold (fst kv) ''arguments'' then Some (q\<lparr>rq_Arguments := snd kv\<rparr>)
        else Some q)"

definition request_field :: "scanner \<Rightarrow> string \<times> string \<Rightarrow> request_frame option \<Rightarrow> request_frame option" where
  "request_field scan kv rq =
     (case rq of None \<Rightarrow> None | Some q \<Rightarrow>
        if equal_fold (fst kv) ''id'' then Some (q\<lparr>rq_ID := snd kv\<rparr>)
        else if equal_fold (fst kv) ''method''
        then map_option (\<lambda>s. q\<lparr>rq_Method := s\<rparr>) (decode_string scan (snd kv) (rq_Method q))
        else if equal_fold (fst kv) ''params'' then
          (case scan (snd kv) of
             Some (KObject ms) \<Rightarrow> fold (params_field scan) ms (Some q)
           | Some KNull \<Rightarrow> Some q
           | _ \<Rightarrow> None)
        else Some q)"

text \<open>\<open>None\<close> is the error of \<^verbatim>\<open>json.Unmarshal(line, &request)\<close>.\<close>

definition decode_request :: "scanner \<Rightarrow> string \<Rightarrow> request_frame option" where
  "decode_request scan line =
     (case scan line of
        Some (KObject ms) \<Rightarrow> fold (request_field scan) ms (Some no_request)
      | Some KNull \<Rightarrow> Some no_request
      | _ \<Rightarrow> None)"

section \<open>Validation\<close>

text \<open>The three error values of the file; \<^verbatim>\<open>True\<close> below is a nil error.\<close>

definition validatePositionArgument :: "scanner \<Rightarrow> string \<Rightarrow> bool" where
  "validatePositionArgument scan raw =
     (case decode_map scan raw of
        None \<Rightarrow> False
      | Some position \<Rightarrow>
          list_all (\<lambda>field. case position field of None \<Rightarrow> True | Some v \<Rightarrow> decode_int scan v 0 \<noteq> None)
            [''line'', ''character''] \<and>
          (case position ''path'' of None \<Rightarrow> True | Some v \<Rightarrow> decode_string scan v '''' \<noteq> None))"

text \<open>The string, integer and object fields of each tool.\<close>

definition tool_fields :: "string \<Rightarrow> (string list \<times> string list \<times> string list) option" where
  "tool_fields name =
     (if name = ''list_projects'' then Some ([], [''max_items''], [])
      else if name = ''project_status'' then Some ([''project_id''], [], [])
      else if name = ''search_symbols'' then Some ([''project_id'', ''query''], [''max_items''], [])
      else if name \<in> {''find_definition'', ''find_references'', ''find_implementations'', ''hover''}
        then Some ([''project_id''], [''max_items''], [''position''])
      else if name = ''document_symbols'' then Some ([''project_id'', ''path''], [''max_items''], [])
      else if name = ''call_hierarchy''
        then Some ([''project_id'', ''direction''], [''max_items'', ''max_depth''], [''position''])
      else if name = ''read_symbol_source''
        then Some ([''project_id'', ''path''], [''start_line'', ''end_line'', ''max_bytes''], [])
      else None)"

definition valid_field :: "scanner \<Rightarrow> string list \<times> string list \<times> string list \<Rightarrow> string \<Rightarrow> string \<Rightarrow> bool" where
  "valid_field scan schema field v =
     (case schema of (strings, ints, objects) \<Rightarrow>
        if field \<in> set strings then decode_string scan v '''' \<noteq> None
        else if field \<in> set ints then decode_int scan v 0 \<noteq> None
        else field \<in> set objects \<longrightarrow> validatePositionArgument scan v)"

definition validateToolArguments :: "scanner \<Rightarrow> string \<Rightarrow> string \<Rightarrow> bool" where
  "validateToolArguments scan name raw =
     (if raw = '''' \<or> trim_space raw = ''null'' then True
      else case decode_map scan raw of
          None \<Rightarrow> False
        | Some arguments \<Rightarrow>
            (case tool_fields name of
               None \<Rightarrow> True
             | Some schema \<Rightarrow>
                 list_all (\<lambda>field. case arguments field of None \<Rightarrow> True | Some v \<Rightarrow> valid_field scan schema field v)
                   (decode_keys scan raw)))"

definition maxMethodNameBytes :: nat where
  "maxMethodNameBytes = 128"

definition maxToolNameBytes :: nat where
  "maxToolNameBytes = 128"

definition validateRequestID :: "scanner \<Rightarrow> nat \<Rightarrow> string \<Rightarrow> bool" where
  "validateRequestID scan maxStringID line =
     (let trimmed = trim_space line in
      if trimmed \<noteq> '''' \<and> hd trimmed = CHR ''['' then False
      else case decode_request scan line of
          None \<Rightarrow> True
        | Some q \<Rightarrow>
            if maxMethodNameBytes < length (rq_Method q) \<or> maxToolNameBytes < length (rq_Name q) then False
            else if rq_Method q = ''tools/call'' \<and> \<not> validateToolArguments scan (rq_Name q) (rq_Arguments q) then False
            else if rq_ID q = '''' then True
            else if maxStringID < length (rq_ID q) then False
            else case decode_string scan (rq_ID q) '''' of
                Some i \<Rightarrow> \<not> maxStringID < length i
              | None \<Rightarrow> True)"

section \<open>The bounded reader in front of the SDK\<close>

datatype stdio_error =
    ErrRequestFrameTooLarge
  | ErrResponseFrameTooLarge
  | ErrFrameTooLarge
  | ErrEOF
  | ErrCanceled
  | ErrDeadline
  | ErrShortWrite
  | ErrWrite


text \<open>\<^verbatim>\<open>bufio.NewReaderSize\<close> never uses less than 16 bytes.\<close>

definition bufio_size :: "nat \<Rightarrow> nat" where
  "bufio_size n = max 16 n"




section \<open>The bounded writer behind the SDK\<close>

datatype write_result = WriteAll | WriteShort | WriteFails

text \<open>
  \<open>bw_out\<close> is what the underlying writer was given, one entry per call; \<open>accept i\<close> is its answer
  to call number \<open>i\<close>.
\<close>

record boundedJSONWriter =
  bw_max :: nat
  bw_pending :: string
  bw_out :: "string list"

definition first_frame :: "string \<Rightarrow> (string \<times> string) option" where
  "first_frame s =
     (if chr_nl \<in> set s
      then let n = Suc (length (takeWhile (\<lambda>c. c \<noteq> chr_nl) s)) in Some (take n s, drop n s)
      else None)"

lemma first_frame_parts:
  "first_frame s = Some (fr, rest) \<Longrightarrow> s = fr @ rest \<and> fr \<noteq> '''' \<and> length rest < length s"
  by (cases s) (auto simp: first_frame_def Let_def split: if_splits)

function drain :: "(nat \<Rightarrow> write_result) \<Rightarrow> boundedJSONWriter \<Rightarrow> stdio_error option \<times> boundedJSONWriter" where
  "drain accept w =
     (case first_frame (bw_pending w) of
        None \<Rightarrow>
          if bw_max w < length (bw_pending w) then (Some ErrResponseFrameTooLarge, w\<lparr>bw_pending := ''''\<rparr>)
          else (None, w)
      | Some (fr, rest) \<Rightarrow>
          if bw_max w < length fr then (Some ErrResponseFrameTooLarge, w\<lparr>bw_pending := ''''\<rparr>)
          else case accept (length (bw_out w)) of
              WriteFails \<Rightarrow> (Some ErrWrite, w)
            | WriteShort \<Rightarrow> (Some ErrShortWrite, w)
            | WriteAll \<Rightarrow> drain accept (w\<lparr>bw_pending := rest, bw_out := bw_out w @ [fr]\<rparr>))"
  by pat_completeness auto
termination
  by (relation "measure (\<lambda>(a, w). length (bw_pending w))") (auto dest: first_frame_parts)

declare drain.simps [simp del]

definition writer_Write :: "(nat \<Rightarrow> write_result) \<Rightarrow> string \<Rightarrow> boundedJSONWriter \<Rightarrow>
    (stdio_error + nat) \<times> boundedJSONWriter" where
  "writer_Write accept data w =
     (case drain accept (w\<lparr>bw_pending := bw_pending w @ data\<rparr>) of
        (Some e, w') \<Rightarrow> (Inl e, w')
      | (None, w') \<Rightarrow> (Inr (length data), w'))"

definition newBoundedJSONWriter :: "nat \<Rightarrow> boundedJSONWriter" where
  "newBoundedJSONWriter m = \<lparr>bw_max = m, bw_pending = '''', bw_out = []\<rparr>"

section \<open>The proxy\<close>

record FrameProxyCaps =
  cap_RequestBytes :: int
  cap_RequestIDBytes :: int
  cap_ResponseBytes :: int

definition normalizeFrameCaps :: "FrameProxyCaps \<Rightarrow> FrameProxyCaps" where
  "normalizeFrameCaps c =
     \<lparr>cap_RequestBytes = positive_or (cap_RequestBytes c) 65536,
      cap_RequestIDBytes = positive_or (cap_RequestIDBytes c) 128,
      cap_ResponseBytes = positive_or (cap_ResponseBytes c) 32768\<rparr>"

text \<open>\<^verbatim>\<open>readFrame\<close> of the proxy: a frame must end in a newline and respect the bound.\<close>

definition proxy_readFrame :: "nat \<Rightarrow> string \<Rightarrow> stdio_error + string \<times> string" where
  "proxy_readFrame maxFrame s =
     (case read_slice (bufio_size (Suc maxFrame)) s of
        (line, e, rest) \<Rightarrow>
          if e = SliceFull \<or> maxFrame < length line then Inl ErrFrameTooLarge
          else if e = SliceEOF then (if line = '''' then Inl ErrEOF else Inl ErrFrameTooLarge)
          else Inr (line, rest))"

definition mapFrameError :: "stdio_error \<Rightarrow> bool \<Rightarrow> stdio_error" where
  "mapFrameError e response =
     (if e = ErrFrameTooLarge then (if response then ErrResponseFrameTooLarge else ErrRequestFrameTooLarge)
      else e)"

text \<open>
  \<^verbatim>\<open>writeAll\<close>: \<open>taken i\<close> is how many bytes the writer takes at its call number \<open>i\<close>, \<open>None\<close> an error;
  the state is the number of calls and the bytes written so far.
\<close>

function writeAll :: "(nat \<Rightarrow> nat option) \<Rightarrow> nat \<Rightarrow> string \<Rightarrow> string \<Rightarrow> stdio_error option \<times> nat \<times> string" where
  "writeAll taken calls payload out =
     (if payload = '''' then (None, calls, out)
      else case taken calls of
          None \<Rightarrow> (Some ErrWrite, Suc calls, out)
        | Some n \<Rightarrow>
            if n = 0 then (Some ErrShortWrite, Suc calls, out)
            else writeAll taken (Suc calls) (drop n payload) (out @ take n payload))"
  by pat_completeness auto
termination
  by (relation "measure (\<lambda>(t, c, p, out). length p)") auto

declare writeAll.simps [simp del]

lemma proxy_readFrame_shorter: "proxy_readFrame m s = Inr (line, rest) \<Longrightarrow> length rest < length s"
  by (auto simp: proxy_readFrame_def split: prod.splits if_splits slice_end.splits dest!: read_slice_parts)
    (metis length_greater_0_conv slice_end.exhaust)

text \<open>The request direction: \<open>cancelled k\<close> is the context's error before frame \<open>k\<close>.\<close>

function proxyFrames :: "scanner \<Rightarrow> nat \<Rightarrow> nat \<Rightarrow> (nat \<Rightarrow> stdio_error option) \<Rightarrow> (nat \<Rightarrow> nat option) \<Rightarrow>
    nat \<Rightarrow> nat \<Rightarrow> string \<Rightarrow> string \<Rightarrow> stdio_error \<times> string" where
  "proxyFrames scan maxFrame maxID cancelled taken k calls s out =
     (case cancelled k of Some e \<Rightarrow> (e, out) | None \<Rightarrow>
      case proxy_readFrame maxFrame s of
          Inl e \<Rightarrow> (mapFrameError e False, out)
        | Inr (line, rest) \<Rightarrow>
            if \<not> validateRequestID scan maxID line then (ErrRequestFrameTooLarge, out)
            else case writeAll taken calls line out of
                (Some e, calls', out') \<Rightarrow> (e, out')
              | (None, calls', out') \<Rightarrow>
                  proxyFrames scan maxFrame maxID cancelled taken (Suc k) calls' rest out')"
  by pat_completeness auto
termination
  by (relation "measure (\<lambda>(scan, m, i, c, t, k, calls, s, out). length s)")
    (auto dest: proxy_readFrame_shorter)

declare proxyFrames.simps [simp del]

text \<open>The response direction.\<close>

function proxyFramesResponse :: "nat \<Rightarrow> (nat \<Rightarrow> stdio_error option) \<Rightarrow> (nat \<Rightarrow> write_result) \<Rightarrow> nat \<Rightarrow> string \<Rightarrow>
    boundedJSONWriter \<Rightarrow> stdio_error \<times> boundedJSONWriter" where
  "proxyFramesResponse maxFrame cancelled accept k s w =
     (case cancelled k of Some e \<Rightarrow> (e, w) | None \<Rightarrow>
      case proxy_readFrame maxFrame s of
          Inl e \<Rightarrow> (mapFrameError e True, w)
        | Inr (line, rest) \<Rightarrow>
            (case writer_Write accept line w of
               (Inl e, w') \<Rightarrow> (e, w')
             | (Inr _, w') \<Rightarrow> proxyFramesResponse maxFrame cancelled accept (Suc k) rest w'))"
  by pat_completeness auto
termination
  by (relation "measure (\<lambda>(m, c, a, k, s, w). length s)") (auto dest: proxy_readFrame_shorter)

declare proxyFramesResponse.simps [simp del]

definition isEOFOrCanceled :: "stdio_error option \<Rightarrow> bool" where
  "isEOFOrCanceled e \<longleftrightarrow> e \<in> {None, Some ErrEOF, Some ErrCanceled}"

text \<open>
  What \<^verbatim>\<open>ProxyFrames\<close> returns from the two directions' results, in the order they ended;
  \<open>deadline\<close> says that the context's own error is its expired deadline and not a cancellation.
\<close>

definition proxy_outcome :: "bool \<Rightarrow> stdio_error option \<Rightarrow> stdio_error option \<Rightarrow> stdio_error option" where
  "proxy_outcome deadline first second =
     (if \<not> isEOFOrCanceled first then first
      else if second \<in> {Some ErrRequestFrameTooLarge, Some ErrResponseFrameTooLarge} then second
      else if deadline then Some ErrDeadline
      else None)"

section \<open>Facts about the limits and the validation\<close>

text \<open>
  Limits that \<^verbatim>\<open>validate\<close> accepts stay acceptable when the defaults are filled in, and then every
  bound is positive, the response always has room for the protocol envelope, and a request ID
  token always fits into what the envelope reserves for it; normalising twice changes nothing.
\<close>

theorem normalized_limits:
  assumes "limits_valid l"
  shows "limits_valid (normalized l) \<and> normalized (normalized l) = normalized l \<and>
    0 < MaxItems (normalized l) \<and> 0 < MaxSourceBytes (normalized l) \<and> 0 < MaxCallDepth (normalized l) \<and>
    0 < MaxConcurrentTools (normalized l) \<and> 0 < Timeout (normalized l) \<and> 2 \<le> MaxRequestBytes (normalized l) \<and>
    2 * protocolEnvelopeBytes \<le> MaxResponseBytes (normalized l) \<and>
    MaxRequestIDBytes (normalized l) \<le> protocolEnvelopeBytes - 128"
  using assms
  by (auto simp: limits_valid_def normalized_def positive_or_def minimumResponseBytes_def
      protocolEnvelopeBytes_def maxRequestIDTokenBytes_def split: if_splits)

definition zero_limits :: Limits where
  "zero_limits = \<lparr>MaxItems = 0, MaxQueryBytes = 0, MaxPathBytes = 0, MaxSourceBytes = 0, MaxResponseBytes = 0,
     MaxRequestBytes = 0, MaxRequestIDBytes = 0, MaxCallDepth = 0, MaxConcurrentTools = 0, Timeout = 0\<rparr>"

theorem normalized_limits_witness:
  "limits_valid (normalized zero_limits) \<and> MaxResponseBytes (normalized zero_limits) = 32768"
proof -
  have "limits_valid zero_limits" by (simp add: limits_valid_def zero_limits_def)
  from normalized_limits[OF this] show ?thesis
    by (simp add: normalized_def zero_limits_def positive_or_def)
qed

text \<open>
  An accepted frame is not a batch; and if it is a well-typed request, its method and tool name
  have at most 128 bytes, its ID token and its decoded string ID at most the limit, and for a call
  of a known tool the arguments are absent or an object in which every argument the tool declares
  decodes at its declared type.
\<close>

theorem validateRequestID_sound:
  assumes "validateRequestID scan maxID line"
  shows "\<not> has_prefix (trim_space line) ''['' \<and>
    (case decode_request scan line of
       None \<Rightarrow> True
     | Some q \<Rightarrow>
         length (rq_Method q) \<le> 128 \<and> length (rq_Name q) \<le> 128 \<and> length (rq_ID q) \<le> maxID \<and>
         (\<forall>i. decode_string scan (rq_ID q) '''' = Some i \<longrightarrow> rq_ID q \<noteq> '''' \<longrightarrow> length i \<le> maxID) \<and>
         (rq_Method q = ''tools/call'' \<longrightarrow>
            (\<forall>schema. tool_fields (rq_Name q) = Some schema \<longrightarrow>
               rq_Arguments q = '''' \<or> trim_space (rq_Arguments q) = ''null'' \<or>
               (\<exists>arguments. decode_map scan (rq_Arguments q) = Some arguments \<and>
                  list_all (\<lambda>field. case arguments field of None \<Rightarrow> True | Some v \<Rightarrow> valid_field scan schema field v)
                    (decode_keys scan (rq_Arguments q))))))"
proof -
  have batch: "\<not> has_prefix (trim_space line) ''[''"
    using assms by (cases "trim_space line") (auto simp: validateRequestID_def has_prefix_def Let_def)
  show ?thesis
  proof (cases "decode_request scan line")
    case None
    with batch show ?thesis by simp
  next
    case (Some q)
    with assms have ok: "length (rq_Method q) \<le> 128" "length (rq_Name q) \<le> 128"
      and args: "rq_Method q = ''tools/call'' \<Longrightarrow> validateToolArguments scan (rq_Name q) (rq_Arguments q)"
      and ident: "rq_ID q = '''' \<or> length (rq_ID q) \<le> maxID \<and>
        (\<forall>i. decode_string scan (rq_ID q) '''' = Some i \<longrightarrow> length i \<le> maxID)"
      by (auto simp: validateRequestID_def Let_def maxMethodNameBytes_def maxToolNameBytes_def split: if_splits)
    have "rq_Arguments q = '''' \<or> trim_space (rq_Arguments q) = ''null'' \<or>
         (\<exists>arguments. decode_map scan (rq_Arguments q) = Some arguments \<and>
            list_all (\<lambda>field. case arguments field of None \<Rightarrow> True | Some v \<Rightarrow> valid_field scan schema field v)
              (decode_keys scan (rq_Arguments q)))"
      if "rq_Method q = ''tools/call''" "tool_fields (rq_Name q) = Some schema" for schema
      using args[OF that(1)] that(2) by (auto simp: validateToolArguments_def split: if_splits option.splits)
    with Some ok ident batch show ?thesis by (auto simp only: option.case list.size)
  qed
qed

text \<open>A scanner that knows a few texts, for the witnesses.\<close>

definition sample_scanner :: scanner where
  "sample_scanner = map_of
     [(''{call}'', KObject [(''id'', ''7''), (''method'', ''<m>''), (''params'', ''<p>'')]),
      (''7'', KNumber (Some 7)), (''<m>'', KString ''tools/call''),
      (''<p>'', KObject [(''name'', ''<n>''), (''arguments'', ''<a>'')]), (''<n>'', KString ''project_status''),
      (''<a>'', KObject [(''project_id'', ''<g>'')]), (''<g>'', KString ''Game'')]"

lemma sample_request_accepted: "validateRequestID sample_scanner 128 ''{call}''"
  by code_simp

theorem validateRequestID_sound_witness:
  "map_option rq_Name (decode_request sample_scanner ''{call}'') = Some ''project_status'' \<and>
   \<not> has_prefix (trim_space ''{call}'') ''[''"
proof -
  have "map_option rq_Name (decode_request sample_scanner ''{call}'') = Some ''project_status''" by code_simp
  with validateRequestID_sound[OF sample_request_accepted] show ?thesis by blast
qed

section \<open>Facts about the writer\<close>

text \<open>A frame: exactly one newline, at the end.\<close>

definition is_frame :: "string \<Rightarrow> bool" where
  "is_frame fr \<longleftrightarrow> (\<exists>l. fr = l @ [chr_nl] \<and> chr_nl \<notin> set l)"

lemma first_frame_is_frame: "first_frame s = Some (fr, rest) \<Longrightarrow> is_frame fr"
proof -
  assume a: "first_frame s = Some (fr, rest)"
  then have "chr_nl \<in> set s" by (simp add: first_frame_def split: if_splits)
  then obtain l r where s: "s = l @ chr_nl # r" "chr_nl \<notin> set l" by (metis split_list_first)
  with a have "fr = l @ [chr_nl]" by (simp add: first_frame_def takeWhile_nl)
  with s show ?thesis by (auto simp: is_frame_def)
qed

definition writer_good :: "boundedJSONWriter \<Rightarrow> bool" where
  "writer_good w \<longleftrightarrow> list_all (\<lambda>fr. is_frame fr \<and> length fr \<le> bw_max w) (bw_out w)"

lemma drain_facts:
  "drain accept w = (e, w') \<Longrightarrow> writer_good w \<Longrightarrow>
   writer_good w' \<and> bw_max w' = bw_max w \<and>
   (e = None \<longrightarrow> concat (bw_out w') @ bw_pending w' = concat (bw_out w) @ bw_pending w \<and>
      chr_nl \<notin> set (bw_pending w') \<and> length (bw_pending w') \<le> bw_max w)"
proof (induction accept w rule: drain.induct)
  case (1 accept w)
  show ?case
  proof (cases "first_frame (bw_pending w)")
    case None
    with 1(2,3) show ?thesis
      by (auto simp: drain.simps[of accept w] writer_good_def first_frame_def Let_def split: if_splits)
  next
    case (Some p)
    obtain fr rest where p: "p = (fr, rest)" by (cases p)
    note parts = first_frame_parts[OF Some[unfolded p]]
    show ?thesis
    proof (cases "bw_max w < length fr \<or> accept (length (bw_out w)) \<noteq> WriteAll")
      case True
      with 1(2,3) Some p show ?thesis
        by (auto simp: drain.simps[of accept w] writer_good_def split: if_splits write_result.splits)
    next
      case False
      let ?w = "w\<lparr>bw_pending := rest, bw_out := bw_out w @ [fr]\<rparr>"
      have run: "drain accept ?w = (e, w')"
        using 1(2) Some p False by (simp add: drain.simps[of accept w])
      have good: "writer_good ?w"
        using 1(3) False first_frame_is_frame[OF Some[unfolded p]] by (simp add: writer_good_def)
      have "writer_good w' \<and> bw_max w' = bw_max ?w \<and>
         (e = None \<longrightarrow> concat (bw_out w') @ bw_pending w' = concat (bw_out ?w) @ bw_pending ?w \<and>
            chr_nl \<notin> set (bw_pending w') \<and> length (bw_pending w') \<le> bw_max ?w)"
        by (rule 1(1)[OF Some _ _ _ run good]) (use p False in auto)
      with parts show ?thesis by simp
    qed
  qed
qed

text \<open>A sequence of \<^verbatim>\<open>Write\<close> calls, failed ones included.\<close>

definition write_each :: "(nat \<Rightarrow> write_result) \<Rightarrow> string \<Rightarrow> boundedJSONWriter \<Rightarrow> boundedJSONWriter" where
  "write_each accept data w = snd (writer_Write accept data w)"

lemma writer_good_Write: "writer_good w \<Longrightarrow> writer_good (write_each accept data w) \<and> bw_max (write_each accept data w) = bw_max w"
proof -
  assume g: "writer_good w"
  obtain e w' where d: "drain accept (w\<lparr>bw_pending := bw_pending w @ data\<rparr>) = (e, w')" by fastforce
  have "writer_good (w\<lparr>bw_pending := bw_pending w @ data\<rparr>)" using g by (simp add: writer_good_def)
  from drain_facts[OF d this] d show ?thesis
    by (cases e) (simp_all add: write_each_def writer_Write_def)
qed

text \<open>
  Whatever the SDK writes, in whatever pieces, and whatever the underlying writer answers, each
  call on the underlying writer is exactly one newline-terminated frame of at most the limit.
\<close>

theorem writer_emits_bounded_frames:
  "list_all (\<lambda>fr. is_frame fr \<and> length fr \<le> m)
     (bw_out (run_events (write_each accept) datas (newBoundedJSONWriter m)))"
proof -
  have "writer_good (run_events (write_each accept) datas (newBoundedJSONWriter m)) \<and>
      bw_max (run_events (write_each accept) datas (newBoundedJSONWriter m)) = m"
    by (rule run_events_invariant[where P = "\<lambda>w. writer_good w \<and> bw_max w = m"])
      (auto simp: writer_good_Write newBoundedJSONWriter_def, simp add: writer_good_def)
  then show ?thesis unfolding writer_good_def by metis
qed

text \<open>
  A successful \<^verbatim>\<open>Write\<close> loses and reorders nothing: the frames passed on, followed by the bytes
  still pending, are the frames and pending bytes before, followed by the data; what stays pending
  is an incomplete frame within the limit.
\<close>

theorem writer_Write_preserves:
  assumes "writer_Write accept data w = (Inr n, w')" and "writer_good w"
  shows "n = length data \<and> concat (bw_out w') @ bw_pending w' = concat (bw_out w) @ bw_pending w @ data \<and>
    chr_nl \<notin> set (bw_pending w') \<and> length (bw_pending w') \<le> bw_max w"
proof -
  have d: "drain accept (w\<lparr>bw_pending := bw_pending w @ data\<rparr>) = (None, w')" and n: "n = length data"
    using assms(1) by (auto simp: writer_Write_def split: prod.splits option.splits)
  have "writer_good (w\<lparr>bw_pending := bw_pending w @ data\<rparr>)" using assms(2) by (simp add: writer_good_def)
  from drain_facts[OF d this] n show ?thesis by simp
qed

lemma sample_Write:
  "writer_Write (\<lambda>_. WriteAll) (''{}'' @ [chr_nl] @ ''['') (newBoundedJSONWriter 9) =
   (Inr 4, \<lparr>bw_max = 9, bw_pending = ''['', bw_out = [''{}'' @ [chr_nl]]\<rparr>)"
  by code_simp

theorem writer_Write_preserves_witness:
  "concat [''{}'' @ [chr_nl]] @ ''['' = ''{}'' @ [chr_nl] @ ''['' \<and> chr_nl \<notin> set ''[''"
  using writer_Write_preserves[OF sample_Write] by (simp add: writer_good_def newBoundedJSONWriter_def)

section \<open>Facts about the reader\<close>



















section \<open>Facts about the proxy\<close>

lemma proxy_readFrame_frame:
  assumes "proxy_readFrame m s = Inr (line, rest)"
  shows "s = line @ rest \<and> length line \<le> m"
proof -
  obtain l e r where sl: "read_slice (bufio_size (Suc m)) s = (l, e, r)"
    by (cases "read_slice (bufio_size (Suc m)) s")
  with read_slice_parts[OF sl] assms show ?thesis
    by (auto simp: proxy_readFrame_def split: if_splits)
qed

lemma writeAll_facts:
  "writeAll taken calls payload out = (e, calls', out') \<Longrightarrow>
   \<exists>p. prefix p payload \<and> out' = out @ p \<and> (e = None \<longrightarrow> p = payload)"
proof (induction taken calls payload out rule: writeAll.induct)
  case (1 taken calls payload out)
  show ?case
  proof (cases "payload = '''' \<or> taken calls = None \<or> taken calls = Some 0")
    case True
    with 1(2) have "out' = out \<and> (e = None \<longrightarrow> payload = '''')"
      by (auto simp: writeAll.simps[of taken calls payload out] split: if_splits)
    then show ?thesis by (intro exI[of _ "''''"]) simp
  next
    case False
    then obtain n where n: "taken calls = Some n" "n \<noteq> 0" "payload \<noteq> ''''" by auto
    then have "writeAll taken (Suc calls) (drop n payload) (out @ take n payload) = (e, calls', out')"
      using 1(2) by (simp add: writeAll.simps[of taken calls payload out])
    from 1(1)[OF n(3,1,2) this] obtain p where
      "prefix p (drop n payload)" "out' = out @ take n payload @ p" "e = None \<longrightarrow> p = drop n payload" by auto
    moreover from this have "prefix (take n payload @ p) (take n payload @ drop n payload)"
      by (simp only: same_prefix_prefix)
    ultimately show ?thesis by (intro exI[of _ "take n payload @ p"]) auto
  qed
qed

text \<open>What may have been forwarded of a stream \<open>s\<close>: acceptable frames and a part of one more.\<close>

definition forwarded :: "scanner \<Rightarrow> nat \<Rightarrow> nat \<Rightarrow> string \<Rightarrow> string \<Rightarrow> bool" where
  "forwarded scan i m s t \<longleftrightarrow>
     (\<exists>frames partial line rest. s = concat frames @ line @ rest \<and> t = concat frames @ partial \<and> prefix partial line \<and>
        list_all (\<lambda>fr. validateRequestID scan i fr \<and> length fr \<le> m) frames \<and>
        (partial = '''' \<or> validateRequestID scan i line \<and> length line \<le> m))"

lemma forwarded_nothing: "forwarded scan i m s ''''"
  unfolding forwarded_def by (intro exI[of _ "[]"] exI[of _ "''''"] exI[of _ s]) simp

lemma forwarded_part:
  "validateRequestID scan i line \<Longrightarrow> length line \<le> m \<Longrightarrow> prefix p line \<Longrightarrow> forwarded scan i m (line @ rest) p"
  unfolding forwarded_def by (intro exI[of _ "[]"] exI[of _ p] exI[of _ line] exI[of _ rest]) simp

lemma forwarded_frame:
  assumes "validateRequestID scan i line" and "length line \<le> m" and "forwarded scan i m rest t"
  shows "forwarded scan i m (line @ rest) (line @ t)"
proof -
  from assms(3) obtain frames partial l r where "rest = concat frames @ l @ r" "t = concat frames @ partial" "prefix partial l"
    "list_all (\<lambda>fr. validateRequestID scan i fr \<and> length fr \<le> m) frames"
    "partial = '''' \<or> validateRequestID scan i l \<and> length l \<le> m"
    unfolding forwarded_def by blast
  with assms(1,2) show ?thesis
    unfolding forwarded_def by (intro exI[of _ "line # frames"] exI[of _ partial] exI[of _ l] exI[of _ r]) simp
qed

text \<open>One round of the proxy: nothing is forwarded, or a part of an acceptable frame, or all of it and the loop goes on.\<close>

lemma proxyFrames_round:
  assumes "proxyFrames scan m i cancelled taken k calls s out = (e, out')"
  shows "out' = out \<or> (\<exists>line rest p e1 calls1. cancelled k = None \<and> proxy_readFrame m s = Inr (line, rest) \<and>
    validateRequestID scan i line \<and> prefix p line \<and> writeAll taken calls line out = (e1, calls1, out @ p) \<and>
    (if e1 = None then p = line \<and> proxyFrames scan m i cancelled taken (Suc k) calls1 rest (out @ line) = (e, out')
     else out' = out @ p))"
proof (cases "\<exists>line rest. cancelled k = None \<and> proxy_readFrame m s = Inr (line, rest) \<and> validateRequestID scan i line")
  case False
  with assms have "out' = out"
    by (auto simp: proxyFrames.simps[of scan m i cancelled taken k] split: option.splits sum.splits prod.splits if_splits)
  then show ?thesis ..
next
  case True
  then obtain line rest where r: "cancelled k = None" "proxy_readFrame m s = Inr (line, rest)" "validateRequestID scan i line" by blast
  obtain e1 calls1 out1 where w: "writeAll taken calls line out = (e1, calls1, out1)" by (cases "writeAll taken calls line out")
  from writeAll_facts[OF w] obtain p where p: "prefix p line" "out1 = out @ p" "e1 = None \<longrightarrow> p = line" by blast
  have "if e1 = None then p = line \<and> proxyFrames scan m i cancelled taken (Suc k) calls1 rest (out @ line) = (e, out')
     else out' = out @ p"
    using assms r w p by (auto simp: proxyFrames.simps[of scan m i cancelled taken k] split: option.splits)
  with r p w show ?thesis by blast
qed

lemma proxyFrames_forwarded:
  "proxyFrames scan m i cancelled taken k calls s out = (e, out') \<Longrightarrow> \<exists>t. out' = out @ t \<and> forwarded scan i m s t"
proof (induction scan m i cancelled taken k calls s out rule: proxyFrames.induct)
  case (1 scan m i cancelled taken k calls s out)
  from proxyFrames_round[OF 1(2)] show ?case
  proof (elim disjE exE conjE)
    assume "out' = out"
    then show ?thesis using forwarded_nothing by auto
  next
    fix line rest p e1 calls1
    assume r: "cancelled k = None" "proxy_readFrame m s = Inr (line, rest)" "validateRequestID scan i line" "prefix p line"
      and w: "writeAll taken calls line out = (e1, calls1, out @ p)"
      and go: "if e1 = None then p = line \<and> proxyFrames scan m i cancelled taken (Suc k) calls1 rest (out @ line) = (e, out')
        else out' = out @ p"
    have fr: "s = line @ rest" "length line \<le> m" using proxy_readFrame_frame[OF r(2)] by simp_all
    show ?thesis
    proof (cases e1)
      case (Some x)
      with go r fr show ?thesis using forwarded_part by auto
    next
      case None
      with go have p: "p = line" and rec: "proxyFrames scan m i cancelled taken (Suc k) calls1 rest (out @ p) = (e, out')"
        by simp_all
      have "\<exists>t. out' = (out @ p) @ t \<and> forwarded scan i m rest t"
        by (rule 1(1)[OF r(1,2) refl _ w[symmetric] None refl rec]) (use r in simp)
      with fr r(3) p show ?thesis using forwarded_frame by fastforce
    qed
  qed
qed

text \<open>
  The request proxy forwards, in order and without gaps, whole frames of the client's stream,
  each within the limit and accepted by \<^verbatim>\<open>validateRequestID\<close>; after a write error at most a
  prefix of one further such frame follows, and nothing of a refused, oversized or unterminated
  frame is ever forwarded.
\<close>

theorem proxyFrames_forwards_valid_prefix:
  assumes "proxyFrames scan m i cancelled taken k calls s out = (e, out')"
  shows "\<exists>frames partial line rest. s = concat frames @ line @ rest \<and> out' = out @ concat frames @ partial \<and>
    prefix partial line \<and>
    list_all (\<lambda>fr. validateRequestID scan i fr \<and> length fr \<le> m) frames \<and>
    (partial = '''' \<or> validateRequestID scan i line \<and> length line \<le> m)"
  using proxyFrames_forwarded[OF assms] by (force simp: forwarded_def)

lemma sample_proxy:
  "proxyFrames sample_scanner 20 9 (\<lambda>_. None) (\<lambda>_. Some 3) 0 0 (''{call}'' @ [chr_nl] @ ''[1]'' @ [chr_nl]) '''' =
   (ErrRequestFrameTooLarge, ''{call}'' @ [chr_nl])"
  by code_simp

theorem proxyFrames_forwards_valid_prefix_witness:
  "\<exists>frames partial line rest. ''{call}'' @ [chr_nl] @ ''[1]'' @ [chr_nl] = concat frames @ line @ rest \<and>
    ''{call}'' @ [chr_nl] = concat frames @ partial \<and> prefix partial line \<and>
    list_all (\<lambda>fr. validateRequestID sample_scanner 9 fr \<and> length fr \<le> 20) frames \<and>
    (partial = '''' \<or> validateRequestID sample_scanner 9 line \<and> length line \<le> 20)"
  using proxyFrames_forwards_valid_prefix[OF sample_proxy] by simp

text \<open>A well-behaved client whose frames are all acceptable is forwarded completely.\<close>

lemma read_slice_frame:
  "is_frame fr \<Longrightarrow> length fr \<le> m \<Longrightarrow> proxy_readFrame m (fr @ rest) = Inr (fr, rest)"
  by (auto simp: is_frame_def proxy_readFrame_def read_slice_line bufio_size_def)

lemma writeAll_all:
  assumes "\<forall>k. \<exists>n. taken k = Some n \<and> 0 < n"
  shows "\<exists>calls'. writeAll taken calls payload out = (None, calls', out @ payload)"
proof (induction "length payload" arbitrary: calls payload out rule: less_induct)
  case less
  show ?case
  proof (cases "payload = ''''")
    case True
    then show ?thesis by (simp add: writeAll.simps[of taken calls "''''" out])
  next
    case False
    from assms obtain n where n: "taken calls = Some n" "0 < n" by blast
    have "length (drop n payload) < length payload" using False n by simp
    from less[OF this, of "Suc calls" "out @ take n payload"] n False show ?thesis
      by (simp add: writeAll.simps[of taken calls payload out])
  qed
qed

text \<open>
  The request proxy is transparent for a well-behaved peer: when every frame of the client is
  within the limit and accepted, nobody cancels and every write makes progress (however few bytes
  it takes), the whole stream is forwarded unchanged and the proxy ends with the end of the stream.
\<close>

theorem proxyFrames_transparent:
  assumes "list_all (\<lambda>fr. is_frame fr \<and> length fr \<le> m \<and> validateRequestID scan i fr) frames"
    and "\<forall>k. \<exists>n. taken k = Some n \<and> 0 < n"
  shows "proxyFrames scan m i (\<lambda>_. None) taken k calls (concat frames) out = (ErrEOF, out @ concat frames)"
  using assms(1)
proof (induction frames arbitrary: k calls out)
  case Nil
  have "proxy_readFrame m '''' = Inl ErrEOF"
    by (simp add: proxy_readFrame_def read_slice_def bufio_size_def)
  then show ?case by (simp add: proxyFrames.simps[of scan m i _ taken k] mapFrameError_def)
next
  case (Cons fr frames)
  from writeAll_all[OF assms(2)] obtain calls' where
    w: "writeAll taken calls fr out = (None, calls', out @ fr)" by blast
  from Cons.prems have "proxy_readFrame m (fr @ concat frames) = Inr (fr, concat frames)"
    by (simp add: read_slice_frame)
  with w Cons show ?case by (simp add: proxyFrames.simps[of scan m i _ taken k])
qed

theorem proxyFrames_transparent_witness:
  "proxyFrames sample_scanner 20 9 (\<lambda>_. None) (\<lambda>_. Some 3) 0 0 (concat [''{call}'' @ [chr_nl], ''{}'' @ [chr_nl]]) '''' =
   (ErrEOF, concat [''{call}'' @ [chr_nl], ''{}'' @ [chr_nl]])"
proof -
  have f: "is_frame (''{call}'' @ [chr_nl])" "is_frame (''{}'' @ [chr_nl])" by (auto simp: is_frame_def)
  have v: "validateRequestID sample_scanner 9 (''{call}'' @ [chr_nl])" "validateRequestID sample_scanner 9 (''{}'' @ [chr_nl])"
    by code_simp+
  have "proxyFrames sample_scanner 20 9 (\<lambda>_. None) (\<lambda>_. Some 3) 0 0 (concat [''{call}'' @ [chr_nl], ''{}'' @ [chr_nl]]) '''' =
   (ErrEOF, '''' @ concat [''{call}'' @ [chr_nl], ''{}'' @ [chr_nl]])"
    by (rule proxyFrames_transparent) (use f v in \<open>simp_all only: list.pred_inject list.size simp_thms length_append\<close>, simp_all)
  then show ?thesis by simp
qed

end
