(* ===== verification/McpServer.thy ===== *)
theory McpServer
  imports McpCalls McpStdio
begin

text \<open>
  The tools of the MCP server (\<^verbatim>\<open>internal/mcpserver/server.go\<close>, \<^verbatim>\<open>tools.go\<close>): admission, the choice of the
  project, the seven operations with their validation and limits, and the shape of results and
  errors on the wire.  clangd's answers, the registry, the file system and the SDK's encoding of a
  tool result are arguments.
\<close>

section \<open>The server\<close>

record TextPosition =
  tp_Path :: string
  tp_Line :: int
  tp_Character :: int

record queries =
  q_Symbols :: "Project \<Rightarrow> string \<Rightarrow> int \<Rightarrow> go_error + Symbol list"
  q_Locations :: "Project \<Rightarrow> string \<Rightarrow> TextPosition \<Rightarrow> int \<Rightarrow> go_error + Location list"
  q_DocumentSymbols :: "Project \<Rightarrow> string \<Rightarrow> int \<Rightarrow> go_error + DocumentSymbol list"
  q_Hover :: "Project \<Rightarrow> TextPosition \<Rightarrow> go_error + HoverResult option"
  q_PrepareCallHierarchy :: "Project \<Rightarrow> TextPosition \<Rightarrow> go_error + CallHierarchyItem list"
  q_IncomingCalls :: "Project \<Rightarrow> CallHierarchyItem \<Rightarrow> go_error + CallHierarchyCall list"
  q_OutgoingCalls :: "Project \<Rightarrow> CallHierarchyItem \<Rightarrow> go_error + CallHierarchyCall list"
  q_IndexState :: "Project \<Rightarrow> go_error + string \<times> string"

text \<open>A nil loader or nil queries are \<open>None\<close>.\<close>

record mcp_server =
  sv_projects :: "(go_error + Registry) option"
  sv_queries :: "queries option"
  sv_open :: "string \<Rightarrow> go_error + source_file"
  sv_limits :: Limits
  sv_limitErr :: "go_error option"
  sv_paths :: safe_env
  sv_stat :: "string \<Rightarrow> file_info option"

definition New :: "(go_error + Registry) option \<Rightarrow> queries option \<Rightarrow> (string \<Rightarrow> go_error + source_file) \<Rightarrow> Limits
    \<Rightarrow> safe_env \<Rightarrow> (string \<Rightarrow> file_info option) \<Rightarrow> mcp_server" where
  "New projects qs opener limits env stat =
     \<lparr>sv_projects = projects, sv_queries = qs, sv_open = opener, sv_limits = normalized limits,
      sv_limitErr = (if limits_valid limits then None else Some (sentinel_error ErrInvalidLimits)),
      sv_paths = env, sv_stat = stat\<rparr>"

definition outputLimit :: "mcp_server \<Rightarrow> int" where
  "outputLimit s = MaxResponseBytes (sv_limits s) - protocolEnvelopeBytes"

definition itemLimit :: "mcp_server \<Rightarrow> int \<Rightarrow> int" where
  "itemLimit s requested =
     (if 0 < requested \<and> requested < MaxItems (sv_limits s) then requested else MaxItems (sv_limits s))"

definition find_project :: "mcp_server \<Rightarrow> string \<Rightarrow> (go_error, Project) result" where
  "find_project s key =
     (case sv_limitErr s of
        Some e \<Rightarrow> Inl e
      | None \<Rightarrow>
          if key = '''' then Inl (sentinel_error ErrProjectRequired)
          else case sv_projects s of
              None \<Rightarrow> Inl (plain_error ''project registry is unavailable'')
            | Some (Inl e) \<Rightarrow> Inl e
            | Some (Inr r) \<Rightarrow>
                (case find (\<lambda>p. proj_ID p = key) (Projects r) of
                   Some p \<Rightarrow> Inr p
                 | None \<Rightarrow> Inl \<lparr>ge_is = [ErrProjectNotFound], ge_text = ''project not found: '' @ key\<rparr>))"

definition safeProjectPath :: "mcp_server \<Rightarrow> Project \<Rightarrow> string \<Rightarrow> (go_error, string) result" where
  "safeProjectPath s p path =
     (if path = '''' \<or> MaxPathBytes (sv_limits s) < int (length path) then Inl (sentinel_error ErrLimitExceeded)
      else safePath (sv_paths s) path (project_roots p))"

definition validatePosition :: "mcp_server \<Rightarrow> Project \<Rightarrow> TextPosition \<Rightarrow> (go_error, unit) result" where
  "validatePosition s p v =
     (if tp_Line v < 0 \<or> tp_Character v < 0 then Inl (plain_error ''line and character must be non-negative'')
      else case safeProjectPath s p (tp_Path v) of Inl e \<Rightarrow> Inl e | Inr _ \<Rightarrow> Inr ())"

text \<open>The common start of the operations: the project and the queries.\<close>

definition with_project :: "mcp_server \<Rightarrow> string \<Rightarrow> (Project \<Rightarrow> queries \<Rightarrow> (go_error, 'r) result) \<Rightarrow> (go_error, 'r) result" where
  "with_project s key body =
     (case find_project s key of
        Inl e \<Rightarrow> Inl e
      | Inr p \<Rightarrow>
          (case sv_queries s of
             None \<Rightarrow> Inl (plain_error ''code intelligence is unavailable'')
           | Some q \<Rightarrow> body p q))"

section \<open>Searches\<close>

text \<open>What is done with the symbols clangd found, asked for \<open>n\<close> of them.\<close>

definition symbols_answer :: "mcp_server \<Rightarrow> Project \<Rightarrow> queries \<Rightarrow> string \<Rightarrow> int \<Rightarrow> int \<Rightarrow> Symbol list
    \<Rightarrow> (go_error, SearchSymbolsResult) result" where
  "symbols_answer s p q pathScope m n found =
     (let dropped = (pathScope \<noteq> '''' \<and> n \<le> int (length found));
          scoped = (if pathScope \<noteq> '''' then filterSymbolsByPathScope (sv_paths s) pathScope found else found);
          state = (case q_IndexState q p of Inr (ph, msg) \<Rightarrow> ph | Inl _ \<Rightarrow> '''');
          over = (m < int (length scoped));
          capped = (if over then take (nat m) scoped else scoped)
      in case filterSymbols (sv_paths s) p capped (dropped \<or> over) of
          (kept, tr1) \<Rightarrow>
            (case trimSymbols kept (outputLimit s) tr1 of
               (final, tr2) \<Rightarrow>
                 bounded (outputLimit s) json_SearchSymbolsResult
                   \<lparr>ssr_Items = final, ssr_Truncated = tr2, ssr_IndexState = state\<rparr>))"

text \<open>How many symbols clangd is asked for.\<close>

definition search_size :: "mcp_server \<Rightarrow> string \<Rightarrow> int \<Rightarrow> int" where
  "search_size s scope maxItems = (if scope \<noteq> '''' then MaxItems (sv_limits s) + 1 else itemLimit s maxItems + 1)"

definition SearchSymbols :: "mcp_server \<Rightarrow> string \<Rightarrow> string \<Rightarrow> int \<Rightarrow> string \<Rightarrow> (go_error, SearchSymbolsResult) result" where
  "SearchSymbols s key query maxItems pathPrefix =
     (if MaxQueryBytes (sv_limits s) < int (length query) then Inl (sentinel_error ErrLimitExceeded)
      else with_project s key (\<lambda>p q.
        case (if pathPrefix = '''' then Inr '''' else safeProjectPath s p pathPrefix) of
          Inl e \<Rightarrow> Inl e
        | Inr pathScope \<Rightarrow>
            let m = itemLimit s maxItems; n = search_size s pathScope maxItems
            in case q_Symbols q p query n of
                Inl e \<Rightarrow> Inl e
              | Inr found \<Rightarrow> symbols_answer s p q pathScope m n found))"

definition find_locations :: "mcp_server \<Rightarrow> string \<Rightarrow> string \<Rightarrow> TextPosition \<Rightarrow> int \<Rightarrow> (go_error, LocationsResult) result" where
  "find_locations s kind key pos maxItems =
     with_project s key (\<lambda>p q.
       case validatePosition s p pos of
         Inl e \<Rightarrow> Inl e
       | Inr _ \<Rightarrow>
           let m = itemLimit s maxItems in
           case q_Locations q p kind pos (m + 1) of
             Inl e \<Rightarrow> Inl e
           | Inr found \<Rightarrow>
               let over = (m < int (length found)); capped = (if over then take (nat m) found else found) in
               case filterLocations (sv_paths s) p capped over of
                 (kept, tr1) \<Rightarrow>
                   (case trimLocations kept (outputLimit s) tr1 of
                      (final, tr2) \<Rightarrow> bounded (outputLimit s) json_LocationsResult \<lparr>lr_Items = final, lr_Truncated = tr2\<rparr>))"

definition DocumentSymbols :: "mcp_server \<Rightarrow> string \<Rightarrow> string \<Rightarrow> int \<Rightarrow> (go_error, DocumentSymbolsResult) result" where
  "DocumentSymbols s key path maxItems =
     with_project s key (\<lambda>p q.
       case safeProjectPath s p path of
         Inl e \<Rightarrow> Inl e
       | Inr resolved \<Rightarrow>
           let m = itemLimit s maxItems in
           case q_DocumentSymbols q p resolved (m + 1) of
             Inl e \<Rightarrow> Inl e
           | Inr found \<Rightarrow>
               let flat = flattenSymbols found; over = (m < int (length flat));
                   capped = (if over then take (nat m) flat else flat)
               in case trimDocumentSymbols capped (outputLimit s) over of
                   (final, tr) \<Rightarrow> bounded (outputLimit s) json_DocumentSymbolsResult \<lparr>dsr_Items = final, dsr_Truncated = tr\<rparr>)"

definition Hover :: "mcp_server \<Rightarrow> string \<Rightarrow> TextPosition \<Rightarrow> (go_error, mcp_HoverResult) result" where
  "Hover s key pos =
     with_project s key (\<lambda>p q.
       case validatePosition s p pos of
         Inl e \<Rightarrow> Inl e
       | Inr _ \<Rightarrow>
           (case q_Hover q p pos of
              Inl e \<Rightarrow> Inl e
            | Inr None \<Rightarrow> bounded (outputLimit s) json_mcp_HoverResult \<lparr>mhr_Item = None, mhr_Truncated = False\<rparr>
            | Inr (Some v) \<Rightarrow>
                fitText (outputLimit s) (mk_Value (hv_Contents v)) (hover_build v) json_mcp_HoverResult))"

definition call_direction :: "string \<Rightarrow> bool option option" where
  "call_direction direction =
     (if direction = '''' \<or> direction = ''prepare'' then Some None
      else if direction = ''incoming'' then Some (Some True)
      else if direction = ''outgoing'' then Some (Some False)
      else None)"

definition CallHierarchy :: "mcp_server \<Rightarrow> string \<Rightarrow> TextPosition \<Rightarrow> string \<Rightarrow> int \<Rightarrow> int
    \<Rightarrow> (go_error, CallHierarchyResult) result" where
  "CallHierarchy s key pos direction maxItems maxDepth =
     with_project s key (\<lambda>p q.
       case validatePosition s p pos of
         Inl e \<Rightarrow> Inl e
       | Inr _ \<Rightarrow>
           (case call_direction direction of
              None \<Rightarrow> Inl (plain_error ''direction must be prepare, incoming, or outgoing'')
            | Some incoming \<Rightarrow>
                if maxDepth < 0 \<or> MaxCallDepth (sv_limits s) < maxDepth then Inl (sentinel_error ErrLimitExceeded)
                else case q_PrepareCallHierarchy q p pos of
                    Inl e \<Rightarrow> Inl e
                  | Inr prepared \<Rightarrow>
                      collect_calls (if incoming = Some True then q_IncomingCalls q p else q_OutgoingCalls q p)
                        (sv_paths s) p (itemLimit s maxItems) (outputLimit s) incoming (nat maxDepth) prepared))"

section \<open>Projects\<close>

record ProjectSummary =
  psm_ID :: string
  psm_Name :: string
  psm_EngineVersion :: string
  psm_Ready :: bool

record ListProjectsResult =
  lpr_Items :: "ProjectSummary list"
  lpr_Truncated :: bool

record ProjectStatusResult =
  psr_ID :: string
  psr_Name :: string
  psr_EngineVersion :: string
  psr_Ready :: bool
  psr_LastFingerprint :: string
  psr_IndexState :: string
  psr_IndexMessage :: string

definition json_ProjectSummary :: "ProjectSummary \<Rightarrow> json" where
  "json_ProjectSummary p =
     JObj ([(''id'', JStr (psm_ID p)), (''name'', JStr (psm_Name p))] @ omit_empty ''engine_version'' (psm_EngineVersion p)
           @ [(''ready'', JBool (psm_Ready p))])"

definition json_ListProjectsResult :: "ListProjectsResult \<Rightarrow> json" where
  "json_ListProjectsResult r =
     JObj [(''items'', JArr (map json_ProjectSummary (lpr_Items r))), (''truncated'', JBool (lpr_Truncated r))]"

definition json_ProjectStatusResult :: "ProjectStatusResult \<Rightarrow> json" where
  "json_ProjectStatusResult r =
     JObj ([(''id'', JStr (psr_ID r)), (''name'', JStr (psr_Name r))] @ omit_empty ''engine_version'' (psr_EngineVersion r)
           @ [(''ready'', JBool (psr_Ready r))] @ omit_empty ''last_fingerprint'' (psr_LastFingerprint r)
           @ omit_empty ''index_state'' (psr_IndexState r) @ omit_empty ''index_message'' (psr_IndexMessage r))"

definition summary_of :: "mcp_server \<Rightarrow> Project \<Rightarrow> ProjectSummary" where
  "summary_of s p =
     \<lparr>psm_ID = proj_ID p, psm_Name = proj_Name p, psm_EngineVersion = eng_Version (proj_Engine p),
      psm_Ready = Ready (sv_stat s) p\<rparr>"

fun list_loop :: "mcp_server \<Rightarrow> int \<Rightarrow> ProjectSummary list \<Rightarrow> Project list \<Rightarrow> ProjectSummary list \<times> bool" where
  "list_loop s m out [] = (out, False)"
| "list_loop s m out (p # ps) =
     (if int (length out) = m then (out, True) else list_loop s m (out @ [summary_of s p]) ps)"

definition ListProjects :: "mcp_server \<Rightarrow> int \<Rightarrow> (go_error, ListProjectsResult) result" where
  "ListProjects s maxItems =
     (case sv_limitErr s of
        Some e \<Rightarrow> Inl e
      | None \<Rightarrow>
          (case sv_projects s of
             None \<Rightarrow> Inl (plain_error ''project registry is unavailable'')
           | Some (Inl e) \<Rightarrow> Inl e
           | Some (Inr r) \<Rightarrow>
               (case list_loop s (itemLimit s maxItems) [] (Projects r) of
                  (out, tr) \<Rightarrow> bounded (outputLimit s) json_ListProjectsResult \<lparr>lpr_Items = out, lpr_Truncated = tr\<rparr>)))"

definition ProjectStatus :: "mcp_server \<Rightarrow> string \<Rightarrow> (go_error, ProjectStatusResult) result" where
  "ProjectStatus s key =
     (case find_project s key of
        Inl e \<Rightarrow> Inl e
      | Inr p \<Rightarrow>
          let index = (case sv_queries s of
                  None \<Rightarrow> ('''', '''')
                | Some q \<Rightarrow> (case q_IndexState q p of Inr st \<Rightarrow> st | Inl _ \<Rightarrow> ('''', '''')))
          in bounded (outputLimit s) json_ProjectStatusResult
               \<lparr>psr_ID = proj_ID p, psr_Name = proj_Name p, psr_EngineVersion = eng_Version (proj_Engine p),
                psr_Ready = Ready (sv_stat s) p, psr_LastFingerprint = LastFingerprint (proj_Generation p),
                psr_IndexState = fst index, psr_IndexMessage = snd index\<rparr>)"

definition ReadSymbolSource :: "mcp_server \<Rightarrow> (int \<Rightarrow> go_error option) \<Rightarrow> string \<Rightarrow> string \<Rightarrow> int \<Rightarrow> int \<Rightarrow> int
    \<Rightarrow> (go_error, ReadSymbolSourceResult) result" where
  "ReadSymbolSource s done_at key path start endl maxBytes =
     (case find_project s key of
        Inl e \<Rightarrow> Inl e
      | Inr p \<Rightarrow>
          if path = '''' \<or> MaxPathBytes (sv_limits s) < int (length path) then Inl (sentinel_error ErrLimitExceeded)
          else if start < 1 \<or> endl < start then Inl (plain_error ''invalid line range'')
          else case safePath (sv_paths s) path (project_roots p) of
              Inl e \<Rightarrow> Inl e
            | Inr resolved \<Rightarrow>
                (case sv_open s resolved of
                   Inl e \<Rightarrow> Inl e
                 | Inr f \<Rightarrow>
                     read_source done_at f (outputLimit s) resolved start endl
                       (source_limit (MaxSourceBytes (sv_limits s)) maxBytes)))"

section \<open>Admission and tool results\<close>

text \<open>
  The admission channel holds one token per running call; \<open>admitTool\<close> never waits.
\<close>

definition admitTool :: "mcp_server \<Rightarrow> int \<Rightarrow> (go_error, int) result" where
  "admitTool s running =
     (if running < MaxConcurrentTools (sv_limits s) then Inr (running + 1) else Inl (sentinel_error ErrToolBusy))"

definition visible_sentinels :: "sentinel list" where
  "visible_sentinels =
     [ErrProjectRequired, ErrProjectNotFound, ErrPathForbidden, ErrPathNotFound, ErrPathInvalid, ErrLimitExceeded, ErrToolBusy]"

text \<open>\<^verbatim>\<open>mapError\<close>: the text the client sees.\<close>

definition mapError :: "go_error \<Rightarrow> string" where
  "mapError e =
     (if ErrIndexBuilding \<in> set (ge_is e)
      then ''code intelligence index is still building for this project; retry shortly''
      else if ErrDeadlineExceeded \<in> set (ge_is e) then ''request timed out: '' @ ge_text e
      else if list_ex (\<lambda>x. x \<in> set visible_sentinels) (ge_is e) then ge_text e
      else ''code intelligence request failed'')"

text \<open>
  The SDK's encoding: the size of a successful tool result for a marshalled output, and of an error
  result for its text.
\<close>

record wire_sizes =
  ws_result :: "json \<Rightarrow> int"
  ws_error :: "string \<Rightarrow> int"

definition fits_frame :: "mcp_server \<Rightarrow> int \<Rightarrow> bool" where
  "fits_frame s n \<longleftrightarrow> n + protocolEnvelopeBytes \<le> MaxResponseBytes (sv_limits s)"

function shorten_error :: "mcp_server \<Rightarrow> wire_sizes \<Rightarrow> string \<Rightarrow> string" where
  "shorten_error s w message =
     (if message = '''' then ''error''
      else if fits_frame s (ws_error w message) then message
      else shorten_error s w (butlast message))"
  by pat_completeness auto
termination by (relation "measure (\<lambda>(s, w, message). length message)") auto

declare shorten_error.simps [simp del]

definition compactToolError :: "mcp_server \<Rightarrow> wire_sizes \<Rightarrow> go_error \<Rightarrow> string" where
  "compactToolError s w e = shorten_error s w (mapError e)"

definition toolResult :: "mcp_server \<Rightarrow> wire_sizes \<Rightarrow> ('r \<Rightarrow> json) \<Rightarrow> (go_error, 'r) result \<Rightarrow> (string, json) result" where
  "toolResult s w enc r =
     (case r of
        Inl e \<Rightarrow> Inl (compactToolError s w e)
      | Inr v \<Rightarrow>
          if fits_frame s (ws_result w (enc v)) then Inr (enc v)
          else Inl (compactToolError s w (sentinel_error ErrLimitExceeded)))"

text \<open>One call of a tool while \<open>running\<close> others run; \<open>run\<close> is the operation.\<close>

definition admitted :: "mcp_server \<Rightarrow> wire_sizes \<Rightarrow> int \<Rightarrow> ('r \<Rightarrow> json) \<Rightarrow> (go_error, 'r) result \<Rightarrow> (string, json) result" where
  "admitted s w running enc run =
     (case admitTool s running of
        Inl e \<Rightarrow> Inl (compactToolError s w e)
      | Inr _ \<Rightarrow> toolResult s w enc run)"


section \<open>What the operations guarantee\<close>

lemma bounded_Inr: "bounded m enc v = Inr r \<longleftrightarrow> r = v \<and> fits_limit m (enc v)"
  by (auto simp: bounded_def)

lemma result_Inr: "(case x of Inl e \<Rightarrow> Inl e | Inr v \<Rightarrow> f v) = Inr r \<longleftrightarrow> (\<exists>v. x = Inr v \<and> f v = Inr r)"
  by (cases x) simp_all

lemma with_project_Inr:
  "with_project s key body = Inr r \<longleftrightarrow>
   (\<exists>p q. find_project s key = Inr p \<and> sv_queries s = Some q \<and> body p q = Inr r)"
  by (auto simp: with_project_def split: sum.splits option.splits)

lemma New_limits:
  "0 < MaxItems (sv_limits (New ps qs opener limits env stat))"
  by (simp add: New_def normalized_def positive_or_def)

lemma itemLimit_pos: "0 < MaxItems (sv_limits s) \<Longrightarrow> 0 < itemLimit s n \<and> itemLimit s n \<le> MaxItems (sv_limits s)"
  by (simp add: itemLimit_def)

text \<open>
  What a list answer means: the sent items are allowed candidates, in the order clangd gave them, at
  most \<open>m\<close>, and unless the answer is marked truncated it holds every candidate.
\<close>

definition faithful_answer :: "int \<Rightarrow> ('a \<Rightarrow> bool) \<Rightarrow> 'a list \<Rightarrow> 'a list \<Rightarrow> bool \<Rightarrow> bool" where
  "faithful_answer m ok candidates sent truncated \<longleftrightarrow>
     (\<exists>k. sent = take k (filter ok (take (nat m) candidates))) \<and>
     int (length sent) \<le> m \<and> list_all ok sent \<and> (\<not> truncated \<longrightarrow> sent = candidates)"

lemma faithful_pipeline:
  assumes "0 < m"
    and tr1: "(kept, tr1) = filter_allowed ok (b \<or> m < int (length cands)) (if m < int (length cands) then take (nat m) cands else cands)"
    and tr2: "(final, tr2) = trim_budget cost lim 0 tr1 kept"
  shows "faithful_answer m ok cands final tr2 \<and> (b \<longrightarrow> tr2)"
proof -
  have cap: "(if m < int (length cands) then take (nat m) cands else cands) = take (nat m) cands"
    using assms(1) by auto
  have kept: "kept = filter ok (take (nat m) cands)"
    and t1: "tr1 = ((b \<or> m < int (length cands)) \<or> list_ex (\<lambda>v. \<not> ok v) (take (nat m) cands))"
    using tr1 unfolding cap filter_allowed_eq by simp_all
  obtain n where n0: "n \<le> length kept" "trim_budget cost lim 0 tr1 kept = (take n kept, tr1 \<or> n < length kept)"
    using trim_budget_spec[of kept cost lim 0 tr1] by blast
  then have n: "final = take n kept" "tr2 = (tr1 \<or> n < length kept)"
    using tr2 by simp_all
  have "length final \<le> length kept"
    by (simp add: n)
  also have "\<dots> \<le> length (take (nat m) cands)"
    unfolding kept by (rule length_filter_le)
  finally have len: "length final \<le> nat m"
    by simp
  have ok: "list_all ok final"
    using set_take_subset[of n "filter ok (take (nat m) cands)"] by (auto simp: n kept list_all_iff)
  have full: "final = cands" if "\<not> tr2"
  proof -
    have "\<not> m < int (length cands)" "list_all ok (take (nat m) cands)" "n = length kept"
      using that n n0(1) t1 by (auto simp: list_all_iff list_ex_iff)
    then show ?thesis
      using assms(1) by (simp add: n kept list_all_iff)
  qed
  have "b \<longrightarrow> tr2"
    using n t1 by simp
  then show ?thesis
    using len ok full assms(1) by (auto simp: faithful_answer_def n kept)
qed

definition search_scope :: "mcp_server \<Rightarrow> Project \<Rightarrow> string \<Rightarrow> string \<Rightarrow> bool" where
  "search_scope s p pathPrefix scope \<longleftrightarrow>
     (if pathPrefix = '''' then scope = '''' else safeProjectPath s p pathPrefix = Inr scope)"

lemma search_scope_iff:
  "(if pathPrefix = '''' then Inr '''' else safeProjectPath s p pathPrefix) = Inr scope \<longleftrightarrow> search_scope s p pathPrefix scope"
  by (auto simp: search_scope_def)

lemma SearchSymbols_faithful:
  assumes "0 < MaxItems (sv_limits s)" and "SearchSymbols s key query maxItems pathPrefix = Inr r"
  shows "\<exists>p q scope found. find_project s key = Inr p \<and> sv_queries s = Some q \<and>
      search_scope s p pathPrefix scope \<and> q_Symbols q p query (search_size s scope maxItems) = Inr found \<and>
      faithful_answer (itemLimit s maxItems)
        (\<lambda>v. loc_URI (sym_Location v) = '''' \<or> allowed (sv_paths s) p (loc_URI (sym_Location v)))
        (if scope = '''' then found else filterSymbolsByPathScope (sv_paths s) scope found)
        (ssr_Items r) (ssr_Truncated r) \<and>
      (scope \<noteq> '''' \<and> search_size s scope maxItems \<le> int (length found) \<longrightarrow> ssr_Truncated r) \<and>
      fits_limit (outputLimit s) (json_SearchSymbolsResult r)"
proof -
  obtain p q scope found where pq: "find_project s key = Inr p" "sv_queries s = Some q"
      "search_scope s p pathPrefix scope" "q_Symbols q p query (search_size s scope maxItems) = Inr found"
    and r: "symbols_answer s p q scope (itemLimit s maxItems) (search_size s scope maxItems) found = Inr r"
    using assms(2)
    unfolding SearchSymbols_def Let_def
    by (cases "MaxQueryBytes (sv_limits s) < int (length query)") (auto simp: with_project_Inr result_Inr search_scope_iff)
  define scoped where "scoped = (if scope = '''' then found else filterSymbolsByPathScope (sv_paths s) scope found)"
  define m where "m = itemLimit s maxItems"
  define ok where "ok = (\<lambda>v :: Symbol. loc_URI (sym_Location v) = '''' \<or> allowed (sv_paths s) p (loc_URI (sym_Location v)))"
  define dropped where "dropped = (scope \<noteq> '''' \<and> search_size s scope maxItems \<le> int (length found))"
  obtain kept tr1 where f: "(kept, tr1) = filter_allowed ok (dropped \<or> m < int (length scoped))
      (if m < int (length scoped) then take (nat m) scoped else scoped)"
    by (metis surj_pair)
  obtain final tr2 where t: "(final, tr2) = trim_budget symbol_cost (outputLimit s) 0 tr1 kept"
    by (metis surj_pair)
  have "faithful_answer m ok scoped final tr2 \<and> (dropped \<longrightarrow> tr2)"
    using faithful_pipeline[OF _ f t] itemLimit_pos[OF assms(1)] by (simp add: m_def)
  moreover have "ssr_Items r = final \<and> ssr_Truncated r = tr2 \<and> fits_limit (outputLimit s) (json_SearchSymbolsResult r)"
    using r f[symmetric] t[symmetric]
    by (auto simp: symbols_answer_def Let_def filterSymbols_def trimSymbols_def bounded_Inr scoped_def m_def ok_def dropped_def
        split: if_split_asm)
  ultimately show ?thesis
    using pq unfolding scoped_def m_def ok_def dropped_def by blast
qed

lemma find_locations_faithful:
  assumes "0 < MaxItems (sv_limits s)" and "find_locations s kind key pos maxItems = Inr r"
  shows "\<exists>p q found. find_project s key = Inr p \<and> sv_queries s = Some q \<and> validatePosition s p pos = Inr () \<and>
      q_Locations q p kind pos (itemLimit s maxItems + 1) = Inr found \<and>
      faithful_answer (itemLimit s maxItems) (\<lambda>v. allowed (sv_paths s) p (loc_URI v)) found (lr_Items r) (lr_Truncated r) \<and>
      fits_limit (outputLimit s) (json_LocationsResult r)"
proof -
  define m where "m = itemLimit s maxItems"
  obtain p q found where pq: "find_project s key = Inr p" "sv_queries s = Some q" "validatePosition s p pos = Inr ()"
      "q_Locations q p kind pos (m + 1) = Inr found"
    and r: "(case filterLocations (sv_paths s) p (if m < int (length found) then take (nat m) found else found)
                (m < int (length found)) of
                 (kept, tr1) \<Rightarrow>
                   (case trimLocations kept (outputLimit s) tr1 of
                      (final, tr2) \<Rightarrow> bounded (outputLimit s) json_LocationsResult \<lparr>lr_Items = final, lr_Truncated = tr2\<rparr>)) = Inr r"
    using assms(2) unfolding m_def by (auto simp: find_locations_def with_project_Inr result_Inr Let_def)
  obtain kept tr1 where f: "(kept, tr1) = filter_allowed (\<lambda>v :: Location. allowed (sv_paths s) p (loc_URI v)) (False \<or> m < int (length found))
      (if m < int (length found) then take (nat m) found else found)"
    by (metis surj_pair)
  obtain final tr2 where t: "(final, tr2) = trim_budget location_cost (outputLimit s) 0 tr1 kept"
    by (metis surj_pair)
  have "faithful_answer m (\<lambda>v. allowed (sv_paths s) p (loc_URI v)) found final tr2"
    using faithful_pipeline[OF _ f t] itemLimit_pos[OF assms(1)] by (simp add: m_def)
  moreover have "lr_Items r = final \<and> lr_Truncated r = tr2 \<and> fits_limit (outputLimit s) (json_LocationsResult r)"
    using r f[symmetric] t[symmetric] by (auto simp: filterLocations_def trimLocations_def bounded_Inr)
  ultimately show ?thesis
    using pq unfolding m_def by blast
qed

lemma safeProjectPath_inside:
  assumes "sound_symlinks (sv_paths s)" and "\<forall>r \<in> set (project_roots p). r \<noteq> '''' \<longrightarrow> is_abs r"
    and "safeProjectPath s p path = Inr resolved"
  shows "resolves_under (sv_paths s) path (project_roots p) resolved \<and> int (length path) \<le> MaxPathBytes (sv_limits s)"
  using assms safePath_iff[OF assms(1,2)] by (auto simp: safeProjectPath_def split: if_split_asm)

definition sample_queries :: "Symbol list \<Rightarrow> Location list \<Rightarrow> queries" where
  "sample_queries syms locs =
     \<lparr>q_Symbols = (\<lambda>_ _ _. Inr syms), q_Locations = (\<lambda>_ _ _ _. Inr locs), q_DocumentSymbols = (\<lambda>_ _ _. Inr []),
      q_Hover = (\<lambda>_ _. Inr None), q_PrepareCallHierarchy = (\<lambda>_ _. Inr []), q_IncomingCalls = (\<lambda>_ _. Inr []),
      q_OutgoingCalls = (\<lambda>_ _. Inr []), q_IndexState = (\<lambda>_. Inr (''ready'', ''''))\<rparr>"

definition sample_limits :: Limits where
  "sample_limits =
     \<lparr>MaxItems = 0, MaxQueryBytes = 0, MaxPathBytes = 0, MaxSourceBytes = 0, MaxResponseBytes = 0, MaxRequestBytes = 0,
      MaxRequestIDBytes = 0, MaxCallDepth = 0, MaxConcurrentTools = 0, Timeout = 0\<rparr>"

definition sample_server :: mcp_server where
  "sample_server =
     New (Some (Inr \<lparr>reg_Version = 1, Projects = [sample_project_p]\<rparr>))
       (Some (sample_queries [sample_symbol ''''] [\<lparr>loc_URI = ''file:/p/b'', loc_Range = zero_Range\<rparr>]))
       (\<lambda>_. Inr sample_source) sample_limits sample_safe_env (\<lambda>_. None)"

text \<open>
  C19. A successful symbol search names a registered project and a scope inside it, and its answer is
  faithful to what clangd found for it: every symbol sent was found, belongs to the scope and lies
  inside the project or its engine (or has no location), at most the requested number, within the
  response limit; and unless the answer says it is truncated nothing found in scope is missing, with
  fewer symbols found than were asked for.
\<close>

theorem search_answers_are_faithful:
  assumes "s = New ps qs opener limits env stat" and "SearchSymbols s key query maxItems pathPrefix = Inr r"
  shows "\<exists>p q scope found. find_project s key = Inr p \<and> sv_queries s = Some q \<and>
      search_scope s p pathPrefix scope \<and> q_Symbols q p query (search_size s scope maxItems) = Inr found \<and>
      faithful_answer (itemLimit s maxItems)
        (\<lambda>v. loc_URI (sym_Location v) = '''' \<or> allowed (sv_paths s) p (loc_URI (sym_Location v)))
        (if scope = '''' then found else filterSymbolsByPathScope (sv_paths s) scope found)
        (ssr_Items r) (ssr_Truncated r) \<and>
      (scope \<noteq> '''' \<and> search_size s scope maxItems \<le> int (length found) \<longrightarrow> ssr_Truncated r) \<and>
      fits_limit (outputLimit s) (json_SearchSymbolsResult r)"
  by (rule SearchSymbols_faithful[OF _ assms(2)]) (simp add: assms(1) New_limits)

lemma sample_search:
  "SearchSymbols sample_server ''p'' ''f'' 5 '''' =
   Inr \<lparr>ssr_Items = [sample_symbol ''''], ssr_Truncated = False, ssr_IndexState = ''ready''\<rparr>"
  by code_simp

theorem search_answers_are_faithful_witness:
  "\<exists>p q scope found. find_project sample_server ''p'' = Inr p \<and> sv_queries sample_server = Some q \<and>
      search_scope sample_server p '''' scope \<and> q_Symbols q p ''f'' (search_size sample_server scope 5) = Inr found \<and>
      faithful_answer (itemLimit sample_server 5)
        (\<lambda>v. loc_URI (sym_Location v) = '''' \<or> allowed (sv_paths sample_server) p (loc_URI (sym_Location v)))
        (if scope = '''' then found else filterSymbolsByPathScope (sv_paths sample_server) scope found)
        [sample_symbol ''''] False"
  using search_answers_are_faithful[OF sample_server_def sample_search] unfolding SearchSymbolsResult.simps by blast

text \<open>
  C20. A successful definition, reference or implementation query was asked at a valid position inside
  the project, and every location it returns lies inside the project or its engine, in clangd's order,
  within the item and response limits, and nothing is missing unless the answer says so.
\<close>

theorem location_answers_are_faithful:
  assumes "s = New ps qs opener limits env stat" and "find_locations s kind key pos maxItems = Inr r"
  shows "\<exists>p q found. find_project s key = Inr p \<and> sv_queries s = Some q \<and> validatePosition s p pos = Inr () \<and>
      q_Locations q p kind pos (itemLimit s maxItems + 1) = Inr found \<and>
      faithful_answer (itemLimit s maxItems) (\<lambda>v. allowed (sv_paths s) p (loc_URI v)) found (lr_Items r) (lr_Truncated r) \<and>
      fits_limit (outputLimit s) (json_LocationsResult r)"
  by (rule find_locations_faithful[OF _ assms(2)]) (simp add: assms(1) New_limits)

lemma sample_find:
  "find_locations sample_server ''textDocument/definition'' ''p'' \<lparr>tp_Path = ''/p/a'', tp_Line = 0, tp_Character = 0\<rparr> 5 =
   Inr \<lparr>lr_Items = [\<lparr>loc_URI = ''file:/p/b'', loc_Range = zero_Range\<rparr>], lr_Truncated = False\<rparr>"
  by code_simp

theorem location_answers_are_faithful_witness:
  "\<exists>p. find_project sample_server ''p'' = Inr p \<and> allowed (sv_paths sample_server) p ''file:/p/b''"
  using location_answers_are_faithful[OF sample_server_def sample_find] by (auto simp: faithful_answer_def)

section \<open>Sources, projects and errors\<close>

lemma fitSourceResult_Inr:
  assumes "fitSourceResult limit path start e source truncated = Inr r"
  shows "rsr_Path r = path \<and> rsr_StartLine r = start \<and> rsr_EndLine r = e \<and> fits_limit limit (json_ReadSymbolSourceResult r)"
  using source_text.fitText_longest[of limit source path start e truncated] assms
  by (auto simp: fitSourceResult_def source_build_def)

lemma source_loop_end:
  "start - 1 \<le> e \<and> e \<le> max (start - 1) endl \<Longrightarrow>
   (case source_loop done_at start endl limit line e b parts of
      EarlyReturn e' _ \<Rightarrow> start - 1 \<le> e' \<and> e' \<le> max (start - 1) endl
    | LoopLeft _ _ e' _ _ \<Rightarrow> start - 1 \<le> e' \<and> e' \<le> max (start - 1) endl
    | SourceCancelled _ \<Rightarrow> True)"
  by (induction done_at start endl limit line e b parts rule: source_loop.induct) (auto simp: Let_def)

lemma read_source_range:
  assumes "read_source done_at f out path start endl limit = Inr r" and "start \<le> endl"
  shows "rsr_Path r = path \<and> rsr_StartLine r = start \<and> start - 1 \<le> rsr_EndLine r \<and> rsr_EndLine r \<le> endl \<and>
    fits_limit out (json_ReadSymbolSourceResult r)"
  using assms source_loop_end[of start "start - 1" endl done_at limit 0 "''''" "fst (scan_lines (src_bytes f))"]
  by (auto simp: read_source_def dest!: fitSourceResult_Inr split: prod.splits source_end.splits if_split_asm)

text \<open>
  C21. A source excerpt only comes from a file that, with its symbolic links resolved, lies under the
  project's or the engine's directory; it is labelled with that file, starts at the requested line,
  does not go past the last one, and fits the response limit.
\<close>

theorem source_excerpts_stay_inside:
  assumes "ReadSymbolSource s done_at key path start endl maxBytes = Inr r"
    and "sound_symlinks (sv_paths s)" and "\<forall>p. find_project s key = Inr p \<longrightarrow> (\<forall>x \<in> set (project_roots p). x \<noteq> '''' \<longrightarrow> is_abs x)"
  shows "\<exists>p f. find_project s key = Inr p \<and> resolves_under (sv_paths s) path (project_roots p) (rsr_Path r) \<and>
      sv_open s (rsr_Path r) = Inr f \<and> rsr_StartLine r = start \<and> 1 \<le> start \<and>
      start - 1 \<le> rsr_EndLine r \<and> rsr_EndLine r \<le> endl \<and>
      fits_limit (outputLimit s) (json_ReadSymbolSourceResult r)"
proof -
  obtain p resolved f where p: "find_project s key = Inr p" and "1 \<le> start" and le: "start \<le> endl"
      and safe: "safePath (sv_paths s) path (project_roots p) = Inr resolved" and "sv_open s resolved = Inr f"
      and read: "read_source done_at f (outputLimit s) resolved start endl (source_limit (MaxSourceBytes (sv_limits s)) maxBytes) = Inr r"
    using assms(1) by (auto simp: ReadSymbolSource_def result_Inr split: if_split_asm)
  have "\<forall>x \<in> set (project_roots p). x \<noteq> '''' \<longrightarrow> is_abs x"
    using assms(3) p by blast
  then have "resolves_under (sv_paths s) path (project_roots p) resolved"
    using safePath_iff[OF assms(2)] safe by blast
  then show ?thesis
    using read_source_range[OF read le] p \<open>1 \<le> start\<close> \<open>sv_open s resolved = Inr f\<close> by metis
qed

lemma sample_read:
  "ReadSymbolSource sample_server (\<lambda>_. None) ''p'' ''/p/a'' 2 2 0 =
   Inr \<lparr>rsr_Path = ''/p/a'', rsr_StartLine = 2, rsr_EndLine = 2, rsr_Text = ''two'', rsr_Truncated = False\<rparr>"
  by code_simp

lemma sample_find_project: "find_project sample_server ''p'' = Inr sample_project_p"
  by code_simp

theorem source_excerpts_stay_inside_witness:
  "\<exists>p. find_project sample_server ''p'' = Inr p \<and> resolves_under (sv_paths sample_server) ''/p/a'' (project_roots p) ''/p/a''"
proof -
  have "sound_symlinks (sv_paths sample_server)"
    using sample_safe_env_sound by (simp add: sample_server_def New_def)
  moreover have "\<forall>x \<in> set (project_roots sample_project_p). x \<noteq> '''' \<longrightarrow> is_abs x"
    by code_simp
  then have "\<forall>p. find_project sample_server ''p'' = Inr p \<longrightarrow> (\<forall>x \<in> set (project_roots p). x \<noteq> '''' \<longrightarrow> is_abs x)"
    unfolding sample_find_project by blast
  ultimately show ?thesis
    using source_excerpts_stay_inside[OF sample_read] by auto
qed

lemma list_loop_take:
  "int (length out) \<le> m \<Longrightarrow>
   list_loop s m out ps = (out @ take (nat (m - int (length out))) (map (summary_of s) ps), m - int (length out) < int (length ps))"
proof (induction s m out ps rule: list_loop.induct)
  case (2 s m out p ps)
  show ?case
  proof (cases "int (length out) = m")
    case False
    then have "nat (m - int (length out)) = Suc (nat (m - int (length (out @ [summary_of s p]))))"
      using 2(2) by simp
    then show ?thesis
      using 2 False by simp linarith
  qed simp
qed simp

text \<open>Listing the projects is the first \<open>itemLimit\<close> summaries of the registry, marked truncated exactly when some are left out.\<close>

theorem ListProjects_is_take:
  assumes "s = New (Some (Inr reg)) qs opener limits env stat" and "limits_valid limits"
  shows "ListProjects s maxItems =
    bounded (outputLimit s) json_ListProjectsResult
      \<lparr>lpr_Items = take (nat (itemLimit s maxItems)) (map (summary_of s) (Projects reg)),
       lpr_Truncated = (itemLimit s maxItems < int (length (Projects reg)))\<rparr>"
proof -
  have "0 < itemLimit s maxItems"
    using itemLimit_pos[of s maxItems] New_limits by (simp add: assms(1))
  then show ?thesis
    using list_loop_take[of "[]" "itemLimit s maxItems" s "Projects reg"]
    by (simp add: ListProjects_def assms New_def)
qed

theorem ListProjects_is_take_witness:
  "ListProjects sample_server 5 = bounded (outputLimit sample_server) json_ListProjectsResult
      \<lparr>lpr_Items = [summary_of sample_server sample_project_p], lpr_Truncated = False\<rparr>"
proof -
  have "limits_valid sample_limits" "itemLimit sample_server 5 = 5" by code_simp+
  then show ?thesis
    using ListProjects_is_take[OF sample_server_def, of 5] by simp
qed

definition error_fits :: "mcp_server \<Rightarrow> wire_sizes \<Rightarrow> string \<Rightarrow> bool" where
  "error_fits s w t \<longleftrightarrow> t \<noteq> '''' \<and> fits_frame s (ws_error w t)"

text \<open>\<open>x\<close> is the longest prefix of \<open>t\<close> that fits the frame, or "error" when none does.\<close>

definition longest_fitting :: "mcp_server \<Rightarrow> wire_sizes \<Rightarrow> string \<Rightarrow> string \<Rightarrow> bool" where
  "longest_fitting s w t x \<longleftrightarrow>
     (error_fits s w x \<and> prefix x t \<and> (\<forall>u. prefix u t \<and> length x < length u \<longrightarrow> \<not> error_fits s w u)) \<or>
     (x = ''error'' \<and> (\<forall>u. prefix u t \<longrightarrow> \<not> error_fits s w u))"

lemma shorten_error_longest: "longest_fitting s w t (shorten_error s w t)"
proof (induction t rule: rev_induct)
  case Nil
  then show ?case by (simp add: shorten_error.simps longest_fitting_def error_fits_def)
next
  case (snoc c t)
  show ?case
  proof (cases "fits_frame s (ws_error w (t @ [c]))")
    case True
    have "\<not> length (t @ [c]) < length u" if "prefix u (t @ [c])" for u
      using prefix_length_le[OF that] by simp
    then show ?thesis
      using True by (auto simp: shorten_error.simps[of s w "t @ [c]"] longest_fitting_def error_fits_def)
  next
    case False
    then have "shorten_error s w (t @ [c]) = shorten_error s w t" "\<not> error_fits s w (t @ [c])"
      by (simp_all add: shorten_error.simps[of s w "t @ [c]"] error_fits_def)
    then show ?thesis
      using snoc unfolding longest_fitting_def prefix_snoc by metis
  qed
qed

lemma shorten_error_nonempty: "shorten_error s w t \<noteq> ''''"
  using shorten_error_longest[of s w t] by (auto simp: longest_fitting_def error_fits_def)

lemma mapError_hides:
  "list_all (\<lambda>x. x = ErrInvalidLimits) (ge_is e) \<Longrightarrow> mapError e = ''code intelligence request failed''"
  by (auto simp: mapError_def visible_sentinels_def list_all_iff list_ex_iff)

text \<open>
  C22. Every tool call is answered.  A refused or failed call gets a nonempty text: the longest prefix
  of the message that fits the response frame, or just "error" when no prefix fits; and the message
  of an error that wraps none of the public ones is the fixed text that says nothing about it.  An
  answer with a result fits the frame.
\<close>

theorem tool_answers_are_bounded:
  "case admitted s w running enc run of
     Inr j \<Rightarrow> (\<exists>v. run = Inr v \<and> j = enc v) \<and> fits_frame s (ws_result w j) \<and> running < MaxConcurrentTools (sv_limits s)
   | Inl t \<Rightarrow> t \<noteq> '''' \<and>
       (\<exists>e. (e = sentinel_error ErrToolBusy \<or> e = sentinel_error ErrLimitExceeded \<or> run = Inl e) \<and>
          longest_fitting s w (mapError e) t \<and>
          (list_all (\<lambda>x. x = ErrInvalidLimits) (ge_is e) \<longrightarrow> mapError e = ''code intelligence request failed''))"
proof -
  have "compactToolError s w e \<noteq> '''' \<and> longest_fitting s w (mapError e) (compactToolError s w e)" for e
    unfolding compactToolError_def using shorten_error_longest shorten_error_nonempty by blast
  then show ?thesis
    using mapError_hides
    by (auto simp: admitted_def admitTool_def toolResult_def split: sum.splits if_split_asm)
qed

definition sample_sizes :: wire_sizes where
  "sample_sizes = \<lparr>ws_result = (\<lambda>_. 0), ws_error = (\<lambda>t. int (length t))\<rparr>"

theorem tool_answers_are_bounded_witness:
  "\<exists>e. longest_fitting sample_server sample_sizes (mapError e) ''code intelligence request failed'' \<and>
     (e = sentinel_error ErrToolBusy \<or> e = sentinel_error ErrLimitExceeded \<or> e = plain_error ''secret'')"
proof -
  have "admitted sample_server sample_sizes 0 json_LocationsResult (Inl (plain_error ''secret'')) =
      Inl ''code intelligence request failed''"
    by code_simp
  then show ?thesis
    using tool_answers_are_bounded[where s = sample_server and w = sample_sizes and running = 0 and enc = json_LocationsResult
        and run = "Inl (plain_error ''secret'')"]
    by auto
qed

end
