(* ===== verification/McpTools.thy ===== *)
theory McpTools
  imports McpServer
begin

text \<open>
  The tools the MCP server registers (\<^verbatim>\<open>MCPServer\<close> and \<^verbatim>\<open>addLocations\<close> of \<^verbatim>\<open>internal/mcpserver/tools.go\<close>): which operation
  answers to which name, each behind the admission.  The SDK that decodes the arguments and calls the
  handlers is not part of the program.
\<close>

section \<open>The arguments\<close>

text \<open>The fields of all input types; one that a tool does not declare is ignored by it.\<close>

record tool_arguments =
  ta_project_id :: string
  ta_query :: string
  ta_path_prefix :: string
  ta_path :: string
  ta_position :: TextPosition
  ta_direction :: string
  ta_max_items :: int
  ta_max_depth :: int
  ta_start_line :: int
  ta_end_line :: int
  ta_max_bytes :: int

definition location_tools :: "(string \<times> string) list" where
  "location_tools =
     [(''find_definition'', ''definition''), (''find_references'', ''references''), (''find_implementations'', ''implementations'')]"

section \<open>The registration\<close>

text \<open>
  A call with the number of running tools and, for the reading of a source, the context; \<open>None\<close> for a
  name that is not registered.
\<close>

definition call_tool :: "mcp_server \<Rightarrow> wire_sizes \<Rightarrow> (int \<Rightarrow> go_error option) \<Rightarrow> int \<Rightarrow> string \<Rightarrow> tool_arguments \<Rightarrow> (string, json) result option" where
  "call_tool s w context n name a =
     (let key = ta_project_id a in
      if name = ''list_projects'' then Some (admitted s w n json_ListProjectsResult (ListProjects s (ta_max_items a)))
      else if name = ''project_status'' then Some (admitted s w n json_ProjectStatusResult (ProjectStatus s key))
      else if name = ''search_symbols'' then
        Some (admitted s w n json_SearchSymbolsResult (SearchSymbols s key (ta_query a) (ta_max_items a) (ta_path_prefix a)))
      else if name = ''document_symbols'' then
        Some (admitted s w n json_DocumentSymbolsResult (DocumentSymbols s key (ta_path a) (ta_max_items a)))
      else if name = ''hover'' then Some (admitted s w n json_mcp_HoverResult (Hover s key (ta_position a)))
      else if name = ''call_hierarchy'' then
        Some (admitted s w n json_CallHierarchyResult
          (CallHierarchy s key (ta_position a) (ta_direction a) (ta_max_items a) (ta_max_depth a)))
      else if name = ''read_symbol_source'' then
        Some (admitted s w n json_ReadSymbolSourceResult
          (ReadSymbolSource s context key (ta_path a) (ta_start_line a) (ta_end_line a) (ta_max_bytes a)))
      else map_option (\<lambda>kind. admitted s w n json_LocationsResult (find_locations s kind key (ta_position a) (ta_max_items a)))
        (map_of location_tools name))"

lemma admitted_answer:
  "case admitted s w n enc run of Inr j \<Rightarrow> fits_frame s (ws_result w j) \<and> n < MaxConcurrentTools (sv_limits s) | Inl t \<Rightarrow> t \<noteq> ''''"
  using shorten_error_nonempty
  by (auto simp: admitted_def admitTool_def toolResult_def compactToolError_def split: sum.splits if_splits)

text \<open>
  The two lists of tools in the code agree: the names the server registers are exactly those whose
  arguments the reader of standard input checks, so no registered tool is called with unchecked
  arguments for lack of an entry; and whatever tool is called, an answer fits its frame and was admitted
  below the limit, and a refusal has a text.
\<close>

theorem registered_tools_are_checked:
  "(call_tool s w context n name a = None \<longleftrightarrow> tool_fields name = None) \<and>
   (case call_tool s w context n name a of
      None \<Rightarrow> True
    | Some (Inr j) \<Rightarrow> fits_frame s (ws_result w j) \<and> n < MaxConcurrentTools (sv_limits s)
    | Some (Inl t) \<Rightarrow> t \<noteq> '''')"
proof
  show "call_tool s w context n name a = None \<longleftrightarrow> tool_fields name = None"
    by (simp add: call_tool_def tool_fields_def location_tools_def Let_def)
  show "case call_tool s w context n name a of
      None \<Rightarrow> True
    | Some (Inr j) \<Rightarrow> fits_frame s (ws_result w j) \<and> n < MaxConcurrentTools (sv_limits s)
    | Some (Inl t) \<Rightarrow> t \<noteq> ''''"
    by (cases "map_of location_tools name") (simp_all add: call_tool_def Let_def admitted_answer)
qed

end
