(* ===== verification/LspRequests.thy ===== *)
theory LspRequests
  imports McpPaths
begin

text \<open>
  The typed requests of the language-server client (\<^verbatim>\<open>internal/lsp/client.go\<close>): the parameters they
  send, the decoding of what clangd answers, and the limit put on it.  Opening a document and the
  exchange of one request with its response are arguments: a response is an error or the JSON value of
  its \<^verbatim>\<open>result\<close> member, \<open>None\<close> when it has none.
\<close>

section \<open>Decoders\<close>

definition zero_Symbol :: Symbol where
  "zero_Symbol = \<lparr>sym_Name = '''', sym_Kind = 0, sym_Location = zero_Location, sym_ContainerName = ''''\<rparr>"

definition Symbol_fields :: "Symbol field_decoders" where
  "Symbol_fields =
     [(''name'', \<lambda>v r. map_option (\<lambda>s. r\<lparr>sym_Name := s\<rparr>) (dec_str v (sym_Name r))),
      (''kind'', \<lambda>v r. map_option (\<lambda>i. r\<lparr>sym_Kind := i\<rparr>) (dec_int v (sym_Kind r))),
      (''location'', \<lambda>v r. map_option (\<lambda>l. r\<lparr>sym_Location := l\<rparr>) (dec_struct Location_fields v (sym_Location r))),
      (''containerName'', \<lambda>v r. map_option (\<lambda>s. r\<lparr>sym_ContainerName := s\<rparr>) (dec_str v (sym_ContainerName r)))]"

definition dec_symbols :: "json \<Rightarrow> Symbol list option" where
  "dec_symbols j = dec_list (\<lambda>v. dec_struct Symbol_fields v zero_Symbol) j"

definition zero_CallHierarchyItem :: CallHierarchyItem where
  "zero_CallHierarchyItem = \<lparr>ch_Name = '''', ch_Kind = 0, ch_URI = '''', ch_Range = zero_Range, ch_SelectionRange = zero_Range\<rparr>"

definition CallHierarchyItem_fields :: "CallHierarchyItem field_decoders" where
  "CallHierarchyItem_fields =
     [(''name'', \<lambda>v r. map_option (\<lambda>s. r\<lparr>ch_Name := s\<rparr>) (dec_str v (ch_Name r))),
      (''kind'', \<lambda>v r. map_option (\<lambda>i. r\<lparr>ch_Kind := i\<rparr>) (dec_int v (ch_Kind r))),
      (''uri'', \<lambda>v r. map_option (\<lambda>s. r\<lparr>ch_URI := s\<rparr>) (dec_str v (ch_URI r))),
      (''range'', \<lambda>v r. map_option (\<lambda>x. r\<lparr>ch_Range := x\<rparr>) (dec_struct Range_fields v (ch_Range r))),
      (''selectionRange'', \<lambda>v r. map_option (\<lambda>x. r\<lparr>ch_SelectionRange := x\<rparr>) (dec_struct Range_fields v (ch_SelectionRange r)))]"

definition dec_items :: "json \<Rightarrow> CallHierarchyItem list option" where
  "dec_items j = dec_list (\<lambda>v. dec_struct CallHierarchyItem_fields v zero_CallHierarchyItem) j"

text \<open>A pointer field: null makes it nil, anything else decodes into what it points to.\<close>

definition dec_pointer :: "(json \<Rightarrow> 'a \<Rightarrow> 'a option) \<Rightarrow> 'a \<Rightarrow> json \<Rightarrow> 'a option \<Rightarrow> 'a option option" where
  "dec_pointer f zero j old =
     (if j = JNull then Some None
      else map_option Some (f j (case old of None \<Rightarrow> zero | Some v \<Rightarrow> v)))"

definition CallHierarchyCall_fields :: "CallHierarchyCall field_decoders" where
  "CallHierarchyCall_fields =
     [(''from'', \<lambda>v r. map_option (\<lambda>x. r\<lparr>call_From := x\<rparr>)
         (dec_pointer (dec_struct CallHierarchyItem_fields) zero_CallHierarchyItem v (call_From r))),
      (''to'', \<lambda>v r. map_option (\<lambda>x. r\<lparr>call_To := x\<rparr>)
         (dec_pointer (dec_struct CallHierarchyItem_fields) zero_CallHierarchyItem v (call_To r))),
      (''fromRanges'', \<lambda>v r. map_option (\<lambda>x. r\<lparr>call_FromRanges := x\<rparr>)
         (dec_list (\<lambda>j. dec_struct Range_fields j zero_Range) v))]"

definition dec_calls :: "json \<Rightarrow> CallHierarchyCall list option" where
  "dec_calls j = dec_list (\<lambda>v. dec_struct CallHierarchyCall_fields v \<lparr>call_From = None, call_To = None, call_FromRanges = []\<rparr>) j"

text \<open>A tree of symbols; the depth of the value is fuel enough for its children.\<close>

definition zero_DocumentSymbol :: DocumentSymbol where
  "zero_DocumentSymbol = DocumentSymbol '''' 0 zero_Range zero_Range []"

definition DocumentSymbol_fields :: "(json \<Rightarrow> DocumentSymbol list option) \<Rightarrow> DocumentSymbol field_decoders" where
  "DocumentSymbol_fields children =
     [(''name'', \<lambda>v r. map_option (\<lambda>s. DocumentSymbol s (ds_Kind r) (ds_Range r) (ds_SelectionRange r) (ds_Children r)) (dec_str v (ds_Name r))),
      (''kind'', \<lambda>v r. map_option (\<lambda>i. DocumentSymbol (ds_Name r) i (ds_Range r) (ds_SelectionRange r) (ds_Children r)) (dec_int v (ds_Kind r))),
      (''range'', \<lambda>v r. map_option (\<lambda>x. DocumentSymbol (ds_Name r) (ds_Kind r) x (ds_SelectionRange r) (ds_Children r))
         (dec_struct Range_fields v (ds_Range r))),
      (''selectionRange'', \<lambda>v r. map_option (\<lambda>x. DocumentSymbol (ds_Name r) (ds_Kind r) (ds_Range r) x (ds_Children r))
         (dec_struct Range_fields v (ds_SelectionRange r))),
      (''children'', \<lambda>v r. map_option (\<lambda>cs. DocumentSymbol (ds_Name r) (ds_Kind r) (ds_Range r) (ds_SelectionRange r) cs) (children v))]"

fun dec_document_symbols :: "nat \<Rightarrow> json \<Rightarrow> DocumentSymbol list option" where
  "dec_document_symbols 0 j = dec_list (\<lambda>v. None) j"
| "dec_document_symbols (Suc depth) j =
     dec_list (\<lambda>v. dec_struct (DocumentSymbol_fields (dec_document_symbols depth)) v zero_DocumentSymbol) j"

text \<open>
  \<^verbatim>\<open>HoverResult.UnmarshalJSON\<close>: markup, a text, or an array encoded again.  The fields are first read
  raw, \<open>None\<close> for contents that are not there.
\<close>

record raw_hover =
  rh_Contents :: "json option"
  rh_Range :: "lsp_Range option"

definition raw_hover_fields :: "raw_hover field_decoders" where
  "raw_hover_fields =
     [(''contents'', \<lambda>v r. Some (r\<lparr>rh_Contents := Some v\<rparr>)),
      (''range'', \<lambda>v r. map_option (\<lambda>x. r\<lparr>rh_Range := x\<rparr>) (dec_pointer (dec_struct Range_fields) zero_Range v (rh_Range r)))]"

definition Markup_fields :: "MarkupContent field_decoders" where
  "Markup_fields =
     [(''kind'', \<lambda>v r. map_option (\<lambda>s. r\<lparr>mk_Kind := s\<rparr>) (dec_str v (mk_Kind r))),
      (''value'', \<lambda>v r. map_option (\<lambda>s. r\<lparr>mk_Value := s\<rparr>) (dec_str v (mk_Value r)))]"

definition dec_contents :: "(json \<Rightarrow> string) \<Rightarrow> json \<Rightarrow> MarkupContent option" where
  "dec_contents remarshal c =
     (case dec_struct Markup_fields c \<lparr>mk_Kind = '''', mk_Value = ''''\<rparr> of
        Some m \<Rightarrow> if mk_Value m \<noteq> '''' then Some m
          else (case dec_str c '''' of
              Some text \<Rightarrow> Some \<lparr>mk_Kind = ''plaintext'', mk_Value = text\<rparr>
            | None \<Rightarrow> None)
      | None \<Rightarrow>
          (case dec_str c '''' of
             Some text \<Rightarrow> Some \<lparr>mk_Kind = ''plaintext'', mk_Value = text\<rparr>
           | None \<Rightarrow> (case c of JArr _ \<Rightarrow> Some \<lparr>mk_Kind = ''plaintext'', mk_Value = remarshal c\<rparr> | _ \<Rightarrow> None)))"

definition dec_hover :: "(json \<Rightarrow> string) \<Rightarrow> json \<Rightarrow> HoverResult option" where
  "dec_hover remarshal j =
     (case dec_struct raw_hover_fields j \<lparr>rh_Contents = None, rh_Range = None\<rparr> of
        None \<Rightarrow> None
      | Some r \<Rightarrow>
          (case rh_Contents r of
             None \<Rightarrow> None
           | Some c \<Rightarrow> map_option (\<lambda>m. \<lparr>hv_Contents = m, hv_Range = rh_Range r\<rparr>) (dec_contents remarshal c)))"

section \<open>Requests\<close>

record TextDocumentPosition =
  tdp_URI :: string
  tdp_Position :: Position

text \<open>A ready client: \<^verbatim>\<open>ensureDocumentOpen\<close>, \<^verbatim>\<open>Call\<close> and \<^verbatim>\<open>IndexPhase\<close> with what they return.\<close>

record lsp_peer =
  lp_open :: "string \<Rightarrow> go_error option"
  lp_call :: "string \<Rightarrow> json \<Rightarrow> (go_error, json option) result"
  lp_remarshal :: "json \<Rightarrow> string"
  lp_phase :: string

definition decoded :: "(json \<Rightarrow> 'a option) \<Rightarrow> (go_error, json option) result \<Rightarrow> (go_error, 'a) result" where
  "decoded f r =
     (case r of
        Inl e \<Rightarrow> Inl e
      | Inr None \<Rightarrow> Inl (plain_error ''unexpected end of JSON input'')
      | Inr (Some j) \<Rightarrow> (case f j of None \<Rightarrow> Inl (plain_error ''json: cannot unmarshal'') | Some v \<Rightarrow> Inr v))"

text \<open>The parameters of a request, with the keys of the code's maps in encoding order.\<close>

definition document_params :: "string \<Rightarrow> json" where
  "document_params uri = JObj [(''textDocument'', JObj [(''uri'', JStr uri)])]"

definition position_params :: "TextDocumentPosition \<Rightarrow> json" where
  "position_params p =
     JObj [(''position'', json_Position (tdp_Position p)), (''textDocument'', JObj [(''uri'', JStr (tdp_URI p))])]"

definition reference_params :: "TextDocumentPosition \<Rightarrow> json" where
  "reference_params p =
     JObj [(''context'', JObj [(''includeDeclaration'', JBool True)]), (''position'', json_Position (tdp_Position p)),
           (''textDocument'', JObj [(''uri'', JStr (tdp_URI p))])]"

definition on_open :: "lsp_peer \<Rightarrow> string \<Rightarrow> (go_error, 'a) result \<Rightarrow> (go_error, 'a) result" where
  "on_open c uri r = (case lp_open c uri of Some e \<Rightarrow> Inl e | None \<Rightarrow> r)"

definition WorkspaceSymbol :: "lsp_peer \<Rightarrow> string \<Rightarrow> (go_error, json option) result" where
  "WorkspaceSymbol c query = lp_call c ''workspace/symbol'' (JObj [(''query'', JStr query)])"

definition WorkspaceSymbols :: "lsp_peer \<Rightarrow> string \<Rightarrow> int \<Rightarrow> (go_error, Symbol list) result" where
  "WorkspaceSymbols c query n = map_sum id (limit_items n) (decoded dec_symbols (WorkspaceSymbol c query))"

definition Definition :: "lsp_peer \<Rightarrow> TextDocumentPosition \<Rightarrow> (go_error, json option) result" where
  "Definition c p = on_open c (tdp_URI p) (lp_call c ''textDocument/definition'' (position_params p))"

definition References :: "lsp_peer \<Rightarrow> TextDocumentPosition \<Rightarrow> (go_error, json option) result" where
  "References c p = on_open c (tdp_URI p) (lp_call c ''textDocument/references'' (reference_params p))"

definition Implementation :: "lsp_peer \<Rightarrow> TextDocumentPosition \<Rightarrow> (go_error, json option) result" where
  "Implementation c p = on_open c (tdp_URI p) (lp_call c ''textDocument/implementation'' (position_params p))"

definition Definitions :: "lsp_peer \<Rightarrow> TextDocumentPosition \<Rightarrow> int \<Rightarrow> (go_error, Location list) result" where
  "Definitions c p n = map_sum id (limit_items n) (decoded decodeLocations (Definition c p))"

definition ReferenceLocations :: "lsp_peer \<Rightarrow> TextDocumentPosition \<Rightarrow> int \<Rightarrow> (go_error, Location list) result" where
  "ReferenceLocations c p n = map_sum id (limit_items n) (decoded decodeLocations (References c p))"

definition Implementations :: "lsp_peer \<Rightarrow> TextDocumentPosition \<Rightarrow> int \<Rightarrow> (go_error, Location list) result" where
  "Implementations c p n = map_sum id (limit_items n) (decoded decodeLocations (Implementation c p))"

definition request_DocumentSymbol :: "lsp_peer \<Rightarrow> string \<Rightarrow> (go_error, json option) result" where
  "request_DocumentSymbol c uri = on_open c uri (lp_call c ''textDocument/documentSymbol'' (document_params uri))"

definition request_Hover :: "lsp_peer \<Rightarrow> TextDocumentPosition \<Rightarrow> (go_error, json option) result" where
  "request_Hover c p = on_open c (tdp_URI p) (lp_call c ''textDocument/hover'' (position_params p))"

definition prepareCallHierarchy :: "lsp_peer \<Rightarrow> TextDocumentPosition \<Rightarrow> (go_error, json option) result" where
  "prepareCallHierarchy c p = on_open c (tdp_URI p) (lp_call c ''textDocument/prepareCallHierarchy'' (position_params p))"

definition request_DocumentSymbols :: "lsp_peer \<Rightarrow> string \<Rightarrow> int \<Rightarrow> (go_error, DocumentSymbol list) result" where
  "request_DocumentSymbols c uri n =
     map_sum id (\<lambda>vs. limitDocumentSymbols vs n)
       (decoded (\<lambda>j. dec_document_symbols (size j) j) (request_DocumentSymbol c uri))"

definition request_HoverResult :: "lsp_peer \<Rightarrow> TextDocumentPosition \<Rightarrow> (go_error, HoverResult) result" where
  "request_HoverResult c p = decoded (dec_hover (lp_remarshal c)) (request_Hover c p)"

definition request_PrepareCallHierarchy :: "lsp_peer \<Rightarrow> TextDocumentPosition \<Rightarrow> (go_error, CallHierarchyItem list) result" where
  "request_PrepareCallHierarchy c p = decoded dec_items (prepareCallHierarchy c p)"

definition request_CallHierarchy :: "lsp_peer \<Rightarrow> TextDocumentPosition \<Rightarrow> int \<Rightarrow> (go_error, CallHierarchyItem list) result" where
  "request_CallHierarchy c p n = map_sum id (limit_items n) (decoded dec_items (prepareCallHierarchy c p))"

definition request_IncomingCalls :: "lsp_peer \<Rightarrow> CallHierarchyItem \<Rightarrow> (go_error, CallHierarchyCall list) result" where
  "request_IncomingCalls c item =
     decoded dec_calls (lp_call c ''callHierarchy/incomingCalls'' (JObj [(''item'', json_CallHierarchyItem item)]))"

definition request_OutgoingCalls :: "lsp_peer \<Rightarrow> CallHierarchyItem \<Rightarrow> (go_error, CallHierarchyCall list) result" where
  "request_OutgoingCalls c item =
     decoded dec_calls (lp_call c ''callHierarchy/outgoingCalls'' (JObj [(''item'', json_CallHierarchyItem item)]))"

section \<open>Typed values\<close>

text \<open>The integers of the records fit Go's \<^verbatim>\<open>int\<close>.\<close>

definition int64 :: "int \<Rightarrow> bool" where
  "int64 i \<longleftrightarrow> min_int64 \<le> i \<and> i \<le> max_int64"

definition position_typed :: "Position \<Rightarrow> bool" where
  "position_typed p \<longleftrightarrow> int64 (pos_Line p) \<and> int64 (pos_Character p)"

definition range_typed :: "lsp_Range \<Rightarrow> bool" where
  "range_typed r \<longleftrightarrow> position_typed (rng_Start r) \<and> position_typed (rng_End r)"

definition location_typed :: "Location \<Rightarrow> bool" where
  "location_typed l \<longleftrightarrow> range_typed (loc_Range l)"

definition symbol_typed :: "Symbol \<Rightarrow> bool" where
  "symbol_typed s \<longleftrightarrow> int64 (sym_Kind s) \<and> location_typed (sym_Location s)"

definition item_typed :: "CallHierarchyItem \<Rightarrow> bool" where
  "item_typed c \<longleftrightarrow> int64 (ch_Kind c) \<and> range_typed (ch_Range c) \<and> range_typed (ch_SelectionRange c)"

fun document_symbol_typed :: "DocumentSymbol \<Rightarrow> bool" where
  "document_symbol_typed (DocumentSymbol n k r sr cs) \<longleftrightarrow>
     int64 k \<and> range_typed r \<and> range_typed sr \<and> list_all document_symbol_typed cs"

text \<open>A predicate every field decoder keeps holds of what a struct decoder returns.\<close>

definition fields_keep :: "('r \<Rightarrow> bool) \<Rightarrow> 'r field_decoders \<Rightarrow> bool" where
  "fields_keep P known \<longleftrightarrow> (\<forall>d \<in> set known. \<forall>v r r'. P r \<longrightarrow> snd d v r = Some r' \<longrightarrow> P r')"

lemma dec_struct_keeps:
  assumes "fields_keep P known" and "P old" and "dec_struct known j old = Some r"
  shows "P r"
proof -
  have step: "pred_option P (dec_field known kv acc)" if "pred_option P acc" for kv acc
  proof (cases "acc = None \<or> find (\<lambda>d. equal_fold (fst d) (fst kv)) known = None")
    case True
    with that show ?thesis by (cases acc) (auto simp: dec_field_def)
  next
    case False
    then obtain x d where x: "acc = Some x" "find (\<lambda>d. equal_fold (fst d) (fst kv)) known = Some d" by auto
    then have "d \<in> set known" by (metis find_Some_iff nth_mem)
    with x that assms(1) show ?thesis
      by (cases "snd d (snd kv) x") (auto simp: dec_field_def fields_keep_def)
  qed
  have "pred_option P (fold (dec_field known) fs acc)" if "pred_option P acc" for fs acc
    using that by (induction fs arbitrary: acc) (auto intro: step)
  then have "pred_option P (fold (dec_field known) fs (Some old))" for fs using assms(2) by simp
  moreover have "j = JNull \<and> r = old \<or> (\<exists>fs. j = JObj fs \<and> fold (dec_field known) fs (Some old) = Some r)"
    using assms(3) by (cases j) (auto simp: dec_struct_def)
  ultimately show ?thesis using assms(2) by (metis option.pred_inject(2))
qed

lemma dec_list_keeps:
  assumes "\<And>v x. f v = Some x \<Longrightarrow> P x" and "dec_list f j = Some xs"
  shows "list_all P xs"
proof -
  have "dec_all f vs = Some ys \<Longrightarrow> list_all P ys" for vs ys
    by (induction vs arbitrary: ys) (auto intro: assms(1) split: option.split_asm)
  with assms(2) show ?thesis by (cases j) (auto simp: dec_list_def)
qed

lemma dec_structs_keep:
  "fields_keep P known \<Longrightarrow> P zero \<Longrightarrow> dec_list (\<lambda>v. dec_struct known v zero) j = Some xs \<Longrightarrow> list_all P xs"
  by (rule dec_list_keeps) (auto intro: dec_struct_keeps)

lemma dec_int_int64: "int64 old \<Longrightarrow> dec_int j old = Some i \<Longrightarrow> int64 i"
  by (auto simp: dec_int_def int64_def split: json.split_asm if_split_asm)

lemma zero_int64 [simp]: "int64 0"
  by (simp add: int64_def min_int64_def max_int64_def)

named_theorems typed_defs
declare position_typed_def [typed_defs] range_typed_def [typed_defs] location_typed_def [typed_defs]
  symbol_typed_def [typed_defs] item_typed_def [typed_defs]

lemma Position_fields_keep: "fields_keep position_typed Position_fields"
  by (auto simp: fields_keep_def Position_fields_def typed_defs intro: dec_int_int64)

lemma Range_fields_keep: "fields_keep range_typed Range_fields"
  by (auto simp: fields_keep_def Range_fields_def range_typed_def intro: dec_struct_keeps[OF Position_fields_keep])

lemma Location_fields_keep: "fields_keep location_typed Location_fields"
  by (auto simp: fields_keep_def Location_fields_def location_typed_def intro: dec_struct_keeps[OF Range_fields_keep])

lemma Symbol_fields_keep: "fields_keep symbol_typed Symbol_fields"
  by (auto simp: fields_keep_def Symbol_fields_def symbol_typed_def intro: dec_int_int64 dec_struct_keeps[OF Location_fields_keep])

lemma zero_typed [simp]:
  "range_typed zero_Range" "location_typed zero_Location" "symbol_typed zero_Symbol"
  "item_typed zero_CallHierarchyItem" "document_symbol_typed zero_DocumentSymbol"
  by (simp_all add: typed_defs zero_Range_def zero_Position_def zero_Location_def zero_Symbol_def
    zero_CallHierarchyItem_def zero_DocumentSymbol_def)

lemma decoded_Inr: "decoded f r = Inr v \<longleftrightarrow> (\<exists>j. r = Inr (Some j) \<and> f j = Some v)"
  by (auto simp: decoded_def split: sum.split option.split)

lemma limit_items_keeps: "list_all P vs \<Longrightarrow> list_all P (limit_items n vs)"
  by (auto simp: limit_items_def list_all_iff dest: in_set_takeD)

lemma limited_Inr: "map_sum id f r = Inr w \<longleftrightarrow> (\<exists>v. r = Inr v \<and> w = f v)"
  by (cases r) auto

section \<open>What is sent is what is read\<close>

lemma fold_dec_None: "fold (dec_field known) fs None = None"
  by (induction fs) (auto simp: dec_field_def)

lemma dec_struct_simps:
  "dec_struct known (JObj []) old = Some old"
  "dec_struct known (JObj ((k, v) # fs)) old =
     (case find (\<lambda>d. equal_fold (fst d) k) known of
        None \<Rightarrow> dec_struct known (JObj fs) old
      | Some d \<Rightarrow> (case snd d v old of None \<Rightarrow> None | Some r \<Rightarrow> dec_struct known (JObj fs) r))"
  by (auto simp: dec_struct_def dec_field_def fold_dec_None split: option.split)

named_theorems wire_simps "field names and values of the decoders, evaluated"
declare dec_struct_simps [wire_simps] equal_fold_def [wire_simps] to_lower_def [wire_simps] lower_char_def [wire_simps]
  is_upper_def [wire_simps] byte_def [wire_simps] dec_str_def [wire_simps]

lemma dec_int_json [wire_simps]: "int64 i \<Longrightarrow> dec_int (JInt i) old = Some i"
  by (simp add: dec_int_def int64_def)

lemma dec_position_json [wire_simps]: "position_typed p \<Longrightarrow> dec_struct Position_fields (json_Position p) old = Some p"
  by (simp add: wire_simps Position_fields_def json_Position_def position_typed_def)

lemma dec_range_json [wire_simps]: "range_typed r \<Longrightarrow> dec_struct Range_fields (json_Range r) old = Some r"
  by (simp add: wire_simps Range_fields_def json_Range_def range_typed_def)

lemma dec_location_json [wire_simps]: "location_typed l \<Longrightarrow> dec_struct Location_fields (json_Location l) old = Some l"
  by (simp add: wire_simps Location_fields_def json_Location_def location_typed_def)

lemma dec_symbol_json: "symbol_typed s \<Longrightarrow> dec_struct Symbol_fields (json_Symbol s) zero_Symbol = Some s"
  by (simp add: wire_simps Symbol_fields_def json_Symbol_def symbol_typed_def omit_empty_def zero_Symbol_def)

lemma dec_item_json: "item_typed c \<Longrightarrow> dec_struct CallHierarchyItem_fields (json_CallHierarchyItem c) old = Some c"
  by (simp add: wire_simps CallHierarchyItem_fields_def json_CallHierarchyItem_def item_typed_def)

lemma dec_list_json:
  assumes "\<And>v. P v \<Longrightarrow> f (g v) = Some v" and "list_all P vs"
  shows "dec_list f (JArr (map g vs)) = Some vs"
proof -
  have "dec_all f (map g vs) = Some (map id vs)"
    using assms by (induction vs) auto
  then show ?thesis by (simp add: dec_list_def)
qed

section \<open>A hover over nothing\<close>

text \<open>
  A server answers a hover over nothing with null.  The decoder of the result is run on it, finds no
  contents and fails, so the client reports a decoding error where its caller expects no item.
\<close>

theorem hover_over_nothing_fails:
  assumes "lp_open c (tdp_URI p) = None" and "lp_call c ''textDocument/hover'' (position_params p) = Inr (Some JNull)"
  shows "\<exists>e. request_HoverResult c p = Inl e"
  using assms by (simp add: request_HoverResult_def request_Hover_def on_open_def decoded_def dec_hover_def dec_struct_def)

theorem hover_over_nothing_fails_witness:
  "\<exists>e. request_HoverResult \<lparr>lp_open = (\<lambda>_. None), lp_call = (\<lambda>_ _. Inr (Some JNull)), lp_remarshal = json_encode, lp_phase = ''ready''\<rparr>
     \<lparr>tdp_URI = ''file:///p/a.cpp'', tdp_Position = zero_Position\<rparr> = Inl e"
  by (rule hover_over_nothing_fails) simp_all

end
