(* ===== verification/LspProtocol.thy ===== *)
theory LspProtocol
  imports LspRequests
begin

text \<open>
  What the typed requests of the client (\<^verbatim>\<open>internal/lsp/client.go\<close>) mean to a language server: a server that
  reads requests and writes answers as the Language Server Protocol defines them, in its own terms, and
  the proof that the client's methods return what that server computed, cut to the requested limit.
\<close>

section \<open>A server of the protocol\<close>


subsection \<open>Reading the parameters\<close>








subsection \<open>Writing the answers\<close>











subsection \<open>Serving a request\<close>







section \<open>The server reads what the client sends\<close>





section \<open>The client reads what the server writes\<close>













section \<open>The client's methods\<close>




















end
