(* ===== verification/LspWire.thy ===== *)
theory LspWire
  imports Bufio
begin

text \<open>
  The language server's wire format (\<^verbatim>\<open>internal/lsp/jsonrpc.go\<close>): frames with a
  \<^verbatim>\<open>Content-Length\<close> header, read from a byte stream with bounded header and body.  A stream is the
  list of the bytes still to come; the \<^verbatim>\<open>bufio.Reader\<close> hands out slices of at most its buffer
  size, which is a parameter here and shown not to matter.
\<close>

section \<open>Definitions\<close>

definition defaultMaxMessageBytes :: nat where
  "defaultMaxMessageBytes = 8388608"

definition defaultMaxHeaderBytes :: nat where
  "defaultMaxHeaderBytes = 32768"

definition headerLineLimit :: nat where
  "headerLineLimit = 8192"

datatype frame_error =
    ErrMessageTooLarge
  | ErrInvalidHeader string
  | ErrInvalidContentLength
  | ErrMissingContentLength
  | FrameEOF
  | FrameUnexpectedEOF

function readHeaderLine :: "nat \<Rightarrow> nat \<Rightarrow> string \<Rightarrow> string \<Rightarrow> frame_error + string \<times> string" where
  "readHeaderLine bsz limit line s =
     (case read_slice (Suc bsz) s of
        (chunk, e, rest) \<Rightarrow>
          if limit < length line + length chunk then Inl ErrMessageTooLarge
          else case e of
              SliceLine \<Rightarrow> Inr (line @ chunk, rest)
            | SliceEOF \<Rightarrow> Inl FrameEOF
            | SliceFull \<Rightarrow> readHeaderLine bsz limit (line @ chunk) rest)"
  by pat_completeness auto
termination
  by (relation "measure (\<lambda>(bsz, limit, line, s). length s)") (auto dest: read_slice_full_shorter[OF sym])

declare readHeaderLine.simps [simp del]

text \<open>\<^verbatim>\<open>strings.SplitN\<close> at the first colon.\<close>

definition split_header :: "string \<Rightarrow> (string \<times> string) option" where
  "split_header line = (case str_cut '':'' line of (k, v, found) \<Rightarrow> if found then Some (k, v) else None)"

text \<open>The length announced so far, with what one header line changes of it.\<close>

definition header_length :: "string \<Rightarrow> int \<Rightarrow> frame_error + int" where
  "header_length line len =
     (case split_header line of
        None \<Rightarrow> Inl (ErrInvalidHeader line)
      | Some (k, v) \<Rightarrow>
          if equal_fold (trim_space k) ''Content-Length'' then
            (case atoi (trim_space v) of
               None \<Rightarrow> Inl ErrInvalidContentLength
             | Some n \<Rightarrow> if n < 0 then Inl ErrInvalidContentLength else Inr n)
          else Inr len)"

lemma readHeaderLine_consumes:
  "readHeaderLine bsz limit line s = Inr (l, rest) \<Longrightarrow> length rest < length s"
proof (induction bsz limit line s rule: readHeaderLine.induct)
  case (1 bsz limit line s)
  obtain chunk e r where sl: "read_slice (Suc bsz) s = (chunk, e, r)" by (cases "read_slice (Suc bsz) s")
  have step: "readHeaderLine bsz limit line s =
      (if limit < length line + length chunk then Inl ErrMessageTooLarge
       else case e of SliceLine \<Rightarrow> Inr (line @ chunk, r) | SliceEOF \<Rightarrow> Inl FrameEOF
          | SliceFull \<Rightarrow> readHeaderLine bsz limit (line @ chunk) r)"
    by (simp add: readHeaderLine.simps[of bsz limit line s] sl)
  show ?case
  proof (cases e)
    case SliceLine
    with 1(2) step have "r = rest" by (simp split: if_splits)
    with read_slice_parts[OF sl] SliceLine show ?thesis by simp
  next
    case SliceEOF
    with 1(2) step show ?thesis by (simp split: if_splits)
  next
    case SliceFull
    with 1(2) step have rec: "readHeaderLine bsz limit (line @ chunk) r = Inr (l, rest)"
      and small: "\<not> limit < length line + length chunk"
      by (simp_all split: if_splits)
    have "length rest < length r"
      by (rule 1(1)[OF sl[symmetric] refl small SliceFull rec])
    moreover have "length r < length s"
      using read_slice_full_shorter[of "Suc bsz" s chunk r] sl SliceFull by simp
    ultimately show ?thesis by simp
  qed
qed

text \<open>The header loop: the announced length and the stream after the blank line.\<close>

function read_headers :: "nat \<Rightarrow> int \<Rightarrow> nat \<Rightarrow> string \<Rightarrow> frame_error + int \<times> string" where
  "read_headers bsz len headerBytes s =
     (case readHeaderLine bsz headerLineLimit [] s of
        Inl e \<Rightarrow> Inl e
      | Inr (line, rest) \<Rightarrow>
          if defaultMaxHeaderBytes < headerBytes + length line then Inl ErrMessageTooLarge
          else if trim_space line = '''' then Inr (len, rest)
          else case header_length (trim_space line) len of
              Inl e \<Rightarrow> Inl e
            | Inr len' \<Rightarrow> read_headers bsz len' (headerBytes + length line) rest)"
  by pat_completeness auto
termination
  by (relation "measure (\<lambda>(bsz, len, h, s). length s)") (auto dest: readHeaderLine_consumes)

declare read_headers.simps [simp del]

text \<open>\<^verbatim>\<open>io.ReadFull\<close>.\<close>

definition read_full :: "nat \<Rightarrow> string \<Rightarrow> frame_error + string \<times> string" where
  "read_full n s =
     (if n \<le> length s then Inr (take n s, drop n s)
      else if s = [] then Inl FrameEOF else Inl FrameUnexpectedEOF)"

definition effective_max :: "int \<Rightarrow> int" where
  "effective_max m = (if m \<le> 0 then int defaultMaxMessageBytes else m)"

definition readFrame :: "nat \<Rightarrow> int \<Rightarrow> string \<Rightarrow> frame_error + string \<times> string" where
  "readFrame bsz m s =
     (case read_headers bsz (-1) 0 s of
        Inl e \<Rightarrow> Inl e
      | Inr (len, rest) \<Rightarrow>
          if len < 0 then Inl ErrMissingContentLength
          else if effective_max m < len then Inl ErrMessageTooLarge
          else read_full (nat len) rest)"

definition crlf :: string where
  "crlf = [CHR 0x0D, chr_nl]"

text \<open>\<^verbatim>\<open>writeFrame\<close> on the encoded body.\<close>

definition writeFrame :: "string \<Rightarrow> string" where
  "writeFrame body = ''Content-Length: '' @ int_digits (int (length body)) @ crlf @ crlf @ body"

section \<open>The buffer size does not matter\<close>

lemma readHeaderLine_line:
  "chr_nl \<notin> set l \<Longrightarrow>
   readHeaderLine bsz limit pre (l @ chr_nl # r) =
   (if length pre + length l < limit then Inr (pre @ l @ [chr_nl], r) else Inl ErrMessageTooLarge)"
proof (induction "length l" arbitrary: l pre rule: less_induct)
  case less
  show ?case
  proof (cases "length l < Suc bsz")
    case True
    with less.prems show ?thesis
      by (simp add: readHeaderLine.simps[of bsz limit pre "l @ chr_nl # r"] read_slice_line)
  next
    case False
    let ?l = "drop (Suc bsz) l"
    have "chr_nl \<notin> set ?l" using less.prems by (auto dest: in_set_dropD)
    moreover have "length ?l < length l" using False by simp
    ultimately have "readHeaderLine bsz limit (pre @ take (Suc bsz) l) (?l @ chr_nl # r) =
        (if length (pre @ take (Suc bsz) l) + length ?l < limit
         then Inr ((pre @ take (Suc bsz) l) @ ?l @ [chr_nl], r) else Inl ErrMessageTooLarge)"
      by (intro less.hyps)
    moreover have "length (pre @ take (Suc bsz) l) + length ?l = length pre + length l" using False by simp
    ultimately have "readHeaderLine bsz limit (pre @ take (Suc bsz) l) (?l @ chr_nl # r) =
        (if length pre + length l < limit then Inr (pre @ l @ [chr_nl], r) else Inl ErrMessageTooLarge)"
      by (simp only: append_assoc append_take_drop_id flip: append_assoc[of "take (Suc bsz) l"])
    with False less.prems show ?thesis
      by (auto simp: readHeaderLine.simps[of bsz limit pre "l @ chr_nl # r"] read_slice_line)
  qed
qed

section \<open>Frames\<close>

lemma nat_digits_no_space: "list_all (\<lambda>c. \<not> is_space c \<and> c \<noteq> chr_nl) (nat_digits n)"
  using nat_digits_all_digits[of n]
  by (auto simp: list_all_iff is_digit_def is_space_def byte_def)

lemma length_nat_digits: "n < 10 ^ Suc k \<Longrightarrow> length (nat_digits n) \<le> Suc k"
proof (induction k arbitrary: n)
  case 0
  then show ?case by (subst nat_digits.simps) simp
next
  case (Suc k)
  then have "n div 10 < 10 ^ Suc k" by (simp add: less_mult_imp_div_less mult.commute)
  from Suc.IH[OF this] show ?case by (subst nat_digits.simps) simp
qed

lemma header_line_trim:
  "trim_space (''Content-Length: '' @ nat_digits n @ [CHR 0x0D, chr_nl]) = ''Content-Length: '' @ nat_digits n"
proof -
  have sp: "is_space (CHR 0x0D)" "is_space chr_nl" "\<not> is_space (CHR ''C'')"
    by (simp_all add: is_space_def byte_def)
  have last: "\<not> is_space (last (nat_digits n))"
    using nat_digits_no_space[of n] by (simp add: list_all_iff)
  have "dropWhile is_space (rev (nat_digits n) @ r) = rev (nat_digits n) @ r" for r
    by (rule dropWhile_id) (use last in \<open>simp add: hd_append hd_rev\<close>)
  with sp show ?thesis
    by (simp add: trim_space_def trim_left_def trim_right_def)
qed

lemma header_line_length:
  assumes "int n \<le> max_int64"
  shows "header_length (''Content-Length: '' @ nat_digits n) len = Inr (int n)"
proof -
  have "str_cut '':'' (''Content-Length'' @ '':'' @ '' '' @ nat_digits n) =
      (''Content-Length'', '' '' @ nat_digits n, True)"
    by (rule str_cut_found) simp
  moreover have "''Content-Length: '' @ nat_digits n = ''Content-Length'' @ '':'' @ '' '' @ nat_digits n"
    by simp
  ultimately have split: "split_header (''Content-Length: '' @ nat_digits n) =
      Some (''Content-Length'', '' '' @ nat_digits n)"
    unfolding split_header_def by simp
  have val: "trim_space ('' '' @ nat_digits n) = nat_digits n"
    using trim_space_no_space[of "nat_digits n"] nat_digits_no_space[of n]
    by (simp add: trim_space_def trim_left_def is_space_def byte_def list_all_iff)
  have key: "equal_fold (trim_space ''Content-Length'') ''Content-Length''" by code_simp
  show ?thesis
    unfolding header_length_def split using assms key val by (simp add: atoi_nat_digits)
qed

lemma read_headers_frame:
  assumes "int n \<le> max_int64"
  shows "read_headers bsz (-1) 0 (''Content-Length: '' @ nat_digits n @ crlf @ crlf @ r) = Inr (int n, r)"
proof -
  let ?h = "''Content-Length: '' @ nat_digits n @ [CHR 0x0D]"
  have "n < 10 ^ Suc 19" using assms by (simp add: max_int64_def)
  then have len: "length (nat_digits n) \<le> 20" using length_nat_digits[of n 19] by simp
  have nl: "chr_nl \<notin> set ?h"
    using nat_digits_no_space[of n] by (auto simp: list_all_iff)
  have l1: "readHeaderLine bsz headerLineLimit [] (?h @ chr_nl # crlf @ r) = Inr (?h @ [chr_nl], crlf @ r)"
    using readHeaderLine_line[OF nl, of bsz headerLineLimit "[]"] len by (simp add: headerLineLimit_def)
  have l2: "readHeaderLine bsz headerLineLimit [] (crlf @ r) = Inr (crlf, r)"
    using readHeaderLine_line[of "[CHR 0x0D]" bsz headerLineLimit "[]" r]
    by (simp add: crlf_def headerLineLimit_def)
  have blank: "trim_space crlf = ''''"
    by (simp add: crlf_def trim_space_def trim_left_def is_space_def byte_def)
  have stop: "read_headers bsz (int n) k (crlf @ r) = Inr (int n, r)" if "k \<le> 100" for k
    using that l2 blank
    by (simp add: read_headers.simps[of bsz "int n" k] defaultMaxHeaderBytes_def crlf_def)
  have trim: "trim_space (?h @ [chr_nl]) = ''Content-Length: '' @ nat_digits n"
    using header_line_trim[of n] by simp
  have "read_headers bsz (-1) 0 (?h @ chr_nl # crlf @ r) = Inr (int n, r)"
    unfolding read_headers.simps[of bsz "-1" 0] l1 sum.case prod.case trim header_line_length[OF assms]
    using stop[of "length (?h @ [chr_nl])"] len by (simp add: defaultMaxHeaderBytes_def)
  then show ?thesis by (simp add: crlf_def)
qed

lemma readFrame_frame:
  assumes "int (length body) \<le> effective_max m" and "int (length body) \<le> max_int64"
  shows "readFrame bsz m (writeFrame body @ rest) = Inr (body, rest)"
proof -
  have w: "writeFrame body @ rest = ''Content-Length: '' @ nat_digits (length body) @ crlf @ crlf @ (body @ rest)"
    by (simp add: writeFrame_def int_digits_def)
  show ?thesis
    unfolding readFrame_def w read_headers_frame[OF assms(2)] sum.case prod.case
    using assms(1) by (simp add: read_full_def)
qed

text \<open>
  Reading what \<^verbatim>\<open>writeFrame\<close> wrote returns the body and leaves the rest of the stream, for every
  body within the limit and whatever slices the buffered reader hands out, so consecutive frames
  never bleed into each other.
\<close>

theorem readFrame_writeFrame:
  assumes "int (length body) \<le> effective_max m" and "int (length body) \<le> max_int64"
  shows "readFrame bsz m (writeFrame body @ rest) = Inr (body, rest)"
  by (rule readFrame_frame[OF assms])

theorem readFrame_writeFrame_witness:
  "readFrame 3 0 (writeFrame ''{}'' @ writeFrame ''[]'') = Inr (''{}'', writeFrame ''[]'')"
  by (rule readFrame_writeFrame) (simp_all add: effective_max_def defaultMaxMessageBytes_def max_int64_def)

lemma readFrame_writeFrame_sample:
  "readFrame 3 0 (writeFrame ''{}'' @ writeFrame ''[]'') = Inr (''{}'', writeFrame ''[]'')"
  by (rule readFrame_frame) (simp_all add: effective_max_def defaultMaxMessageBytes_def max_int64_def)

text \<open>A body that is returned is within the limit and was in the stream.\<close>

lemma read_headers_consumes:
  "read_headers bsz len h s = Inr (n, rest) \<Longrightarrow> length rest \<le> length s"
proof (induction bsz len h s rule: read_headers.induct)
  case (1 bsz len h s)
  show ?case
  proof (cases "readHeaderLine bsz headerLineLimit [] s")
    case (Inl e)
    with 1(2) show ?thesis by (simp add: read_headers.simps[of bsz len h s])
  next
    case (Inr lr)
    obtain line r where lr: "lr = (line, r)" by (cases lr)
    have rl: "length r < length s" using readHeaderLine_consumes Inr lr by blast
    show ?thesis
    proof (cases "trim_space line = '''' \<or> defaultMaxHeaderBytes < h + length line")
      case True
      with 1(2) Inr lr rl show ?thesis
        by (auto simp: read_headers.simps[of bsz len h s] split: if_splits)
    next
      case False
      with 1(2) Inr lr obtain len' where l: "header_length (trim_space line) len = Inr len'"
        and rec: "read_headers bsz len' (h + length line) r = Inr (n, rest)"
        by (auto simp: read_headers.simps[of bsz len h s] split: sum.splits)
      have "length rest \<le> length r"
        using 1(1)[of "(line, r)" line r len'] Inr lr False l rec by simp
      with rl show ?thesis by simp
    qed
  qed
qed

text \<open>
  A frame that is returned respects the body limit (8 MiB when none is given), and reading never
  goes backwards: every call that returns a frame leaves a strictly shorter stream, so the read
  loop ends on every finite input.
\<close>

theorem readFrame_bounded:
  assumes "readFrame bsz m s = Inr (body, rest)"
  shows "int (length body) \<le> effective_max m \<and> length rest < length s"
proof -
  obtain len r where h: "read_headers bsz (-1) 0 s = Inr (len, r)" and len: "0 \<le> len" "len \<le> effective_max m"
    and full: "read_full (nat len) r = Inr (body, rest)"
    using assms by (auto simp: readFrame_def split: sum.splits if_splits)
  have "length r < length s"
  proof -
    obtain line r' where l: "readHeaderLine bsz headerLineLimit [] s = Inr (line, r')"
      using h by (auto simp: read_headers.simps[of bsz "-1" 0 s] split: sum.splits)
    then have "length r' < length s" by (rule readHeaderLine_consumes)
    moreover have "length r \<le> length r'"
      using h l by (auto simp: read_headers.simps[of bsz "-1" 0 s] split: if_splits sum.splits
          dest: read_headers_consumes)
    ultimately show ?thesis by simp
  qed
  with full len show ?thesis by (auto simp: read_full_def split: if_splits)
qed

theorem readFrame_bounded_witness:
  "length (writeFrame ''[]'') < length (writeFrame ''{}'' @ writeFrame ''[]'')"
  using readFrame_bounded[of 3 0 "writeFrame ''{}'' @ writeFrame ''[]''" "''{}''" "writeFrame ''[]''"]
    readFrame_writeFrame_sample
  by simp

end
