(* ===== verification/LspClient.thy ===== *)
theory LspClient
  imports LspTypes Paths Url LspWire
begin

text \<open>
  The language-server client (\<^verbatim>\<open>internal/lsp/client.go\<close>): dispatch of incoming messages, the calls
  waiting for a response, the readiness of the background index, and the documents the client has
  opened in clangd with their versions.  Every event is a function on the part of the client's
  state it touches under its mutex; the transport is the environment, which says for each
  notification whether it was sent.
\<close>

section \<open>Messages\<close>

text \<open>
  An incoming message, decoded: the ID is absent, a number, or something else (whose raw text is
  kept to answer it).
\<close>

datatype wire_id = NoID | NumberID int | OtherID string

record wireMessage =
  wm_ID :: wire_id
  wm_Method :: string
  wm_Params :: json
  wm_Result :: json
  wm_Error :: "(int \<times> string) option"

datatype client_error = ErrClosed | ErrContext | ProtocolError int string | ErrDecode | ErrSend

text \<open>
  The state of calls and termination.  \<open>cl_responses\<close> are the one-element channels of the calls that
  wait; \<open>cl_requests\<close> is the queue of server requests, \<open>cl_sent\<close> the messages handed to the writer.
\<close>

datatype sent =
    SentCall int string json
  | SentNotify string json
  | SentResult wire_id json
  | SentError wire_id int string

record calls =
  cl_next :: int
  cl_pending :: "int \<Rightarrow> wireMessage option option"
  cl_closed :: bool
  cl_requests :: "wireMessage list"
  cl_sent :: "sent list"

definition request_capacity :: nat where
  "request_capacity = 32"

datatype dispatched = ToProgress json | ToNotification string json | ToQueue | QueueFull | ToCall int | Ignored

text \<open>What \<^verbatim>\<open>readLoop\<close> does with one decoded message.\<close>

definition dispatch :: "wireMessage \<Rightarrow> calls \<Rightarrow> dispatched \<times> calls" where
  "dispatch m c =
     (if wm_Method m \<noteq> '''' \<and> wm_ID m = NoID then
        (if wm_Method m = ''$/progress'' then (ToProgress (wm_Params m), c)
         else (ToNotification (wm_Method m) (wm_Params m), c))
      else if wm_Method m \<noteq> '''' then
        (if length (cl_requests c) < request_capacity
         then (ToQueue, c\<lparr>cl_requests := cl_requests c @ [m]\<rparr>)
         else (QueueFull, c\<lparr>cl_sent := cl_sent c @ [SentError (wm_ID m) (-32000) ''server request queue full'']\<rparr>))
      else case wm_ID m of
          NumberID i \<Rightarrow>
            (case cl_pending c i of
               Some None \<Rightarrow> (ToCall i, c\<lparr>cl_pending := (cl_pending c)(i \<mapsto> Some m)\<rparr>)
             | _ \<Rightarrow> (Ignored, c))
        | _ \<Rightarrow> (Ignored, c))"

text \<open>The answer to a queued server request; \<open>items\<close> is the number of configuration items asked for.\<close>

definition respondServerRequest :: "nat \<Rightarrow> wireMessage \<Rightarrow> calls \<Rightarrow> calls" where
  "respondServerRequest items m c =
     c\<lparr>cl_sent := cl_sent c @
        [if wm_Method m = ''workspace/configuration'' then SentResult (wm_ID m) (JArr (replicate items JNull))
         else if wm_Method m = ''window/workDoneProgress/create'' then SentResult (wm_ID m) JNull
         else SentError (wm_ID m) (-32601) ''Method not found'']\<rparr>"

definition terminate :: "calls \<Rightarrow> calls" where
  "terminate c = c\<lparr>cl_closed := True, cl_pending := (\<lambda>_. None)\<rparr>"

text \<open>Registering a call: its number, or the error when the client is closed.\<close>

definition call_begin :: "string \<Rightarrow> json \<Rightarrow> calls \<Rightarrow> (client_error + int) \<times> calls" where
  "call_begin method ps c =
     (let i = cl_next c + 1; c1 = c\<lparr>cl_next := i\<rparr> in
      if cl_closed c then (Inl ErrClosed, c1)
      else (Inr i, c1\<lparr>cl_pending := (cl_pending c)(i \<mapsto> None), cl_sent := cl_sent c @ [SentCall i method ps]\<rparr>))"

text \<open>The end of a call: the response if one was delivered; the deferred removal in every case.\<close>

definition call_end :: "int \<Rightarrow> calls \<Rightarrow> (client_error + json) \<times> calls" where
  "call_end i c =
     (let c' = c\<lparr>cl_pending := (cl_pending c)(i := None)\<rparr> in
      case cl_pending c i of
        Some (Some m) \<Rightarrow>
          (case wm_Error m of Some (code, msg) \<Rightarrow> (Inl (ProtocolError code msg), c') | None \<Rightarrow> (Inr (wm_Result m), c'))
      | _ \<Rightarrow> (Inl (if cl_closed c then ErrClosed else ErrContext), c'))"

section \<open>Readiness of the background index\<close>

record progress =
  pg_Token :: string
  pg_Kind :: string
  pg_Title :: string
  pg_Message :: string

text \<open>\<open>ix_timer\<close>: the grace timer has been armed; \<open>ix_live\<close>: it can still fire.\<close>

record index_state =
  ix_activeTokens :: "string list"
  ix_Message :: string
  ix_ready :: bool
  ix_sawProgress :: bool
  ix_timer :: bool
  ix_live :: bool

definition new_index :: index_state where
  "new_index = \<lparr>ix_activeTokens = [], ix_Message = '''', ix_ready = False, ix_sawProgress = False,
                ix_timer = False, ix_live = False\<rparr>"

fun firstNonEmpty :: "string list \<Rightarrow> string" where
  "firstNonEmpty [] = ''''"
| "firstNonEmpty (v # vs) = (if v \<noteq> '''' then v else firstNonEmpty vs)"

definition markIndexReadyLocked :: "index_state \<Rightarrow> index_state" where
  "markIndexReadyLocked s = (if \<not> ix_ready s then s\<lparr>ix_ready := True, ix_Message := ''''\<rparr> else s)"

text \<open>\<open>None\<close> is a notification that does not decode.\<close>

definition handleProgress :: "progress option \<Rightarrow> index_state \<Rightarrow> index_state" where
  "handleProgress raw s =
     (case raw of
        None \<Rightarrow> s
      | Some p \<Rightarrow>
          let s1 = s\<lparr>ix_sawProgress := True\<rparr> in
          if pg_Kind p = ''begin'' then
            s1\<lparr>ix_activeTokens := List.insert (pg_Token p) (ix_activeTokens s),
               ix_Message := firstNonEmpty [pg_Title p, pg_Message p]\<rparr>
          else if pg_Kind p = ''report'' then
            (let msg = firstNonEmpty [pg_Message p, pg_Title p]
             in if msg \<noteq> '''' then s1\<lparr>ix_Message := msg\<rparr> else s1)
          else if pg_Kind p = ''end'' then
            (let s2 = s1\<lparr>ix_activeTokens := removeAll (pg_Token p) (ix_activeTokens s)\<rparr>
             in if ix_activeTokens s2 = [] then markIndexReadyLocked s2 else s2)
          else s1)"

definition StartIndexGraceWindow :: "index_state \<Rightarrow> index_state" where
  "StartIndexGraceWindow s = (if ix_timer s \<or> ix_ready s then s else s\<lparr>ix_timer := True, ix_live := True\<rparr>)"

definition graceTimeout :: "index_state \<Rightarrow> index_state" where
  "graceTimeout s =
     (if \<not> ix_live s then s
      else let s1 = s\<lparr>ix_live := False\<rparr> in
        if \<not> ix_sawProgress s1 \<and> ix_activeTokens s1 = [] then markIndexReadyLocked s1 else s1)"

definition stopGraceTimer :: "index_state \<Rightarrow> index_state" where
  "stopGraceTimer s = s\<lparr>ix_live := False\<rparr>"

datatype phase = Ready | Indexing | Starting

definition IndexPhase :: "index_state \<Rightarrow> phase" where
  "IndexPhase s = (if ix_ready s then Ready else if ix_activeTokens s \<noteq> [] then Indexing else Starting)"

definition IndexMessage :: "index_state \<Rightarrow> string" where
  "IndexMessage s = ix_Message s"

datatype index_event = Progress "progress option" | GraceStart | GraceFire | GraceStop

fun index_step :: "index_event \<Rightarrow> index_state \<Rightarrow> index_state" where
  "index_step (Progress p) s = handleProgress p s"
| "index_step GraceStart s = StartIndexGraceWindow s"
| "index_step GraceFire s = graceTimeout s"
| "index_step GraceStop s = stopGraceTimer s"

section \<open>Open documents\<close>

text \<open>The notifications sent to clangd about a document.\<close>

datatype doc_note =
    DidOpenNote string string int string
  | DidChangeNote string int string
  | DidCloseNote string
  | WatchedNote string int

record documents =
  doc_opened :: "string \<rightharpoonup> int"
  doc_log :: "doc_note list"

text \<open>\<open>ok\<close> says whether \<^verbatim>\<open>Notify\<close> succeeded; a failed one is not logged.\<close>

definition notify_doc :: "bool \<Rightarrow> doc_note \<Rightarrow> documents \<Rightarrow> documents" where
  "notify_doc ok n d = (if ok then d\<lparr>doc_log := doc_log d @ [n]\<rparr> else d)"

definition DidOpen :: "bool \<Rightarrow> string \<Rightarrow> string \<Rightarrow> string \<Rightarrow> documents \<Rightarrow> bool \<times> documents" where
  "DidOpen ok uri languageID txt d =
     (if doc_opened d uri \<noteq> None then (True, d)
      else let d' = notify_doc ok (DidOpenNote uri languageID 1 txt) d
           in if \<not> ok then (False, d') else (True, d'\<lparr>doc_opened := (doc_opened d')(uri \<mapsto> 1)\<rparr>))"

definition DidClose :: "bool \<Rightarrow> string \<Rightarrow> documents \<Rightarrow> bool \<times> documents" where
  "DidClose ok uri d =
     (let d' = notify_doc ok (DidCloseNote uri) d
      in if \<not> ok then (False, d') else (True, d'\<lparr>doc_opened := (doc_opened d')(uri := None)\<rparr>))"

definition SourceFileChanged :: "bool \<Rightarrow> string \<Rightarrow> string \<Rightarrow> int list \<Rightarrow> documents \<Rightarrow> bool \<times> documents" where
  "SourceFileChanged ok uri txt watchedType d =
     (case doc_opened d uri of
        None \<Rightarrow>
          let changeType = (case watchedType of t # _ \<Rightarrow> if t = 1 then 1 else 2 | [] \<Rightarrow> 2)
          in (ok, notify_doc ok (WatchedNote uri changeType) d)
      | Some version \<Rightarrow>
          let d' = notify_doc ok (DidChangeNote uri (version + 1) txt) d
          in if \<not> ok then (False, d') else (True, d'\<lparr>doc_opened := (doc_opened d')(uri \<mapsto> version + 1)\<rparr>))"

text \<open>Two notifications, so two outcomes.\<close>

definition SourceFileRemoved :: "bool \<Rightarrow> bool \<Rightarrow> string \<Rightarrow> documents \<Rightarrow> bool \<times> documents" where
  "SourceFileRemoved ok1 ok2 uri d =
     (if doc_opened d uri \<noteq> None then
        (let d1 = notify_doc ok1 (DidCloseNote uri) d in
         if \<not> ok1 then (False, d1)
         else (ok2, notify_doc ok2 (WatchedNote uri 3) (d1\<lparr>doc_opened := (doc_opened d1)(uri := None)\<rparr>)))
      else (ok2, notify_doc ok2 (WatchedNote uri 3) d))"

text \<open>
  The file system behind a URI: \<open>de_stat\<close> says of a path whether it is a regular file and its size,
  \<open>de_read\<close> the bytes the bounded reader returned.
\<close>

record doc_env =
  de_stat :: "string \<Rightarrow> (bool \<times> nat) option"
  de_read :: "string \<Rightarrow> string option"

definition maxIndexSeedBytes :: nat where
  "maxIndexSeedBytes = 4194304"

text \<open>The slash before a drive letter is dropped.\<close>

definition drop_drive_slash :: "string \<Rightarrow> string" where
  "drop_drive_slash p =
     (if 3 \<le> length p \<and> (p ! 0 = CHR ''/'' \<or> p ! 0 = bslash) \<and> p ! 2 = CHR '':'' then tl p else p)"

definition read_document :: "doc_env \<Rightarrow> string \<Rightarrow> string option" where
  "read_document env uri =
     (case url_parse uri of
        None \<Rightarrow> None
      | Some u \<Rightarrow>
          if url_Scheme u \<noteq> ''file'' \<or> url_Host u \<noteq> '''' then None
          else let path = drop_drive_slash (from_slash (url_Path u)) in
            case de_stat env path of
              None \<Rightarrow> None
            | Some (regular, n) \<Rightarrow>
                if \<not> regular \<or> maxIndexSeedBytes < n then None
                else case de_read env path of
                    None \<Rightarrow> None
                  | Some b \<Rightarrow> if maxIndexSeedBytes < length b then None else Some b)"

definition ensureDocumentOpen :: "doc_env \<Rightarrow> bool \<Rightarrow> string \<Rightarrow> documents \<Rightarrow> bool \<times> documents" where
  "ensureDocumentOpen env ok uri d =
     (if doc_opened d uri \<noteq> None then (True, d)
      else case read_document env uri of
          None \<Rightarrow> (False, d)
        | Some b \<Rightarrow>
            let d' = notify_doc ok (DidOpenNote uri ''cpp'' 1 b) d
            in if \<not> ok then (False, d') else (True, d'\<lparr>doc_opened := (doc_opened d')(uri \<mapsto> 1)\<rparr>))"

datatype doc_op =
    OpOpen bool string string string
  | OpChanged bool string string "int list"
  | OpRemoved bool bool string
  | OpEnsure bool string

fun doc_step :: "doc_env \<Rightarrow> doc_op \<Rightarrow> documents \<Rightarrow> documents" where
  "doc_step env (OpOpen ok uri l t) d = snd (DidOpen ok uri l t d)"
| "doc_step env (OpChanged ok uri t w) d = snd (SourceFileChanged ok uri t w d)"
| "doc_step env (OpRemoved ok1 ok2 uri) d = snd (SourceFileRemoved ok1 ok2 uri d)"
| "doc_step env (OpEnsure ok uri) d = snd (ensureDocumentOpen env ok uri d)"

definition no_documents :: documents where
  "no_documents = \<lparr>doc_opened = (\<lambda>_. None), doc_log = []\<rparr>"

section \<open>The document protocol\<close>

text \<open>
  What the protocol asks of the notifications for a server that tracks open documents: a document
  is opened at version 1 when it is closed, changed only while open and to the next version, and
  closed only while open; the watched-file event is for closed documents.
\<close>

definition server_accepts :: "doc_note \<Rightarrow> (string \<rightharpoonup> int) option \<Rightarrow> (string \<rightharpoonup> int) option" where
  "server_accepts n acc =
     (case acc of None \<Rightarrow> None | Some opened \<Rightarrow>
        (case n of
           DidOpenNote uri l v t \<Rightarrow> if opened uri = None \<and> v = 1 then Some (opened(uri \<mapsto> 1)) else None
         | DidChangeNote uri v t \<Rightarrow>
             (case opened uri of Some w \<Rightarrow> if v = w + 1 then Some (opened(uri \<mapsto> v)) else None | None \<Rightarrow> None)
         | DidCloseNote uri \<Rightarrow> if opened uri \<noteq> None then Some (opened(uri := None)) else None
         | WatchedNote uri t \<Rightarrow> if opened uri = None then Some opened else None))"

definition server_state :: "doc_note list \<Rightarrow> (string \<rightharpoonup> int) option" where
  "server_state log = fold server_accepts log (Some (\<lambda>_. None))"

definition in_step :: "documents \<Rightarrow> bool" where
  "in_step d \<longleftrightarrow> server_state (doc_log d) = Some (doc_opened d)"

lemma server_state_snoc: "server_state (log @ [n]) = server_accepts n (server_state log)"
  by (simp add: server_state_def)

lemmas doc_op_defs = DidOpen_def SourceFileChanged_def SourceFileRemoved_def ensureDocumentOpen_def
  notify_doc_def Let_def

lemma in_step_simps:
  "in_step d \<Longrightarrow> doc_opened d uri = None \<Longrightarrow>
   in_step \<lparr>doc_opened = (doc_opened d)(uri \<mapsto> 1), doc_log = doc_log d @ [DidOpenNote uri l 1 t]\<rparr>"
  "in_step d \<Longrightarrow> doc_opened d uri = Some v \<Longrightarrow>
   in_step \<lparr>doc_opened = (doc_opened d)(uri \<mapsto> v + 1), doc_log = doc_log d @ [DidChangeNote uri (v + 1) t]\<rparr>"
  "in_step d \<Longrightarrow> doc_opened d uri = Some v \<Longrightarrow>
   in_step \<lparr>doc_opened = (doc_opened d)(uri := None), doc_log = doc_log d @ [DidCloseNote uri]\<rparr>"
  "in_step d \<Longrightarrow> doc_opened d uri = None \<Longrightarrow>
   in_step \<lparr>doc_opened = doc_opened d, doc_log = doc_log d @ [WatchedNote uri k]\<rparr>"
  by (simp_all add: in_step_def server_state_snoc server_accepts_def)

lemma documents_eq: "(d :: documents) = \<lparr>doc_opened = doc_opened d, doc_log = doc_log d\<rparr>"
  by simp

lemma update_simps:
  "d\<lparr>doc_log := L, doc_opened := D\<rparr> = \<lparr>doc_opened = D, doc_log = L\<rparr>"
  "d\<lparr>doc_log := L\<rparr> = \<lparr>doc_opened = doc_opened d, doc_log = L\<rparr>"
  "d\<lparr>doc_opened := D, doc_log := L\<rparr> = \<lparr>doc_opened = D, doc_log = L\<rparr>"
  for d :: documents
  by simp_all

lemma in_step_step: "in_step d \<Longrightarrow> in_step (doc_step env op d)"
proof (cases op)
  case (OpOpen ok uri l t)
  assume "in_step d"
  with OpOpen show ?thesis by (cases ok) (auto simp: doc_op_defs update_simps intro: in_step_simps)
next
  case (OpChanged ok uri t w)
  assume "in_step d"
  with OpChanged show ?thesis
    by (cases ok; cases "doc_opened d uri") (auto simp: doc_op_defs update_simps intro: in_step_simps)
next
  case (OpRemoved ok1 ok2 uri)
  assume i: "in_step d"
  show ?thesis
  proof (cases "doc_opened d uri")
    case None
    with OpRemoved i show ?thesis by (cases ok2) (auto simp: doc_op_defs update_simps intro: in_step_simps)
  next
    case (Some v)
    let ?d = "\<lparr>doc_opened = (doc_opened d)(uri := None), doc_log = doc_log d @ [DidCloseNote uri]\<rparr>"
    have c: "in_step ?d" by (rule in_step_simps(3)[OF i Some])
    have "in_step \<lparr>doc_opened = doc_opened ?d, doc_log = doc_log ?d @ [WatchedNote uri 3]\<rparr>"
      by (rule in_step_simps(4)[OF c]) simp
    with c i Some OpRemoved show ?thesis
      by (cases ok1; cases ok2) (simp_all add: doc_op_defs update_simps)
  qed
next
  case (OpEnsure ok uri)
  assume "in_step d"
  with OpEnsure show ?thesis
    by (cases ok; cases "read_document env uri") (auto simp: doc_op_defs update_simps intro: in_step_simps)
qed

text \<open>
  Whatever opens, changes, removals and queries touch documents, and whichever notifications
  fail, the messages that reach clangd obey the document protocol (open once at version 1, change
  only while open to the next version, close only while open), and the client's table of open
  documents and versions is exactly the server's.
\<close>

theorem document_versions_in_step:
  "server_state (doc_log (run_events (doc_step env) ops no_documents)) =
   Some (doc_opened (run_events (doc_step env) ops no_documents))"
proof -
  have "in_step (run_events (doc_step env) ops no_documents)"
  proof (rule run_events_invariant[where P = in_step])
    show "in_step (doc_step env e s)" if "in_step s" for e s
      by (rule in_step_step[OF that])
  next
    show "in_step no_documents"
      by (simp add: in_step_def no_documents_def server_state_def)
  qed
  then show ?thesis by (simp add: in_step_def)
qed

section \<open>Readiness\<close>

lemma ready_step: "ix_ready s \<Longrightarrow> ix_ready (index_step e s)"
  by (cases e) (auto simp: handleProgress_def Let_def markIndexReadyLocked_def StartIndexGraceWindow_def
      graceTimeout_def stopGraceTimer_def split: option.split)

lemma ready_run: "ix_ready s \<Longrightarrow> ix_ready (run_events index_step es s)"
  by (rule run_events_invariant[where P = ix_ready]) (auto intro: ready_step)

lemma saw_run: "\<not> ix_sawProgress (run_events index_step es s) \<Longrightarrow> Progress (Some p) \<notin> set es"
proof (induction es arbitrary: s)
  case (Cons e es)
  have keep: "ix_sawProgress t \<Longrightarrow> ix_sawProgress (run_events index_step es t)" for t
  proof (rule run_events_invariant[where P = ix_sawProgress])
    show "ix_sawProgress t \<Longrightarrow> ix_sawProgress (index_step e t)" for e t
      by (cases e) (auto simp: handleProgress_def Let_def markIndexReadyLocked_def StartIndexGraceWindow_def
          graceTimeout_def stopGraceTimer_def split: option.split)
  qed
  have "ix_sawProgress (index_step (Progress (Some p)) s)"
    by (auto simp: handleProgress_def Let_def markIndexReadyLocked_def)
  with keep Cons show ?case by auto
qed simp

lemma becomes_ready:
  assumes "\<not> ix_ready s" and "ix_ready (index_step e s)"
  shows "(\<exists>p. e = Progress (Some p) \<and> pg_Kind p = ''end'' \<and> ix_activeTokens (index_step e s) = []) \<or>
    (e = GraceFire \<and> \<not> ix_sawProgress s)"
proof (cases e)
  case (Progress raw)
  show ?thesis
  proof (cases raw)
    case None
    with assms Progress show ?thesis by (simp add: handleProgress_def)
  next
    case (Some p)
    with assms Progress show ?thesis
      by (auto simp: handleProgress_def Let_def markIndexReadyLocked_def split: if_splits)
  qed
next
  case GraceFire
  with assms show ?thesis
    by (auto simp: graceTimeout_def Let_def markIndexReadyLocked_def split: if_splits)
qed (use assms in \<open>auto simp: StartIndexGraceWindow_def stopGraceTimer_def split: if_splits\<close>)

text \<open>
  The client reports the index as ready only for a reason, and then for good: at some earlier
  point clangd ended a progress with no other progress active, or the grace timer ran out when
  clangd had not announced any progress at all.
\<close>

theorem ready_is_justified:
  "IndexPhase (run_events index_step es new_index) = Ready \<longleftrightarrow>
   (\<exists>before e after. es = before @ e # after \<and>
      ix_ready (index_step e (run_events index_step before new_index)) \<and>
      ((\<exists>p. e = Progress (Some p) \<and> pg_Kind p = ''end'' \<and>
          ix_activeTokens (index_step e (run_events index_step before new_index)) = []) \<or>
       (e = GraceFire \<and> (\<forall>p. Progress (Some p) \<notin> set before))))"
  (is "?ready es \<longleftrightarrow> ?why es")
proof
  show "?ready es \<Longrightarrow> ?why es"
  proof (induction es rule: rev_induct)
    case Nil
    then show ?case by (simp add: IndexPhase_def new_index_def)
  next
    case (snoc e es)
    let ?s = "run_events index_step es new_index"
    show ?case
    proof (cases "ix_ready ?s")
      case True
      then have "?why es" using snoc.IH by (simp add: IndexPhase_def)
      then obtain before e' after where "es = before @ e' # after"
        and r: "ix_ready (index_step e' (run_events index_step before new_index))"
        and why: "(\<exists>p. e' = Progress (Some p) \<and> pg_Kind p = ''end'' \<and>
            ix_activeTokens (index_step e' (run_events index_step before new_index)) = []) \<or>
          (e' = GraceFire \<and> (\<forall>p. Progress (Some p) \<notin> set before))" by blast
      then have "es @ [e] = before @ e' # (after @ [e])" by simp
      with r why show ?thesis by blast
    next
      case False
      have r: "ix_ready (index_step e ?s)"
        using snoc.prems by (simp add: IndexPhase_def split: if_splits)
      have "es @ [e] = es @ e # []" by simp
      with becomes_ready[OF False r] saw_run[of es new_index] r show ?thesis by blast
    qed
  qed
next
  assume "?why es"
  then obtain before e after where es: "es = before @ e # after"
    and r: "ix_ready (index_step e (run_events index_step before new_index))" by blast
  then have "run_events index_step es new_index =
      run_events index_step after (index_step e (run_events index_step before new_index))" by simp
  with ready_run[OF r] show "?ready es" by (simp add: IndexPhase_def)
qed

text \<open>
  The progress message outlives readiness: a progress that begins after the index became ready
  sets the message, and no later event of that progress clears it, so \<^verbatim>\<open>IndexMessage\<close> is not empty
  while \<^verbatim>\<open>IndexPhase\<close> is ready.
\<close>

theorem message_after_ready:
  assumes "ix_ready s" and "ix_activeTokens s = []" and "title \<noteq> ''''"
  shows "let b = \<lparr>pg_Token = t, pg_Kind = ''begin'', pg_Title = title, pg_Message = m\<rparr>;
             e = \<lparr>pg_Token = t, pg_Kind = ''end'', pg_Title = '''', pg_Message = ''''\<rparr>;
             s' = run_events index_step [Progress (Some b), Progress (Some e)] s
         in IndexPhase s' = Ready \<and> ix_activeTokens s' = [] \<and> IndexMessage s' = title"
  using assms
  by (simp add: handleProgress_def Let_def markIndexReadyLocked_def IndexPhase_def IndexMessage_def)

theorem message_after_ready_witness:
  "IndexMessage (run_events index_step
     [GraceStart, GraceFire,
      Progress (Some \<lparr>pg_Token = ''1'', pg_Kind = ''begin'', pg_Title = ''indexing'', pg_Message = ''''\<rparr>),
      Progress (Some \<lparr>pg_Token = ''1'', pg_Kind = ''end'', pg_Title = '''', pg_Message = ''''\<rparr>)] new_index) = ''indexing''"
proof -
  let ?s = "run_events index_step [GraceStart, GraceFire] new_index"
  have "ix_ready ?s" "ix_activeTokens ?s = []"
    by (simp_all add: StartIndexGraceWindow_def graceTimeout_def markIndexReadyLocked_def new_index_def)
  from message_after_ready[OF this, of "''indexing''" "''1''" "''''"] show ?thesis
    by (simp add: Let_def)
qed

end
