(* ===== verification/LspSeed.thy ===== *)
theory LspSeed
  imports LspClient
begin

text \<open>
  The file the session manager opens first (\<^verbatim>\<open>selectIndexSeed\<close> of \<^verbatim>\<open>internal/lsp/manager.go\<close>): the
  scan of the compilation database for the smallest safe source of the project, the bounded read
  of it, and the URI under which clangd hears of it.  The file system is the environment.
\<close>

section \<open>Files and URIs\<close>

definition pathURI :: "string \<Rightarrow> string" where
  "pathURI path =
     (let p = to_slash path;
          q = (if 2 \<le> length p \<and> p ! 1 = CHR '':'' then CHR ''/'' # p else p)
      in url_String ''file'' q)"

text \<open>
  An open database: its size if \<^verbatim>\<open>Stat\<close> answers, whether its first token opens an array, and the
  values of the array, \<open>None\<close> for one the decoder rejects.
\<close>

record seed_database =
  db_size :: "int option"
  db_array :: bool
  db_values :: "json option list"

record seed_env =
  se_paths :: path_env
  se_open :: "string \<Rightarrow> seed_database option"
  se_stat :: "string \<Rightarrow> (bool \<times> int) option"
  se_read :: "string \<Rightarrow> string option"

datatype seed_error =
    SeedRootURI | SeedNoAbs | SeedOpen | SeedDatabaseSize | SeedNotArray | SeedScanLimit | SeedDecode
  | SeedRead | SeedTooLarge | SeedNotSafe | NoIndexSeed

definition maxSeedDatabaseBytes :: int where
  "maxSeedDatabaseBytes = 134217728"

definition maxSeedEntries :: int where
  "maxSeedEntries = 100000"

definition seed_extensions :: "string list" where
  "seed_extensions = [''.c'', ''.cc'', ''.cpp'', ''.cxx'']"

definition generated_segments :: "string list" where
  "generated_segments = [''proto'', ''generated'', ''thirdparty'']"

definition isSeedSource :: "string \<Rightarrow> bool" where
  "isSeedSource path \<longleftrightarrow>
     to_lower (path_ext path) \<in> set seed_extensions \<and>
     \<not> list_ex (\<lambda>segment. segment \<in> set generated_segments) (split_on sep (to_lower (to_slash path))) \<and>
     \<not> has_suffix (to_lower path) ''.gen.cpp''"

definition resolve_or_keep :: "seed_env \<Rightarrow> string \<Rightarrow> string" where
  "resolve_or_keep env p = (case EvalSymlinks (se_paths env) p of Some r \<Rightarrow> r | None \<Rightarrow> p)"

definition withinRoot :: "seed_env \<Rightarrow> string \<Rightarrow> string \<Rightarrow> bool" where
  "withinRoot env path root =
     (case path_rel (resolve_or_keep env root) (resolve_or_keep env path) of
        None \<Rightarrow> False
      | Some rel \<Rightarrow> rel \<noteq> ''..'' \<and> \<not> is_abs rel \<and> \<not> (3 \<le> length rel \<and> take 3 rel = ''../''))"

definition readIndexSeed :: "seed_env \<Rightarrow> string \<Rightarrow> int \<Rightarrow> (seed_error, string \<times> string) result" where
  "readIndexSeed env path maxBytes =
     (case se_read env path of
        None \<Rightarrow> Inl SeedRead
      | Some content \<Rightarrow>
          let b = take (nat (maxBytes + 1)) content in
          if maxBytes < int (length b) then Inl SeedTooLarge else Inr (path, b))"

section \<open>The scan\<close>

record seed_entry =
  entry_Directory :: string
  entry_File :: string

definition seed_entry_fields :: "seed_entry field_decoders" where
  "seed_entry_fields =
     [(''Directory'', \<lambda>v r. map_option (\<lambda>s. r\<lparr>entry_Directory := s\<rparr>) (dec_str v (entry_Directory r))),
      (''File'', \<lambda>v r. map_option (\<lambda>s. r\<lparr>entry_File := s\<rparr>) (dec_str v (entry_File r)))]"

definition decode_entry :: "json option \<Rightarrow> seed_entry option" where
  "decode_entry v =
     (case v of None \<Rightarrow> None
      | Some j \<Rightarrow> dec_struct seed_entry_fields j \<lparr>entry_Directory = '''', entry_File = ''''\<rparr>)"

definition entry_path :: "seed_env \<Rightarrow> seed_entry \<Rightarrow> string option" where
  "entry_path env e =
     go_abs (se_paths env)
       (if is_abs (entry_File e) then entry_File e else path_join2 (entry_Directory e) (entry_File e))"

text \<open>The size of a path the scan may choose; \<open>None\<close> for one it skips.\<close>

definition seed_size :: "seed_env \<Rightarrow> string \<Rightarrow> int \<Rightarrow> string \<Rightarrow> int option" where
  "seed_size env root maxBytes path =
     (case se_stat env path of
        None \<Rightarrow> None
      | Some (regular, n) \<Rightarrow>
          if \<not> regular \<or> maxBytes < n \<or> \<not> isSeedSource path then None
          else if withinRoot env path root then Some n else None)"

text \<open>The loop: the candidate so far and its size (the empty path for none), and the entry count.\<close>

fun seed_scan :: "seed_env \<Rightarrow> string \<Rightarrow> int \<Rightarrow> int \<Rightarrow> string \<times> int \<Rightarrow> json option list
    \<Rightarrow> (seed_error, (string \<times> int) \<times> int) result" where
  "seed_scan env root maxBytes count best [] = Inr (best, count)"
| "seed_scan env root maxBytes count best (v # vs) =
     (if maxSeedEntries \<le> count then Inl SeedScanLimit
      else case decode_entry v of
          None \<Rightarrow> Inl SeedDecode
        | Some e \<Rightarrow>
            (case entry_path env e of
               None \<Rightarrow> seed_scan env root maxBytes (count + 1) best vs
             | Some path \<Rightarrow>
                 (case seed_size env root maxBytes path of
                    None \<Rightarrow> seed_scan env root maxBytes (count + 1) best vs
                  | Some n \<Rightarrow>
                      seed_scan env root maxBytes (count + 1)
                        (if fst best = '''' \<or> n < snd best then (path, n) else best) vs)))"

definition seed_root :: "seed_env \<Rightarrow> string \<Rightarrow> (seed_error, string) result" where
  "seed_root env rootURI =
     (case url_parse rootURI of
        None \<Rightarrow> Inl SeedRootURI
      | Some u \<Rightarrow>
          if url_Scheme u \<noteq> ''file'' then Inl SeedRootURI
          else case go_abs (se_paths env) (drop_drive_slash (from_slash (url_Path u))) of
              None \<Rightarrow> Inl SeedNoAbs
            | Some root \<Rightarrow> Inr root)"

definition selectIndexSeed :: "seed_env \<Rightarrow> string \<Rightarrow> string \<Rightarrow> int \<Rightarrow> (seed_error, string \<times> string) result" where
  "selectIndexSeed env database rootURI maxBytes =
     (case seed_root env rootURI of
        Inl e \<Rightarrow> Inl e
      | Inr root \<Rightarrow>
          (case se_open env database of
             None \<Rightarrow> Inl SeedOpen
           | Some db \<Rightarrow>
               if (case db_size db of None \<Rightarrow> True | Some n \<Rightarrow> maxSeedDatabaseBytes < n) then Inl SeedDatabaseSize
               else if \<not> db_array db then Inl SeedNotArray
               else case seed_scan env root maxBytes 0 ('''', 0) (db_values db) of
                   Inl e \<Rightarrow> Inl e
                 | Inr ((candidate, n), count) \<Rightarrow>
                     if candidate \<noteq> '''' then readIndexSeed env candidate maxBytes
                     else if 0 < count then Inl SeedNotSafe
                     else Inl NoIndexSeed))"

section \<open>The containment test\<close>

lemma take3_dotdot: "3 \<le> length rel \<and> take 3 rel = ''../'' \<longleftrightarrow> has_prefix rel ''../''"
proof -
  have l: "length ''../'' = 3" by simp
  show ?thesis
    unfolding has_prefix_def prefix_def
    by (metis append_take_drop_id append_eq_conv_conj l le_add1 length_append)
qed

definition resolved_within :: "string \<Rightarrow> string \<Rightarrow> bool" where
  "resolved_within path root \<longleftrightarrow> rel_inside (path_rel root path)"

interpretation seed_contains: containment resolved_within
  by unfold_locales (simp add: resolved_within_def rel_inside_iff_prefix)

lemma withinRoot_resolved:
  "withinRoot env path root = resolved_within (resolve_or_keep env path) (resolve_or_keep env root)"
  unfolding withinRoot_def resolved_within_def rel_inside_def
  by (auto simp: take3_dotdot split: option.split)

section \<open>The scan finds the first smallest source\<close>

text \<open>The paths of the entries the scan may choose, with their sizes.\<close>

definition eligible :: "seed_env \<Rightarrow> string \<Rightarrow> int \<Rightarrow> json option list \<Rightarrow> (string \<times> int) list" where
  "eligible env root maxBytes vs =
     List.map_filter (\<lambda>v. case decode_entry v of None \<Rightarrow> None
        | Some e \<Rightarrow> (case entry_path env e of None \<Rightarrow> None
            | Some path \<Rightarrow> map_option (Pair path) (seed_size env root maxBytes path))) vs"

fun better :: "string \<times> int \<Rightarrow> string \<times> int \<Rightarrow> string \<times> int" where
  "better best x = (if fst best = '''' \<or> snd x < snd best then x else best)"

lemma eligible_simps [simp]:
  "eligible env root m [] = []"
  "decode_entry v = Some e \<Longrightarrow> entry_path env e = None \<Longrightarrow> eligible env root m (v # vs) = eligible env root m vs"
  "decode_entry v = Some e \<Longrightarrow> entry_path env e = Some p \<Longrightarrow> seed_size env root m p = None \<Longrightarrow>
   eligible env root m (v # vs) = eligible env root m vs"
  "decode_entry v = Some e \<Longrightarrow> entry_path env e = Some p \<Longrightarrow> seed_size env root m p = Some n \<Longrightarrow>
   eligible env root m (v # vs) = (p, n) # eligible env root m vs"
  by (simp_all add: eligible_def map_filter_simps)

declare better.simps [simp del]

lemma eligible_Cons: "eligible env root m (v # vs) = eligible env root m [v] @ eligible env root m vs"
  by (simp add: eligible_def map_filter_simps split: option.split)

lemma seed_scan_Cons:
  "seed_scan env root m count best (v # vs) =
   (if maxSeedEntries \<le> count then Inl SeedScanLimit
    else if decode_entry v = None then Inl SeedDecode
    else seed_scan env root m (count + 1) (foldl better best (eligible env root m [v])) vs)"
  by (auto simp: eligible_def map_filter_simps better.simps split: option.split)

lemma seed_scan_fold:
  "seed_scan env root m count best vs = Inr (best', count') \<Longrightarrow>
   best' = foldl better best (eligible env root m vs) \<and> count' = count + int (length vs) \<and>
   (count' \<le> maxSeedEntries \<or> vs = [])"
proof (induction vs arbitrary: count best)
  case Nil
  then show ?case by simp
next
  case (Cons v vs)
  then have c: "\<not> maxSeedEntries \<le> count"
    and s: "seed_scan env root m (count + 1) (foldl better best (eligible env root m [v])) vs = Inr (best', count')"
    by (auto simp only: seed_scan_Cons split: if_splits)
  from Cons.IH[OF s] c show ?case
    unfolding eligible_Cons[of env root m v vs] foldl_append by auto
qed

lemma foldl_better_first:
  "list_all (\<lambda>x. fst x \<noteq> '''') xs \<Longrightarrow> fst b \<noteq> '''' \<Longrightarrow>
   \<exists>before after. b # xs = before @ foldl better b xs # after \<and>
     (\<forall>x \<in> set before. snd (foldl better b xs) < snd x) \<and> (\<forall>x \<in> set after. snd (foldl better b xs) \<le> snd x)"
proof (induction xs arbitrary: b rule: rev_induct)
  case Nil
  show ?case by (intro exI[of _ "[]"]) simp
next
  case (snoc y xs)
  let ?r = "foldl better b xs"
  have "list_all (\<lambda>x. fst x \<noteq> '''') xs" "fst b \<noteq> ''''" using snoc.prems by simp_all
  from snoc.IH[OF this] obtain before after where s: "b # xs = before @ ?r # after"
    and lt: "\<forall>x \<in> set before. snd ?r < snd x" and le: "\<forall>x \<in> set after. snd ?r \<le> snd x" by blast
  have ne: "fst ?r \<noteq> ''''"
  proof -
    have "?r \<in> set (b # xs)" unfolding s by simp
    with snoc.prems show ?thesis by (auto simp: list_all_iff)
  qed
  show ?case
  proof (cases "snd y < snd ?r")
    case True
    then have e: "foldl better b (xs @ [y]) = y" by (simp add: better.simps)
    have "\<forall>x \<in> set (b # xs). snd y < snd x" unfolding s using lt le True by auto
    then show ?thesis unfolding e by (intro exI[of _ "b # xs"] exI[of _ "[]"]) simp
  next
    case False
    then have e: "foldl better b (xs @ [y]) = ?r" using ne by (simp add: better.simps)
    have "b # xs @ [y] = before @ ?r # (after @ [y])" using s by simp
    moreover have "\<forall>x \<in> set (after @ [y]). snd ?r \<le> snd x" using le False by auto
    ultimately show ?thesis unfolding e using lt by blast
  qed
qed

lemma isSeedSource_nonempty: "\<not> isSeedSource ''''"
  by code_simp

lemma eligible_D:
  assumes "(p, n) \<in> set (eligible env root m vs)"
  shows "\<exists>e. Some e \<in> decode_entry ` set vs \<and> entry_path env e = Some p"
    and "se_stat env p = Some (True, n)" and "n \<le> m" and "isSeedSource p" and "withinRoot env p root"
    and "p \<noteq> ''''"
proof -
  obtain v e where "v \<in> set vs" "decode_entry v = Some e" "entry_path env e = Some p"
    and sz: "seed_size env root m p = Some n"
    using assms by (fastforce simp: eligible_def map_filter_def split: option.splits)
  then show "\<exists>e. Some e \<in> decode_entry ` set vs \<and> entry_path env e = Some p"
    by (metis image_eqI)
  from sz show "se_stat env p = Some (True, n)" "n \<le> m" "isSeedSource p" "withinRoot env p root"
    by (auto simp: seed_size_def split: option.splits if_splits)
  then show "p \<noteq> ''''" using isSeedSource_nonempty by blast
qed

lemma eligible_abs: "(p, n) \<in> set (eligible env root m vs) \<Longrightarrow> (\<forall>d. Getwd (se_paths env) = Some d \<longrightarrow> is_abs d) \<Longrightarrow> is_abs p"
proof -
  assume "(p, n) \<in> set (eligible env root m vs)" and wd: "\<forall>d. Getwd (se_paths env) = Some d \<longrightarrow> is_abs d"
  from eligible_D(1)[OF this(1)] obtain e where e: "entry_path env e = Some p" by blast
  have j: "is_abs (path_join2 d q)" if "is_abs d" for d q
    using that by (cases d; cases q) (auto simp: path_join_def intro: is_abs_clean)
  show ?thesis
    using e wd by (auto simp: entry_path_def go_abs_def intro: j is_abs_clean split: if_splits)
qed

lemma readIndexSeed_path: "readIndexSeed env p m = Inr (q, txt) \<Longrightarrow> q = p"
  by (auto simp: readIndexSeed_def Let_def split: option.splits if_splits)

lemma selectIndexSeed_helper:
  assumes "selectIndexSeed env database rootURI m = Inr (path, txt)"
  shows "\<exists>root db n before after.
    seed_root env rootURI = Inr root \<and> se_open env database = Some db \<and>
    int (length (db_values db)) \<le> maxSeedEntries \<and>
    eligible env root m (db_values db) = before @ (path, n) # after \<and>
    (\<forall>x \<in> set before. n < snd x) \<and> (\<forall>x \<in> set after. n \<le> snd x) \<and>
    se_stat env path = Some (True, n) \<and> n \<le> m \<and> isSeedSource path \<and>
    resolved_within (resolve_or_keep env path) (resolve_or_keep env root) \<and>
    se_read env path = Some txt \<and> int (length txt) \<le> m"
proof -
  from assms obtain root db cand k count where
    root: "seed_root env rootURI = Inr root" and db: "se_open env database = Some db"
    and scan0: "seed_scan env root m 0 ('''', 0) (db_values db) = Inr ((cand, k), count)"
    and ne0: "cand \<noteq> ''''" and rd0: "readIndexSeed env cand m = Inr (path, txt)"
    by (auto simp: selectIndexSeed_def split: sum.splits option.splits if_splits prod.splits)
  note c = readIndexSeed_path[OF rd0]
  note scan = scan0[folded c] and ne = ne0[folded c] and rd = rd0[folded c]
  let ?xs = "eligible env root m (db_values db)"
  have f: "(path, k) = foldl better ('''', 0) ?xs" using seed_scan_fold[OF scan] by simp
  obtain x xs where xs: "?xs = x # xs"
    using f ne by (cases ?xs) auto
  have "list_all (\<lambda>y. fst y \<noteq> '''') ?xs"
    unfolding list_all_iff by (metis eligible_D(6) prod.collapse)
  then have x: "fst x \<noteq> ''''" and al: "list_all (\<lambda>y. fst y \<noteq> '''') xs"
    by (simp_all add: xs)
  have "foldl better x xs = (path, k)" using f xs by (simp add: better.simps)
  with foldl_better_first[OF al x] obtain before after where
    s: "x # xs = before @ (path, k) # after"
    and lt: "\<forall>y \<in> set before. k < snd y" and le: "\<forall>y \<in> set after. k \<le> snd y" by auto
  have mem: "(path, k) \<in> set ?xs" unfolding xs s by simp
  have len: "int (length (db_values db)) \<le> maxSeedEntries"
    using seed_scan_fold[OF scan] by (auto simp: maxSeedEntries_def)
  from rd obtain content where "se_read env path = Some content" "txt = take (nat (m + 1)) content"
    "int (length txt) \<le> m"
    by (auto simp: readIndexSeed_def Let_def split: option.splits if_splits)
  moreover from this have "txt = content" by (auto simp: min_def split: if_splits)
  ultimately have "se_read env path = Some txt \<and> int (length txt) \<le> m" by simp
  with root db len s lt le xs eligible_D[OF mem] show ?thesis
    by (auto simp: withinRoot_resolved)
qed

text \<open>
  The index seed is a source of the project, chosen deterministically: when
  \<^verbatim>\<open>selectIndexSeed\<close> succeeds, the database was scanned completely, the path is the first of the
  smallest among the entries that are regular files within the limit, C or C++ sources outside
  generated directories, and inside the root after symlink resolution; the text is the whole file
  and within the limit.
\<close>

theorem selectIndexSeed_sound:
  assumes "selectIndexSeed env database rootURI maxBytes = Inr (path, txt)"
  shows "\<exists>root db n before after.
    seed_root env rootURI = Inr root \<and> se_open env database = Some db \<and>
    int (length (db_values db)) \<le> maxSeedEntries \<and>
    eligible env root maxBytes (db_values db) = before @ (path, n) # after \<and>
    (\<forall>x \<in> set before. n < snd x) \<and> (\<forall>x \<in> set after. n \<le> snd x) \<and>
    se_stat env path = Some (True, n) \<and> n \<le> maxBytes \<and> isSeedSource path \<and>
    resolved_within (resolve_or_keep env path) (resolve_or_keep env root) \<and>
    se_read env path = Some txt \<and> int (length txt) \<le> maxBytes"
  by (rule selectIndexSeed_helper[OF assms])

definition sample_seed_env :: seed_env where
  "sample_seed_env =
     \<lparr>se_paths = \<lparr>Getwd = Some ''/w'', EvalSymlinks = Some\<rparr>,
      se_open = (\<lambda>_. Some \<lparr>db_size = Some 10, db_array = True,
        db_values = [Some (JObj [(''file'', JStr ''/p/Big.cpp''), (''directory'', JStr ''/p'')]),
                     Some (JObj [(''directory'', JStr ''/p''), (''file'', JStr ''S.cpp'')])]\<rparr>),
      se_stat = (\<lambda>p. Some (True, if p = ''/p/S.cpp'' then 1 else 5)),
      se_read = (\<lambda>p. Some (if p = ''/p/S.cpp'' then ''x'' else ''int y''))\<rparr>"

theorem selectIndexSeed_sound_witness:
  "isSeedSource ''/p/S.cpp''"
proof -
  have "selectIndexSeed sample_seed_env ''db'' ''file:///p'' 9 = Inr (''/p/S.cpp'', ''x'')"
    by code_simp
  from selectIndexSeed_sound[OF this] show ?thesis by blast
qed

section \<open>The URI names the file\<close>

text \<open>
  The URI under which clangd hears of a file names that file: for an absolute path (without a
  colon in its first three bytes, the drive syntax of another system) parsing the URI gives the path
  back, whatever bytes it holds, and reading the document behind it reads that file.
\<close>

theorem pathURI_names_file:
  assumes "is_abs path" and "CHR '':'' \<notin> set (take 3 path)"
  shows "url_parse (pathURI path) =
      Some \<lparr>url_Scheme = ''file'', url_Host = '''', url_Path = path, url_RawPath = ''''\<rparr> \<and>
    read_document env (pathURI path) =
      (case de_stat env path of
         None \<Rightarrow> None
       | Some (regular, n) \<Rightarrow>
           if \<not> regular \<or> maxIndexSeedBytes < n then None
           else case de_read env path of
               None \<Rightarrow> None
             | Some b \<Rightarrow> if maxIndexSeedBytes < length b then None else Some b)"
proof -
  obtain r where r: "path = sep # r" using assms(1) by (cases path) auto
  have "\<not> (2 \<le> length path \<and> path ! 1 = CHR '':'')" and d: "drop_drive_slash path = path"
    using assms(2) unfolding r by (cases r; cases "tl r"; auto simp: drop_drive_slash_def)+
  then have "pathURI path = url_String ''file'' path"
    by (auto simp: pathURI_def to_slash_def Let_def)
  moreover have "has_prefix path ''/''" by (simp add: r has_prefix_def)
  ultimately have u: "url_parse (pathURI path) =
      Some \<lparr>url_Scheme = ''file'', url_Host = '''', url_Path = path, url_RawPath = ''''\<rparr>"
    by (simp add: url_parse_String)
  then show ?thesis by (simp add: read_document_def from_slash_def d)
qed

theorem pathURI_names_file_witness:
  "url_parse (pathURI ''/p/a b#c.cpp'') =
   Some \<lparr>url_Scheme = ''file'', url_Host = '''', url_Path = ''/p/a b#c.cpp'', url_RawPath = ''''\<rparr>"
proof -
  have "is_abs ''/p/a b#c.cpp''" "CHR '':'' \<notin> set (take 3 ''/p/a b#c.cpp'')" by simp_all
  from pathURI_names_file[OF this] show ?thesis by simp
qed

end
