(* ===== verification/LspManager.thy ===== *)
theory LspManager
  imports LspSeed "HOL-Library.AList"
begin

text \<open>
  The session manager (\<^verbatim>\<open>internal/lsp/manager.go\<close>): one clangd process per project, started once
  for all who ask, stopped when idle, restarted after a crash with a growing delay, retired when
  its configuration changes.

  Sessions are objects on a heap (goroutines keep pointers to sessions the manager has already
  dropped); the map of the manager is an association list from project IDs to objects.  Every
  section under the manager's mutex is one function, together with the cleanup its goroutine does
  after unlocking.  Start-ups are numbered; the number names the start-up goroutine, its context,
  the channel its waiters wait on, and the process and client it creates.
\<close>

section \<open>Configuration and launch\<close>

record ProjectConfig =
  cfg_ID :: string
  cfg_Clangd :: string
  cfg_CompilationDatabase :: string
  cfg_CacheDir :: string
  cfg_RootURI :: string
  cfg_Threads :: int
  cfg_IdleTimeout :: int
  cfg_IndexGraceTimeout :: int

datatype startup_error =
    StartupCancelled | NoCacheDir | ForeignDatabase | DatabaseStat | DatabaseIrregular | CacheMkdir
  | LaunchFailed | InitializeFailed | SeedFailed seed_error | SeedOpenFailed

definition effective_config :: "ProjectConfig \<Rightarrow> ProjectConfig" where
  "effective_config cfg =
     (let c = (if cfg_Threads cfg < 1 then cfg\<lparr>cfg_Threads := 1\<rparr> else cfg)
      in if cfg_IdleTimeout c \<le> 0 then c\<lparr>cfg_IdleTimeout := 300000000000\<rparr> else c)"

text \<open>
  \<^verbatim>\<open>start\<close>: the checks, then the command line it launches.  \<open>stat\<close> says of a path whether it is a
  regular file, \<open>mkdir_ok\<close> and \<open>launch_ok\<close> are the outcomes of creating the index directory and of
  the process factory.
\<close>

definition start_args :: "ProjectConfig \<Rightarrow> string list" where
  "start_args cfg =
     [''--compile-commands-dir='' @ cfg_CacheDir cfg, ''--background-index'',
      ''--background-index-priority=background'', ''--pch-storage=disk'', ''--clang-tidy=0'',
      ''--enable-config'', ''--j='' @ int_digits (cfg_Threads cfg), ''--log=error'']"

definition start_process :: "(string \<Rightarrow> bool option) \<Rightarrow> bool \<Rightarrow> bool \<Rightarrow> ProjectConfig
    \<Rightarrow> (startup_error, string list) result" where
  "start_process stat mkdir_ok launch_ok cfg =
     (if cfg_CacheDir cfg = '''' then Inl NoCacheDir
      else
        let path = path_clean (cfg_CompilationDatabase cfg);
            checked = (if cfg_CompilationDatabase cfg = '''' then None
              else if path_base path \<noteq> ''compile_commands.json'' \<or>
                      path_clean (path_dir path) \<noteq> path_clean (cfg_CacheDir cfg) then Some ForeignDatabase
              else case stat path of
                  None \<Rightarrow> Some DatabaseStat
                | Some regular \<Rightarrow> if \<not> regular then Some DatabaseIrregular else None)
        in case checked of
            Some e \<Rightarrow> Inl e
          | None \<Rightarrow> if \<not> mkdir_ok then Inl CacheMkdir
                    else if \<not> launch_ok then Inl LaunchFailed
                    else Inr (start_args cfg))"

text \<open>Seconds, as nanoseconds; the shift count is at least zero because failures are counted first.\<close>

definition backoff :: "nat \<Rightarrow> int" where
  "backoff f = 1000000000 * 2 ^ ((if 5 < f then 5 else f) - 1)"

section \<open>State\<close>

record session =
  ss_config :: ProjectConfig
  ss_process :: "nat option"
  ss_client :: "nat option"
  ss_refs :: nat
  ss_timer :: bool
  ss_failures :: nat
  ss_nextStart :: "int option"
  ss_starting :: "nat option"
  ss_startErr :: "startup_error option"
  ss_cancel :: "nat option"
  ss_stale :: bool

text \<open>
  The points a start-up goroutine stops at: before its first look at the context, before launching,
  with a process that is not published, with a published process, with a client.
\<close>

datatype stage = Fresh | Checked | Launched | Published | Connected

record client_state =
  cs_index :: index_state
  cs_docs :: documents

record manager =
  mg_sessions :: "(string \<times> nat) list"
  mg_closed :: bool
  mg_heap :: "nat \<Rightarrow> session"
  mg_next :: nat
  mg_starts :: nat
  mg_startups :: "nat \<Rightarrow> (string \<times> nat \<times> stage) option"
  mg_watchers :: "nat \<Rightarrow> (string \<times> nat) option"
  mg_alive :: "nat set"
  mg_open :: "nat set"
  mg_cancelled :: "nat set"
  mg_woken :: "nat set"
  mg_clients :: "nat \<Rightarrow> client_state"

definition blank_config :: ProjectConfig where
  "blank_config = \<lparr>cfg_ID = '''', cfg_Clangd = '''', cfg_CompilationDatabase = '''', cfg_CacheDir = '''',
     cfg_RootURI = '''', cfg_Threads = 0, cfg_IdleTimeout = 0, cfg_IndexGraceTimeout = 0\<rparr>"

definition new_session :: "ProjectConfig \<Rightarrow> nat \<Rightarrow> session" where
  "new_session cfg a =
     \<lparr>ss_config = cfg, ss_process = None, ss_client = None, ss_refs = 0, ss_timer = False, ss_failures = 0,
      ss_nextStart = None, ss_starting = Some a, ss_startErr = None, ss_cancel = Some a, ss_stale = False\<rparr>"

definition NewManager :: manager where
  "NewManager =
     \<lparr>mg_sessions = [], mg_closed = False, mg_heap = (\<lambda>_. (new_session blank_config 0)\<lparr>ss_starting := None, ss_cancel := None\<rparr>), mg_next = 0,
      mg_starts = 0, mg_startups = (\<lambda>_. None), mg_watchers = (\<lambda>_. None), mg_alive = {}, mg_open = {},
      mg_cancelled = {}, mg_woken = {},
      mg_clients = (\<lambda>_. \<lparr>cs_index = new_index, cs_docs = no_documents\<rparr>)\<rparr>"

definition session_of :: "manager \<Rightarrow> string \<Rightarrow> nat option" where
  "session_of m key = map_of (mg_sessions m) key"

definition set_session :: "nat \<Rightarrow> session \<Rightarrow> manager \<Rightarrow> manager" where
  "set_session sid s m = m\<lparr>mg_heap := (mg_heap m)(sid := s)\<rparr>"

text \<open>Cancel a context, close a client, kill and reap a process, each if present.\<close>

definition cleanupStartup :: "nat option \<Rightarrow> nat option \<Rightarrow> nat option \<Rightarrow> manager \<Rightarrow> manager" where
  "cleanupStartup p c cancel m =
     m\<lparr>mg_cancelled := mg_cancelled m \<union> set_option cancel,
       mg_open := mg_open m - set_option c,
       mg_alive := mg_alive m - set_option p\<rparr>"

definition retireLocked :: "string \<Rightarrow> nat \<Rightarrow> manager \<Rightarrow> manager" where
  "retireLocked key sid m =
     (if session_of m key \<noteq> Some sid then m
      else let s = mg_heap m sid in
        (cleanupStartup (ss_process s) (ss_client s) (ss_cancel s) m)
          \<lparr>mg_sessions := AList.delete key (mg_sessions m)\<rparr>)"

text \<open>Closing the channel of the waiters.\<close>

definition finishStartupLocked :: "nat \<Rightarrow> manager \<Rightarrow> manager" where
  "finishStartupLocked sid m =
     (let s = mg_heap m sid in
      (set_session sid (s\<lparr>ss_starting := None\<rparr>) m)\<lparr>mg_woken := mg_woken m \<union> set_option (ss_starting s)\<rparr>)"

definition scheduleIdleLocked :: "nat \<Rightarrow> manager \<Rightarrow> manager" where
  "scheduleIdleLocked sid m = set_session sid ((mg_heap m sid)\<lparr>ss_timer := True\<rparr>) m"

section \<open>Asking for a client\<close>

datatype manager_error = ManagerClosed | ConfigChanged | BackingOff | StartupFailed startup_error | ContextDone

datatype client_result = GotClient nat | WaitStartup nat nat | Retry | Refused manager_error

definition spawn_startup :: "string \<Rightarrow> nat \<Rightarrow> manager \<Rightarrow> manager" where
  "spawn_startup key sid m =
     m\<lparr>mg_startups := (mg_startups m)(mg_starts m \<mapsto> (key, sid, Fresh)), mg_starts := Suc (mg_starts m)\<rparr>"

definition acquire :: "nat \<Rightarrow> manager \<Rightarrow> manager" where
  "acquire sid m =
     (let s = mg_heap m sid in set_session sid (s\<lparr>ss_timer := False, ss_refs := ss_refs s + 1\<rparr>) m)"

text \<open>One round of the loop of \<^verbatim>\<open>Client\<close>, for a configuration with its defaults filled in.\<close>

definition client_round :: "ProjectConfig \<Rightarrow> int \<Rightarrow> manager \<Rightarrow> client_result \<times> manager" where
  "client_round cfg now m =
     (let key = cfg_ID cfg; a = mg_starts m in
      if mg_closed m then (Refused ManagerClosed, m)
      else case session_of m key of
          None \<Rightarrow>
            let sid = mg_next m;
                m1 = (set_session sid (new_session cfg a) m)
                  \<lparr>mg_next := Suc sid, mg_sessions := AList.update key sid (mg_sessions m)\<rparr>
            in (WaitStartup sid a, spawn_startup key sid m1)
        | Some sid \<Rightarrow>
            let s = mg_heap m sid in
            if ss_stale s \<or> ss_config s \<noteq> cfg then
              (let m1 = set_session sid (s\<lparr>ss_stale := True\<rparr>) m
               in if ss_refs s \<noteq> 0 then (Refused ConfigChanged, m1) else (Retry, retireLocked key sid m1))
            else case ss_client s of
                Some c \<Rightarrow> (GotClient c, acquire sid m)
              | None \<Rightarrow>
                  (case ss_starting s of
                     Some b \<Rightarrow> (WaitStartup sid b, m)
                   | None \<Rightarrow>
                       if (case ss_nextStart s of None \<Rightarrow> False | Some t \<Rightarrow> now < t) then (Refused BackingOff, m)
                       else
                         let s1 = s\<lparr>ss_config := cfg, ss_startErr := None, ss_starting := Some a, ss_cancel := Some a\<rparr>
                         in (WaitStartup sid a, spawn_startup key sid (set_session sid s1 m))))"

definition startupResult :: "bool \<Rightarrow> string \<Rightarrow> nat \<Rightarrow> manager \<Rightarrow> client_result \<times> manager" where
  "startupResult ctx_done key sid m =
     (if ctx_done then (Refused ContextDone, m)
      else if mg_closed m \<or> session_of m key \<noteq> Some sid then (Refused ManagerClosed, m)
      else let s = mg_heap m sid in
        case ss_client s of
          Some c \<Rightarrow> (GotClient c, acquire sid m)
        | None \<Rightarrow> (case ss_startErr s of
              Some e \<Rightarrow> (Refused (StartupFailed e), m)
            | None \<Rightarrow> (Refused BackingOff, m)))"

section \<open>The start-up goroutine\<close>

definition finishStartup :: "nat \<Rightarrow> string \<Rightarrow> nat \<Rightarrow> nat option \<Rightarrow> nat option \<Rightarrow> startup_error option \<Rightarrow> int
    \<Rightarrow> manager \<Rightarrow> manager" where
  "finishStartup a key sid p c err now m0 =
     (let m = m0\<lparr>mg_startups := (mg_startups m0)(a := None)\<rparr>; s = mg_heap m sid in
      if mg_closed m \<or> session_of m key \<noteq> Some sid then
        cleanupStartup p c (ss_cancel s)
          (finishStartupLocked sid (set_session sid (s\<lparr>ss_cancel := None\<rparr>) m))
      else case err of
          Some e \<Rightarrow>
            let s1 = s\<lparr>ss_failures := ss_failures s + 1, ss_nextStart := Some (now + backoff (ss_failures s + 1)),
                       ss_startErr := Some e, ss_process := None, ss_client := None, ss_cancel := None\<rparr>
            in cleanupStartup p c (ss_cancel s) (finishStartupLocked sid (set_session sid s1 m))
        | None \<Rightarrow>
            let s1 = s\<lparr>ss_client := c, ss_startErr := None, ss_refs := 0\<rparr>;
                m1 = finishStartupLocked sid (scheduleIdleLocked sid (set_session sid s1 m))
            in (case p of None \<Rightarrow> m1 | Some q \<Rightarrow> m1\<lparr>mg_watchers := (mg_watchers m1)(q \<mapsto> (key, sid))\<rparr>))"

text \<open>
  What happens between the handshake and the end of a start-up: \<open>init_ok\<close> is the outcome of
  \<^verbatim>\<open>Initialize\<close>, \<open>open_ok\<close> of the seed's notification.
\<close>

definition prepare_client :: "seed_env \<Rightarrow> ProjectConfig \<Rightarrow> bool \<Rightarrow> bool \<Rightarrow> client_state
    \<Rightarrow> startup_error option \<times> client_state" where
  "prepare_client env cfg init_ok open_ok cs =
     (let armed = (\<lambda>c. c\<lparr>cs_index := StartIndexGraceWindow (cs_index c)\<rparr>) in
      if \<not> init_ok then (Some InitializeFailed, cs)
      else if cfg_CompilationDatabase cfg = '''' then (None, armed cs)
      else case selectIndexSeed env (cfg_CompilationDatabase cfg) (cfg_RootURI cfg) (int maxIndexSeedBytes) of
          Inr (path, txt) \<Rightarrow>
            (case DidOpen open_ok (pathURI path) ''cpp'' txt (cs_docs cs) of
               (ok, d) \<Rightarrow> if ok then (None, armed (cs\<lparr>cs_docs := d\<rparr>)) else (Some SeedOpenFailed, cs\<lparr>cs_docs := d\<rparr>))
        | Inl e \<Rightarrow> if e = NoIndexSeed then (None, armed cs) else (Some (SeedFailed e), cs))"

text \<open>
  One step of start-up \<open>a\<close>.  \<open>launched\<close> is the outcome of \<open>start_process\<close> and \<open>prepared\<close> of
  \<open>prepare_client\<close>, each used at its stage.
\<close>

definition startup_step :: "nat \<Rightarrow> startup_error option \<Rightarrow> (startup_error option \<times> client_state) \<Rightarrow> int
    \<Rightarrow> manager \<Rightarrow> manager" where
  "startup_step a launched prepared now m =
     (case mg_startups m a of
        None \<Rightarrow> m
      | Some (key, sid, st) \<Rightarrow>
          (case st of
             Fresh \<Rightarrow>
               if a \<in> mg_cancelled m then finishStartup a key sid None None (Some StartupCancelled) now m
               else m\<lparr>mg_startups := (mg_startups m)(a \<mapsto> (key, sid, Checked))\<rparr>
           | Checked \<Rightarrow>
               (case launched of
                  Some e \<Rightarrow> finishStartup a key sid None None (Some e) now m
                | None \<Rightarrow> m\<lparr>mg_alive := insert a (mg_alive m),
                            mg_startups := (mg_startups m)(a \<mapsto> (key, sid, Launched))\<rparr>)
           | Launched \<Rightarrow>
               if mg_closed m \<or> session_of m key \<noteq> Some sid then
                 cleanupStartup (Some a) None None (m\<lparr>mg_startups := (mg_startups m)(a := None)\<rparr>)
               else (set_session sid ((mg_heap m sid)\<lparr>ss_process := Some a\<rparr>) m)
                      \<lparr>mg_startups := (mg_startups m)(a \<mapsto> (key, sid, Published))\<rparr>
           | Published \<Rightarrow>
               m\<lparr>mg_open := insert a (mg_open m),
                 mg_clients := (mg_clients m)(a := \<lparr>cs_index = new_index, cs_docs = no_documents\<rparr>),
                 mg_startups := (mg_startups m)(a \<mapsto> (key, sid, Connected))\<rparr>
           | Connected \<Rightarrow>
               finishStartup a key sid (Some a) (Some a) (fst prepared) now
                 (m\<lparr>mg_clients := (mg_clients m)(a := snd prepared)\<rparr>)))"

section \<open>Crashes, releases and shutdown\<close>

text \<open>\<^verbatim>\<open>watch\<close> after its process has exited.\<close>

definition watch_session :: "nat \<Rightarrow> int \<Rightarrow> manager \<Rightarrow> manager" where
  "watch_session p now m =
     (case mg_watchers m p of
        None \<Rightarrow> m
      | Some (key, sid) \<Rightarrow>
          if p \<in> mg_alive m then m
          else let m1 = m\<lparr>mg_watchers := (mg_watchers m)(p := None)\<rparr>; s = mg_heap m sid in
            if session_of m key \<noteq> Some sid then m1
            else cleanupStartup None (ss_client s) (ss_cancel s)
              (set_session sid (s\<lparr>ss_client := None, ss_process := None, ss_cancel := None,
                 ss_failures := ss_failures s + 1,
                 ss_nextStart := Some (now + backoff (ss_failures s + 1))\<rparr>) m1))"

definition Release :: "string \<Rightarrow> manager \<Rightarrow> manager" where
  "Release key m =
     (case session_of m key of
        None \<Rightarrow> m
      | Some sid \<Rightarrow>
          let s = mg_heap m sid in
          if ss_refs s = 0 then m
          else let m1 = set_session sid (s\<lparr>ss_refs := ss_refs s - 1\<rparr>) m in
            if ss_refs s - 1 = 0 then
              (if ss_stale s then retireLocked key sid m1 else scheduleIdleLocked sid m1)
            else m1)"

definition Invalidate_session :: "string \<Rightarrow> manager \<Rightarrow> manager" where
  "Invalidate_session key m =
     (case session_of m key of
        None \<Rightarrow> m
      | Some sid \<Rightarrow>
          let s = mg_heap m sid; m1 = set_session sid (s\<lparr>ss_stale := True\<rparr>) m
          in if ss_refs s = 0 then retireLocked key sid m1 else m1)"

text \<open>The idle timer of session \<open>sid\<close>; a timer that was stopped too late may still run this.\<close>

definition stop_session :: "string \<Rightarrow> nat \<Rightarrow> manager \<Rightarrow> manager" where
  "stop_session key sid m =
     (if session_of m key \<noteq> Some sid \<or> ss_refs (mg_heap m sid) \<noteq> 0 then m
      else let s = mg_heap m sid in
        (cleanupStartup (ss_process s) (ss_client s) (ss_cancel s) m)
          \<lparr>mg_sessions := AList.delete key (mg_sessions m)\<rparr>)"

definition live_sessions :: "manager \<Rightarrow> nat list" where
  "live_sessions m = map snd (mg_sessions m)"

definition Close_manager :: "manager \<Rightarrow> manager" where
  "Close_manager m =
     (if mg_closed m then m
      else let sids = live_sessions m; h = mg_heap m;
               gone = (\<lambda>s. s\<lparr>ss_starting := None, ss_process := None, ss_client := None, ss_cancel := None\<rparr>)
           in m\<lparr>mg_closed := True, mg_sessions := [],
                mg_heap := (\<lambda>sid. if sid \<in> set sids then gone (h sid) else h sid),
                mg_woken := mg_woken m \<union> set (List.map_filter (\<lambda>sid. ss_starting (h sid)) sids),
                mg_cancelled := mg_cancelled m \<union> set (List.map_filter (\<lambda>sid. ss_cancel (h sid)) sids),
                mg_open := mg_open m - set (List.map_filter (\<lambda>sid. ss_client (h sid)) sids),
                mg_alive := mg_alive m - set (List.map_filter (\<lambda>sid. ss_process (h sid)) sids)\<rparr>)"

section \<open>Session state and source notifications\<close>

datatype session_phase = SessionAbsent | SessionStarting | SessionRunning phase string | SessionDegraded startup_error

definition SessionState :: "string \<Rightarrow> manager \<Rightarrow> session_phase" where
  "SessionState key m =
     (case session_of m key of
        None \<Rightarrow> SessionAbsent
      | Some sid \<Rightarrow>
          let s = mg_heap m sid in
          case ss_client s of
            Some c \<Rightarrow> SessionRunning (IndexPhase (cs_index (mg_clients m c))) (IndexMessage (cs_index (mg_clients m c)))
          | None \<Rightarrow>
              if ss_starting s \<noteq> None then SessionStarting
              else case ss_startErr s of Some e \<Rightarrow> SessionDegraded e | None \<Rightarrow> SessionAbsent)"

text \<open>The client a notification goes to.\<close>

definition client_of :: "string \<Rightarrow> manager \<Rightarrow> nat option" where
  "client_of key m = (case session_of m key of None \<Rightarrow> None | Some sid \<Rightarrow> ss_client (mg_heap m sid))"

definition update_docs :: "nat \<Rightarrow> (documents \<Rightarrow> bool \<times> documents) \<Rightarrow> manager \<Rightarrow> bool \<times> manager" where
  "update_docs c f m =
     (case f (cs_docs (mg_clients m c)) of
        (ok, d) \<Rightarrow> (ok, m\<lparr>mg_clients := (mg_clients m)(c := (mg_clients m c)\<lparr>cs_docs := d\<rparr>)\<rparr>))"

definition manager_sourceFileChanged :: "seed_env \<Rightarrow> bool \<Rightarrow> string \<Rightarrow> string \<Rightarrow> int \<Rightarrow> manager \<Rightarrow> bool \<times> manager" where
  "manager_sourceFileChanged env ok key path watchedType m =
     (case client_of key m of
        None \<Rightarrow> (True, m)
      | Some c \<Rightarrow>
          (case readIndexSeed env path (int maxIndexSeedBytes) of
             Inl _ \<Rightarrow> (False, m)
           | Inr (p, txt) \<Rightarrow> update_docs c (SourceFileChanged ok (pathURI p) txt [watchedType]) m))"

definition manager_SourceFileRemoved :: "bool \<Rightarrow> bool \<Rightarrow> string \<Rightarrow> string \<Rightarrow> manager \<Rightarrow> bool \<times> manager" where
  "manager_SourceFileRemoved ok1 ok2 key path m =
     (case client_of key m of
        None \<Rightarrow> (True, m)
      | Some c \<Rightarrow> update_docs c (SourceFileRemoved ok1 ok2 (pathURI path)) m)"

end
