(* ===== verification/LspSessions.thy ===== *)
theory LspSessions
  imports LspManager
begin

text \<open>
  What the session manager guarantees whatever the interleaving of requests, start-up goroutines,
  crashes, timers, invalidations and shutdown: no clangd process and no client is ever lost, every
  waiting session has exactly one start-up running, and a closed manager comes to rest.
\<close>

section \<open>Events\<close>

text \<open>
  \<open>ClientActivity\<close> is any change a client makes to its own state; \<open>ProcessExit\<close> a process that ends
  by itself.
\<close>

datatype manager_event =
    AskClient ProjectConfig int
  | AwaitStartup bool string nat
  | StartupStep nat "startup_error option" "startup_error option \<times> client_state" int
  | ProcessExit nat
  | WatchStep nat int
  | ReleaseStep string
  | InvalidateStep string
  | IdleFire string nat
  | CloseStep
  | ClientActivity nat client_state

fun manager_step :: "manager_event \<Rightarrow> manager \<Rightarrow> manager" where
  "manager_step (AskClient cfg now) m = snd (client_round (effective_config cfg) now m)"
| "manager_step (AwaitStartup d key sid) m = snd (startupResult d key sid m)"
| "manager_step (StartupStep a l p now) m = startup_step a l p now m"
| "manager_step (ProcessExit p) m = m\<lparr>mg_alive := mg_alive m - {p}\<rparr>"
| "manager_step (WatchStep p now) m = watch_session p now m"
| "manager_step (ReleaseStep key) m = Release key m"
| "manager_step (InvalidateStep key) m = Invalidate_session key m"
| "manager_step (IdleFire key sid) m = stop_session key sid m"
| "manager_step CloseStep m = Close_manager m"
| "manager_step (ClientActivity c cs) m = m\<lparr>mg_clients := (mg_clients m)(c := cs)\<rparr>"

abbreviation reached :: "manager_event list \<Rightarrow> manager" where
  "reached es \<equiv> run_events manager_step es NewManager"

section \<open>The invariant\<close>

definition published :: "stage \<Rightarrow> bool" where
  "published st \<longleftrightarrow> st = Published \<or> st = Connected"

definition holds_process :: "stage \<Rightarrow> bool" where
  "holds_process st \<longleftrightarrow> st = Launched \<or> published st"

definition owner :: "manager \<Rightarrow> nat \<Rightarrow> string" where
  "owner m sid = cfg_ID (ss_config (mg_heap m sid))"

definition session_good :: "manager \<Rightarrow> string \<Rightarrow> nat \<Rightarrow> bool" where
  "session_good m key sid \<longleftrightarrow>
     (case ss_starting (mg_heap m sid) of
        Some a \<Rightarrow> ss_client (mg_heap m sid) = None \<and>
          (\<exists>st. mg_startups m a = Some (key, sid, st) \<and>
             ss_process (mg_heap m sid) = (if published st then Some a else None))
      | None \<Rightarrow> ss_process (mg_heap m sid) = ss_client (mg_heap m sid) \<and>
          (\<forall>p. ss_client (mg_heap m sid) = Some p \<longrightarrow> mg_watchers m p = Some (key, sid)))"

definition sessions_good :: "manager \<Rightarrow> bool" where
  "sessions_good m \<longleftrightarrow>
     (\<forall>key sid. session_of m key = Some sid \<longrightarrow> sid < mg_next m \<and> owner m sid = key \<and> session_good m key sid)"

definition startups_good :: "manager \<Rightarrow> bool" where
  "startups_good m \<longleftrightarrow>
     (\<forall>a key sid st. mg_startups m a = Some (key, sid, st) \<longrightarrow>
        a < mg_starts m \<and> sid < mg_next m \<and> owner m sid = key \<and> mg_watchers m a = None \<and>
        (session_of m key = Some sid \<longrightarrow> ss_starting (mg_heap m sid) = Some a))"

definition watchers_good :: "manager \<Rightarrow> bool" where
  "watchers_good m \<longleftrightarrow>
     (\<forall>p key sid. mg_watchers m p = Some (key, sid) \<longrightarrow>
        p < mg_starts m \<and> sid < mg_next m \<and> owner m sid = key \<and>
        (session_of m key = Some sid \<longrightarrow> ss_client (mg_heap m sid) = Some p))"

definition processes_good :: "manager \<Rightarrow> bool" where
  "processes_good m \<longleftrightarrow>
     (\<forall>p \<in> mg_alive m.
        (\<exists>key sid. session_of m key = Some sid \<and> ss_process (mg_heap m sid) = Some p) \<or>
        (\<exists>key sid st. mg_startups m p = Some (key, sid, st) \<and> holds_process st))"

definition clients_good :: "manager \<Rightarrow> bool" where
  "clients_good m \<longleftrightarrow>
     (\<forall>c \<in> mg_open m.
        (\<exists>key sid. session_of m key = Some sid \<and> ss_client (mg_heap m sid) = Some c) \<or>
        (\<exists>key sid. mg_startups m c = Some (key, sid, Connected)))"

definition manager_good :: "manager \<Rightarrow> bool" where
  "manager_good m \<longleftrightarrow>
     distinct (map fst (mg_sessions m)) \<and> sessions_good m \<and> startups_good m \<and> watchers_good m \<and>
     processes_good m \<and> clients_good m \<and> (mg_closed m \<longrightarrow> mg_sessions m = [])"

lemmas good_defs = manager_good_def sessions_good_def startups_good_def watchers_good_def
  processes_good_def clients_good_def session_good_def owner_def

lemmas op_defs = session_of_def set_session_def cleanupStartup_def finishStartupLocked_def
  scheduleIdleLocked_def acquire_def spawn_startup_def Let_def

lemma session_of_eq: "session_of m = map_of (mg_sessions m)"
  by (simp add: session_of_def fun_eq_iff)

lemma sessions_goodD:
  "sessions_good m \<Longrightarrow> session_of m key = Some sid \<Longrightarrow>
   sid < mg_next m \<and> owner m sid = key \<and> session_good m key sid"
  unfolding sessions_good_def by blast

lemma startups_goodD:
  "startups_good m \<Longrightarrow> mg_startups m a = Some (key, sid, st) \<Longrightarrow>
   a < mg_starts m \<and> sid < mg_next m \<and> owner m sid = key \<and> mg_watchers m a = None \<and>
   (session_of m key = Some sid \<longrightarrow> ss_starting (mg_heap m sid) = Some a)"
  unfolding startups_good_def by blast

lemma watchers_goodD:
  "watchers_good m \<Longrightarrow> mg_watchers m p = Some (key, sid) \<Longrightarrow>
   p < mg_starts m \<and> sid < mg_next m \<and> owner m sid = key \<and>
   (session_of m key = Some sid \<longrightarrow> ss_client (mg_heap m sid) = Some p)"
  unfolding watchers_good_def by blast

lemma processes_goodD:
  "processes_good m \<Longrightarrow> p \<in> mg_alive m \<Longrightarrow>
     (\<exists>key sid. session_of m key = Some sid \<and> ss_process (mg_heap m sid) = Some p) \<or>
     (\<exists>key sid st. mg_startups m p = Some (key, sid, st) \<and> holds_process st)"
  unfolding processes_good_def by blast

lemma clients_goodD:
  "clients_good m \<Longrightarrow> c \<in> mg_open m \<Longrightarrow>
     (\<exists>key sid. session_of m key = Some sid \<and> ss_client (mg_heap m sid) = Some c) \<or>
     (\<exists>key sid. mg_startups m c = Some (key, sid, Connected))"
  unfolding clients_good_def by blast

lemma map_of_update [simp]: "map_of (AList.update k v xs) = (map_of xs)(k \<mapsto> v)"
  by (rule update_conv')

lemma map_of_delete [simp]: "map_of (AList.delete k xs) = (map_of xs)(k := None)"
  by (rule delete_conv')

lemma kept_new: "manager_good NewManager"
  by (simp add: good_defs NewManager_def session_of_def)

lemma kept_set_fields:
  assumes "manager_good m"
    and "ss_process s = ss_process (mg_heap m sid)" "ss_client s = ss_client (mg_heap m sid)"
      "ss_starting s = ss_starting (mg_heap m sid)" "cfg_ID (ss_config s) = cfg_ID (ss_config (mg_heap m sid))"
  shows "manager_good (set_session sid s m)"
proof -
  have h: "ss_process ((mg_heap (set_session sid s m)) k) = ss_process (mg_heap m k)"
    "ss_client ((mg_heap (set_session sid s m)) k) = ss_client (mg_heap m k)"
    "ss_starting ((mg_heap (set_session sid s m)) k) = ss_starting (mg_heap m k)"
    "cfg_ID (ss_config ((mg_heap (set_session sid s m)) k)) = cfg_ID (ss_config (mg_heap m k))" for k
    using assms by (simp_all add: set_session_def)
  have r: "mg_sessions (set_session sid s m) = mg_sessions m" "mg_next (set_session sid s m) = mg_next m"
    "mg_startups (set_session sid s m) = mg_startups m" "mg_watchers (set_session sid s m) = mg_watchers m"
    "mg_alive (set_session sid s m) = mg_alive m" "mg_open (set_session sid s m) = mg_open m"
    "mg_closed (set_session sid s m) = mg_closed m" "mg_starts (set_session sid s m) = mg_starts m"
    by (simp_all add: set_session_def)
  show ?thesis
    using assms(1) unfolding good_defs session_of_def h r .
qed

lemma kept_acquire: "manager_good m \<Longrightarrow> manager_good (acquire sid m)"
  by (simp add: acquire_def Let_def kept_set_fields)

text \<open>Dropping a live session: its resources go, everything else stays.\<close>

definition drop_session :: "string \<Rightarrow> nat \<Rightarrow> manager \<Rightarrow> manager" where
  "drop_session key sid m =
     (cleanupStartup (ss_process (mg_heap m sid)) (ss_client (mg_heap m sid)) (ss_cancel (mg_heap m sid)) m)
       \<lparr>mg_sessions := AList.delete key (mg_sessions m)\<rparr>"

lemma kept_drop:
  assumes "manager_good m" and "session_of m key = Some sid"
  shows "manager_good (drop_session key sid m)"
proof -
  let ?m = "drop_session key sid m"
  have s: "session_of ?m k = (if k = key then None else session_of m k)" for k
    by (simp add: drop_session_def session_of_def cleanupStartup_def)
  have r: "mg_heap ?m = mg_heap m" "mg_next ?m = mg_next m" "mg_startups ?m = mg_startups m"
    "mg_watchers ?m = mg_watchers m" "mg_closed ?m = mg_closed m" "mg_starts ?m = mg_starts m"
    "mg_sessions ?m = AList.delete key (mg_sessions m)"
    "mg_alive ?m = mg_alive m - set_option (ss_process (mg_heap m sid))"
    "mg_open ?m = mg_open m - set_option (ss_client (mg_heap m sid))"
    by (simp_all add: drop_session_def cleanupStartup_def)
  have ow: "owner ?m k = owner m k" "session_good ?m q k = session_good m q k" for q k
    unfolding owner_def session_good_def r by (rule refl)+
  have g: "sessions_good m" "startups_good m" "watchers_good m" "processes_good m" "clients_good m"
    using assms(1) by (simp_all add: manager_good_def)
  have "sessions_good ?m" unfolding sessions_good_def ow s r
    using sessions_goodD[OF g(1)] by (metis option.distinct(1))
  moreover have "startups_good ?m" unfolding startups_good_def ow s r
    using startups_goodD[OF g(2)] by (metis option.distinct(1))
  moreover have "watchers_good ?m" unfolding watchers_good_def ow s r
    using watchers_goodD[OF g(3)] by (metis option.distinct(1))
  moreover have "processes_good ?m" unfolding processes_good_def ow s r
    using processes_goodD[OF g(4)] assms(2) by (metis Diff_iff option.inject option.set_intros)
  moreover have "clients_good ?m" unfolding clients_good_def ow s r
    using clients_goodD[OF g(5)] assms(2) by (metis Diff_iff option.inject option.set_intros)
  moreover have "distinct (map fst (mg_sessions ?m)) \<and> (mg_closed ?m \<longrightarrow> mg_sessions ?m = [])"
    using assms(1) unfolding manager_good_def r by (simp add: distinct_delete)
  ultimately show ?thesis by (simp add: manager_good_def)
qed

lemma retire_eq: "retireLocked key sid m = (if session_of m key = Some sid then drop_session key sid m else m)"
  by (simp add: retireLocked_def drop_session_def Let_def)

lemma stop_eq:
  "stop_session key sid m =
   (if session_of m key = Some sid \<and> ss_refs (mg_heap m sid) = 0 then drop_session key sid m else m)"
  by (simp add: stop_session_def drop_session_def Let_def)

lemma kept_retire: "manager_good m \<Longrightarrow> manager_good (retireLocked key sid m)"
  by (simp add: retire_eq kept_drop)

lemma kept_stop: "manager_good m \<Longrightarrow> manager_good (stop_session key sid m)"
  by (simp add: stop_eq kept_drop)

lemma kept_Release: "manager_good m \<Longrightarrow> manager_good (Release key m)"
  unfolding Release_def Let_def scheduleIdleLocked_def
  by (auto intro!: kept_retire kept_set_fields split: option.split)

lemma kept_Invalidate: "manager_good m \<Longrightarrow> manager_good (Invalidate_session key m)"
  unfolding Invalidate_session_def Let_def
  by (auto intro!: kept_retire kept_set_fields split: option.split)

lemma kept_startupResult: "manager_good m \<Longrightarrow> manager_good (snd (startupResult d key sid m))"
  unfolding startupResult_def Let_def
  by (auto intro!: kept_acquire split: option.split)


lemma manager_goodD:
  assumes "manager_good m"
  shows "sessions_good m" "startups_good m" "watchers_good m" "processes_good m" "clients_good m"
    "distinct (map fst (mg_sessions m))" "mg_closed m \<Longrightarrow> mg_sessions m = []"
  using assms by (simp_all add: manager_good_def)

text \<open>A launch: a new session, or a live one at rest, gets a start-up with a fresh number.\<close>

lemma kept_launch:
  assumes good: "manager_good m" and a: "a = mg_starts m"
    and s: "ss_starting s = Some a" "ss_client s = None" "ss_process s = None" "cfg_ID (ss_config s) = key"
    and old: "(sid = mg_next m \<and> session_of m key = None) \<or>
              (session_of m key = Some sid \<and> ss_starting (mg_heap m sid) = None \<and> ss_client (mg_heap m sid) = None)"
    and m': "session_of m' = (session_of m)(key \<mapsto> sid)" "mg_heap m' = (mg_heap m)(sid := s)"
      "mg_startups m' = (mg_startups m)(a \<mapsto> (key, sid, Fresh))" "mg_starts m' = Suc a"
      "mg_next m' = max (mg_next m) (Suc sid)" "mg_watchers m' = mg_watchers m" "mg_alive m' = mg_alive m"
      "mg_open m' = mg_open m" "mg_closed m' = mg_closed m" "distinct (map fst (mg_sessions m'))" "\<not> mg_closed m"
  shows "manager_good m'"
proof -
  note g = manager_goodD[OF good]
  have fresh: "sid' \<noteq> sid \<or> key' = key" if "session_of m key' = Some sid'" for key' sid'
    using old sessions_goodD[OF g(1) that] sessions_goodD[OF g(1)] by (metis less_irrefl)
  have st: "b \<noteq> a" if "mg_startups m b \<noteq> None" for b
    using that startups_goodD[OF g(2)] a by (metis less_irrefl not_None_eq prod_cases3)
  have nowatch: "mg_watchers m a = None"
    using watchers_goodD[OF g(3)] a by (cases "mg_watchers m a") fastforce+
  have own: "owner m' k = (if k = sid then key else owner m k)" for k
    by (simp add: owner_def m' s)
  have "sessions_good m'"
    unfolding sessions_good_def
  proof (intro allI impI)
    fix k i assume k: "session_of m' k = Some i"
    show "i < mg_next m' \<and> owner m' i = k \<and> session_good m' k i"
    proof (cases "k = key")
      case True
      with k have "i = sid" by (simp add: m')
      with True s show ?thesis by (simp add: own session_good_def m' published_def)
    next
      case False
      with k have old_k: "session_of m k = Some i" by (simp add: m')
      with False fresh have "i \<noteq> sid" by blast
      with sessions_goodD[OF g(1) old_k] st show ?thesis
        by (auto simp: own session_good_def m' split: option.splits)
    qed
  qed
  moreover have "startups_good m'"
    unfolding startups_good_def
  proof (intro allI impI)
    fix b k i t assume b: "mg_startups m' b = Some (k, i, t)"
    show "b < mg_starts m' \<and> i < mg_next m' \<and> owner m' i = k \<and> mg_watchers m' b = None \<and>
        (session_of m' k = Some i \<longrightarrow> ss_starting (mg_heap m' i) = Some b)"
    proof (cases "b = a")
      case True
      with b s nowatch show ?thesis by (auto simp: m' own)
    next
      case False
      with b have b': "mg_startups m b = Some (k, i, t)" by (simp add: m')
      have "i \<noteq> sid"
      proof
        assume "i = sid"
        then have "k = owner m sid" "sid < mg_next m" using startups_goodD[OF g(2) b'] by auto
        with old have o2: "session_of m key = Some sid" "ss_starting (mg_heap m sid) = None" by auto
        with \<open>i = sid\<close> startups_goodD[OF g(2) b'] sessions_goodD[OF g(1) o2(1)] show False by auto
      qed
      with False startups_goodD[OF g(2) b'] show ?thesis
        by (auto simp: own m' a split: if_splits)
    qed
  qed
  moreover have "watchers_good m'"
    unfolding watchers_good_def
  proof (intro allI impI)
    fix p k i assume "mg_watchers m' p = Some (k, i)"
    then have p: "mg_watchers m p = Some (k, i)" by (simp add: m')
    have "i \<noteq> sid"
    proof
      assume "i = sid"
      then have "sid < mg_next m" using watchers_goodD[OF g(3) p] by auto
      with old have o2: "session_of m key = Some sid" "ss_client (mg_heap m sid) = None" by auto
      with \<open>i = sid\<close> watchers_goodD[OF g(3) p] sessions_goodD[OF g(1) o2(1)] show False by auto
    qed
    with watchers_goodD[OF g(3) p] show "p < mg_starts m' \<and> i < mg_next m' \<and> owner m' i = k \<and>
        (session_of m' k = Some i \<longrightarrow> ss_client (mg_heap m' i) = Some p)"
      by (auto simp: own m' a split: if_splits)
  qed
  moreover have rest: "ss_process (mg_heap m sid) = None \<and> ss_client (mg_heap m sid) = None"
    if "session_of m key = Some sid"
    using old sessions_goodD[OF g(1) that] sessions_goodD[OF g(1)] that
    by (auto simp: session_good_def split: option.splits)
  have live: "\<exists>k i. session_of m' k = Some i \<and> f (mg_heap m' i) = Some p"
    if "session_of m k = Some i" "f (mg_heap m i) = Some p" "f = ss_process \<or> f = ss_client" for k i p f
  proof -
    have "i \<noteq> sid" using that rest fresh by fastforce
    then have "k \<noteq> key" using that old by auto
    with \<open>i \<noteq> sid\<close> that show ?thesis by (intro exI[of _ k] exI[of _ i]) (simp add: m')
  qed
  have "processes_good m'"
    unfolding processes_good_def m'(7)
  proof
    fix p assume p: "p \<in> mg_alive m"
    show "(\<exists>k i. session_of m' k = Some i \<and> ss_process (mg_heap m' i) = Some p) \<or>
        (\<exists>k i t. mg_startups m' p = Some (k, i, t) \<and> holds_process t)"
      using processes_goodD[OF g(4) p] live[of _ _ ss_process p] st[of p] by (fastforce simp: m'(3))
  qed
  moreover have "clients_good m'"
    unfolding clients_good_def m'(8)
  proof
    fix c assume c: "c \<in> mg_open m"
    show "(\<exists>k i. session_of m' k = Some i \<and> ss_client (mg_heap m' i) = Some c) \<or>
        (\<exists>k i. mg_startups m' c = Some (k, i, Connected))"
      using clients_goodD[OF g(5) c] live[of _ _ ss_client c] st[of c] by (fastforce simp: m'(3))
  qed
  ultimately show ?thesis using m' by (simp add: manager_good_def)
qed


lemma kept_client_round:
  assumes good: "manager_good m"
  shows "manager_good (snd (client_round cfg now m))"
proof -
  note g = manager_goodD[OF good]
  show ?thesis
  proof (cases "mg_closed m")
    case True
    with good show ?thesis by (simp add: client_round_def Let_def)
  next
    case open_m: False
    show ?thesis
    proof (cases "session_of m (cfg_ID cfg)")
      case None
      then show ?thesis
        using open_m g(6)
        by (auto simp: client_round_def Let_def new_session_def set_session_def spawn_startup_def session_of_def distinct_update
            intro!: kept_launch[OF good refl, where sid = "mg_next m" and key = "cfg_ID cfg" and s = "new_session cfg (mg_starts m)"])
    next
      case (Some sid)
      let ?s = "mg_heap m sid"
      show ?thesis
      proof (cases "ss_stale ?s \<or> ss_config ?s \<noteq> cfg")
        case True
        with Some open_m good show ?thesis
          by (auto simp: client_round_def Let_def intro!: kept_retire kept_set_fields)
      next
        case same: False
        show ?thesis
        proof (cases "ss_client ?s = None \<and> ss_starting ?s = None")
          case True
          then have pr: "ss_process ?s = None" using sessions_goodD[OF g(1) Some] by (simp add: session_good_def)
          have upd: "(session_of m)(cfg_ID cfg \<mapsto> sid) = session_of m" using Some by auto
          let ?s1 = "?s\<lparr>ss_config := cfg, ss_startErr := None, ss_starting := Some (mg_starts m), ss_cancel := Some (mg_starts m)\<rparr>"
          have "manager_good (spawn_startup (cfg_ID cfg) sid (set_session sid ?s1 m))"
            using True same Some pr open_m g(6) sessions_goodD[OF g(1) Some]
            by (intro kept_launch[OF good refl, where sid = sid and key = "cfg_ID cfg" and s = ?s1])
              (simp_all add: upd[unfolded session_of_eq] set_session_def spawn_startup_def session_of_eq owner_def[symmetric])
          with True same Some open_m good show ?thesis
            by (auto simp: client_round_def Let_def split: option.split)
        next
          case False
          with same Some open_m good show ?thesis
            by (auto simp: client_round_def Let_def intro!: kept_acquire split: option.split)
        qed
      qed
    qed
  qed
qed

text \<open>The end of a start-up, whatever its outcome.\<close>

lemma kept_end_startup:
  assumes good: "manager_good m" and run: "mg_startups m a = Some (key, sid, st)"
    and s: "cfg_ID (ss_config s) = cfg_ID (ss_config (mg_heap m sid))"
      "session_of m key = Some sid \<Longrightarrow> ss_starting s = None \<and> ss_process s = ss_client s \<and>
         (ss_client s = None \<or> ss_client s = Some a \<and> mg_watchers m' = (mg_watchers m)(a \<mapsto> (key, sid)))"
    and m': "mg_sessions m' = mg_sessions m" "mg_heap m' = (mg_heap m)(sid := s)"
      "mg_startups m' = (mg_startups m)(a := None)" "mg_starts m' = mg_starts m"
      "mg_next m' = mg_next m" "mg_closed m' = mg_closed m"
      "mg_watchers m' = mg_watchers m \<or>
       (mg_watchers m' = (mg_watchers m)(a \<mapsto> (key, sid)) \<and> session_of m key = Some sid \<and> ss_client s = Some a)"
      "mg_alive m' \<subseteq> mg_alive m" "mg_open m' \<subseteq> mg_open m"
      "a \<in> mg_alive m' \<Longrightarrow> session_of m key = Some sid \<and> ss_process s = Some a"
      "a \<in> mg_open m' \<Longrightarrow> session_of m key = Some sid \<and> ss_client s = Some a"
  shows "manager_good m'"
proof -
  note g = manager_goodD[OF good]
  note run' = startups_goodD[OF g(2) run]
  have so: "session_of m' = session_of m" by (simp add: session_of_eq m')
  have own: "owner m' i = owner m i" for i by (simp add: owner_def m' s)
  have live_sid: "k = key" if "session_of m k = Some sid" for k
    using sessions_goodD[OF g(1) that] run' by simp
  have before: "ss_starting (mg_heap m sid) = Some a \<and> ss_client (mg_heap m sid) = None \<and>
      (\<forall>p. ss_process (mg_heap m sid) = Some p \<longrightarrow> p = a)" if "session_of m key = Some sid"
    using run' sessions_goodD[OF g(1) that] that by (auto simp: session_good_def split: if_splits)
  have starting: "mg_startups m' b = mg_startups m b" if "ss_starting (mg_heap m i) = Some b" "i \<noteq> sid"
    "mg_startups m b = Some (k, i, t)" for b i k t
    using that run by (auto simp: m')
  have watch: "mg_watchers m' p = mg_watchers m p" if "p \<noteq> a" for p
    using m'(7) that by auto
  have other: "mg_watchers m p \<noteq> None \<Longrightarrow> p \<noteq> a" for p using run' by auto
  have "sessions_good m'"
    unfolding sessions_good_def so
  proof (intro allI impI)
    fix k i assume k: "session_of m k = Some i"
    show "i < mg_next m' \<and> owner m' i = k \<and> session_good m' k i"
    proof (cases "i = sid")
      case True
      with live_sid k have "k = key" by blast
      with True k s(2) sessions_goodD[OF g(1) k] show ?thesis
        by (auto simp: own session_good_def m'(2,5))
    next
      case False
      with sessions_goodD[OF g(1) k] starting watch other show ?thesis
        by (fastforce simp: own session_good_def m'(2,5) split: option.splits)
    qed
  qed
  moreover have "startups_good m'"
    unfolding startups_good_def so
  proof (intro allI impI)
    fix b k i t assume b: "mg_startups m' b = Some (k, i, t)"
    then have b': "mg_startups m b = Some (k, i, t)" "b \<noteq> a" by (auto simp: m'(3) split: if_splits)
    have "i \<noteq> sid" if "session_of m k = Some i"
      using that before startups_goodD[OF g(2) b'(1)] b'(2) live_sid by auto
    with startups_goodD[OF g(2) b'(1)] watch[OF b'(2)]
    show "b < mg_starts m' \<and> i < mg_next m' \<and> owner m' i = k \<and> mg_watchers m' b = None \<and>
        (session_of m k = Some i \<longrightarrow> ss_starting (mg_heap m' i) = Some b)"
      by (auto simp: own m'(2,4,5))
  qed
  moreover have "watchers_good m'"
    unfolding watchers_good_def so
  proof (intro allI impI)
    fix p k i assume p: "mg_watchers m' p = Some (k, i)"
    show "p < mg_starts m' \<and> i < mg_next m' \<and> owner m' i = k \<and>
        (session_of m k = Some i \<longrightarrow> ss_client (mg_heap m' i) = Some p)"
    proof (cases "p = a")
      case True
      then have "(k, i) = (key, sid)" "ss_client s = Some a" using p m'(7) run' by auto
      with True run' show ?thesis by (auto simp: own m'(2,4,5))
    next
      case False
      then have p': "mg_watchers m p = Some (k, i)" using p watch by simp
      then have "i \<noteq> sid" if "session_of m k = Some i"
        using that before watchers_goodD[OF g(3) p'] live_sid by auto
      with watchers_goodD[OF g(3) p'] show ?thesis by (auto simp: own m'(2,4,5))
    qed
  qed
  moreover have "processes_good m'"
    unfolding processes_good_def so
  proof
    fix p assume p: "p \<in> mg_alive m'"
    then have "p \<in> mg_alive m" using m'(8) by blast
    note d = processes_goodD[OF g(4) this]
    show "(\<exists>k i. session_of m k = Some i \<and> ss_process (mg_heap m' i) = Some p) \<or>
        (\<exists>k i t. mg_startups m' p = Some (k, i, t) \<and> holds_process t)"
    proof (cases "p = a")
      case True
      with p m'(10) show ?thesis by (metis fun_upd_same m'(2))
    next
      case False
      with d before live_sid show ?thesis by (metis fun_upd_other m'(2,3))
    qed
  qed
  moreover have "clients_good m'"
    unfolding clients_good_def so
  proof
    fix c assume c: "c \<in> mg_open m'"
    then have "c \<in> mg_open m" using m'(9) by blast
    note d = clients_goodD[OF g(5) this]
    show "(\<exists>k i. session_of m k = Some i \<and> ss_client (mg_heap m' i) = Some c) \<or>
        (\<exists>k i. mg_startups m' c = Some (k, i, Connected))"
    proof (cases "c = a")
      case True
      with c m'(11) show ?thesis by (metis fun_upd_same m'(2))
    next
      case False
      with d before live_sid show ?thesis by (metis fun_upd_other m'(2,3) option.distinct(1))
    qed
  qed
  ultimately show ?thesis using g(6,7) by (simp add: manager_good_def m'(1,6))
qed


text \<open>The process and the client of a running start-up are alive only at the stages that hold them.\<close>

lemma running_number:
  assumes good: "manager_good m" and run: "mg_startups m a = Some (key, sid, st)"
  shows "a \<in> mg_alive m \<Longrightarrow> holds_process st" "a \<in> mg_open m \<Longrightarrow> st = Connected"
proof -
  note g = manager_goodD[OF good]
  have nw: "mg_watchers m a = None" using startups_goodD[OF g(2) run] by simp
  have client: "ss_client (mg_heap m i) \<noteq> Some a" if "session_of m k = Some i" for k i
    using sessions_goodD[OF g(1) that] nw by (auto simp: session_good_def split: option.splits)
  show "st = Connected" if "a \<in> mg_open m"
    using clients_goodD[OF g(5) that] client run by auto
  have "holds_process st" if "session_of m k = Some i" "ss_process (mg_heap m i) = Some a" for k i
    using sessions_goodD[OF g(1) that(1)] client[OF that(1)] that(2) run
    by (auto simp: session_good_def holds_process_def split: option.splits if_splits)
  then show "holds_process st" if "a \<in> mg_alive m"
    using processes_goodD[OF g(4) that] run by auto
qed

text \<open>A start-up that moves on.\<close>

lemma kept_advance:
  assumes good: "manager_good m" and run: "mg_startups m a = Some (key, sid, st)"
    and s: "cfg_ID (ss_config s) = cfg_ID (ss_config (mg_heap m sid))"
      "ss_starting s = ss_starting (mg_heap m sid)" "ss_client s = ss_client (mg_heap m sid)"
      "session_of m key = Some sid \<Longrightarrow> ss_process s = (if published st' then Some a else None)"
    and m': "mg_sessions m' = mg_sessions m" "mg_heap m' = (mg_heap m)(sid := s)"
      "mg_startups m' = (mg_startups m)(a \<mapsto> (key, sid, st'))" "mg_starts m' = mg_starts m"
      "mg_next m' = mg_next m" "mg_closed m' = mg_closed m" "mg_watchers m' = mg_watchers m"
      "mg_alive m' \<subseteq> insert a (mg_alive m)" "mg_open m' \<subseteq> insert a (mg_open m)"
      "a \<in> mg_alive m' \<Longrightarrow> holds_process st'" "a \<in> mg_open m' \<Longrightarrow> st' = Connected"
  shows "manager_good m'"
proof -
  note g = manager_goodD[OF good]
  note run' = startups_goodD[OF g(2) run]
  have so: "session_of m' = session_of m" by (simp add: session_of_eq m')
  have own: "owner m' i = owner m i" for i by (simp add: owner_def m' s)
  have f: "ss_starting (mg_heap m' i) = ss_starting (mg_heap m i)"
    "ss_client (mg_heap m' i) = ss_client (mg_heap m i)" for i
    by (simp_all add: m'(2) s)
  have live_sid: "k = key" if "session_of m k = Some sid" for k
    using sessions_goodD[OF g(1) that] run' by simp
  have "sessions_good m'"
    unfolding sessions_good_def so
  proof (intro allI impI)
    fix k i assume k: "session_of m k = Some i"
    show "i < mg_next m' \<and> owner m' i = k \<and> session_good m' k i"
    proof (cases "i = sid")
      case True
      with live_sid k have [simp]: "k = key" by blast
      have "ss_starting (mg_heap m sid) = Some a" using run' k True by auto
      with True k s sessions_goodD[OF g(1) k] show ?thesis
        by (auto simp: own session_good_def m'(2,3,5))
    next
      case False
      then have "ss_starting (mg_heap m i) = Some a \<Longrightarrow> \<not> session_good m k i"
        using run by (auto simp: session_good_def)
      with False sessions_goodD[OF g(1) k] show ?thesis
        by (auto simp: own session_good_def m'(2,3,5,7) split: option.splits)
    qed
  qed
  moreover have "startups_good m'"
    unfolding startups_good_def so
  proof (intro allI impI)
    fix b k i t assume "mg_startups m' b = Some (k, i, t)"
    then obtain t' where "mg_startups m b = Some (k, i, t')" using run by (auto simp: m'(3) split: if_splits)
    from startups_goodD[OF g(2) this]
    show "b < mg_starts m' \<and> i < mg_next m' \<and> owner m' i = k \<and> mg_watchers m' b = None \<and>
        (session_of m k = Some i \<longrightarrow> ss_starting (mg_heap m' i) = Some b)"
      by (simp add: own f m'(4,5,7))
  qed
  moreover have "watchers_good m'"
    using watchers_goodD[OF g(3)] unfolding watchers_good_def so own f m'(4,5,7) by blast
  moreover have "processes_good m'"
    unfolding processes_good_def so
  proof
    fix p assume p: "p \<in> mg_alive m'"
    show "(\<exists>k i. session_of m k = Some i \<and> ss_process (mg_heap m' i) = Some p) \<or>
        (\<exists>k i t. mg_startups m' p = Some (k, i, t) \<and> holds_process t)"
    proof (cases "p = a")
      case True
      with p m'(10) show ?thesis by (auto simp: m'(3))
    next
      case False
      with p m'(8) have "p \<in> mg_alive m" by blast
      moreover have "ss_process (mg_heap m sid) \<noteq> Some p" if "session_of m key = Some sid"
        using sessions_goodD[OF g(1) that] run' that False by (auto simp: session_good_def split: if_splits)
      ultimately show ?thesis
        using processes_goodD[OF g(4)] live_sid False by (metis fun_upd_other m'(2,3))
    qed
  qed
  moreover have "clients_good m'"
    unfolding clients_good_def so f
  proof
    fix c assume c: "c \<in> mg_open m'"
    show "(\<exists>k i. session_of m k = Some i \<and> ss_client (mg_heap m i) = Some c) \<or>
        (\<exists>k i. mg_startups m' c = Some (k, i, Connected))"
      using c m'(9,11) clients_goodD[OF g(5)] by (cases "c = a") (auto simp: m'(3))
  qed
  ultimately show ?thesis using g(6,7) by (simp add: manager_good_def m'(1,6))
qed

lemma kept_finishStartup:
  assumes good: "manager_good m" and run: "mg_startups m a = Some (key, sid, st)"
    and p: "holds_process st \<Longrightarrow> p = Some a" "st = Connected \<Longrightarrow> c = Some a"
    and ok: "err = None \<Longrightarrow> st = Connected"
  shows "manager_good (finishStartup a key sid p c err now m)"
proof -
  note g = manager_goodD[OF good]
  note n = running_number[OF good run]
  have live: "ss_process (mg_heap m sid) = Some a" if "session_of m key = Some sid" "published st"
    using sessions_goodD[OF g(1) that(1)] startups_goodD[OF g(2) run] that run
    by (auto simp: session_good_def)
  let ?s = "mg_heap m sid"
  let ?stale = "?s\<lparr>ss_cancel := None, ss_starting := None\<rparr>"
  let ?failed = "\<lambda>e. ?s\<lparr>ss_failures := ss_failures ?s + 1, ss_nextStart := Some (now + backoff (ss_failures ?s + 1)),
                   ss_startErr := Some e, ss_process := None, ss_client := None, ss_cancel := None, ss_starting := None\<rparr>"
  let ?fine = "?s\<lparr>ss_client := c, ss_startErr := None, ss_refs := 0, ss_timer := True, ss_starting := None\<rparr>"
  note defs = finishStartup_def Let_def session_of_eq finishStartupLocked_def set_session_def cleanupStartup_def
    scheduleIdleLocked_def
  have gone: "a \<in> mg_alive m - set_option p \<Longrightarrow> False" "a \<in> mg_open m - set_option c \<Longrightarrow> False"
    using n p by auto
  show ?thesis
  proof (cases "mg_closed m \<or> session_of m key \<noteq> Some sid")
    case True
    then have dead: "session_of m key \<noteq> Some sid" using g(7) by (auto simp: session_of_eq)
    with True show ?thesis
      by (intro kept_end_startup[OF good run, where s = ?stale]) (use gone in \<open>auto simp: defs\<close>)
  next
    case alive: False
    show ?thesis
    proof (cases err)
      case (Some e)
      with alive show ?thesis
        by (intro kept_end_startup[OF good run, where s = "?failed e"]) (use gone in \<open>auto simp: defs\<close>)
    next
      case None
      then have "st = Connected" "p = Some a" "c = Some a" "ss_process ?s = Some a"
        using ok p live alive by (auto simp: holds_process_def published_def)
      with None alive show ?thesis
        by (intro kept_end_startup[OF good run, where s = ?fine]) (auto simp: defs)
    qed
  qed
qed

lemma kept_clients: "manager_good m \<Longrightarrow> manager_good (m\<lparr>mg_clients := f\<rparr>)"
proof -
  let ?m = "m\<lparr>mg_clients := f\<rparr>"
  have r: "mg_heap ?m = mg_heap m" "mg_sessions ?m = mg_sessions m" "mg_next ?m = mg_next m"
    "mg_startups ?m = mg_startups m" "mg_watchers ?m = mg_watchers m" "mg_alive ?m = mg_alive m"
    "mg_open ?m = mg_open m" "mg_closed ?m = mg_closed m" "mg_starts ?m = mg_starts m"
    by simp_all
  show "manager_good m \<Longrightarrow> ?thesis" unfolding good_defs session_of_def r .
qed

lemma live_process:
  assumes "manager_good m" "mg_startups m a = Some (key, sid, st)" "session_of m key = Some sid"
  shows "ss_process (mg_heap m sid) = (if published st then Some a else None)"
    and "ss_starting (mg_heap m sid) = Some a"
  using sessions_goodD[OF manager_goodD(1)[OF assms(1)] assms(3)]
    startups_goodD[OF manager_goodD(2)[OF assms(1)] assms(2)] assms(2,3)
  by (auto simp: session_good_def)

lemma kept_startup_step:
  assumes good: "manager_good m"
  shows "manager_good (startup_step a launched prepared now m)"
proof (cases "mg_startups m a")
  case None
  with good show ?thesis by (simp add: startup_step_def)
next
  case (Some r)
  obtain key sid st where "r = (key, sid, st)" by (cases r)
  with Some have run: "mg_startups m a = Some (key, sid, st)" by simp
  note n = running_number[OF good run] and lp = live_process[OF good run]
  note same = kept_advance[OF good run, where s = "mg_heap m sid"]
  show ?thesis
  proof (cases st)
    case Fresh
    have "manager_good (m\<lparr>mg_startups := (mg_startups m)(a \<mapsto> (key, sid, Checked))\<rparr>)"
      by (rule same[where st' = Checked]) (use n lp Fresh in \<open>auto simp: published_def holds_process_def\<close>)
    with Fresh run show ?thesis
      by (auto simp: startup_step_def holds_process_def published_def intro!: kept_finishStartup[OF good run])
  next
    case Checked
    have "manager_good (m\<lparr>mg_alive := insert a (mg_alive m), mg_startups := (mg_startups m)(a \<mapsto> (key, sid, Launched))\<rparr>)"
      by (rule same[where st' = Launched]) (use n lp Checked in \<open>auto simp: published_def holds_process_def\<close>)
    with Checked run show ?thesis
      by (auto simp: startup_step_def holds_process_def published_def intro!: kept_finishStartup[OF good run] split: option.split)
  next
    case Launched
    show ?thesis
    proof (cases "mg_closed m \<or> session_of m key \<noteq> Some sid")
      case True
      then have dead: "session_of m key \<noteq> Some sid" using manager_goodD(7)[OF good] by (auto simp: session_of_eq)
      have "manager_good (cleanupStartup (Some a) None None (m\<lparr>mg_startups := (mg_startups m)(a := None)\<rparr>))"
        by (rule kept_end_startup[OF good run, where s = "mg_heap m sid"])
          (use n dead Launched in \<open>auto simp: cleanupStartup_def\<close>)
      with True Launched run show ?thesis by (auto simp: startup_step_def)
    next
      case False
      have "manager_good ((set_session sid ((mg_heap m sid)\<lparr>ss_process := Some a\<rparr>) m)
                      \<lparr>mg_startups := (mg_startups m)(a \<mapsto> (key, sid, Published))\<rparr>)"
        by (rule kept_advance[OF good run, where s = "(mg_heap m sid)\<lparr>ss_process := Some a\<rparr>" and st' = Published])
          (use n Launched in \<open>auto simp: set_session_def published_def holds_process_def\<close>)
      with False Launched run show ?thesis by (auto simp: startup_step_def)
    qed
  next
    case Published
    have "manager_good (m\<lparr>mg_open := insert a (mg_open m),
                 mg_clients := (mg_clients m)(a := \<lparr>cs_index = new_index, cs_docs = no_documents\<rparr>),
                 mg_startups := (mg_startups m)(a \<mapsto> (key, sid, Connected))\<rparr>)"
      by (rule same[where st' = Connected]) (use n lp Published in \<open>auto simp: published_def holds_process_def\<close>)
    with Published run show ?thesis by (simp add: startup_step_def)
  next
    case Connected
    with run show ?thesis
      by (auto simp: startup_step_def intro!: kept_finishStartup[OF kept_clients[OF good], where st = Connected])
  qed
qed

lemma kept_exit: "manager_good m \<Longrightarrow> manager_good (m\<lparr>mg_alive := mg_alive m - {p}\<rparr>)"
proof -
  let ?m = "m\<lparr>mg_alive := mg_alive m - {p}\<rparr>"
  have r: "mg_heap ?m = mg_heap m" "mg_sessions ?m = mg_sessions m" "mg_next ?m = mg_next m"
    "mg_startups ?m = mg_startups m" "mg_watchers ?m = mg_watchers m" "mg_alive ?m = mg_alive m - {p}"
    "mg_open ?m = mg_open m" "mg_closed ?m = mg_closed m" "mg_starts ?m = mg_starts m"
    by simp_all
  show "manager_good m \<Longrightarrow> ?thesis" unfolding good_defs session_of_def r by blast
qed

text \<open>After a crash the session is at rest, and nothing of the old run remains.\<close>

lemma kept_unwatch:
  assumes good: "manager_good m" and w: "mg_watchers m p = Some (key, sid)" and dead: "p \<notin> mg_alive m"
    and s: "cfg_ID (ss_config s) = cfg_ID (ss_config (mg_heap m sid))"
      "session_of m key = Some sid \<Longrightarrow> ss_starting s = None \<and> ss_process s = None \<and> ss_client s = None \<and> p \<notin> mg_open m'"
    and m': "mg_sessions m' = mg_sessions m" "mg_heap m' = (mg_heap m)(sid := s)"
      "mg_startups m' = mg_startups m" "mg_starts m' = mg_starts m"
      "mg_next m' = mg_next m" "mg_closed m' = mg_closed m"
      "mg_watchers m' = (mg_watchers m)(p := None)" "mg_alive m' = mg_alive m" "mg_open m' \<subseteq> mg_open m"
  shows "manager_good m'"
proof -
  note g = manager_goodD[OF good]
  note w' = watchers_goodD[OF g(3) w]
  have so: "session_of m' = session_of m" by (simp add: session_of_eq m')
  have own: "owner m' i = owner m i" for i by (simp add: owner_def m' s)
  have live_sid: "k = key" if "session_of m k = Some sid" for k
    using sessions_goodD[OF g(1) that] w' by simp
  have here: "ss_client (mg_heap m sid) = Some p \<and> ss_starting (mg_heap m sid) = None \<and>
      ss_process (mg_heap m sid) = Some p" if "session_of m key = Some sid"
    using w' sessions_goodD[OF g(1) that] that by (auto simp: session_good_def split: option.splits)
  have elsewhere: "mg_heap m' i = mg_heap m i \<and> ss_client (mg_heap m i) \<noteq> Some p" if "session_of m k = Some i" "i \<noteq> sid" for k i
    using sessions_goodD[OF g(1) that(1)] that(2) w by (auto simp: m'(2) session_good_def split: option.splits)
  have "sessions_good m'"
    unfolding sessions_good_def so
  proof (intro allI impI)
    fix k i assume k: "session_of m k = Some i"
    show "i < mg_next m' \<and> owner m' i = k \<and> session_good m' k i"
    proof (cases "i = sid")
      case True
      with live_sid k have "k = key" by blast
      with True k s(2) sessions_goodD[OF g(1) k] show ?thesis
        by (auto simp: own session_good_def m'(2,5))
    next
      case False
      with sessions_goodD[OF g(1) k] elsewhere[OF k False] show ?thesis
        by (auto simp: own session_good_def m'(3,5,7) split: option.splits)
    qed
  qed
  moreover have "startups_good m'"
    unfolding startups_good_def so
  proof (intro allI impI)
    fix b k i t assume "mg_startups m' b = Some (k, i, t)"
    then have b': "mg_startups m b = Some (k, i, t)" by (simp add: m'(3))
    have "i \<noteq> sid" if "session_of m k = Some i"
      using that here startups_goodD[OF g(2) b'] live_sid by fastforce
    with startups_goodD[OF g(2) b']
    show "b < mg_starts m' \<and> i < mg_next m' \<and> owner m' i = k \<and> mg_watchers m' b = None \<and>
        (session_of m k = Some i \<longrightarrow> ss_starting (mg_heap m' i) = Some b)"
      by (auto simp: own m'(2,4,5,7))
  qed
  moreover have "watchers_good m'"
    unfolding watchers_good_def so
  proof (intro allI impI)
    fix q k i assume "mg_watchers m' q = Some (k, i)"
    then have q: "mg_watchers m q = Some (k, i)" "q \<noteq> p" by (auto simp: m'(7) split: if_splits)
    have "i \<noteq> sid" if "session_of m k = Some i"
      using that here watchers_goodD[OF g(3) q(1)] q(2) live_sid by fastforce
    with watchers_goodD[OF g(3) q(1)]
    show "q < mg_starts m' \<and> i < mg_next m' \<and> owner m' i = k \<and>
        (session_of m k = Some i \<longrightarrow> ss_client (mg_heap m' i) = Some q)"
      by (auto simp: own m'(2,4,5))
  qed
  moreover have "processes_good m'"
    using processes_goodD[OF g(4)] here elsewhere live_sid dead
    unfolding processes_good_def so m'(3,8) by (metis option.inject)
  moreover have "clients_good m'"
    unfolding clients_good_def so m'(3)
  proof
    fix c assume c: "c \<in> mg_open m'"
    then have "c \<in> mg_open m" using m'(9) by blast
    then show "(\<exists>k i. session_of m k = Some i \<and> ss_client (mg_heap m' i) = Some c) \<or>
        (\<exists>k i. mg_startups m c = Some (k, i, Connected))"
      using clients_goodD[OF g(5)] here elsewhere live_sid s(2) c by (metis option.inject)
  qed
  ultimately show ?thesis using g(6,7) by (simp add: manager_good_def m'(1,6))
qed

lemma kept_watch:
  assumes good: "manager_good m"
  shows "manager_good (watch_session p now m)"
proof (cases "mg_watchers m p")
  case None
  with good show ?thesis by (simp add: watch_session_def)
next
  case (Some r)
  obtain key sid where "r = (key, sid)" by (cases r)
  with Some have w: "mg_watchers m p = Some (key, sid)" by simp
  note g = manager_goodD[OF good]
  show ?thesis
  proof (cases "p \<in> mg_alive m")
    case True
    with w good show ?thesis by (simp add: watch_session_def)
  next
    case dead: False
    let ?s = "mg_heap m sid"
    let ?crashed = "?s\<lparr>ss_client := None, ss_process := None, ss_cancel := None,
                 ss_failures := ss_failures ?s + 1, ss_nextStart := Some (now + backoff (ss_failures ?s + 1))\<rparr>"
    show ?thesis
    proof (cases "session_of m key = Some sid")
      case False
      have "manager_good (m\<lparr>mg_watchers := (mg_watchers m)(p := None)\<rparr>)"
        by (rule kept_unwatch[OF good w dead, where s = ?s]) (use False in auto)
      with w dead False show ?thesis by (simp add: watch_session_def Let_def)
    next
      case True
      with sessions_goodD[OF g(1) True] watchers_goodD[OF g(3) w]
      have c: "ss_client ?s = Some p" "ss_starting ?s = None"
        by (auto simp: session_good_def split: option.splits)
      with True w dead show ?thesis
        unfolding watch_session_def
        by (auto simp: Let_def cleanupStartup_def set_session_def
            intro!: kept_unwatch[OF good w dead, where s = ?crashed])
    qed
  qed
qed

lemma kept_Close:
  assumes good: "manager_good m"
  shows "manager_good (Close_manager m)"
proof (cases "mg_closed m")
  case True
  with good show ?thesis by (simp add: Close_manager_def)
next
  case False
  let ?m = "Close_manager m"
  note g = manager_goodD[OF good]
  have f: "mg_sessions ?m = []" "mg_startups ?m = mg_startups m" "mg_watchers ?m = mg_watchers m"
    "mg_next ?m = mg_next m" "mg_starts ?m = mg_starts m"
    using False by (simp_all add: Close_manager_def Let_def)
  have sub: "mg_alive ?m \<subseteq> mg_alive m" "mg_open ?m \<subseteq> mg_open m"
    using False by (auto simp: Close_manager_def Let_def)
  have so: "session_of ?m k = None" for k by (simp add: session_of_def f)
  have own: "owner ?m i = owner m i" for i using False by (simp add: owner_def Close_manager_def Let_def)
  have live: "sid \<in> set (live_sessions m)" if "session_of m k = Some sid" for k sid
    using map_of_SomeD[OF that[unfolded session_of_def]] by (force simp: live_sessions_def)
  have "p \<notin> mg_alive ?m" if "session_of m k = Some sid" "ss_process (mg_heap m sid) = Some p" for k sid p
    using live[OF that(1)] that(2) False by (force simp: Close_manager_def Let_def map_filter_def)
  then have "processes_good ?m"
    using processes_goodD[OF g(4)] sub unfolding processes_good_def so f(2) by blast
  moreover have "c \<notin> mg_open ?m" if "session_of m k = Some sid" "ss_client (mg_heap m sid) = Some c" for k sid c
    using live[OF that(1)] that(2) False by (force simp: Close_manager_def Let_def map_filter_def)
  then have "clients_good ?m"
    using clients_goodD[OF g(5)] sub unfolding clients_good_def so f(2) by blast
  moreover have "startups_good ?m" "watchers_good ?m"
    using startups_goodD[OF g(2)] watchers_goodD[OF g(3)]
    unfolding startups_good_def watchers_good_def so own f by auto
  ultimately show ?thesis by (simp add: manager_good_def sessions_good_def so f(1))
qed

lemma kept_step: "manager_good m \<Longrightarrow> manager_good (manager_step e m)"
  by (cases e) (simp_all add: kept_client_round kept_startupResult kept_startup_step kept_exit kept_watch
      kept_Release kept_Invalidate kept_stop kept_Close kept_clients)


lemma kept_run: "manager_good (reached es)"
  by (rule run_events_invariant[where P = manager_good]) (auto intro: kept_step kept_new)

interpretation sessions: invariant_system
  "\<lambda>m. m = NewManager" "\<lambda>m m'. \<exists>e. m' = manager_step e m" manager_good
  by unfold_locales (auto intro: kept_new kept_step)

section \<open>Properties\<close>

text \<open>
  C15. No clangd process and no client is ever lost: whatever the order of requests, start-ups,
  crashes, releases, invalidations, idle timers and shutdown, a running process either is the
  process of the session its project has in the manager, or still belongs to a start-up that is
  running, and the same holds of the clients.  A closed manager whose start-ups have ended has no
  running process and no open client.
\<close>

theorem no_process_lost:
  "let m = reached es in
   (\<forall>p. p \<in> mg_alive m \<longrightarrow>
      (\<exists>key sid. session_of m key = Some sid \<and> ss_process (mg_heap m sid) = Some p) \<or>
      (\<exists>key sid st. mg_startups m p = Some (key, sid, st) \<and> holds_process st)) \<and>
   (\<forall>c. c \<in> mg_open m \<longrightarrow>
      (\<exists>key sid. session_of m key = Some sid \<and> ss_client (mg_heap m sid) = Some c) \<or>
      (\<exists>key sid. mg_startups m c = Some (key, sid, Connected))) \<and>
   (mg_closed m \<and> mg_startups m = (\<lambda>_. None) \<longrightarrow> mg_alive m = {} \<and> mg_open m = {})"
proof -
  note g = manager_goodD[OF kept_run[of es]]
  show ?thesis
    using processes_goodD[OF g(4)] clients_goodD[OF g(5)] g(7)
    by (auto simp: Let_def session_of_def)
qed

definition sample_config :: ProjectConfig where
  "sample_config = \<lparr>cfg_ID = ''p'', cfg_Clangd = ''clangd'', cfg_CompilationDatabase = '''', cfg_CacheDir = ''/c'',
     cfg_RootURI = ''file:///p'', cfg_Threads = 1, cfg_IdleTimeout = 60, cfg_IndexGraceTimeout = 2\<rparr>"

definition fresh_client :: "startup_error option \<times> client_state" where
  "fresh_client = (None, \<lparr>cs_index = new_index, cs_docs = no_documents\<rparr>)"

text \<open>A start-up that succeeds, from its first step.\<close>

definition successful_start :: "nat \<Rightarrow> manager_event list" where
  "successful_start a = replicate 5 (StartupStep a None fresh_client 0)"

lemmas session_eval = successful_start_def eval_nat_numeral startup_step_def finishStartup_def client_round_def
  Close_manager_def sample_config_def fresh_client_def effective_config_def NewManager_def new_session_def
  live_sessions_def map_filter_simps startupResult_def Release_def Invalidate_session_def watch_session_def
  stop_session_def retireLocked_def op_defs fun_eq_iff

theorem no_process_lost_witness:
  "mg_alive (reached ([AskClient sample_config 0] @ successful_start 0 @ [CloseStep])) = {}"
proof -
  let ?es = "[AskClient sample_config 0] @ successful_start 0 @ [CloseStep]"
  have "mg_closed (reached ?es)" "mg_startups (reached ?es) = (\<lambda>_. None)"
    by (simp_all add: session_eval)
  then show ?thesis using no_process_lost[of ?es] by (simp add: Let_def)
qed

end
