(* ===== verification/LspWaiters.thy ===== *)
theory LspWaiters
  imports LspSessions
begin

text \<open>
  Who waits for a start-up, and who is woken: the start-ups of live sessions are shared and wake
  their waiters; a start-up whose session is retired before its process is published leaves its
  waiters behind.  And the reference count across a crash.
\<close>

section \<open>One start-up per session\<close>

text \<open>
  C16. Start-ups are shared: as long as a session is in the manager, the channel its waiters wait
  on belongs to a start-up that is running for it, no other start-up runs for it, and while it
  runs there is no client.
\<close>

theorem startups_are_shared:
  "session_of (reached es) key = Some sid \<Longrightarrow>
   (\<forall>a. ss_starting (mg_heap (reached es) sid) = Some a \<longleftrightarrow>
        (\<exists>st. mg_startups (reached es) a = Some (key, sid, st))) \<and>
   (ss_starting (mg_heap (reached es) sid) \<noteq> None \<longrightarrow> ss_client (mg_heap (reached es) sid) = None)"
proof -
  assume l: "session_of (reached es) key = Some sid"
  note g = manager_goodD[OF kept_run[of es]]
  note s = sessions_goodD[OF g(1) l, unfolded session_good_def]
  have "ss_starting (mg_heap (reached es) sid) = Some a" if "mg_startups (reached es) a = Some (key, sid, st)" for a st
    using startups_goodD[OF g(2) that] l by blast
  with s show ?thesis
    by (cases "ss_starting (mg_heap (reached es) sid)") (force, fastforce)
qed

theorem startups_are_shared_witness:
  "session_of (reached [AskClient sample_config 0]) ''p'' = Some 0 \<and>
   (\<exists>st. mg_startups (reached [AskClient sample_config 0]) 0 = Some (''p'', 0, st))"
proof -
  have l: "session_of (reached [AskClient sample_config 0]) ''p'' = Some 0"
    and "ss_starting (mg_heap (reached [AskClient sample_config 0]) 0) = Some 0"
    by (simp_all add: session_eval)
  with startups_are_shared[OF l] show ?thesis by blast
qed

section \<open>Waiters of live sessions are woken\<close>

definition stage_rank :: "stage \<Rightarrow> nat" where
  "stage_rank st = (case st of Fresh \<Rightarrow> 5 | Checked \<Rightarrow> 4 | Launched \<Rightarrow> 3 | Published \<Rightarrow> 2 | Connected \<Rightarrow> 1)"

text \<open>Start-up \<open>a\<close> has at most \<open>n\<close> steps left and its channel is the one of session \<open>sid\<close>.\<close>

definition waiting :: "nat \<Rightarrow> string \<Rightarrow> nat \<Rightarrow> nat \<Rightarrow> manager \<Rightarrow> bool" where
  "waiting a key sid n m \<longleftrightarrow>
     ss_starting (mg_heap m sid) = Some a \<and>
     (\<exists>st. mg_startups m a = Some (key, sid, st) \<and> stage_rank st \<le> n)"

fun is_step_of :: "nat \<Rightarrow> manager_event \<Rightarrow> bool" where
  "is_step_of a (StartupStep b _ _ _) = (b = a)"
| "is_step_of a _ = False"

lemma woken_mono: "mg_woken m \<subseteq> mg_woken (manager_step e m)"
proof (cases e)
  case (AskClient cfg now)
  then show ?thesis
    by (auto simp: client_round_def retireLocked_def op_defs split: option.split)
next
  case (AwaitStartup d key sid)
  then show ?thesis by (auto simp: startupResult_def op_defs split: option.split)
next
  case (StartupStep a l p now)
  then show ?thesis
    by (auto simp: startup_step_def finishStartup_def op_defs split: option.split stage.split)
qed (auto simp: watch_session_def Release_def Invalidate_session_def stop_session_def Close_manager_def
    retireLocked_def op_defs split: option.split)

lemma own_step:
  assumes w: "waiting a key sid n m" and l: "session_of m key = Some sid" and c: "\<not> mg_closed m"
  shows "a \<in> mg_woken (startup_step a la p now m) \<or> waiting a key sid (n - 1) (startup_step a la p now m)"
proof -
  from w obtain st where st: "mg_startups m a = Some (key, sid, st)" "stage_rank st \<le> n"
    and s: "ss_starting (mg_heap m sid) = Some a" by (auto simp: waiting_def)
  have fin: "a \<in> mg_woken (finishStartup a key sid q d err now m')"
    if "mg_heap m' = mg_heap m" "mg_sessions m' = mg_sessions m" "mg_closed m' = mg_closed m" for q d err m'
    using that s l c by (auto simp: finishStartup_def op_defs split: option.split)
  have move: "waiting a key sid (n - 1) m'"
    if "mg_startups m' a = Some (key, sid, st')" "ss_starting (mg_heap m' sid) = Some a"
      "stage_rank st = Suc (stage_rank st')" for m' st'
    using that st by (auto simp: waiting_def)
  show ?thesis
  proof (cases st)
    case Fresh
    show ?thesis
    proof (cases "a \<in> mg_cancelled m")
      case True
      with Fresh st fin show ?thesis by (simp add: startup_step_def)
    next
      case False
      have "waiting a key sid (n - 1) (m\<lparr>mg_startups := (mg_startups m)(a \<mapsto> (key, sid, Checked))\<rparr>)"
        by (rule move[where st' = Checked]) (simp_all add: Fresh s stage_rank_def)
      with False Fresh st show ?thesis by (simp add: startup_step_def)
    qed
  next
    case Checked
    show ?thesis
    proof (cases la)
      case (Some err)
      with Checked st fin show ?thesis by (simp add: startup_step_def)
    next
      case None
      have "waiting a key sid (n - 1) (m\<lparr>mg_alive := insert a (mg_alive m),
          mg_startups := (mg_startups m)(a \<mapsto> (key, sid, Launched))\<rparr>)"
        by (rule move[where st' = Launched]) (simp_all add: Checked s stage_rank_def)
      with None Checked st show ?thesis by (simp add: startup_step_def)
    qed
  next
    case Launched
    have "waiting a key sid (n - 1) ((set_session sid ((mg_heap m sid)\<lparr>ss_process := Some a\<rparr>) m)
        \<lparr>mg_startups := (mg_startups m)(a \<mapsto> (key, sid, Published))\<rparr>)"
      by (rule move[where st' = Published]) (simp_all add: Launched s stage_rank_def set_session_def)
    with l c Launched st show ?thesis by (simp add: startup_step_def)
  next
    case Published
    have "waiting a key sid (n - 1) (m\<lparr>mg_open := insert a (mg_open m),
        mg_clients := (mg_clients m)(a := \<lparr>cs_index = new_index, cs_docs = no_documents\<rparr>),
        mg_startups := (mg_startups m)(a \<mapsto> (key, sid, Connected))\<rparr>)"
      by (rule move[where st' = Connected]) (simp_all add: Published s stage_rank_def)
    with Published st show ?thesis by (simp add: startup_step_def)
  next
    case Connected
    with st fin show ?thesis by (auto simp: startup_step_def)
  qed
qed

text \<open>A request for a client leaves the start-ups that run alone.\<close>

lemma client_round_keeps:
  assumes s: "ss_starting (mg_heap m sid) = Some a" and i: "mg_next m \<noteq> sid" "mg_starts m \<noteq> a"
  shows "ss_starting (mg_heap (snd (client_round cfg now m)) sid) = Some a"
    and "mg_startups (snd (client_round cfg now m)) a = mg_startups m a"
proof -
  let ?m = "snd (client_round cfg now m)"
  have "ss_starting (mg_heap ?m sid) = Some a \<and> mg_startups ?m a = mg_startups m a"
  proof (cases "mg_closed m")
    case True
    with s show ?thesis by (simp add: client_round_def Let_def)
  next
    case open_m: False
    show ?thesis
    proof (cases "session_of m (cfg_ID cfg)")
      case None
      with open_m s i show ?thesis
        by (simp add: client_round_def spawn_startup_def set_session_def Let_def)
    next
      case (Some k)
      show ?thesis
      proof (cases "ss_stale (mg_heap m k) \<or> ss_config (mg_heap m k) \<noteq> cfg")
        case True
        with open_m Some s show ?thesis
          by (auto simp: client_round_def Let_def retireLocked_def cleanupStartup_def set_session_def)
      next
        case False
        with open_m Some s i show ?thesis
          by (cases "ss_client (mg_heap m k)"; cases "ss_starting (mg_heap m k)"; cases "k = sid")
            (simp_all add: client_round_def Let_def acquire_def spawn_startup_def set_session_def split: option.split)
      qed
    qed
  qed
  then show "ss_starting (mg_heap ?m sid) = Some a" "mg_startups ?m a = mg_startups m a" by simp_all
qed

text \<open>No other event disturbs a waiting session that stays in the manager.\<close>

lemma other_step:
  assumes good: "manager_good m" and w: "waiting a key sid n m" and l: "session_of m key = Some sid"
    and l': "session_of (manager_step e m) key = Some sid" and e: "\<not> is_step_of a e"
  shows "waiting a key sid n (manager_step e m)"
proof -
  note g = manager_goodD[OF good]
  from w obtain st where st: "mg_startups m a = Some (key, sid, st)" "stage_rank st \<le> n"
    and s: "ss_starting (mg_heap m sid) = Some a" by (auto simp: waiting_def)
  have cl: "ss_client (mg_heap m sid) = None"
    using sessions_goodD[OF g(1) l] s by (auto simp: session_good_def)
  have sid: "sid < mg_next m" "owner m sid = key" using sessions_goodD[OF g(1) l] by auto
  have a: "a < mg_starts m" using startups_goodD[OF g(2) st(1)] by simp
  have same: "k = key" if "session_of m k = Some sid" for k
    using sessions_goodD[OF g(1) that] sid by simp
  have keep: "waiting a key sid n m'" if "ss_starting (mg_heap m' sid) = Some a" "mg_startups m' a = mg_startups m a" for m'
    using that st by (auto simp: waiting_def)
  show ?thesis
  proof (cases e)
    case (AskClient cfg now)
    have i: "mg_next m \<noteq> sid" "mg_starts m \<noteq> a" using sid a by auto
    with client_round_keeps[OF s, of "effective_config cfg" now] show ?thesis
      unfolding AskClient manager_step.simps by (intro keep) simp_all
  next
    case (StartupStep b la p now)
    then have "b \<noteq> a" using e by simp
    have "i \<noteq> sid" if "mg_startups m b = Some (k, i, t)" for k i t
      using startups_goodD[OF g(2) that] s l sid \<open>b \<noteq> a\<close> by auto
    with \<open>b \<noteq> a\<close> show ?thesis
      unfolding StartupStep manager_step.simps
      by (intro keep) (auto simp: s startup_step_def finishStartup_def op_defs split: option.split stage.split prod.split)
  next
    case (WatchStep p now)
    have "i \<noteq> sid" if "mg_watchers m p = Some (k, i)" for k i
      using watchers_goodD[OF g(3) that] cl l sid by auto
    then show ?thesis
      unfolding WatchStep manager_step.simps
      by (intro keep) (auto simp: s watch_session_def op_defs split: option.split)
  next
    case (ReleaseStep k)
    then show ?thesis
      by (auto intro!: keep simp: s Release_def retireLocked_def op_defs split: option.split)
  next
    case (InvalidateStep k)
    then show ?thesis
      by (auto intro!: keep simp: s Invalidate_session_def retireLocked_def op_defs split: option.split)
  next
    case (IdleFire k i)
    then show ?thesis
      by (auto intro!: keep simp: s stop_session_def op_defs)
  next
    case CloseStep
    then show ?thesis using l l' w by (auto simp: Close_manager_def session_of_def Let_def)
  next
    case (AwaitStartup d k i)
    then show ?thesis
      using s by (auto intro!: keep simp: startupResult_def op_defs split: option.split)
  next
    case (ProcessExit p)
    then show ?thesis by (auto intro!: keep simp: s)
  next
    case (ClientActivity c cs)
    then show ?thesis by (auto intro!: keep simp: s)
  qed
qed


definition steps_of :: "nat \<Rightarrow> manager_event list \<Rightarrow> nat" where
  "steps_of a es = length (filter (is_step_of a) es)"

lemma live_not_closed: "manager_good m \<Longrightarrow> session_of m key = Some sid \<Longrightarrow> \<not> mg_closed m"
  by (auto simp: manager_good_def session_of_def)

lemma woken_run: "a \<in> mg_woken m \<Longrightarrow> a \<in> mg_woken (run_events manager_step es m)"
  by (rule run_events_invariant[where P = "\<lambda>m. a \<in> mg_woken m"]) (use woken_mono in auto)

lemma waiting_pos: "waiting a key sid n m \<Longrightarrow> 0 < n"
proof -
  have "0 < stage_rank st" for st by (cases st) (simp_all add: stage_rank_def)
  then show "waiting a key sid n m \<Longrightarrow> 0 < n" by (auto simp: waiting_def intro: less_le_trans)
qed

lemma waiting_run:
  assumes "manager_good m" and "waiting a key sid n m"
    and "\<forall>k \<le> length es. session_of (run_events manager_step (take k es) m) key = Some sid"
  shows "a \<in> mg_woken (run_events manager_step es m) \<or>
         waiting a key sid (n - steps_of a es) (run_events manager_step es m)"
  using assms
proof (induction es arbitrary: m n)
  case Nil
  then show ?case by (simp add: steps_of_def)
next
  case (Cons e es)
  have l: "session_of m key = Some sid" using Cons.prems(3) by (auto dest: spec[of _ 0])
  have ls: "\<forall>k \<le> length es. session_of (run_events manager_step (take k es) (manager_step e m)) key = Some sid"
    using Cons.prems(3) by (auto dest: spec[of _ "Suc _"])
  then have l': "session_of (manager_step e m) key = Some sid" by (auto dest: spec[of _ 0])
  note good' = kept_step[OF Cons.prems(1), of e]
  show ?case
  proof (cases "is_step_of a e")
    case True
    then obtain la p now where e: "e = StartupStep a la p now" by (cases e) auto
    from own_step[OF Cons.prems(2) l live_not_closed[OF Cons.prems(1) l], of la p now]
    show ?thesis
    proof
      assume "a \<in> mg_woken (startup_step a la p now m)"
      then show ?thesis by (simp add: e woken_run)
    next
      assume "waiting a key sid (n - 1) (startup_step a la p now m)"
      with Cons.IH[OF good' _ ls, of "n - 1"] show ?thesis by (simp add: e steps_of_def)
    qed
  next
    case False
    with Cons.IH[OF good' other_step[OF Cons.prems(1,2) l l' False] ls] show ?thesis
      by (simp add: steps_of_def)
  qed
qed

text \<open>
  C17. Nobody waits forever on a live session: once the goroutine of the start-up has taken five
  steps, in whatever interleaving with other events and with whatever outcome, the channel is
  closed and the waiters go on, provided the session stays in the manager.
\<close>

theorem live_waiters_are_woken:
  assumes "session_of (reached es) key = Some sid"
    and "ss_starting (mg_heap (reached es) sid) = Some a"
    and "\<forall>k \<le> length es'. session_of (run_events manager_step (take k es') (reached es)) key = Some sid"
    and "5 \<le> steps_of a es'"
  shows "a \<in> mg_woken (run_events manager_step es' (reached es))"
proof -
  note g = manager_goodD[OF kept_run[of es]]
  have "waiting a key sid 5 (reached es)"
    using sessions_goodD[OF g(1) assms(1)] assms(2)
    by (auto simp: waiting_def session_good_def stage_rank_def split: stage.split)
  from waiting_run[OF kept_run this assms(3)] assms(4) waiting_pos show ?thesis by fastforce
qed

theorem live_waiters_are_woken_witness:
  "0 \<in> mg_woken (run_events manager_step (successful_start 0) (reached [AskClient sample_config 0]))"
proof -
  let ?es = "[AskClient sample_config 0]"
  have l: "session_of (reached ?es) ''p'' = Some 0"
    and s: "ss_starting (mg_heap (reached ?es) 0) = Some 0"
    by (simp_all add: session_eval)
  have len: "length (successful_start 0) = 5" by (simp add: successful_start_def)
  have live: "\<forall>k \<le> length (successful_start 0).
      session_of (run_events manager_step (take k (successful_start 0)) (reached ?es)) ''p'' = Some 0"
  proof (intro allI impI)
    fix k assume "k \<le> length (successful_start 0)"
    then have "k = 0 \<or> k = 1 \<or> k = 2 \<or> k = 3 \<or> k = 4 \<or> k = 5" unfolding len by auto
    then show "session_of (run_events manager_step (take k (successful_start 0)) (reached ?es)) ''p'' = Some 0"
      by (elim disjE) (simp_all add: session_eval)
  qed
  have "5 \<le> steps_of 0 (successful_start 0)" by (simp add: steps_of_def successful_start_def)
  from live_waiters_are_woken[OF l s live this] show ?thesis .
qed


section \<open>Waiters of a session retired too early\<close>

text \<open>
  The session is gone, no start-up of it runs, and the channel of start-up \<open>a\<close> is open: from here
  on nothing closes it.
\<close>

definition abandoned :: "nat \<Rightarrow> nat \<Rightarrow> manager \<Rightarrow> bool" where
  "abandoned a sid m \<longleftrightarrow>
     a < mg_starts m \<and> sid < mg_next m \<and> a \<notin> mg_woken m \<and>
     (\<forall>key. session_of m key \<noteq> Some sid) \<and>
     (\<forall>b key st. mg_startups m b \<noteq> Some (key, sid, st)) \<and>
     (\<forall>i. ss_starting (mg_heap m i) = Some a \<longrightarrow> i = sid)"

lemma abandonedD:
  assumes "abandoned a sid m"
  shows "a < mg_starts m" "sid < mg_next m" "a \<notin> mg_woken m" "session_of m key \<noteq> Some sid"
    "mg_startups m b \<noteq> Some (key, sid, st)" "ss_starting (mg_heap m i) = Some a \<Longrightarrow> i = sid"
  using assms by (simp_all add: abandoned_def)

lemma abandonedI:
  assumes old: "abandoned a sid m" and "mg_starts m \<le> mg_starts m'" "mg_next m \<le> mg_next m'"
    and "a \<in> mg_woken m' \<Longrightarrow> a \<in> mg_woken m"
    and "\<And>key. session_of m' key = Some sid \<Longrightarrow> session_of m key = Some sid"
    and "\<And>b key st. mg_startups m' b = Some (key, sid, st) \<Longrightarrow> \<exists>st. mg_startups m b = Some (key, sid, st)"
    and "\<And>i. ss_starting (mg_heap m' i) = Some a \<Longrightarrow> ss_starting (mg_heap m i) = Some a"
  shows "abandoned a sid m'"
  using assms unfolding abandoned_def by (metis order_less_le_trans)

lemma abandoned_round:
  assumes ab: "abandoned a sid m"
  shows "abandoned a sid (snd (client_round cfg now m))"
proof (cases "mg_closed m")
  case True
  with ab show ?thesis by (simp add: client_round_def Let_def)
next
  case open_m: False
  note d = abandonedD[OF ab]
  have n: "mg_next m \<noteq> sid" "mg_starts m \<noteq> a" using d(1,2) by auto
  show ?thesis
  proof (cases "session_of m (cfg_ID cfg)")
    case None
    with open_m n show ?thesis
      by (intro abandonedI[OF ab])
        (auto simp: client_round_def spawn_startup_def set_session_def new_session_def session_of_eq Let_def split: if_splits)
  next
    case (Some k)
    then have k: "k \<noteq> sid" using d(4) by blast
    show ?thesis
    proof (cases "ss_stale (mg_heap m k) \<or> ss_config (mg_heap m k) \<noteq> cfg")
      case True
      with open_m Some show ?thesis
        by (intro abandonedI[OF ab])
          (auto simp: client_round_def Let_def retireLocked_def cleanupStartup_def set_session_def session_of_eq split: if_splits)
    next
      case False
      with open_m Some n k show ?thesis
        by (intro abandonedI[OF ab]; cases "ss_client (mg_heap m k)"; cases "ss_starting (mg_heap m k)")
          (auto simp: client_round_def Let_def acquire_def spawn_startup_def set_session_def session_of_eq
            split: if_splits option.splits)
    qed
  qed
qed

lemma abandoned_startup:
  assumes ab: "abandoned a sid m"
  shows "abandoned a sid (startup_step b la p now m)"
proof (cases "mg_startups m b")
  case None
  with ab show ?thesis by (simp add: startup_step_def)
next
  case (Some r)
  obtain key i st where "r = (key, i, st)" by (cases r)
  with Some have run: "mg_startups m b = Some (key, i, st)" by simp
  note d = abandonedD[OF ab]
  have i: "i \<noteq> sid" using d(5) run by blast
  then have na: "ss_starting (mg_heap m i) \<noteq> Some a" using d(6) by blast
  have fin: "abandoned a sid (finishStartup b key i q c err now m')"
    if "mg_heap m' = mg_heap m" "mg_sessions m' = mg_sessions m" "mg_startups m' = mg_startups m"
      "mg_starts m' = mg_starts m" "mg_next m' = mg_next m" "mg_woken m' = mg_woken m" for q c err m'
    using that na i
    by (intro abandonedI[OF ab])
      (auto simp: finishStartup_def op_defs split: if_splits option.splits)
  show ?thesis
  proof (cases st)
    case Fresh
    have "abandoned a sid (m\<lparr>mg_startups := (mg_startups m)(b \<mapsto> (key, i, Checked))\<rparr>)"
      using i by (intro abandonedI[OF ab]) (auto simp: session_of_eq split: if_splits)
    with Fresh run show ?thesis by (simp add: startup_step_def fin)
  next
    case Checked
    have "abandoned a sid (m\<lparr>mg_alive := insert b (mg_alive m), mg_startups := (mg_startups m)(b \<mapsto> (key, i, Launched))\<rparr>)"
      using i by (intro abandonedI[OF ab]) (auto simp: session_of_eq split: if_splits)
    with Checked run show ?thesis by (simp add: startup_step_def fin split: option.split)
  next
    case Launched
    with run i na show ?thesis
      by (auto simp: startup_step_def op_defs intro!: abandonedI[OF ab] split: if_splits)
  next
    case Published
    with run i show ?thesis
      by (auto simp: startup_step_def intro!: abandonedI[OF ab] split: if_splits simp: session_of_eq)
  next
    case Connected
    with run show ?thesis by (auto simp: startup_step_def intro!: fin)
  qed
qed

lemma abandoned_Close:
  assumes ab: "abandoned a sid m" and good: "manager_good m"
  shows "abandoned a sid (Close_manager m)"
proof (cases "mg_closed m")
  case True
  with ab show ?thesis by (simp add: Close_manager_def)
next
  case False
  have "sid \<notin> set (live_sessions m)"
    using abandonedD(4)[OF ab] manager_goodD(6)[OF good]
    by (auto simp: live_sessions_def session_of_def)
  then have "ss_starting (mg_heap m i) \<noteq> Some a" if "i \<in> set (live_sessions m)" for i
    using abandonedD(6)[OF ab] that by blast
  with False show ?thesis
    by (intro abandonedI[OF ab])
      (force simp: Close_manager_def Let_def session_of_eq map_filter_def split: if_splits)+
qed

lemma abandoned_step:
  assumes ab: "abandoned a sid m" and good: "manager_good m"
  shows "abandoned a sid (manager_step e m)"
proof -
  note d = abandonedD[OF ab]
  have gone: "abandoned a sid m'" if "mg_starts m' = mg_starts m" "mg_next m' = mg_next m" "mg_woken m' = mg_woken m"
    "mg_startups m' = mg_startups m" "\<And>k. session_of m' k = Some sid \<Longrightarrow> session_of m k = Some sid"
    "\<And>i. ss_starting (mg_heap m' i) = Some a \<Longrightarrow> ss_starting (mg_heap m i) = Some a" for m'
    using that by (intro abandonedI[OF ab]) auto
  show ?thesis
    by (cases e)
      (auto simp: abandoned_round[OF ab] abandoned_startup[OF ab] abandoned_Close[OF ab good] startupResult_def
        watch_session_def Release_def Invalidate_session_def stop_session_def retireLocked_def op_defs ab
        intro!: gone split: option.splits if_splits)
qed


text \<open>No session runs two start-ups, even one that was dropped; no channel belongs to two sessions.\<close>

definition starts_unique :: "manager \<Rightarrow> bool" where
  "starts_unique m \<longleftrightarrow>
     (\<forall>a b k k' sid st st'. mg_startups m a = Some (k, sid, st) \<longrightarrow> mg_startups m b = Some (k', sid, st') \<longrightarrow> a = b) \<and>
     (\<forall>i a. ss_starting (mg_heap m i) = Some a \<longrightarrow> a < mg_starts m) \<and>
     (\<forall>i j a. ss_starting (mg_heap m i) = Some a \<longrightarrow> ss_starting (mg_heap m j) = Some a \<longrightarrow> i = j)"

lemma uniqueI:
  assumes "starts_unique m" and "mg_starts m \<le> mg_starts m'"
    and "\<And>b key sid st. mg_startups m' b = Some (key, sid, st) \<Longrightarrow> \<exists>key st. mg_startups m b = Some (key, sid, st)"
    and "\<And>i a. ss_starting (mg_heap m' i) = Some a \<Longrightarrow> ss_starting (mg_heap m i) = Some a"
  shows "starts_unique m'"
  using assms unfolding starts_unique_def by (meson order_less_le_trans)

lemma unique_launch:
  assumes u: "starts_unique m" and good: "manager_good m" and s: "ss_starting s = Some (mg_starts m)"
    and sid: "sid = mg_next m \<or> (session_of m key = Some sid \<and> ss_starting (mg_heap m sid) = None)"
    and m': "mg_heap m' = (mg_heap m)(sid := s)" "mg_starts m' = Suc (mg_starts m)"
      "mg_startups m' = (mg_startups m)(mg_starts m \<mapsto> (key, sid, Fresh))"
  shows "starts_unique m'"
proof -
  note g = manager_goodD[OF good]
  have none: "i \<noteq> sid" if "mg_startups m b = Some (k, i, st)" for b k i st
    using startups_goodD[OF g(2) that] sessions_goodD[OF g(1)] sid by fastforce
  have less: "ss_starting (mg_heap m i) = Some a \<Longrightarrow> a < mg_starts m" for i a
    using u unfolding starts_unique_def by blast
  have "a = b" if "mg_startups m' a = Some (k, i, st)" "mg_startups m' b = Some (k', i, st')" for a b k k' i st st'
    using that none u unfolding starts_unique_def m' by (auto split: if_splits)
  moreover have "a < mg_starts m'" if "ss_starting (mg_heap m' i) = Some a" for i a
    using that less s by (fastforce simp: m' split: if_splits)
  moreover have "i = j" if "ss_starting (mg_heap m' i) = Some a" "ss_starting (mg_heap m' j) = Some a" for i j a
    using that less s u unfolding starts_unique_def m' by (fastforce split: if_splits)
  ultimately show ?thesis unfolding starts_unique_def by blast
qed

lemma unique_round:
  assumes u: "starts_unique m" and good: "manager_good m"
  shows "starts_unique (snd (client_round cfg now m))"
proof (cases "mg_closed m")
  case True
  with u show ?thesis by (simp add: client_round_def Let_def)
next
  case open_m: False
  show ?thesis
  proof (cases "session_of m (cfg_ID cfg)")
    case None
    with open_m show ?thesis
      by (intro unique_launch[OF u good, where sid = "mg_next m" and key = "cfg_ID cfg" and s = "new_session cfg (mg_starts m)"])
        (auto simp: client_round_def spawn_startup_def set_session_def new_session_def Let_def)
  next
    case (Some k)
    show ?thesis
    proof (cases "ss_stale (mg_heap m k) \<or> ss_config (mg_heap m k) \<noteq> cfg")
      case True
      with open_m Some show ?thesis
        by (intro uniqueI[OF u])
          (auto simp: client_round_def Let_def retireLocked_def cleanupStartup_def set_session_def split: if_splits)
    next
      case False
      let ?s = "(mg_heap m k)\<lparr>ss_config := cfg, ss_startErr := None, ss_starting := Some (mg_starts m), ss_cancel := Some (mg_starts m)\<rparr>"
      have "ss_starting (mg_heap m k) = None \<Longrightarrow>
          starts_unique (spawn_startup (cfg_ID cfg) k (set_session k ?s m))"
        using Some by (intro unique_launch[OF u good, where sid = k and key = "cfg_ID cfg" and s = ?s])
          (auto simp: spawn_startup_def set_session_def)
      moreover have "starts_unique (acquire k m)"
        by (intro uniqueI[OF u]) (auto simp: acquire_def set_session_def Let_def split: if_splits)
      ultimately show ?thesis
        using False open_m Some u
        by (cases "ss_client (mg_heap m k)"; cases "ss_starting (mg_heap m k)")
          (simp_all add: client_round_def Let_def split: option.split)
    qed
  qed
qed

lemma unique_startup:
  assumes u: "starts_unique m"
  shows "starts_unique (startup_step b la p now m)"
proof -
  have fin: "starts_unique (finishStartup b key i q c err now m')"
    if "mg_heap m' = mg_heap m" "mg_startups m' = mg_startups m" "mg_starts m' = mg_starts m" for key i q c err m'
    using that by (intro uniqueI[OF u]) (auto simp: finishStartup_def op_defs split: if_splits option.splits)
  have same: "starts_unique (m\<lparr>mg_startups := (mg_startups m)(b \<mapsto> (key, i, st'))\<rparr>)"
    if "mg_startups m b = Some (key, i, st)" for key i st st'
    using that by (intro uniqueI[OF u]) (auto split: if_splits)
  have other: "starts_unique m'" if "mg_startups m b = Some (key, i, st)" "mg_starts m' = mg_starts m"
    "mg_startups m' = (mg_startups m)(b := x)" "x = None \<or> (\<exists>st'. x = Some (key, i, st'))"
    "\<And>j. ss_starting (mg_heap m' j) = ss_starting (mg_heap m j)" for m' key i st x
    using that by (intro uniqueI[OF u]) (auto split: if_splits)
  show ?thesis
    unfolding startup_step_def
    by (auto simp: u fin op_defs intro: other split: option.split stage.split prod.split)
qed

lemma unique_step:
  assumes u: "starts_unique m" and good: "manager_good m"
  shows "starts_unique (manager_step e m)"
proof -
  have gone: "starts_unique m'" if "mg_starts m' = mg_starts m" "mg_startups m' = mg_startups m"
    "\<And>i a. ss_starting (mg_heap m' i) = Some a \<Longrightarrow> ss_starting (mg_heap m i) = Some a" for m'
    using that by (intro uniqueI[OF u]) auto
  show ?thesis
    by (cases e)
      (auto simp: unique_round[OF u good] unique_startup[OF u] startupResult_def Close_manager_def
        watch_session_def Release_def Invalidate_session_def stop_session_def retireLocked_def op_defs u
        intro!: gone split: option.splits if_splits)
qed

lemma unique_new: "starts_unique NewManager"
  by (simp add: starts_unique_def NewManager_def)

lemma unique_run: "starts_unique (reached es)"
proof -
  have "manager_good (reached es) \<and> starts_unique (reached es)"
    by (rule run_events_invariant[where P = "\<lambda>m. manager_good m \<and> starts_unique m"])
      (auto intro: kept_step kept_new unique_step unique_new)
  then show ?thesis by simp
qed

text \<open>
  A session retired at the wrong moment strands its waiters: when the session of a launched
  start-up is no longer in the manager at the moment its process would be published, the
  start-up returns without closing the channel, and no later event ever closes it; whoever waits
  on it only returns when its own context ends.
\<close>

theorem early_retirement_strands_waiters:
  assumes "mg_startups (reached es) a = Some (key, sid, Launched)"
    and "session_of (reached es) key \<noteq> Some sid" and "a \<notin> mg_woken (reached es)"
    and "ss_starting (mg_heap (reached es) sid) = Some a"
  shows "a \<notin> mg_woken (run_events manager_step (StartupStep a la p now # es') (reached es))"
proof -
  let ?m = "reached es" and ?m1 = "startup_step a la p now (reached es)"
  note good = kept_run[of es] and u = unique_run[of es, unfolded starts_unique_def]
  note g = manager_goodD[OF good]
  have m1: "?m1 = cleanupStartup (Some a) None None (?m\<lparr>mg_startups := (mg_startups ?m)(a := None)\<rparr>)"
    using assms(1,2) by (simp add: startup_step_def)
  have dead: "session_of ?m k \<noteq> Some sid" for k
    using assms(2) sessions_goodD[OF g(1)] startups_goodD[OF g(2) assms(1)] by metis
  have alone: "b = a" if "mg_startups ?m b = Some (k, sid, st)" for b k st
    using u that assms(1) by blast
  have "abandoned a sid ?m1"
    unfolding abandoned_def m1
    using startups_goodD[OF g(2) assms(1)] assms(3,4) dead alone u
    by (auto simp: cleanupStartup_def session_of_eq split: if_splits)
  moreover have "manager_good ?m1" using kept_startup_step[OF good] .
  ultimately have "abandoned a sid (run_events manager_step es' ?m1) \<and> manager_good (run_events manager_step es' ?m1)"
    by (intro run_events_invariant[where P = "\<lambda>m. abandoned a sid m \<and> manager_good m"])
      (auto intro: abandoned_step kept_step)
  then show ?thesis using abandonedD(3) by auto
qed

theorem early_retirement_strands_waiters_witness:
  "0 \<notin> mg_woken (reached ([AskClient sample_config 0, StartupStep 0 None fresh_client 0,
     StartupStep 0 None fresh_client 0, InvalidateStep ''p''] @ StartupStep 0 None fresh_client 0 # [CloseStep]))"
proof -
  let ?es = "[AskClient sample_config 0, StartupStep 0 None fresh_client 0, StartupStep 0 None fresh_client 0, InvalidateStep ''p'']"
  have "mg_startups (reached ?es) 0 = Some (''p'', 0, Launched)" "session_of (reached ?es) ''p'' \<noteq> Some 0"
    "0 \<notin> mg_woken (reached ?es)" "ss_starting (mg_heap (reached ?es) 0) = Some 0"
    by (simp_all add: session_eval)
  from early_retirement_strands_waiters[OF this, of None fresh_client 0 "[CloseStep]"] show ?thesis
    unfolding run_events_append .
qed

section \<open>References across a crash\<close>

text \<open>
  A holder takes the client; clangd crashes; after the back-off a second request starts it again
  and takes the new client; then the first holder releases.
\<close>

definition crash_trace :: "manager_event list" where
  "crash_trace =
     [AskClient sample_config 0] @ successful_start 0 @ [AwaitStartup False ''p'' 0] @
     [ProcessExit 0, WatchStep 0 0, AskClient sample_config 2000000000] @ successful_start 1 @
     [AwaitStartup False ''p'' 0]"

text \<open>
  The reference count does not survive a restart: after the trace above one client is handed
  out and in use, the release of the old holder takes its reference, and the idle timer then kills
  the process that is in use.
\<close>

theorem stale_release_frees_the_new_client:
  "let m = reached crash_trace;
       m' = reached (crash_trace @ [ReleaseStep ''p'']);
       m'' = reached (crash_trace @ [ReleaseStep ''p'', IdleFire ''p'' 0])
   in fst (startupResult False ''p'' 0 (reached (butlast crash_trace))) = GotClient 1 \<and>
      mg_alive m = {1} \<and> ss_refs (mg_heap m 0) = 1 \<and> ss_refs (mg_heap m' 0) = 0 \<and> mg_alive m'' = {}"
  by code_simp

end
