(* ===== verification/LspSend.thy ===== *)
theory LspSend
  imports LspWire
begin

text \<open>
  Sending to the language server (\<^verbatim>\<open>writeLoop\<close>, \<^verbatim>\<open>send\<close> and \<^verbatim>\<open>sendContext\<close> of \<^verbatim>\<open>internal/lsp/client.go\<close>): any
  number of senders queue their messages for one writer, each may give up when its context ends,
  and a failed write ends the client.  The steps are interleaved arbitrarily; what is shown is what has
  reached the server's input.
\<close>

section \<open>The options\<close>

record ClientOptions =
  co_MaxMessageBytes :: int
  co_RequestTimeout :: int
  co_IndexGraceTimeout :: int

text \<open>The defaults \<^verbatim>\<open>NewClient\<close> fills in; durations are nanoseconds.\<close>

definition defaulted_options :: "ClientOptions \<Rightarrow> ClientOptions" where
  "defaulted_options c =
     \<lparr>co_MaxMessageBytes = effective_max (co_MaxMessageBytes c),
      co_RequestTimeout = (if co_RequestTimeout c \<le> 0 then 30000000000 else co_RequestTimeout c),
      co_IndexGraceTimeout = (if co_IndexGraceTimeout c \<le> 0 then 2000000000 else co_IndexGraceTimeout c)\<rparr>"

section \<open>The steps\<close>

text \<open>
  Where a sender is: before the queue, waiting for the writer's answer, or back with a result; the
  answer waits in the channel of the request, which has room for it.
\<close>

datatype send_result = SendNil | SendWriteError | SendClosed | SendContextDone

datatype send_phase = Offering string | AwaitingWrite string "bool option" | SendReturned string send_result

text \<open>
  \<open>tx_written\<close> are the requests written whole, in order, and \<open>tx_failed\<close> the one whose write failed with
  the part of its frame that was written.
\<close>

record transport =
  tx_queue :: "(nat \<times> string) list"
  tx_senders :: "nat \<rightharpoonup> send_phase"
  tx_done :: bool
  tx_endpoints_closed :: bool
  tx_writing :: bool
  tx_wire :: string
  tx_written :: "(nat \<times> string) list"
  tx_failed :: "(nat \<times> string \<times> string) option"

definition write_capacity :: nat where
  "write_capacity = 32"

definition new_transport :: transport where
  "new_transport =
     \<lparr>tx_queue = [], tx_senders = Map.empty, tx_done = False, tx_endpoints_closed = False, tx_writing = True, tx_wire = '''',
      tx_written = [], tx_failed = None\<rparr>"

definition set_sender :: "nat \<Rightarrow> send_phase \<Rightarrow> transport \<Rightarrow> transport" where
  "set_sender i p t = t\<lparr>tx_senders := (tx_senders t)(i \<mapsto> p)\<rparr>"

text \<open>A new sender: it is refused at once when the client is closed.\<close>

definition begin_send :: "nat \<Rightarrow> string \<Rightarrow> transport \<Rightarrow> transport" where
  "begin_send i body t = set_sender i (if tx_done t then SendReturned body SendClosed else Offering body) t"

definition enqueue_send :: "nat \<Rightarrow> transport \<Rightarrow> transport" where
  "enqueue_send i t =
     (case tx_senders t i of
        Some (Offering body) \<Rightarrow>
          if length (tx_queue t) < write_capacity
          then (set_sender i (AwaitingWrite body None) t)\<lparr>tx_queue := tx_queue t @ [(i, body)]\<rparr> else t
      | _ \<Rightarrow> t)"

text \<open>The context of a sender ends: it closes the transport and ends the client.\<close>

definition cancel_send :: "nat \<Rightarrow> transport \<Rightarrow> transport" where
  "cancel_send i t =
     (let gone = (\<lambda>body. (set_sender i (SendReturned body SendContextDone) t)\<lparr>tx_done := True, tx_endpoints_closed := True\<rparr>) in
      case tx_senders t i of
        Some (Offering body) \<Rightarrow> gone body
      | Some (AwaitingWrite body _) \<Rightarrow> gone body
      | _ \<Rightarrow> t)"

definition refuse_send :: "nat \<Rightarrow> transport \<Rightarrow> transport" where
  "refuse_send i t =
     (if \<not> tx_done t then t
      else case tx_senders t i of
        Some (Offering body) \<Rightarrow> set_sender i (SendReturned body SendClosed) t
      | Some (AwaitingWrite body _) \<Rightarrow> set_sender i (SendReturned body SendClosed) t
      | _ \<Rightarrow> t)"

definition answer_send :: "nat \<Rightarrow> transport \<Rightarrow> transport" where
  "answer_send i t =
     (case tx_senders t i of
        Some (AwaitingWrite body (Some ok)) \<Rightarrow> set_sender i (SendReturned body (if ok then SendNil else SendWriteError)) t
      | _ \<Rightarrow> t)"

text \<open>The answer is put into the request's channel, where a sender that is gone does not look for it.\<close>

definition note_written :: "nat \<Rightarrow> bool \<Rightarrow> transport \<Rightarrow> transport" where
  "note_written i ok t =
     (case tx_senders t i of
        Some (AwaitingWrite body None) \<Rightarrow> set_sender i (AwaitingWrite body (Some ok)) t
      | _ \<Rightarrow> t)"

text \<open>
  The writer takes the next request; \<open>failed_at\<close> is how much of the frame a failing write has passed
  on, \<open>None\<close> for a complete write.
\<close>

definition write_next :: "nat option \<Rightarrow> transport \<Rightarrow> transport" where
  "write_next failed_at t =
     (if \<not> tx_writing t then t
      else case tx_queue t of
        [] \<Rightarrow> t
      | (i, body) # rest \<Rightarrow>
          (case failed_at of
             None \<Rightarrow>
               note_written i True (t\<lparr>tx_queue := rest, tx_wire := tx_wire t @ writeFrame body,
                 tx_written := tx_written t @ [(i, body)]\<rparr>)
           | Some n \<Rightarrow>
               (note_written i False (t\<lparr>tx_queue := rest, tx_wire := tx_wire t @ take n (writeFrame body),
                  tx_failed := Some (i, body, take n (writeFrame body))\<rparr>))
                 \<lparr>tx_done := True, tx_writing := False\<rparr>))"

definition stop_writing :: "transport \<Rightarrow> transport" where
  "stop_writing t = (if tx_done t then t\<lparr>tx_writing := False\<rparr> else t)"

inductive send_step :: "transport \<Rightarrow> transport \<Rightarrow> bool" where
  sender_begins: "tx_senders t i = None \<Longrightarrow> send_step t (begin_send i body t)"
| sender_queues: "send_step t (enqueue_send i t)"
| sender_cancelled: "send_step t (cancel_send i t)"
| sender_refused: "send_step t (refuse_send i t)"
| sender_answered: "send_step t (answer_send i t)"
| writer_writes: "send_step t (write_next failed_at t)"
| writer_stops: "send_step t (stop_writing t)"
| client_terminates: "send_step t (t\<lparr>tx_done := True\<rparr>)"

section \<open>The invariant\<close>

text \<open>The requests that have left the queue, whole or not, and those still in it.\<close>

definition accepted_requests :: "transport \<Rightarrow> (nat \<times> string) list" where
  "accepted_requests t =
     tx_written t @ (case tx_failed t of None \<Rightarrow> [] | Some (i, body, _) \<Rightarrow> [(i, body)]) @ tx_queue t"

fun sender_good :: "transport \<Rightarrow> nat \<Rightarrow> send_phase \<Rightarrow> bool" where
  "sender_good t i (Offering body) \<longleftrightarrow> i \<notin> fst ` set (accepted_requests t)"
| "sender_good t i (AwaitingWrite body None) \<longleftrightarrow> (i, body) \<in> set (tx_queue t)"
| "sender_good t i (AwaitingWrite body (Some ok)) \<longleftrightarrow>
     (if ok then (i, body) \<in> set (tx_written t) else map_option (\<lambda>(j, b, _). (j, b)) (tx_failed t) = Some (i, body))"
| "sender_good t i (SendReturned body r) \<longleftrightarrow>
     (r = SendNil \<longrightarrow> (i, body) \<in> set (tx_written t)) \<and>
     (r = SendWriteError \<longrightarrow> map_option (\<lambda>(j, b, _). (j, b)) (tx_failed t) = Some (i, body))"

definition transport_good :: "transport \<Rightarrow> bool" where
  "transport_good t \<longleftrightarrow>
     tx_wire t = concat (map (writeFrame \<circ> snd) (tx_written t)) @ (case tx_failed t of None \<Rightarrow> '''' | Some (_, _, part) \<Rightarrow> part) \<and>
     (\<forall>i body part. tx_failed t = Some (i, body, part) \<longrightarrow> prefix part (writeFrame body) \<and> \<not> tx_writing t \<and> tx_done t) \<and>
     distinct (map fst (accepted_requests t)) \<and>
     fst ` set (accepted_requests t) \<subseteq> dom (tx_senders t) \<and>
     length (tx_queue t) \<le> write_capacity \<and>
     (\<forall>i p. tx_senders t i = Some p \<longrightarrow> sender_good t i p)"

lemma sender_good_cong:
  assumes "tx_queue t' = tx_queue t" and "tx_written t' = tx_written t" and "tx_failed t' = tx_failed t"
  shows "sender_good t' i p = sender_good t i p" "accepted_requests t' = accepted_requests t"
proof -
  show a: "accepted_requests t' = accepted_requests t" by (simp add: accepted_requests_def assms)
  show "sender_good t' i p = sender_good t i p"
    using assms a by (cases "(t, i, p)" rule: sender_good.cases) auto
qed

lemma good_set_sender:
  assumes "transport_good t" and "sender_good t i p"
  shows "transport_good (set_sender i p t)"
proof -
  have "sender_good (set_sender i p t) = sender_good t" "accepted_requests (set_sender i p t) = accepted_requests t"
    using sender_good_cong[of "set_sender i p t" t] by (simp_all add: set_sender_def fun_eq_iff)
  with assms show ?thesis by (auto simp: transport_good_def set_sender_def)
qed

lemma good_flags:
  assumes "transport_good t"
  shows "transport_good (t\<lparr>tx_done := True\<rparr>)" "transport_good (t\<lparr>tx_done := True, tx_endpoints_closed := True\<rparr>)"
    "transport_good (t\<lparr>tx_writing := False\<rparr>)"
proof -
  have c: "sender_good t' = sender_good t \<and> accepted_requests t' = accepted_requests t"
    if "tx_queue t' = tx_queue t" "tx_written t' = tx_written t" "tx_failed t' = tx_failed t" for t'
    using sender_good_cong[OF that] by (simp add: fun_eq_iff)
  show "transport_good (t\<lparr>tx_done := True\<rparr>)" "transport_good (t\<lparr>tx_done := True, tx_endpoints_closed := True\<rparr>)"
    "transport_good (t\<lparr>tx_writing := False\<rparr>)"
    using assms c[of "t\<lparr>tx_done := True\<rparr>"] c[of "t\<lparr>tx_done := True, tx_endpoints_closed := True\<rparr>"] c[of "t\<lparr>tx_writing := False\<rparr>"]
    by (auto simp: transport_good_def)
qed

lemma transport_goodD: "transport_good t \<Longrightarrow> tx_senders t i = Some p \<Longrightarrow> sender_good t i p"
  by (simp add: transport_good_def)

lemma good_begin: "transport_good t \<Longrightarrow> tx_senders t i = None \<Longrightarrow> transport_good (begin_send i body t)"
proof -
  assume g: "transport_good t" and "tx_senders t i = None"
  then have "i \<notin> fst ` set (accepted_requests t)" by (auto simp: transport_good_def dom_def)
  with g show ?thesis by (simp add: begin_send_def good_set_sender)
qed

lemma good_enqueue:
  assumes "transport_good t"
  shows "transport_good (enqueue_send i t)"
proof (cases "\<exists>body. tx_senders t i = Some (Offering body) \<and> length (tx_queue t) < write_capacity")
  case False
  then have "enqueue_send i t = t" by (auto simp: enqueue_send_def split: option.split send_phase.split)
  with assms show ?thesis by simp
next
  case True
  then obtain body where b: "tx_senders t i = Some (Offering body)" "length (tx_queue t) < write_capacity" by blast
  let ?t = "(set_sender i (AwaitingWrite body None) t)\<lparr>tx_queue := tx_queue t @ [(i, body)]\<rparr>"
  have fresh: "i \<notin> fst ` set (accepted_requests t)" using transport_goodD[OF assms b(1)] by simp
  have acc: "accepted_requests ?t = accepted_requests t @ [(i, body)]" by (simp add: accepted_requests_def set_sender_def)
  have "sender_good ?t j p" if "tx_senders ?t j = Some p" for j p
  proof (cases "j = i")
    case True
    with that have "p = AwaitingWrite body None" by (simp add: set_sender_def)
    with True show ?thesis by simp
  next
    case False
    with that have "sender_good t j p" using assms by (simp add: set_sender_def transport_good_def)
    with False acc show ?thesis by (cases "(t, j, p)" rule: sender_good.cases) (auto simp: set_sender_def)
  qed
  with assms b acc fresh show ?thesis
    by (auto simp: enqueue_send_def transport_good_def set_sender_def)
qed

lemma good_cancel: "transport_good t \<Longrightarrow> transport_good (cancel_send i t)"
  by (auto simp: cancel_send_def Let_def intro!: good_flags(2) good_set_sender split: option.split send_phase.split)

lemma good_refuse: "transport_good t \<Longrightarrow> transport_good (refuse_send i t)"
  by (auto simp: refuse_send_def intro!: good_set_sender split: option.split send_phase.split)

lemma good_answer: "transport_good t \<Longrightarrow> transport_good (answer_send i t)"
  by (auto simp: answer_send_def intro!: good_set_sender split: option.split send_phase.split dest: transport_goodD)

text \<open>Noting the outcome of a write keeps the requests and settles the sender.\<close>

lemma note_written_fields [simp]:
  "tx_queue (note_written i ok t) = tx_queue t" "tx_written (note_written i ok t) = tx_written t"
  "tx_failed (note_written i ok t) = tx_failed t" "tx_wire (note_written i ok t) = tx_wire t"
  "tx_writing (note_written i ok t) = tx_writing t" "tx_done (note_written i ok t) = tx_done t"
  "tx_senders (note_written i ok t) j = (case tx_senders t j of
     Some (AwaitingWrite body None) \<Rightarrow> Some (AwaitingWrite body (if j = i then Some ok else None)) | p \<Rightarrow> p)"
  by (auto simp: note_written_def set_sender_def split: option.split send_phase.split)

lemma note_written_dom: "dom (tx_senders (note_written i ok t)) = dom (tx_senders t)"
  by (auto simp: note_written_def set_sender_def split: option.split send_phase.split)

lemma good_write:
  assumes g: "transport_good t"
  shows "transport_good (write_next failed_at t)"
proof (cases "tx_writing t \<and> tx_queue t \<noteq> []")
  case False
  then have "write_next failed_at t = t" by (auto simp: write_next_def split: list.split)
  with g show ?thesis by simp
next
  case True
  then obtain i body rest where q: "tx_queue t = (i, body) # rest" by (auto simp: neq_Nil_conv)
  have none: "tx_failed t = None" using g True by (cases "tx_failed t") (auto simp: transport_good_def)
  let ?t = "write_next failed_at t"
  have acc: "accepted_requests ?t = accepted_requests t"
    using True q none by (simp add: accepted_requests_def write_next_def split: option.split)
  have once: "j \<noteq> i" if "(j, b) \<in> set rest" for j b
  proof -
    have "distinct (map fst (tx_queue t))" using g by (simp add: transport_good_def accepted_requests_def none)
    then have "i \<notin> fst ` set rest" by (simp add: q)
    with that show ?thesis by (metis fst_conv image_eqI)
  qed
  have dom: "dom (tx_senders ?t) = dom (tx_senders t)"
    using True q by (simp add: write_next_def note_written_dom split: option.split)
  have senders: "sender_good ?t j p" if p: "tx_senders ?t j = Some p" for j p
  proof -
    obtain r where r: "tx_senders t j = Some r" "sender_good t j r"
      using p dom g by (metis domD domI transport_goodD)
    show ?thesis
    proof (cases "(t, j, r)" rule: sender_good.cases)
      case (1 t' j' b)
      with p r True q acc show ?thesis by (auto simp: write_next_def split: option.splits)
    next
      case (2 t' j' b)
      with r q have "j = i \<and> b = body \<or> j \<noteq> i \<and> (j, b) \<in> set rest" using once by auto
      with 2 p r True q show ?thesis by (auto simp: write_next_def split: option.splits)
    next
      case (3 t' j' b ok)
      with p r True q none show ?thesis by (auto simp: write_next_def split: option.splits if_splits)
    next
      case (4 t' j' b res)
      with p r True q none show ?thesis by (auto simp: write_next_def split: option.splits)
    qed
  qed
  have "tx_wire ?t = concat (map (writeFrame \<circ> snd) (tx_written ?t)) @ (case tx_failed ?t of None \<Rightarrow> '''' | Some (_, _, part) \<Rightarrow> part)"
    using g True q none by (simp add: transport_good_def write_next_def split: option.split)
  moreover have "prefix part (writeFrame b) \<and> \<not> tx_writing ?t \<and> tx_done ?t" if "tx_failed ?t = Some (j, b, part)" for j b part
    using that True q none by (auto simp: write_next_def take_is_prefix split: option.splits)
  moreover have "length (tx_queue ?t) \<le> write_capacity"
    using g True q by (simp add: transport_good_def write_next_def split: option.split)
  ultimately show ?thesis
    using g senders by (simp add: transport_good_def acc dom)
qed

lemma good_stop: "transport_good t \<Longrightarrow> transport_good (stop_writing t)"
  by (simp add: stop_writing_def good_flags)

lemma good_send_step: "transport_good t \<Longrightarrow> send_step t u \<Longrightarrow> transport_good u"
  by (erule send_step.cases)
    (simp_all add: good_begin good_enqueue good_cancel good_refuse good_answer good_write good_stop good_flags)

lemma good_new_transport: "transport_good new_transport"
  by (simp add: transport_good_def new_transport_def accepted_requests_def)

interpretation sending: invariant_system "\<lambda>t. t = new_transport" send_step transport_good
  by unfold_locales (auto intro: good_new_transport good_send_step)

section \<open>What reaches the server\<close>

text \<open>Requests are only ever appended to those accepted.\<close>

lemma accepted_fields [simp]:
  "accepted_requests (set_sender i p t) = accepted_requests t"
  "accepted_requests (t\<lparr>tx_done := d\<rparr>) = accepted_requests t"
  "accepted_requests (t\<lparr>tx_endpoints_closed := d\<rparr>) = accepted_requests t"
  "accepted_requests (t\<lparr>tx_writing := d\<rparr>) = accepted_requests t"
  by (simp_all add: accepted_requests_def set_sender_def)

lemma accepted_ops:
  "accepted_requests (begin_send i body t) = accepted_requests t"
  "accepted_requests (cancel_send i t) = accepted_requests t"
  "accepted_requests (refuse_send i t) = accepted_requests t"
  "accepted_requests (answer_send i t) = accepted_requests t"
  "accepted_requests (stop_writing t) = accepted_requests t"
  by (simp_all add: begin_send_def cancel_send_def refuse_send_def answer_send_def stop_writing_def Let_def
      split: option.split send_phase.split)

lemma accepted_enqueue: "prefix (accepted_requests t) (accepted_requests (enqueue_send i t))"
proof (cases "\<exists>body. tx_senders t i = Some (Offering body) \<and> length (tx_queue t) < write_capacity")
  case True
  then obtain body where "enqueue_send i t = (set_sender i (AwaitingWrite body None) t)\<lparr>tx_queue := tx_queue t @ [(i, body)]\<rparr>"
    by (auto simp: enqueue_send_def)
  then show ?thesis by (simp add: accepted_requests_def set_sender_def)
next
  case False
  then have "enqueue_send i t = t" by (auto simp: enqueue_send_def split: option.split send_phase.split)
  then show ?thesis by simp
qed

lemma accepted_write:
  assumes "transport_good t"
  shows "accepted_requests (write_next failed_at t) = accepted_requests t"
proof (cases "tx_failed t")
  case None
  then show ?thesis by (simp add: accepted_requests_def write_next_def split: list.split option.split)
next
  case (Some f)
  with assms have "\<not> tx_writing t" by (cases f) (simp add: transport_good_def)
  then show ?thesis by (simp add: write_next_def)
qed

lemma accepted_grows:
  assumes "transport_good t" and "send_step t u"
  shows "prefix (accepted_requests t) (accepted_requests u)"
  using assms(2) by cases (simp_all add: accepted_ops accepted_enqueue accepted_write[OF assms(1)])

lemma accepted_stays: "send_step\<^sup>*\<^sup>* t u \<Longrightarrow> transport_good t \<Longrightarrow> prefix (accepted_requests t) (accepted_requests u)"
proof (induction rule: rtranclp_induct)
  case (step u v)
  from sending.steps_good[OF step.hyps(1) step.prems] step.hyps(2) have "prefix (accepted_requests u) (accepted_requests v)"
    by (rule accepted_grows)
  with step show ?case by (blast intro: prefix_order.trans)
qed simp

text \<open>
  C36. The server's input consists of whole frames: at every moment it is the frames of the requests
  written so far, in the order they were queued and each once, followed by at most one truncated frame,
  after which nothing is ever written.  A sender told that all is well has had its message written
  whole; a sender told of a write error is the one whose frame was cut; and requests once queued
  keep their order for ever.
\<close>

theorem server_reads_whole_frames:
  assumes "send_step\<^sup>*\<^sup>* new_transport s" and "send_step\<^sup>*\<^sup>* s t"
  shows "prefix (accepted_requests s) (accepted_requests t) \<and> prefix (tx_written t) (accepted_requests t) \<and>
    distinct (map fst (accepted_requests t)) \<and>
    (case tx_failed t of
       None \<Rightarrow> tx_wire t = concat (map (writeFrame \<circ> snd) (tx_written t))
     | Some (i, body, part) \<Rightarrow> tx_wire t = concat (map (writeFrame \<circ> snd) (tx_written t)) @ part \<and>
         prefix part (writeFrame body) \<and> \<not> tx_writing t) \<and>
    (\<forall>i body. tx_senders t i = Some (SendReturned body SendNil) \<longrightarrow> (i, body) \<in> set (tx_written t)) \<and>
    (\<forall>i body. tx_senders t i = Some (SendReturned body SendWriteError) \<longrightarrow> (\<exists>part. tx_failed t = Some (i, body, part)))"
proof -
  have g: "transport_good s" by (rule sending.run_good[OF assms(1) refl])
  have gt: "transport_good t" by (rule sending.steps_good[OF assms(2) g])
  have "\<exists>part. tx_failed t = Some (i, body, part)" if "tx_senders t i = Some (SendReturned body SendWriteError)" for i body
    using transport_goodD[OF gt that] by (cases "tx_failed t") auto
  moreover have "prefix (tx_written t) (accepted_requests t)" by (simp add: accepted_requests_def)
  moreover have "distinct (map fst (accepted_requests t))" using gt by (simp add: transport_good_def)
  moreover have "case tx_failed t of
       None \<Rightarrow> tx_wire t = concat (map (writeFrame \<circ> snd) (tx_written t))
     | Some (i, body, part) \<Rightarrow> tx_wire t = concat (map (writeFrame \<circ> snd) (tx_written t)) @ part \<and>
         prefix part (writeFrame body) \<and> \<not> tx_writing t"
    using gt by (auto simp: transport_good_def split: option.split)
  ultimately show ?thesis
    using accepted_stays[OF assms(2) g] transport_goodD[OF gt] by fastforce
qed

text \<open>Two senders; the second write fails after three bytes.\<close>

theorem server_reads_whole_frames_witness:
  "tx_wire (write_next (Some 3) (write_next None (enqueue_send 2 (enqueue_send 1 (begin_send 2 ''B'' (begin_send 1 ''A'' new_transport))))))
     = writeFrame ''A'' @ ''Con''"
proof -
  let ?a = "begin_send 1 ''A'' new_transport" let ?b = "begin_send 2 ''B'' ?a"
  let ?c = "enqueue_send 2 (enqueue_send 1 ?b)" let ?t = "write_next (Some 3) (write_next None ?c)"
  have "tx_senders new_transport 1 = None" "tx_senders ?a 2 = None" by (simp_all add: new_transport_def begin_send_def set_sender_def)
  then have c: "send_step\<^sup>*\<^sup>* new_transport ?c"
    by (intro rtranclp.rtrancl_into_rtrancl[of send_step, OF _ sender_queues] rtranclp.rtrancl_into_rtrancl[of send_step, OF _ sender_begins]) auto
  have t: "send_step\<^sup>*\<^sup>* ?c ?t" by (intro rtranclp.rtrancl_into_rtrancl[of send_step, OF _ writer_writes]) auto
  have "tx_failed ?t = Some (2, ''B'', ''Con'')" "tx_written ?t = [(1, ''A'')]" by code_simp+
  with server_reads_whole_frames[OF c t] show ?thesis by simp
qed

end
