(* ===== verification/LspClose.thy ===== *)
theory LspClose
  imports LspRequests
begin

text \<open>
  The two ends of a language server's life: the launch of its process and the waits for its exit
  (\<^verbatim>\<open>ExecFactory\<close>, \<^verbatim>\<open>execProcess\<close> and \<^verbatim>\<open>onceWaitProcess\<close> of \<^verbatim>\<open>internal/lsp/manager.go\<close>), the handshake, and
  the closing of the client (\<^verbatim>\<open>Close\<close>, \<^verbatim>\<open>closeTransport\<close> and the three loops of \<^verbatim>\<open>client.go\<close>), which waits for
  loops that send to each other.  The system calls are the environment.
\<close>

section \<open>Launching the process\<close>

datatype launch_error = LaunchMkdir | LaunchOpenLog | LaunchStdinPipe | LaunchStdoutPipe | LaunchStart

text \<open>Whether each system call of a launch succeeds.\<close>

record launch_env =
  le_mkdir :: bool
  le_open_log :: bool
  le_stdin :: bool
  le_stdout :: bool
  le_start :: bool

text \<open>What the launch holds open; \<^verbatim>\<open>os/exec\<close> closes the pipes when \<open>Start\<close> fails and when \<open>Wait\<close> returns.\<close>

record process_handles =
  ph_log :: bool
  ph_stdin :: bool
  ph_stdout :: bool
  ph_running :: bool

definition no_handles :: process_handles where
  "no_handles = \<lparr>ph_log = False, ph_stdin = False, ph_stdout = False, ph_running = False\<rparr>"

text \<open>The closure \<^verbatim>\<open>cleanup\<close>: it closes the log file, and nothing else.\<close>

definition launch_cleanup :: "launch_error \<Rightarrow> process_handles \<Rightarrow> launch_error option \<times> process_handles" where
  "launch_cleanup e h = (Some e, h\<lparr>ph_log := False\<rparr>)"

definition ExecFactory_Start :: "launch_env \<Rightarrow> string \<Rightarrow> launch_error option \<times> process_handles" where
  "ExecFactory_Start le logPath =
     (if logPath \<noteq> '''' \<and> \<not> le_mkdir le then (Some LaunchMkdir, no_handles)
      else if logPath \<noteq> '''' \<and> \<not> le_open_log le then (Some LaunchOpenLog, no_handles)
      else let h = no_handles\<lparr>ph_log := (logPath \<noteq> '''')\<rparr> in
        if \<not> le_stdin le then launch_cleanup LaunchStdinPipe h
        else let h = h\<lparr>ph_stdin := True\<rparr> in
          if \<not> le_stdout le then launch_cleanup LaunchStdoutPipe h
          else if \<not> le_start le then launch_cleanup LaunchStart (h\<lparr>ph_stdin := False\<rparr>)
          else (None, h\<lparr>ph_stdout := True, ph_running := True\<rparr>))"

text \<open>
  \<^verbatim>\<open>execProcess.Wait\<close> with the outcome of \<^verbatim>\<open>Cmd.Wait\<close>, which refuses a second call; \<^verbatim>\<open>onceWaitProcess\<close> keeps
  the first answer.
\<close>

datatype wait_answer = Exited "string option" | WaitCalledBefore

definition exec_Wait :: "string option \<Rightarrow> process_handles \<Rightarrow> wait_answer \<times> process_handles" where
  "exec_Wait status h =
     (if ph_running h then (Exited status, no_handles) else (WaitCalledBefore, h\<lparr>ph_log := False\<rparr>))"

record once_process =
  op_handles :: process_handles
  op_answer :: "wait_answer option"

definition once_Wait :: "string option \<Rightarrow> once_process \<Rightarrow> wait_answer \<times> once_process" where
  "once_Wait status p =
     (case op_answer p of
        Some r \<Rightarrow> (r, p)
      | None \<Rightarrow> (case exec_Wait status (op_handles p) of (r, h) \<Rightarrow> (r, \<lparr>op_handles = h, op_answer = Some r\<rparr>)))"

fun all_waits :: "string option list \<Rightarrow> once_process \<Rightarrow> wait_answer list \<times> once_process" where
  "all_waits [] p = ([], p)"
| "all_waits (status # rest) p =
     (case once_Wait status p of (r, p') \<Rightarrow> (case all_waits rest p' of (rs, q) \<Rightarrow> (r # rs, q)))"

text \<open>
  A launch that fails leaves no process and no open log; one pipe stays open when the other cannot be
  made.  A launched process is released by the first wait, whoever makes it, and every wait gives
  that answer.
\<close>

lemma failed_launch:
  assumes "ExecFactory_Start le logPath = (Some e, h)"
  shows "\<not> ph_running h \<and> \<not> ph_log h \<and> \<not> ph_stdout h \<and> (ph_stdin h \<longleftrightarrow> e = LaunchStdoutPipe)"
  using assms by (auto simp: ExecFactory_Start_def launch_cleanup_def no_handles_def Let_def split: if_splits)

lemma later_waits: "op_answer p = Some r \<Longrightarrow> all_waits ss p = (replicate (length ss) r, p)"
  by (induction ss) (simp_all add: once_Wait_def)

theorem launched_process_is_released:
  assumes "ExecFactory_Start le logPath = (None, h)"
  shows "all_waits (status # later) \<lparr>op_handles = h, op_answer = None\<rparr> =
    (replicate (Suc (length later)) (Exited status), \<lparr>op_handles = no_handles, op_answer = Some (Exited status)\<rparr>)"
proof -
  have "ph_running h"
    using assms by (auto simp: ExecFactory_Start_def launch_cleanup_def Let_def split: if_splits)
  then show ?thesis by (simp add: once_Wait_def exec_Wait_def later_waits)
qed

theorem launched_process_is_released_witness:
  "fst (all_waits [None, Some ''killed''] \<lparr>op_handles = no_handles\<lparr>ph_stdin := True, ph_stdout := True, ph_running := True\<rparr>,
     op_answer = None\<rparr>) = [Exited None, Exited None]"
  by (subst launched_process_is_released[of "\<lparr>le_mkdir = True, le_open_log = True, le_stdin = True, le_stdout = True, le_start = True\<rparr>" "''''"])
    (simp_all add: ExecFactory_Start_def no_handles_def)

section \<open>The handshake\<close>

text \<open>
  \<^verbatim>\<open>Notify\<close> sends its message or fails; the list holds the methods of the messages that were sent
  after the request's answer.
\<close>

definition notify_peer :: "(string \<Rightarrow> go_error option) \<Rightarrow> string \<Rightarrow> go_error option \<times> string list" where
  "notify_peer sent method = (case sent method of None \<Rightarrow> (None, [method]) | Some e \<Rightarrow> (Some e, []))"

definition initialize_params :: "string \<Rightarrow> json" where
  "initialize_params rootURI =
     JObj [(''capabilities'', JObj [(''window'', JObj [(''workDoneProgress'', JBool True)])]), (''processId'', JNull),
           (''rootUri'', JStr rootURI)]"

definition Initialize :: "lsp_peer \<Rightarrow> (string \<Rightarrow> go_error option) \<Rightarrow> string \<Rightarrow> go_error option \<times> string list" where
  "Initialize c sent rootURI =
     (case decoded Some (lp_call c ''initialize'' (initialize_params rootURI)) of
        Inl e \<Rightarrow> (Some e, [])
      | Inr _ \<Rightarrow> notify_peer sent ''initialized'')"

definition Shutdown :: "lsp_peer \<Rightarrow> (string \<Rightarrow> go_error option) \<Rightarrow> go_error option \<times> string list" where
  "Shutdown c sent =
     (case decoded Some (lp_call c ''shutdown'' JNull) of
        Inl e \<Rightarrow> (Some e, [])
      | Inr _ \<Rightarrow> (None, snd (notify_peer sent ''exit'')))"

lemma handshake_order:
  "snd (Initialize c sent root) \<noteq> [] \<Longrightarrow> \<exists>j. lp_call c ''initialize'' (initialize_params root) = Inr (Some j)"
  "snd (Shutdown c sent) \<noteq> [] \<Longrightarrow> \<exists>j. lp_call c ''shutdown'' JNull = Inr (Some j)"
  "fst (Initialize c sent root) = None \<longleftrightarrow> snd (Initialize c sent root) = [''initialized'']"
  by (auto simp: Initialize_def Shutdown_def notify_peer_def decoded_def split: sum.splits option.splits)

section \<open>The loops of a client and its closing\<close>

text \<open>
  The loop that reads and the one that answers server requests send through the queue of the writer
  like every other sender: the phases of a loop are its rest, the offer of a message to the queue,
  the wait for the writer's answer, and the end.
\<close>

datatype loop_phase = LoopResting | LoopOffering | LoopAwaiting | LoopEnded

datatype writer_phase = WriterResting | WriterWriting | WriterEnded

datatype close_phase = NotClosing | CloseTerminated | CloseWaiting | CloseReturned

text \<open>
  \<open>lc_input\<close> counts the frames that can still be read, \<open>lc_requests\<close> and \<open>lc_writes\<close> the two queues, each of
  32 entries, \<open>lc_offering\<close> and \<open>lc_awaiting\<close> the other senders; \<open>lc_pending\<close> are the calls that wait for a
  response and \<open>lc_closed\<close> says that the transport is closed, which ends a read and a write in
  progress: both ends of a process's pipes are closers.
\<close>

record client_loops =
  lc_done :: bool
  lc_closed :: bool
  lc_pending :: "int set"
  lc_input :: nat
  lc_requests :: nat
  lc_writes :: nat
  lc_offering :: nat
  lc_awaiting :: nat
  lc_reader :: loop_phase
  lc_responder :: loop_phase
  lc_writer :: writer_phase
  lc_close :: close_phase

definition queue_room :: "nat \<Rightarrow> bool" where
  "queue_room n \<longleftrightarrow> n < 32"

definition started_loops :: client_loops where
  "started_loops =
     \<lparr>lc_done = False, lc_closed = False, lc_pending = {}, lc_input = 0, lc_requests = 0, lc_writes = 0, lc_offering = 0,
      lc_awaiting = 0, lc_reader = LoopResting, lc_responder = LoopResting, lc_writer = WriterResting, lc_close = NotClosing\<rparr>"

definition terminate_loops :: "client_loops \<Rightarrow> client_loops" where
  "terminate_loops s = s\<lparr>lc_done := True, lc_pending := {}\<rparr>"

definition closeTransport :: "client_loops \<Rightarrow> client_loops" where
  "closeTransport s = s\<lparr>lc_closed := True\<rparr>"

text \<open>The start of a send, which is refused at once when the client is closed.\<close>

definition begin_loop_send :: "client_loops \<Rightarrow> loop_phase" where
  "begin_loop_send s = (if lc_done s then LoopResting else LoopOffering)"

text \<open>\<^verbatim>\<open>readLoop\<close>: a frame is passed on or dropped, or is a request for the queue, or one the queue has no room for.\<close>

inductive reader_step :: "client_loops \<Rightarrow> client_loops \<Rightarrow> bool" where
  read_passed_on: "lc_reader s = LoopResting \<Longrightarrow> lc_input s = Suc n \<Longrightarrow> reader_step s (s\<lparr>lc_input := n\<rparr>)"
| read_request: "lc_reader s = LoopResting \<Longrightarrow> lc_input s = Suc n \<Longrightarrow> queue_room (lc_requests s) \<Longrightarrow>
    reader_step s (s\<lparr>lc_input := n, lc_requests := Suc (lc_requests s)\<rparr>)"
| read_overflow: "lc_reader s = LoopResting \<Longrightarrow> lc_input s = Suc n \<Longrightarrow> \<not> queue_room (lc_requests s) \<Longrightarrow> \<not> lc_done s \<Longrightarrow>
    reader_step s (s\<lparr>lc_input := n, lc_reader := begin_loop_send s\<rparr>)"
| read_ends: "lc_reader s = LoopResting \<Longrightarrow> reader_step s (terminate_loops s\<lparr>lc_reader := LoopEnded\<rparr>)"
| refusal_queued: "lc_reader s = LoopOffering \<Longrightarrow> queue_room (lc_writes s) \<Longrightarrow>
    reader_step s (s\<lparr>lc_writes := Suc (lc_writes s), lc_reader := LoopAwaiting\<rparr>)"
| refusal_answered: "lc_reader s = LoopAwaiting \<Longrightarrow> reader_step s (s\<lparr>lc_reader := LoopResting\<rparr>)"
| refusal_dropped: "lc_reader s \<in> {LoopOffering, LoopAwaiting} \<Longrightarrow> lc_done s \<Longrightarrow> reader_step s (s\<lparr>lc_reader := LoopResting\<rparr>)"
| refusal_timeout: "lc_reader s \<in> {LoopOffering, LoopAwaiting} \<Longrightarrow>
    reader_step s (closeTransport (terminate_loops s)\<lparr>lc_reader := LoopResting\<rparr>)"

text \<open>\<^verbatim>\<open>requestLoop\<close>: every request taken is answered by one message.\<close>

inductive responder_step :: "client_loops \<Rightarrow> client_loops \<Rightarrow> bool" where
  request_taken: "lc_responder s = LoopResting \<Longrightarrow> lc_requests s = Suc n \<Longrightarrow>
    responder_step s (s\<lparr>lc_requests := n, lc_responder := begin_loop_send s\<rparr>)"
| requests_end: "lc_responder s = LoopResting \<Longrightarrow> lc_done s \<Longrightarrow> responder_step s (s\<lparr>lc_responder := LoopEnded\<rparr>)"
| response_queued: "lc_responder s = LoopOffering \<Longrightarrow> queue_room (lc_writes s) \<Longrightarrow>
    responder_step s (s\<lparr>lc_writes := Suc (lc_writes s), lc_responder := LoopAwaiting\<rparr>)"
| response_answered: "lc_responder s = LoopAwaiting \<Longrightarrow> responder_step s (s\<lparr>lc_responder := LoopResting\<rparr>)"
| response_dropped: "lc_responder s \<in> {LoopOffering, LoopAwaiting} \<Longrightarrow> lc_done s \<Longrightarrow> responder_step s (s\<lparr>lc_responder := LoopResting\<rparr>)"
| response_timeout: "lc_responder s \<in> {LoopOffering, LoopAwaiting} \<Longrightarrow>
    responder_step s (closeTransport (terminate_loops s)\<lparr>lc_responder := LoopResting\<rparr>)"

text \<open>\<^verbatim>\<open>writeLoop\<close>: a failed write ends the client.\<close>

inductive writer_step :: "client_loops \<Rightarrow> client_loops \<Rightarrow> bool" where
  write_taken: "lc_writer s = WriterResting \<Longrightarrow> lc_writes s = Suc n \<Longrightarrow>
    writer_step s (s\<lparr>lc_writes := n, lc_writer := WriterWriting\<rparr>)"
| write_passed: "lc_writer s = WriterWriting \<Longrightarrow> writer_step s (s\<lparr>lc_writer := WriterResting\<rparr>)"
| write_failed: "lc_writer s = WriterWriting \<Longrightarrow> writer_step s (terminate_loops s\<lparr>lc_writer := WriterEnded\<rparr>)"
| writes_end: "lc_writer s = WriterResting \<Longrightarrow> lc_done s \<Longrightarrow> writer_step s (s\<lparr>lc_writer := WriterEnded\<rparr>)"

text \<open>The callers: calls that register and leave, senders, and the one that closes.\<close>

inductive caller_step :: "client_loops \<Rightarrow> client_loops \<Rightarrow> bool" where
  call_registers: "\<not> lc_done s \<Longrightarrow> i \<notin> lc_pending s \<Longrightarrow> caller_step s (s\<lparr>lc_pending := insert i (lc_pending s)\<rparr>)"
| call_leaves: "i \<in> lc_pending s \<Longrightarrow> caller_step s (s\<lparr>lc_pending := lc_pending s - {i}\<rparr>)"
| send_begins: "\<not> lc_done s \<Longrightarrow> caller_step s (s\<lparr>lc_offering := Suc (lc_offering s)\<rparr>)"
| send_queued: "lc_offering s = Suc n \<Longrightarrow> queue_room (lc_writes s) \<Longrightarrow>
    caller_step s (s\<lparr>lc_offering := n, lc_writes := Suc (lc_writes s), lc_awaiting := Suc (lc_awaiting s)\<rparr>)"
| offer_dropped: "lc_offering s = Suc n \<Longrightarrow> lc_done s \<Longrightarrow> caller_step s (s\<lparr>lc_offering := n\<rparr>)"
| offer_cancelled: "lc_offering s = Suc n \<Longrightarrow> caller_step s (closeTransport (terminate_loops s)\<lparr>lc_offering := n\<rparr>)"
| send_answered: "lc_awaiting s = Suc n \<Longrightarrow> caller_step s (s\<lparr>lc_awaiting := n\<rparr>)"
| send_cancelled: "lc_awaiting s = Suc n \<Longrightarrow> caller_step s (closeTransport (terminate_loops s)\<lparr>lc_awaiting := n\<rparr>)"
| close_terminates: "lc_close s = NotClosing \<Longrightarrow> caller_step s (terminate_loops s\<lparr>lc_close := CloseTerminated\<rparr>)"
| close_closes: "lc_close s = CloseTerminated \<Longrightarrow> caller_step s (closeTransport s\<lparr>lc_close := CloseWaiting\<rparr>)"
| close_returns: "lc_close s = CloseWaiting \<Longrightarrow> lc_reader s = LoopEnded \<Longrightarrow> lc_responder s = LoopEnded \<Longrightarrow>
    lc_writer s = WriterEnded \<Longrightarrow> caller_step s (s\<lparr>lc_close := CloseReturned\<rparr>)"

text \<open>The peer sends a frame, as long as the transport is open.\<close>

inductive client_step :: "client_loops \<Rightarrow> client_loops \<Rightarrow> bool" where
  peer_sends: "\<not> lc_closed s \<Longrightarrow> client_step s (s\<lparr>lc_input := Suc (lc_input s)\<rparr>)"
| by_reader: "reader_step s t \<Longrightarrow> client_step s t"
| by_responder: "responder_step s t \<Longrightarrow> client_step s t"
| by_writer: "writer_step s t \<Longrightarrow> client_step s t"
| by_caller: "caller_step s t \<Longrightarrow> client_step s t"

inductive_cases reader_stepE: "reader_step s t"
inductive_cases responder_stepE: "responder_step s t"
inductive_cases writer_stepE: "writer_step s t"
inductive_cases caller_stepE: "caller_step s t"
inductive_cases client_stepE: "client_step s t"

section \<open>Closing always returns\<close>

definition loops_good :: "client_loops \<Rightarrow> bool" where
  "loops_good s \<longleftrightarrow>
     (lc_close s \<noteq> NotClosing \<longrightarrow> lc_done s) \<and> (lc_close s \<in> {CloseWaiting, CloseReturned} \<longrightarrow> lc_closed s) \<and>
     (lc_done s \<longrightarrow> lc_pending s = {}) \<and>
     (lc_close s = CloseReturned \<longrightarrow> lc_reader s = LoopEnded \<and> lc_responder s = LoopEnded \<and> lc_writer s = WriterEnded) \<and>
     lc_requests s \<le> 32 \<and> lc_writes s \<le> 32"

lemmas loop_defs = terminate_loops_def closeTransport_def begin_loop_send_def queue_room_def

lemma reader_keeps: "reader_step s t \<Longrightarrow> loops_good s \<Longrightarrow> loops_good t"
  by (erule reader_stepE) (auto simp: loops_good_def loop_defs)

lemma responder_keeps: "responder_step s t \<Longrightarrow> loops_good s \<Longrightarrow> loops_good t"
  by (erule responder_stepE) (auto simp: loops_good_def loop_defs)

lemma writer_keeps: "writer_step s t \<Longrightarrow> loops_good s \<Longrightarrow> loops_good t"
  by (erule writer_stepE) (auto simp: loops_good_def loop_defs)

lemma caller_keeps: "caller_step s t \<Longrightarrow> loops_good s \<Longrightarrow> loops_good t"
  by (erule caller_stepE) (auto simp: loops_good_def loop_defs)

lemma client_keeps: "loops_good s \<Longrightarrow> client_step s t \<Longrightarrow> loops_good t"
  by (erule client_stepE)
    (simp add: loops_good_def, rule reader_keeps, assumption+, rule responder_keeps, assumption+,
     rule writer_keeps, assumption+, rule caller_keeps)

lemma started_good: "loops_good started_loops"
  by (simp add: loops_good_def started_loops_def)

interpretation client_loops: invariant_system "\<lambda>s. s = started_loops" client_step loops_good
  by unfold_locales (simp_all add: started_good client_keeps)

text \<open>
  A system that winds down: once it is winding down it stays so, and every step takes some of the work
  that is left, so no run is longer than that.
\<close>

locale winding_down =
  fixes step :: "'s \<Rightarrow> 's \<Rightarrow> bool" and winding :: "'s \<Rightarrow> bool" and work :: "'s \<Rightarrow> nat"
  assumes stays: "winding s \<Longrightarrow> step s t \<Longrightarrow> winding t"
    and works: "winding s \<Longrightarrow> step s t \<Longrightarrow> work t < work s"
begin

lemma run_work: "(step ^^ k) s t \<Longrightarrow> winding s \<Longrightarrow> winding t \<and> k + work t \<le> work s"
proof (induction k arbitrary: t)
  case 0
  then show ?case by simp
next
  case (Suc k)
  then obtain u where "(step ^^ k) s u" "step u t" by auto
  with Suc show ?case using stays[of u t] works[of u t] by fastforce
qed

end

text \<open>
  What is left to do: a frame may become a request, a request a message, a message a write; the weights
  make each of these, and every step of a loop towards its end, cheaper than what it started from.
\<close>

fun loop_work :: "loop_phase \<Rightarrow> nat" where
  "loop_work LoopEnded = 0"
| "loop_work LoopResting = 1"
| "loop_work LoopAwaiting = 2"
| "loop_work LoopOffering = 5"

fun writer_work :: "writer_phase \<Rightarrow> nat" where
  "writer_work WriterEnded = 0"
| "writer_work WriterResting = 1"
| "writer_work WriterWriting = 2"

fun close_work :: "close_phase \<Rightarrow> nat" where
  "close_work CloseReturned = 0"
| "close_work CloseWaiting = 1"
| "close_work CloseTerminated = 2"
| "close_work NotClosing = 3"

definition client_work :: "client_loops \<Rightarrow> nat" where
  "client_work s =
     6 * lc_input s + 5 * lc_requests s + 2 * lc_writes s + 4 * lc_offering s + lc_awaiting s +
     loop_work (lc_reader s) + loop_work (lc_responder s) + writer_work (lc_writer s) + close_work (lc_close s)"

definition shut_down :: "client_loops \<Rightarrow> bool" where
  "shut_down s \<longleftrightarrow> lc_done s \<and> lc_closed s \<and> lc_pending s = {}"

lemmas work_defs = shut_down_def client_work_def loop_defs

lemma reader_works: "reader_step s t \<Longrightarrow> shut_down s \<Longrightarrow> shut_down t \<and> client_work t < client_work s"
  by (erule reader_stepE) (auto simp: work_defs)

lemma responder_works: "responder_step s t \<Longrightarrow> shut_down s \<Longrightarrow> shut_down t \<and> client_work t < client_work s"
  by (erule responder_stepE) (auto simp: work_defs)

lemma writer_works: "writer_step s t \<Longrightarrow> shut_down s \<Longrightarrow> shut_down t \<and> client_work t < client_work s"
  by (erule writer_stepE) (auto simp: work_defs)

lemma caller_works: "caller_step s t \<Longrightarrow> shut_down s \<Longrightarrow> shut_down t \<and> client_work t < client_work s"
  by (erule caller_stepE) (auto simp: work_defs)

lemma client_works: "shut_down s \<Longrightarrow> client_step s t \<Longrightarrow> shut_down t \<and> client_work t < client_work s"
  by (erule client_stepE)
    (simp add: shut_down_def, rule reader_works, assumption+, rule responder_works, assumption+,
     rule writer_works, assumption+, rule caller_works)

interpretation closing: winding_down client_step shut_down client_work
  by unfold_locales (simp_all add: client_works)

text \<open>Nothing blocks a client that is shut down: only the return of \<^verbatim>\<open>Close\<close> can be missing, and it is possible.\<close>

lemma reader_moves: "shut_down s \<Longrightarrow> lc_reader s \<noteq> LoopEnded \<Longrightarrow> \<exists>t. reader_step s t"
  by (cases "lc_reader s") (auto simp: shut_down_def intro: reader_step.intros)

lemma responder_moves: "shut_down s \<Longrightarrow> lc_responder s \<noteq> LoopEnded \<Longrightarrow> \<exists>t. responder_step s t"
  by (cases "lc_responder s") (auto simp: shut_down_def intro: responder_step.intros)

lemma writer_moves: "shut_down s \<Longrightarrow> lc_writer s \<noteq> WriterEnded \<Longrightarrow> \<exists>t. writer_step s t"
  by (cases "lc_writer s") (auto simp: shut_down_def intro: writer_step.intros)

lemma stuck_has_returned:
  assumes "shut_down s" and "\<forall>t. \<not> client_step s t"
  shows "lc_close s = CloseReturned"
proof -
  have ended: "lc_reader s = LoopEnded" "lc_responder s = LoopEnded" "lc_writer s = WriterEnded"
    using assms reader_moves responder_moves writer_moves client_step.intros by blast+
  have "\<not> caller_step s t" for t using assms(2) by_caller by blast
  then show ?thesis
    using ended by (cases "lc_close s") (blast intro: caller_step.intros)+
qed

text \<open>
  C37. Closing a client always returns: once \<^verbatim>\<open>Close\<close> has closed the transport, no run of the loops, the
  callers and the senders is longer than the work that was left, a run can only stop with \<^verbatim>\<open>Close\<close>
  returned, and then all three loops have ended and no call waits for a response.
\<close>

theorem Close_returns:
  assumes "client_step\<^sup>*\<^sup>* started_loops s" and "lc_close s = CloseWaiting" and "(client_step ^^ k) s t"
  shows "k \<le> client_work s \<and> ((\<forall>u. \<not> client_step t u) \<longrightarrow> lc_close t = CloseReturned) \<and>
    (lc_close t = CloseReturned \<longrightarrow>
       lc_reader t = LoopEnded \<and> lc_responder t = LoopEnded \<and> lc_writer t = WriterEnded \<and> lc_pending t = {})"
proof -
  have good: "loops_good s" by (rule client_loops.run_good[OF assms(1) refl])
  with assms(2) have "shut_down s" by (simp add: loops_good_def shut_down_def)
  from closing.run_work[OF assms(3) this] have t: "shut_down t" "k \<le> client_work s" by simp_all
  have "loops_good t"
    using client_loops.steps_good[OF relpowp_imp_rtranclp[OF assms(3)] good] .
  with t stuck_has_returned[OF t(1)] show ?thesis by (simp add: loops_good_def shut_down_def)
qed

theorem Close_returns_witness:
  "\<exists>s t. client_step\<^sup>*\<^sup>* started_loops s \<and> lc_close s = CloseWaiting \<and> lc_close t = CloseReturned \<and>
     (client_step ^^ 4) s t \<and> 4 \<le> client_work s \<and> lc_pending t = {}"
proof -
  let ?a = "terminate_loops started_loops\<lparr>lc_close := CloseTerminated\<rparr>"
  let ?s = "closeTransport ?a\<lparr>lc_close := CloseWaiting\<rparr>"
  let ?b = "terminate_loops ?s\<lparr>lc_reader := LoopEnded\<rparr>"
  let ?c = "?b\<lparr>lc_responder := LoopEnded\<rparr>"
  let ?d = "?c\<lparr>lc_writer := WriterEnded\<rparr>"
  let ?t = "?d\<lparr>lc_close := CloseReturned\<rparr>"
  have "client_step started_loops ?a" by (rule by_caller, rule close_terminates) (simp add: started_loops_def)
  moreover have "client_step ?a ?s" by (rule by_caller, rule close_closes) simp
  ultimately have reach: "client_step\<^sup>*\<^sup>* started_loops ?s" by simp
  have "client_step ?s ?b" by (rule by_reader, rule read_ends) (simp add: started_loops_def loop_defs)
  moreover have "client_step ?b ?c" by (rule by_responder, rule requests_end) (simp_all add: started_loops_def loop_defs)
  moreover have "client_step ?c ?d" by (rule by_writer, rule writes_end) (simp_all add: started_loops_def loop_defs)
  moreover have "client_step ?d ?t" by (rule by_caller, rule close_returns) (simp_all add: started_loops_def loop_defs)
  ultimately have run: "(client_step ^^ 4) ?s ?t" by (auto simp: numeral_eq_Suc)
  have "lc_close ?s = CloseWaiting" "lc_close ?t = CloseReturned" by simp_all
  with Close_returns[OF reach _ run] reach run show ?thesis by blast
qed

end
