(* ===== verification/Compdb.thy ===== *)
theory Compdb
  imports Json Paths "HOL-Library.Multiset"
begin

text \<open>
  The compilation database (\<^verbatim>\<open>internal/compdb/validate.go\<close>, \<^verbatim>\<open>generator.go\<close>): the validation of a
  staged database entry by entry with its fingerprint, the promotion over the last good one, the
  invocation of UnrealBuildTool and the bounded capture of its output.  The file system, SHA-256
  and the process are arguments; the streaming JSON decoder gives the values of the array one by one.
\<close>

section \<open>Entries\<close>

record compdb_Entry =
  ce_Directory :: string
  ce_File :: string
  ce_Command :: string
  ce_Arguments :: "string list"

definition DatabaseName :: string where
  "DatabaseName = ''compile_commands.json''"

definition zero_Entry :: compdb_Entry where
  "zero_Entry = \<lparr>ce_Directory = '''', ce_File = '''', ce_Command = '''', ce_Arguments = []\<rparr>"

definition omit_nil :: "string \<Rightarrow> string list \<Rightarrow> (string \<times> json) list" where
  "omit_nil name xs = (if xs = [] then [] else [(name, JArr (map JStr xs))])"

definition json_Entry :: "compdb_Entry \<Rightarrow> json" where
  "json_Entry e =
     JObj ([(''directory'', JStr (ce_Directory e)), (''file'', JStr (ce_File e))]
           @ (if ce_Command e = '''' then [] else [(''command'', JStr (ce_Command e))])
           @ omit_nil ''arguments'' (ce_Arguments e))"

definition Entry_fields :: "compdb_Entry field_decoders" where
  "Entry_fields =
     [(''directory'', \<lambda>v r. map_option (\<lambda>s. r\<lparr>ce_Directory := s\<rparr>) (dec_str v (ce_Directory r))),
      (''file'', \<lambda>v r. map_option (\<lambda>s. r\<lparr>ce_File := s\<rparr>) (dec_str v (ce_File r))),
      (''command'', \<lambda>v r. map_option (\<lambda>s. r\<lparr>ce_Command := s\<rparr>) (dec_str v (ce_Command r))),
      (''arguments'', \<lambda>v r. map_option (\<lambda>xs. r\<lparr>ce_Arguments := xs\<rparr>) (dec_list (\<lambda>x. dec_str x '''') v))]"

definition decode_Entry :: "json \<Rightarrow> compdb_Entry option" where
  "decode_Entry j = dec_struct Entry_fields j zero_Entry"

section \<open>Files and paths\<close>

text \<open>\<open>cv_stat\<close> is \<^verbatim>\<open>os.Stat\<close>: whether the file is regular, \<open>None\<close> for its error.\<close>

record compdb_env =
  cv_paths :: path_env
  cv_stat :: "string \<Rightarrow> bool option"

datatype compdb_error =
    NoWorkingDirectory
  | IncompleteEntry
  | MissingFile string string
  | NotRegular string string
  | NoCompiler
  | MissingResponse string
  | OpenDatabase
  | NotAnArray
  | DecodeEntry
  | FinishDatabase
  | TrailingJSON
  | TrailingBytes
  | InsufficientCoverage int int

definition canonical :: "path_env \<Rightarrow> string \<Rightarrow> string option" where
  "canonical env p =
     (case go_abs env p of
        None \<Rightarrow> None
      | Some a \<Rightarrow> Some (path_clean (case EvalSymlinks env a of Some r \<Rightarrow> r | None \<Rightarrow> a)))"

definition compdb_within :: "string \<Rightarrow> string \<Rightarrow> bool" where
  "compdb_within path root =
     (case path_rel root path of
        None \<Rightarrow> False
      | Some rel \<Rightarrow> rel \<noteq> ''..'' \<and> \<not> has_prefix rel (''..'' @ [sep]) \<and> \<not> is_abs rel)"

definition requireRegularFile :: "compdb_env \<Rightarrow> string \<Rightarrow> string \<Rightarrow> (compdb_error, unit) result" where
  "requireRegularFile env path kind =
     (case cv_stat env path of
        None \<Rightarrow> Inl (MissingFile kind path)
      | Some regular \<Rightarrow> if regular then Inr () else Inl (NotRegular kind path))"

section \<open>Command lines\<close>

text \<open>The runes of a range loop: an invalid byte is one replacement character.\<close>

definition range_runes :: "string \<Rightarrow> string list" where
  "range_runes s = map (\<lambda>r. if valid_rune r then r else replacement_char) (runes s)"

abbreviation rune_single :: string where "rune_single \<equiv> [CHR 0x27]"
abbreviation rune_double :: string where "rune_double \<equiv> [CHR 0x22]"

text \<open>The loop of \<^verbatim>\<open>splitCommand\<close>; the quote is the empty string for rune 0.\<close>

fun split_loop :: "string \<Rightarrow> string \<Rightarrow> string list \<Rightarrow> string list" where
  "split_loop quote current [] = (if current \<noteq> '''' then [current] else [])"
| "split_loop quote current (r # rs) =
     (if (r = rune_single \<or> r = rune_double) \<and> quote = '''' then split_loop r current rs
      else if (r = rune_single \<or> r = rune_double) \<and> quote = r then split_loop '''' current rs
      else if (r = '' '' \<or> r = [CHR 0x09]) \<and> quote = '''' then
        (if current \<noteq> '''' then current # split_loop quote '''' rs else split_loop quote current rs)
      else split_loop quote (current @ r) rs)"

definition splitCommand :: "string \<Rightarrow> string list" where
  "splitCommand command = split_loop '''' '''' (range_runes command)"

section \<open>Validation\<close>

definition is_dquote :: "char \<Rightarrow> bool" where
  "is_dquote c \<longleftrightarrow> c = CHR 0x22"

fun check_responses :: "compdb_env \<Rightarrow> string \<Rightarrow> string list \<Rightarrow> (compdb_error, unit) result" where
  "check_responses env directory [] = Inr ()"
| "check_responses env directory (arg # args) =
     (if has_prefix arg ''@'' then
        let trimmed = trim_right is_dquote (trim_left is_dquote (drop 1 arg));
            response = (if is_abs trimmed then trimmed else path_join2 directory trimmed)
        in case cv_stat env response of
             None \<Rightarrow> Inl (MissingResponse response)
           | Some _ \<Rightarrow> check_responses env directory args
      else check_responses env directory args)"

definition entry_source :: "compdb_env \<Rightarrow> string \<Rightarrow> string \<Rightarrow> string option" where
  "entry_source env directory file = canonical (cv_paths env) (if is_abs file then file else path_join2 directory file)"

definition entry_args :: "compdb_Entry \<Rightarrow> string list" where
  "entry_args e = (if ce_Arguments e = [] then splitCommand (ce_Command e) else ce_Arguments e)"

definition entry_scope :: "string \<Rightarrow> string \<Rightarrow> string \<Rightarrow> int" where
  "entry_scope source projectRoot engineRoot =
     (if compdb_within source projectRoot then 1 else if compdb_within source engineRoot then 2 else 0)"

definition normalized_entry :: "string \<Rightarrow> string list \<Rightarrow> string" where
  "normalized_entry source args = to_slash source @ [CHR 0x00] @ str_join [CHR 0x00] args"

definition validateEntry :: "compdb_env \<Rightarrow> compdb_Entry \<Rightarrow> string \<Rightarrow> string \<Rightarrow> (compdb_error, string \<times> int) result" where
  "validateEntry env e projectRoot engineRoot =
     (if ce_Directory e = '''' \<or> ce_File e = '''' \<or> (ce_Command e = '''' \<and> ce_Arguments e = []) then Inl IncompleteEntry
      else case canonical (cv_paths env) (ce_Directory e) of
        None \<Rightarrow> Inl NoWorkingDirectory
      | Some directory \<Rightarrow>
          (case entry_source env directory (ce_File e) of
             None \<Rightarrow> Inl NoWorkingDirectory
           | Some source \<Rightarrow>
               (case requireRegularFile env source ''translation unit'' of
                  Inl err \<Rightarrow> Inl err
                | Inr _ \<Rightarrow>
                    (case entry_args e of
                       [] \<Rightarrow> Inl NoCompiler
                     | compiler # rest \<Rightarrow>
                         (case requireRegularFile env (if is_abs compiler then compiler else path_join2 directory compiler)
                                 ''compiler'' of
                            Inl err \<Rightarrow> Inl err
                          | Inr _ \<Rightarrow>
                              (case check_responses env directory rest of
                                 Inl err \<Rightarrow> Inl err
                               | Inr _ \<Rightarrow> Inr (normalized_entry source (compiler # rest),
                                               entry_scope source projectRoot engineRoot)))))))"

text \<open>
  An open database as the decoder delivers it: its first token, the values of the array (\<open>None\<close> for
  one it rejects), its closing token, and what follows.
\<close>

datatype trailing = TrailEOF | TrailValue | TrailBad

record database_file =
  dbf_array :: bool
  dbf_values :: "json option list"
  dbf_closed :: bool
  dbf_trailing :: trailing

record ValidationResult =
  ProjectTranslationUnits :: int
  EngineTranslationUnits :: int
  Fingerprint :: string

text \<open>The decoding loop: the two counts and the normalised entries in order.\<close>

fun validate_loop :: "compdb_env \<Rightarrow> string \<Rightarrow> string \<Rightarrow> int \<times> int \<times> string list \<Rightarrow> json option list
    \<Rightarrow> (compdb_error, int \<times> int \<times> string list) result" where
  "validate_loop env projectRoot engineRoot acc [] = Inr acc"
| "validate_loop env projectRoot engineRoot (np, ne, ns) (v # vs) =
     (case v of
        None \<Rightarrow> Inl DecodeEntry
      | Some j \<Rightarrow>
          (case decode_Entry j of
             None \<Rightarrow> Inl DecodeEntry
           | Some e \<Rightarrow>
               (case validateEntry env e projectRoot engineRoot of
                  Inl err \<Rightarrow> Inl err
                | Inr (n, scope) \<Rightarrow>
                    validate_loop env projectRoot engineRoot
                      (if scope = 1 then np + 1 else np, if scope \<noteq> 1 \<and> scope = 2 then ne + 1 else ne, ns @ [n]) vs)))"

definition compdb_fingerprint :: "(string \<Rightarrow> string) \<Rightarrow> string list \<Rightarrow> string" where
  "compdb_fingerprint hash ns = hash (concat (map (\<lambda>n. n @ [CHR 0x0A]) (sort ns)))"

definition Validate :: "compdb_env \<Rightarrow> (string \<Rightarrow> string) \<Rightarrow> database_file option \<Rightarrow> string \<Rightarrow> string
    \<Rightarrow> (compdb_error, ValidationResult) result" where
  "Validate env hash file projectRoot engineRoot =
     (case canonical (cv_paths env) projectRoot of
        None \<Rightarrow> Inl NoWorkingDirectory
      | Some project \<Rightarrow>
          (case canonical (cv_paths env) engineRoot of
             None \<Rightarrow> Inl NoWorkingDirectory
           | Some engine \<Rightarrow>
               (case file of
                  None \<Rightarrow> Inl OpenDatabase
                | Some db \<Rightarrow>
                    if \<not> dbf_array db then Inl NotAnArray
                    else case validate_loop env project engine (0, 0, []) (dbf_values db) of
                        Inl err \<Rightarrow> Inl err
                      | Inr (np, ne, ns) \<Rightarrow>
                          if \<not> dbf_closed db then Inl FinishDatabase
                          else case dbf_trailing db of
                              TrailValue \<Rightarrow> Inl TrailingJSON
                            | TrailBad \<Rightarrow> Inl TrailingBytes
                            | TrailEOF \<Rightarrow>
                                if np = 0 \<or> ne = 0 then Inl (InsufficientCoverage np ne)
                                else Inr \<lparr>ProjectTranslationUnits = np, EngineTranslationUnits = ne,
                                          Fingerprint = compdb_fingerprint hash ns\<rparr>)))"

section \<open>Promotion\<close>

text \<open>
  What promotion can change: the database at the destination and the temporary file beside it.
  The outcome of each system call is an argument, as is the copied database; the final rename
  moves the temporary over the destination or changes nothing.
\<close>

record promotion_io =
  pio_mkdir :: bool
  pio_create :: bool
  pio_close :: bool
  pio_copy :: bool
  pio_rename :: bool

record 'd promotion =
  pr_destination :: "'d option"
  pr_temporary :: "'d option option"

datatype promotion_error =
    Invalid compdb_error | CreateDestination | CreateTemporary | CloseTemporary | StagePromotion | PromoteDatabase

definition ValidateAndPromote :: "compdb_env \<Rightarrow> (string \<Rightarrow> string) \<Rightarrow> promotion_io \<Rightarrow> database_file option \<Rightarrow> string \<Rightarrow> string
    \<Rightarrow> database_file promotion \<Rightarrow> (promotion_error, ValidationResult) result \<times> database_file promotion" where
  "ValidateAndPromote env hash ops staged projectRoot engineRoot st =
     (case Validate env hash staged projectRoot engineRoot of
        Inl err \<Rightarrow> (Inl (Invalid err), st)
      | Inr r \<Rightarrow>
          if \<not> pio_mkdir ops then (Inl CreateDestination, st)
          else if \<not> pio_create ops then (Inl CreateTemporary, st)
          else
            let st1 = st\<lparr>pr_temporary := Some None\<rparr> in
            if \<not> pio_close ops then (Inl CloseTemporary, st1\<lparr>pr_temporary := None\<rparr>)
            else if \<not> pio_copy ops then (Inl StagePromotion, st1\<lparr>pr_temporary := None\<rparr>)
            else
              let st2 = st1\<lparr>pr_temporary := Some staged\<rparr> in
              if \<not> pio_rename ops then (Inl PromoteDatabase, st2\<lparr>pr_temporary := None\<rparr>)
              else (Inr r, st2\<lparr>pr_destination := the (pr_temporary st2), pr_temporary := None\<rparr>))"

section \<open>Running UnrealBuildTool\<close>

record compdb_Input =
  in_DotNet :: string
  in_UBTDLL :: string
  in_UProject :: string
  in_Target :: string
  in_OutputDir :: string
  in_Configuration :: string
  in_Platform :: string

record compdb_Command =
  cc_Executable :: string
  cc_Args :: "string list"

definition BuildCommand :: "compdb_Input \<Rightarrow> compdb_Command" where
  "BuildCommand i =
     (let configuration = (if in_Configuration i = '''' then ''Development'' else in_Configuration i);
          platform = (if in_Platform i = '''' then ''Win64'' else in_Platform i)
      in \<lparr>cc_Executable = in_DotNet i,
          cc_Args = [in_UBTDLL i, ''-Mode=GenerateClangDatabase'', in_Target i, platform, configuration, ''-Compiler=Clang'',
            ''-NoExecCodeGenActions'', ''-Project='' @ in_UProject i, ''-OutputDir='' @ in_OutputDir i,
            ''-OutputFilename='' @ DatabaseName]\<rparr>)"

definition buffer_Write :: "int \<Rightarrow> string \<Rightarrow> string \<Rightarrow> int \<times> string" where
  "buffer_Write limit b p =
     (let remaining = limit - int (length b)
      in (int (length p),
          if 0 < remaining then (if remaining < int (length p) then b @ take (nat remaining) p else b @ p) else b))"

definition capture_limit :: "int \<Rightarrow> int" where
  "capture_limit maxCapture = (if maxCapture \<le> 0 then 65536 else maxCapture)"

text \<open>The writes of a process to its two streams, in order, with what is kept of each and the log.\<close>

datatype stream = Stdout | Stderr

record capture =
  cap_out :: string
  cap_err :: string
  cap_log :: string

definition exec_write :: "int \<Rightarrow> stream \<times> string \<Rightarrow> capture \<Rightarrow> capture" where
  "exec_write limit w c =
     (case w of
        (Stdout, p) \<Rightarrow> c\<lparr>cap_out := snd (buffer_Write limit (cap_out c) p), cap_log := cap_log c @ p\<rparr>
      | (Stderr, p) \<Rightarrow> c\<lparr>cap_err := snd (buffer_Write limit (cap_err c) p), cap_log := cap_log c @ p\<rparr>)"

definition ExecRunner_Run :: "int \<Rightarrow> (stream \<times> string) list \<Rightarrow> string \<Rightarrow> capture" where
  "ExecRunner_Run maxCapture writes log =
     fold (exec_write (capture_limit maxCapture)) writes \<lparr>cap_out = '''', cap_err = '''', cap_log = log\<rparr>"

datatype generate_error = NoRunner | CreateStaging | OpenLog | RunFailed string | NoDatabase

text \<open>
  \<open>gi_staging\<close> is the directory \<^verbatim>\<open>MkdirTemp\<close> makes; \<open>gi_run\<close> gives the captured error output and
  whether the process succeeded.  The second result is the set of staging directories left behind.
\<close>

record generate_io =
  gi_runner :: bool
  gi_staging :: "string option"
  gi_log :: bool
  gi_run :: "compdb_Command \<Rightarrow> string \<times> bool"
  gi_stat :: "string \<Rightarrow> bool"

text \<open>The deferred removal of the staging directory.\<close>

definition staging_left :: "bool \<Rightarrow> string \<Rightarrow> string set" where
  "staging_left keep staging = (if keep then {staging} else {})"

definition Generate :: "generate_io \<Rightarrow> compdb_Input \<Rightarrow> (generate_error, string) result \<times> string set" where
  "Generate g i =
     (if \<not> gi_runner g then (Inl NoRunner, {})
      else case gi_staging g of
          None \<Rightarrow> (Inl CreateStaging, {})
        | Some staging \<Rightarrow>
            if \<not> gi_log g then (Inl OpenLog, staging_left False staging)
            else case gi_run g (BuildCommand (i\<lparr>in_OutputDir := staging\<rparr>)) of
                (stderr, ok) \<Rightarrow>
                  if \<not> ok then (Inl (RunFailed stderr), staging_left False staging)
                  else if \<not> gi_stat g (path_join2 staging DatabaseName) then (Inl NoDatabase, staging_left False staging)
                  else (Inr staging, staging_left True staging))"

section \<open>Containment\<close>

lemma compdb_within_rel: "compdb_within path root = rel_inside (path_rel root path)"
  by (simp add: compdb_within_def rel_inside_def split: option.split)

interpretation compdb_contains: containment compdb_within
  by unfold_locales (simp add: compdb_within_rel rel_inside_iff_prefix)

section \<open>What validation accepts\<close>

text \<open>
  The files an accepted entry relies on are there: the source and the compiler are regular files
  and every response file named on the command line can be found.
\<close>

definition response_path :: "string \<Rightarrow> string \<Rightarrow> string" where
  "response_path directory arg =
     (let trimmed = trim_right is_dquote (trim_left is_dquote (drop 1 arg))
      in if is_abs trimmed then trimmed else path_join2 directory trimmed)"

definition usable_entry :: "compdb_env \<Rightarrow> compdb_Entry \<Rightarrow> string \<Rightarrow> bool" where
  "usable_entry env e source \<longleftrightarrow>
     (\<exists>directory compiler rest. canonical (cv_paths env) (ce_Directory e) = Some directory \<and>
        entry_source env directory (ce_File e) = Some source \<and> cv_stat env source = Some True \<and>
        entry_args e = compiler # rest \<and>
        cv_stat env (if is_abs compiler then compiler else path_join2 directory compiler) = Some True \<and>
        (\<forall>arg \<in> set rest. has_prefix arg ''@'' \<longrightarrow> cv_stat env (response_path directory arg) \<noteq> None))"

lemma check_responses_ok:
  "check_responses env directory args = Inr u \<longleftrightarrow>
   (\<forall>arg \<in> set args. has_prefix arg ''@'' \<longrightarrow> cv_stat env (response_path directory arg) \<noteq> None)"
  by (induction env directory args rule: check_responses.induct)
    (auto simp: Let_def response_path_def split: option.splits)

lemma requireRegularFile_ok: "requireRegularFile env path kind = Inr u \<longleftrightarrow> cv_stat env path = Some True"
  by (auto simp: requireRegularFile_def split: option.splits)

lemma validateEntry_ok:
  assumes "validateEntry env e project engine = Inr (n, scope)"
  shows "\<exists>source. usable_entry env e source \<and> n = normalized_entry source (entry_args e) \<and>
    scope = entry_scope source project engine"
  using assms
  by (auto simp: validateEntry_def usable_entry_def requireRegularFile_ok check_responses_ok
      split: if_split_asm option.split_asm sum.split_asm list.split_asm)

definition validate_value :: "compdb_env \<Rightarrow> string \<Rightarrow> string \<Rightarrow> json option \<Rightarrow> (compdb_error, string \<times> int) result" where
  "validate_value env project engine v =
     (case v of
        None \<Rightarrow> Inl DecodeEntry
      | Some j \<Rightarrow> (case decode_Entry j of None \<Rightarrow> Inl DecodeEntry | Some e \<Rightarrow> validateEntry env e project engine))"

definition in_scope :: "int \<Rightarrow> (string \<times> int) list \<Rightarrow> int" where
  "in_scope k rs = int (length (filter (\<lambda>x. snd x = k) rs))"

lemma validate_loop_Cons:
  "validate_loop env project engine (np, ne, ns) (v # vs) =
   (case validate_value env project engine v of
      Inl err \<Rightarrow> Inl err
    | Inr (n, scope) \<Rightarrow>
        validate_loop env project engine
          (if scope = 1 then np + 1 else np, if scope = 2 then ne + 1 else ne, ns @ [n]) vs)"
  by (auto simp: validate_value_def split: option.split sum.split)

declare validate_loop.simps(2) [simp del]

lemma all_Inr_Cons:
  "(\<exists>rs. map f (v # vs) = map Inr rs \<and> P rs) \<longleftrightarrow> (\<exists>x rs. f v = Inr x \<and> map f vs = map Inr rs \<and> P (x # rs))"
  by (simp add: Cons_eq_map_conv) blast

lemma in_scope_Cons: "in_scope k ((n, scope) # rs) = (if scope = k then 1 else 0) + in_scope k rs"
  by (simp add: in_scope_def)

text \<open>The loop accepts exactly when every value does, and adds up what they give.\<close>

lemma validate_loop_all:
  "validate_loop env project engine (np, ne, ns) vs = Inr acc \<longleftrightarrow>
   (\<exists>rs. map (validate_value env project engine) vs = map Inr rs \<and>
      acc = (np + in_scope 1 rs, ne + in_scope 2 rs, ns @ map fst rs))"
proof (induction vs arbitrary: np ne ns)
  case Nil
  then show ?case by (auto simp: in_scope_def)
next
  case (Cons v vs)
  show ?case
  proof (cases "validate_value env project engine v")
    case (Inl err)
    then show ?thesis unfolding validate_loop_Cons all_Inr_Cons by simp
  next
    case (Inr x)
    then show ?thesis
      unfolding validate_loop_Cons all_Inr_Cons by (cases x) (simp add: Cons.IH in_scope_Cons add.assoc)
  qed
qed

definition acceptance :: "compdb_env \<Rightarrow> (string \<Rightarrow> string) \<Rightarrow> string \<Rightarrow> string \<Rightarrow> json option list \<Rightarrow> ValidationResult \<Rightarrow> bool" where
  "acceptance env hash project engine vs r \<longleftrightarrow>
     (\<exists>rs. map (validate_value env project engine) vs = map Inr rs \<and>
        0 < in_scope 1 rs \<and> 0 < in_scope 2 rs \<and>
        r = \<lparr>ProjectTranslationUnits = in_scope 1 rs, EngineTranslationUnits = in_scope 2 rs,
             Fingerprint = compdb_fingerprint hash (map fst rs)\<rparr>)"

lemma Validate_iff:
  "Validate env hash file projectRoot engineRoot = Inr r \<longleftrightarrow>
   (\<exists>project engine db. canonical (cv_paths env) projectRoot = Some project \<and>
      canonical (cv_paths env) engineRoot = Some engine \<and> file = Some db \<and>
      dbf_array db \<and> dbf_closed db \<and> dbf_trailing db = TrailEOF \<and>
      acceptance env hash project engine (dbf_values db) r)"
proof -
  have pos: "(0 :: int) < in_scope k rs \<longleftrightarrow> in_scope k rs \<noteq> 0" for k rs
    by (auto simp: in_scope_def)
  have loop: "validate_loop env project engine (0, 0, []) vs = Inr acc \<longleftrightarrow>
      (\<exists>rs. map (validate_value env project engine) vs = map Inr rs \<and> acc = (in_scope 1 rs, in_scope 2 rs, map fst rs))"
    for project engine vs acc
    using validate_loop_all[of env project engine 0 0 "[]" vs acc] by simp
  have failed: "validate_loop env project engine (0, 0, []) vs = Inl err \<Longrightarrow>
      map (validate_value env project engine) vs \<noteq> map Inr rs" for project engine vs err rs
    using loop[of project engine vs "(in_scope 1 rs, in_scope 2 rs, map fst rs)"] by auto
  show ?thesis
    unfolding Validate_def acceptance_def pos
    by (auto simp: loop split: option.split sum.split trailing.split dest: failed)
qed

lemma validate_value_ok:
  assumes "validate_value env project engine v = Inr x"
  shows "\<exists>j e source. v = Some j \<and> decode_Entry j = Some e \<and> usable_entry env e source \<and>
    x = (normalized_entry source (entry_args e), entry_scope source project engine)"
  using assms by (cases x) (auto simp: validate_value_def split: option.split_asm dest!: validateEntry_ok)

lemma map_Inr_mset:
  "map f vs = map Inr rs \<Longrightarrow> mset vs' = mset vs \<Longrightarrow> \<exists>rs'. map f vs' = map Inr rs' \<and> mset rs' = mset rs"
proof -
  assume m: "map f vs = map Inr rs" and p: "mset vs' = mset vs"
  have "\<forall>v \<in> set vs'. \<exists>x. f v = Inr x"
    using m mset_eq_setD[OF p] by (metis (no_types, lifting) image_iff list.set_map)
  then have e: "map f vs' = map Inr (map (projr \<circ> f) vs')"
    by auto
  have "map (projr \<circ> f) vs = map (projr \<circ> Inr) rs"
    using arg_cong[OF m, of "map projr"] by simp
  then have "mset (map (projr \<circ> f) vs') = mset rs"
    using p by (simp add: comp_def) (metis mset_map)
  with e show ?thesis by blast
qed

lemma acceptance_mset:
  assumes "acceptance env hash project engine vs r" and "mset vs' = mset vs"
  shows "acceptance env hash project engine vs' r"
proof -
  obtain rs where rs: "map (validate_value env project engine) vs = map Inr rs" "0 < in_scope 1 rs" "0 < in_scope 2 rs"
      "r = \<lparr>ProjectTranslationUnits = in_scope 1 rs, EngineTranslationUnits = in_scope 2 rs,
            Fingerprint = compdb_fingerprint hash (map fst rs)\<rparr>"
    using assms(1) unfolding acceptance_def by blast
  obtain rs' where rs': "map (validate_value env project engine) vs' = map Inr rs'" "mset rs' = mset rs"
    using map_Inr_mset[OF rs(1) assms(2)] by blast
  have "in_scope k rs' = in_scope k rs" for k
    unfolding in_scope_def size_mset[symmetric] mset_filter rs'(2) ..
  moreover have "sort (map fst rs') = sort (map fst rs)"
    by (rule properties_for_sort) (simp_all add: rs'(2))
  ultimately show ?thesis
    using rs rs'(1) unfolding acceptance_def compdb_fingerprint_def by metis
qed

definition sample_compdb_env :: compdb_env where
  "sample_compdb_env =
     \<lparr>cv_paths = \<lparr>Getwd = Some ''/w'', EvalSymlinks = (\<lambda>p. if is_abs p then Some (path_clean p) else None)\<rparr>,
      cv_stat = (\<lambda>p. if p \<in> set [''/p/a.cpp'', ''/e/b.cpp'', ''/cl'', ''/p/r.rsp''] then Some True else None)\<rparr>"

definition sample_value :: "string \<Rightarrow> string \<Rightarrow> json option" where
  "sample_value directory file =
     Some (JObj [(''directory'', JStr directory), (''file'', JStr file),
                 (''arguments'', JArr [JStr ''/cl'', JStr ''@/p/r.rsp''])])"

definition sample_database :: database_file where
  "sample_database =
     \<lparr>dbf_array = True, dbf_values = [sample_value ''/p'' ''a.cpp'', sample_value ''/e'' ''/e/b.cpp''],
      dbf_closed = True, dbf_trailing = TrailEOF\<rparr>"

lemma sample_validates:
  "Validate sample_compdb_env (\<lambda>s. ''h'') (Some sample_database) ''/p'' ''/e'' =
   Inr \<lparr>ProjectTranslationUnits = 1, EngineTranslationUnits = 1, Fingerprint = ''h''\<rparr>"
  by code_simp

text \<open>
  C24. An accepted database can be used: it is one complete JSON array, every entry names a regular
  source file, a regular compiler and response files that exist, and at least one entry lies in the
  project and one, outside the project, in the engine.  The counts are the numbers of entries in
  each, and the fingerprint is the hash of the sorted normalised entries.
\<close>

theorem Validate_sound:
  assumes "Validate env hash file projectRoot engineRoot = Inr r"
  shows "\<exists>project engine db rs.
      canonical (cv_paths env) projectRoot = Some project \<and> canonical (cv_paths env) engineRoot = Some engine \<and>
      file = Some db \<and> dbf_array db \<and> dbf_closed db \<and> dbf_trailing db = TrailEOF \<and>
      list_all2 (\<lambda>v x. \<exists>j e source. v = Some j \<and> decode_Entry j = Some e \<and> usable_entry env e source \<and>
          x = (normalized_entry source (entry_args e), entry_scope source project engine)) (dbf_values db) rs \<and>
      ProjectTranslationUnits r = in_scope 1 rs \<and> EngineTranslationUnits r = in_scope 2 rs \<and>
      0 < ProjectTranslationUnits r \<and> 0 < EngineTranslationUnits r \<and>
      Fingerprint r = compdb_fingerprint hash (map fst rs)"
proof -
  obtain project engine db rs where ok: "canonical (cv_paths env) projectRoot = Some project"
      "canonical (cv_paths env) engineRoot = Some engine" "file = Some db" "dbf_array db" "dbf_closed db"
      "dbf_trailing db = TrailEOF" "0 < in_scope 1 rs" "0 < in_scope 2 rs"
    and rs: "map (validate_value env project engine) (dbf_values db) = map Inr rs"
    and r: "r = \<lparr>ProjectTranslationUnits = in_scope 1 rs, EngineTranslationUnits = in_scope 2 rs,
                 Fingerprint = compdb_fingerprint hash (map fst rs)\<rparr>"
    using assms unfolding Validate_iff acceptance_def by blast
  have "list_all2 (\<lambda>v x. \<exists>j e source. v = Some j \<and> decode_Entry j = Some e \<and> usable_entry env e source \<and>
          x = (normalized_entry source (entry_args e), entry_scope source project engine)) (dbf_values db) rs"
    unfolding list_all2_conv_all_nth
  proof (intro conjI allI impI)
    show "length (dbf_values db) = length rs"
      using rs by (rule map_eq_imp_length_eq)
    fix i assume "i < length (dbf_values db)"
    then have "validate_value env project engine (dbf_values db ! i) = Inr (rs ! i)"
      using arg_cong[OF rs, of "\<lambda>xs. xs ! i"] map_eq_imp_length_eq[OF rs] by simp
    then show "\<exists>j e source. dbf_values db ! i = Some j \<and> decode_Entry j = Some e \<and> usable_entry env e source \<and>
        rs ! i = (normalized_entry source (entry_args e), entry_scope source project engine)"
      by (rule validate_value_ok)
  qed
  then show ?thesis
    using ok by (intro exI[of _ project] exI[of _ engine] exI[of _ db] exI[of _ rs]) (simp add: r)
qed

theorem Validate_sound_witness:
  "\<exists>rs. length (dbf_values sample_database) = length rs \<and> in_scope 1 rs = 1 \<and> in_scope 2 rs = 1"
proof -
  from Validate_sound[OF sample_validates] obtain rs where
    "length (dbf_values sample_database) = length rs" "1 = in_scope 1 rs" "1 = in_scope 2 rs"
    unfolding option.inject ValidationResult.simps by (blast dest: list_all2_lengthD)
  then show ?thesis by metis
qed

text \<open>
  The order in which the generator writes the entries does not matter: two databases with the
  same entries are accepted alike, with the same counts and the same fingerprint.
\<close>

theorem Validate_order_independent:
  "mset vs = mset (dbf_values db) \<Longrightarrow>
   Validate env hash (Some (db\<lparr>dbf_values := vs\<rparr>)) projectRoot engineRoot = Inr r \<longleftrightarrow>
   Validate env hash (Some db) projectRoot engineRoot = Inr r"
  by (auto simp: Validate_iff intro: acceptance_mset acceptance_mset[OF _ sym])

theorem Validate_order_independent_witness:
  "Validate sample_compdb_env (\<lambda>s. ''h'') (Some (sample_database\<lparr>dbf_values := rev (dbf_values sample_database)\<rparr>)) ''/p'' ''/e'' =
   Inr \<lparr>ProjectTranslationUnits = 1, EngineTranslationUnits = 1, Fingerprint = ''h''\<rparr>"
  using Validate_order_independent[of "rev (dbf_values sample_database)" sample_database] sample_validates by simp

text \<open>
  C25. Promotion is all or nothing: it either fails and leaves the last good database as it was, or
  the destination holds exactly the staged database, which was validated.  The temporary file is
  gone in every case.
\<close>

theorem ValidateAndPromote_atomic:
  assumes "pr_temporary st = None"
  shows "case ValidateAndPromote env hash ops staged projectRoot engineRoot st of
      (Inl _, st') \<Rightarrow> st' = st
    | (Inr r, st') \<Rightarrow> Validate env hash staged projectRoot engineRoot = Inr r \<and>
        staged \<noteq> None \<and> pr_destination st' = staged \<and> pr_temporary st' = None"
proof -
  have "staged \<noteq> None" if "Validate env hash staged projectRoot engineRoot = Inr r" for r
    using that by (auto simp: Validate_iff)
  then show ?thesis
    using assms by (cases st) (auto simp: ValidateAndPromote_def Let_def split: sum.split)
qed

definition sample_promotion :: "bool \<Rightarrow> promotion_io" where
  "sample_promotion renamed = \<lparr>pio_mkdir = True, pio_create = True, pio_close = True, pio_copy = True, pio_rename = renamed\<rparr>"

theorem ValidateAndPromote_atomic_witness:
  "snd (ValidateAndPromote sample_compdb_env (\<lambda>s. ''h'') (sample_promotion False) (Some sample_database) ''/p'' ''/e''
     \<lparr>pr_destination = None, pr_temporary = None\<rparr>) = \<lparr>pr_destination = None, pr_temporary = None\<rparr>"
  using ValidateAndPromote_atomic[of "\<lparr>pr_destination = None, pr_temporary = None\<rparr>" sample_compdb_env "\<lambda>s. ''h''"
      "Some sample_database" "''/p''" "''/e''" "sample_promotion False"] sample_validates
  by (simp add: ValidateAndPromote_def sample_promotion_def Let_def)

section \<open>Command lines round trip\<close>

text \<open>A quoting of a word: each double quote in single quotes, every other rune in double quotes.\<close>

definition quote_word :: "string \<Rightarrow> string" where
  "quote_word w = concat (map (\<lambda>r. if r = rune_double then rune_single @ r @ rune_single else rune_double @ r @ rune_double) (runes w))"

definition quote_runes :: "string list \<Rightarrow> string list" where
  "quote_runes rs = concat (map (\<lambda>r. if r = rune_double then [rune_single, r, rune_single] else [rune_double, r, rune_double]) rs)"

lemma split_loop_quoted:
  "split_loop '''' current (quote_runes rs @ rest) = split_loop '''' (current @ concat rs) rest"
proof (induction rs arbitrary: current)
  case Nil
  then show ?case by (simp add: quote_runes_def)
next
  case (Cons r rs)
  then show ?case by (cases "r = rune_double") (auto simp: quote_runes_def)
qed

lemma valid_rune_ascii: "byte c < 128 \<Longrightarrow> valid_rune [c]"
  by (simp add: valid_rune_def encoded_length_def)

lemma range_runes_concat: "list_all valid_rune rs \<Longrightarrow> range_runes (concat rs) = rs"
  by (simp add: range_runes_def runes_concat list_all_iff map_idI)

lemma quote_word_runes: "quote_word w = concat (quote_runes (runes w))"
proof -
  have "concat (map (\<lambda>r. if r = rune_double then rune_single @ r @ rune_single else rune_double @ r @ rune_double) rs) =
      concat (quote_runes rs)" for rs
    by (induction rs) (simp_all add: quote_runes_def)
  then show ?thesis by (simp add: quote_word_def)
qed

lemma quote_runes_valid: "list_all valid_rune rs \<Longrightarrow> list_all valid_rune (quote_runes rs)"
  by (induction rs) (auto simp: quote_runes_def valid_rune_ascii byte_def)

definition line_runes :: "string list \<Rightarrow> string list" where
  "line_runes ws = concat (map (\<lambda>w. quote_runes (runes w) @ ['' '']) ws)"

lemma split_line:
  "list_all (\<lambda>w. w \<noteq> '''') ws \<Longrightarrow> split_loop '''' '''' (line_runes ws) = ws"
  by (induction ws) (simp_all add: line_runes_def split_loop_quoted)

text \<open>
  Every list of nonempty arguments can be written as a command line that the validator reads back
  as that list: double quotes in single quotes, everything else in double quotes, words separated by
  spaces.  No command line gives an empty argument.
\<close>

theorem splitCommand_quoted:
  "(list_all (\<lambda>w. w \<noteq> '''' \<and> valid_utf8 w) ws \<longrightarrow> splitCommand (concat (map (\<lambda>w. quote_word w @ '' '') ws)) = ws) \<and>
   '''' \<notin> set (splitCommand command)"
proof
  show "list_all (\<lambda>w. w \<noteq> '''' \<and> valid_utf8 w) ws \<longrightarrow> splitCommand (concat (map (\<lambda>w. quote_word w @ '' '') ws)) = ws"
  proof
    assume ok: "list_all (\<lambda>w. w \<noteq> '''' \<and> valid_utf8 w) ws"
    have "concat (map (\<lambda>w. quote_word w @ '' '') ws) = concat (line_runes ws)"
      by (induction ws) (simp_all add: line_runes_def quote_word_runes)
    moreover have "list_all valid_rune (line_runes ws)"
      using ok by (induction ws) (auto simp: line_runes_def valid_utf8_def quote_runes_valid valid_rune_ascii byte_def)
    ultimately show "splitCommand (concat (map (\<lambda>w. quote_word w @ '' '') ws)) = ws"
      using ok by (simp add: splitCommand_def range_runes_concat split_line list_all_iff)
  qed
  have "'''' \<notin> set (split_loop quote current rs)" for quote current rs
    by (induction quote current rs rule: split_loop.induct) auto
  then show "'''' \<notin> set (splitCommand command)"
    by (simp add: splitCommand_def)
qed

theorem splitCommand_quoted_witness:
  "splitCommand (concat (map (\<lambda>w. quote_word w @ '' '') [''a b'', [CHR 0x22], ''c''])) = [''a b'', [CHR 0x22], ''c'']"
proof -
  have "list_all (\<lambda>w. w \<noteq> '''' \<and> valid_utf8 w) [''a b'', [CHR 0x22], ''c'']" by code_simp
  then show ?thesis using splitCommand_quoted[of "[''a b'', [CHR 0x22], ''c'']"] by blast
qed

section \<open>The generator\<close>

lemma buffer_Write_take:
  assumes "0 < limit" and "b = take (nat limit) all"
  shows "snd (buffer_Write limit b p) = take (nat limit) (all @ p) \<and> fst (buffer_Write limit b p) = int (length p)"
  using assms by (auto simp: buffer_Write_def Let_def nat_diff_distrib' min_def nat_le_iff)

definition written :: "stream \<Rightarrow> (stream \<times> string) list \<Rightarrow> string" where
  "written s ws = concat (map snd (filter (\<lambda>w. fst w = s) ws))"

text \<open>
  What is kept of a stream of the build tool is the first bytes it wrote, up to the limit, however
  the writes are split and interleaved with the other stream's, and the log has all of both in order.
\<close>

theorem capture_is_prefix:
  "ExecRunner_Run maxCapture ws log =
   \<lparr>cap_out = take (nat (capture_limit maxCapture)) (written Stdout ws),
    cap_err = take (nat (capture_limit maxCapture)) (written Stderr ws),
    cap_log = log @ concat (map snd ws)\<rparr>"
proof (induction ws rule: rev_induct)
  case Nil
  then show ?case by (simp add: ExecRunner_Run_def written_def)
next
  case (snoc w ws)
  obtain s p where w: "w = (s, p)" by (cases w)
  have pos: "0 < capture_limit maxCapture" by (simp add: capture_limit_def)
  have "ExecRunner_Run maxCapture (ws @ [w]) log = exec_write (capture_limit maxCapture) w (ExecRunner_Run maxCapture ws log)"
    by (simp add: ExecRunner_Run_def)
  then show ?case
    unfolding snoc w using buffer_Write_take[OF pos refl] by (cases s) (simp_all add: exec_write_def written_def)
qed

text \<open>
  A generation that succeeds leaves exactly its staging directory, in which the database is found,
  after UnrealBuildTool was told to write there; one that fails leaves no staging directory.
\<close>

theorem Generate_staging:
  "case Generate g i of
     (Inl _, left) \<Rightarrow> left = {}
   | (Inr staging, left) \<Rightarrow> left = {staging} \<and> gi_staging g = Some staging \<and>
       snd (gi_run g (BuildCommand (i\<lparr>in_OutputDir := staging\<rparr>))) \<and>
       (''-OutputDir='' @ staging) \<in> set (cc_Args (BuildCommand (i\<lparr>in_OutputDir := staging\<rparr>))) \<and>
       gi_stat g (path_join2 staging DatabaseName)"
  by (auto simp: Generate_def staging_left_def BuildCommand_def split: option.split prod.split)

end
