(* ===== verification/RiderModules.thy ===== *)
theory RiderModules
  imports Compdb "HOL-Library.Product_Lexorder"
begin

text \<open>
  The modules of a Rider target (\<^verbatim>\<open>internal/compdb/rider.go\<close>): the index that finds the module of a
  source file by climbing from its directory, and the roots the synthesis walks.  Both are compared
  with what they promise: the nearest enclosing module, and a smallest set of directories that
  covers all of them.
\<close>

section \<open>Modules\<close>

record riderRules =
  PublicIncludePaths :: "string list"
  PrivateIncludePaths :: "string list"
  IncludePaths :: "string list"
  Definitions :: "string list"
  PublicDefinitions :: "string list"
  PrivateDefinitions :: "string list"
  ForceIncludeFiles :: "string list"
  PublicSystemIncludePaths :: "string list"
  SystemIncludePaths :: "string list"
  InternalIncludePaths :: "string list"
  LegacyPublicIncludePaths :: "string list"
  ProjectDefinitions :: "string list"
  ApiDefinitions :: "string list"

record riderResolvedModule =
  rr_name :: string
  rr_dir :: string
  rr_generatedDir :: string
  rr_rules :: riderRules

definition riderPathKey :: "string \<Rightarrow> string" where
  "riderPathKey path = path_clean path"

record riderModuleIndex =
  ix_modules :: "riderResolvedModule list"
  ix_byDir :: "string \<rightharpoonup> nat"

definition index_add :: "riderResolvedModule list \<Rightarrow> (string \<rightharpoonup> nat) \<Rightarrow> nat \<Rightarrow> (string \<rightharpoonup> nat)" where
  "index_add ms byDir i =
     (let key = riderPathKey (rr_dir (ms ! i)) in if byDir key = None then byDir(key \<mapsto> i) else byDir)"

definition newRiderModuleIndex :: "riderResolvedModule list \<Rightarrow> riderModuleIndex" where
  "newRiderModuleIndex ms =
     \<lparr>ix_modules = ms, ix_byDir = foldl (index_add ms) (\<lambda>_. None) [0..<length ms]\<rparr>"

text \<open>The climb; \<open>probes\<close> counts the directories looked up so far, this one included.\<close>

function lookup_climb :: "riderModuleIndex \<Rightarrow> nat \<Rightarrow> string \<Rightarrow> riderResolvedModule option \<times> nat" where
  "lookup_climb ix probes dir =
     (case ix_byDir ix (riderPathKey dir) of
        Some i \<Rightarrow> (Some (ix_modules ix ! i), probes)
      | None \<Rightarrow>
          if path_dir dir = dir then (None, probes) else lookup_climb ix (probes + 1) (path_dir dir))"
  by pat_completeness auto
termination
  by (relation "measure (\<lambda>(ix, probes, dir). climb_measure dir)") (auto simp: path_dir_measure)

declare lookup_climb.simps [simp del]

definition lookupWithProbes :: "riderModuleIndex \<Rightarrow> string \<Rightarrow> riderResolvedModule option \<times> nat" where
  "lookupWithProbes ix file = lookup_climb ix 1 (path_dir (path_clean file))"

definition index_lookup :: "riderModuleIndex \<Rightarrow> string \<Rightarrow> riderResolvedModule option" where
  "index_lookup ix file = fst (lookupWithProbes ix file)"

section \<open>Walk roots\<close>

function covered_by :: "string list \<Rightarrow> string \<Rightarrow> bool" where
  "covered_by rootKeys current =
     (if riderPathKey current \<in> set rootKeys then True
      else if path_dir current = current then False
      else covered_by rootKeys (path_dir current))"
  by pat_completeness auto
termination
  by (relation "measure (\<lambda>(rootKeys, current). climb_measure current)") (auto simp: path_dir_measure)

declare covered_by.simps [simp del]

fun walk_roots_loop :: "string list \<Rightarrow> string list \<Rightarrow> string list" where
  "walk_roots_loop roots [] = roots"
| "walk_roots_loop roots (dir # dirs) =
     (if covered_by (map riderPathKey roots) dir then walk_roots_loop roots dirs
      else walk_roots_loop (roots @ [dir]) dirs)"

definition riderModuleWalkRoots :: "riderResolvedModule list \<Rightarrow> string list" where
  "riderModuleWalkRoots ms = walk_roots_loop [] (sort_key (\<lambda>d. (length d, d)) (map rr_dir ms))"

section \<open>The parent of a cleaned path\<close>

text \<open>An absolute path in the form \<^verbatim>\<open>Clean\<close> leaves.\<close>

definition clean_abs :: "string \<Rightarrow> bool" where
  "clean_abs p \<longleftrightarrow> is_abs p \<and> path_clean p = p"

lemma clean_abs_text: "clean_abs p \<Longrightarrow> p = sep # str_join ''/'' (path_parts p)"
  using path_clean_abs by (auto simp: clean_abs_def)

lemma clean_abs_join: "list_all good_part xs \<Longrightarrow> clean_abs (sep # str_join ''/'' xs)"
  by (simp add: clean_abs_def path_clean_abs path_parts_join)

lemma clean_abs_clean: "is_abs p \<Longrightarrow> clean_abs (path_clean p)"
  by (simp add: clean_abs_def is_abs_clean path_clean_idem)

lemma clean_abs_eq: "clean_abs p \<Longrightarrow> clean_abs q \<Longrightarrow> p = q \<longleftrightarrow> path_parts p = path_parts q"
  by (metis clean_abs_text)

lemma str_join_snoc: "xs \<noteq> [] \<Longrightarrow> str_join d (xs @ [x]) = str_join d xs @ d @ x"
  by (induction xs rule: induct_list012) auto

lemma path_parts_trailing: "q \<noteq> '''' \<Longrightarrow> path_parts (q @ ''/'') = path_parts q"
proof -
  assume "q \<noteq> ''''"
  then have "is_abs (q @ ''/'') = is_abs q" by (cases q) auto
  then show ?thesis by (simp add: path_parts_def split_on_trailing clean_walk_last_empty)
qed

lemma path_dir_clean:
  assumes "clean_abs p"
  shows "path_dir p = sep # str_join ''/'' (butlast (path_parts p))"
proof (cases "path_parts p" rule: rev_cases)
  case Nil
  then have "p = ''/''"
    using clean_abs_text[OF assms] by simp
  then show ?thesis
    using Nil by (simp add: path_dir_def path_clean_def)
next
  case (snoc xs x)
  have good: "list_all good_part xs" "good_part x"
    using path_parts_good[of p] assms snoc by (auto simp: clean_abs_def)
  then have nosep: "\<forall>c \<in> set (rev x). c \<noteq> sep"
    by (auto simp: good_part_def)
  define q where "q = (if xs = [] then '''' else sep # str_join ''/'' xs)"
  have p: "p = q @ sep # x"
    using clean_abs_text[OF assms] snoc by (simp add: q_def str_join_snoc)
  have "path_dir p = path_clean (q @ ''/'')"
    using nosep by (simp add: path_dir_def p dropWhile_append dropWhile_eq_Nil_conv)
  also have "\<dots> = sep # str_join ''/'' xs"
  proof (cases "xs = []")
    case True
    then show ?thesis by (simp add: q_def path_clean_def path_parts_def)
  next
    case False
    then have "path_clean (q @ ''/'') = sep # str_join ''/'' (path_parts q)"
      using path_parts_trailing[of q] by (simp add: q_def path_clean_abs)
    then show ?thesis
      using False good(1) by (simp add: q_def path_parts_join)
  qed
  finally show ?thesis
    using snoc by simp
qed

lemma path_dir_clean_abs:
  assumes "clean_abs p"
  shows "clean_abs (path_dir p)" "path_parts (path_dir p) = butlast (path_parts p)"
proof -
  have "list_all good_part (butlast (path_parts p))"
    using path_parts_good[of p] assms by (auto simp: clean_abs_def list_all_iff dest: in_set_butlastD)
  then show "clean_abs (path_dir p)" "path_parts (path_dir p) = butlast (path_parts p)"
    by (simp_all add: path_dir_clean[OF assms] clean_abs_join path_parts_join)
qed

lemma path_dir_fix: "clean_abs p \<Longrightarrow> path_dir p = p \<longleftrightarrow> path_parts p = []"
  using path_dir_clean_abs[of p] by (metis append_butlast_last_id butlast.simps(1) clean_abs_eq not_Cons_self2 append_eq_conv_conj self_append_conv)

lemma length_clean_abs: "clean_abs p \<Longrightarrow> length p = max 1 (weight (path_parts p))"
proof -
  assume "clean_abs p"
  then have "length p = Suc (length (str_join ''/'' (path_parts p)))"
    using clean_abs_text by (metis length_Cons)
  then show ?thesis
    using length_join_weight[of "path_parts p"] by (cases "path_parts p = []") auto
qed

lemma weight_good: "list_all good_part zs \<Longrightarrow> zs \<noteq> [] \<Longrightarrow> 2 \<le> weight zs"
  by (cases zs) (auto simp: good_part_def Suc_le_eq)

lemma clean_abs_prefix_length:
  assumes "clean_abs p" "clean_abs q" "prefix (path_parts p) (path_parts q)" "length q \<le> length p"
  shows "p = q"
proof -
  obtain zs where zs: "path_parts q = path_parts p @ zs"
    using assms(3) by (auto simp: prefix_def)
  have "list_all good_part zs"
    using path_parts_good[of q] assms(2) zs by (auto simp: clean_abs_def)
  then have "zs = []"
    using weight_good[of zs] assms(4)
    by (auto simp: length_clean_abs[OF assms(1)] length_clean_abs[OF assms(2)] zs max_def split: if_split_asm)
  then show ?thesis
    using clean_abs_eq[OF assms(1,2)] zs by simp
qed

section \<open>The index finds the nearest module\<close>

abbreviation module_parts :: "riderResolvedModule \<Rightarrow> string list" where
  "module_parts m \<equiv> path_parts (rr_dir m)"

lemma index_fold:
  "foldl (index_add ms) (\<lambda>_. None) [0..<n] k = find (\<lambda>i. riderPathKey (rr_dir (ms ! i)) = k) [0..<n]"
  by (induction n) (auto simp: index_add_def Let_def find_snoc split: option.split)

lemma find_upt_Some:
  "find P [0..<n] = Some i \<longleftrightarrow> i < n \<and> P i \<and> (\<forall>j < i. \<not> P j)"
  by (auto simp: find_Some_iff nth_append)

lemma find_upt_None: "find P [0..<n] = None \<longleftrightarrow> (\<forall>i < n. \<not> P i)"
  by (auto simp: find_None_iff)

definition absolute_modules :: "riderResolvedModule list \<Rightarrow> bool" where
  "absolute_modules ms \<longleftrightarrow> list_all (\<lambda>m. is_abs (rr_dir m)) ms"

lemma byDir_at:
  assumes "absolute_modules ms" and "clean_abs dir"
  shows "ix_byDir (newRiderModuleIndex ms) (riderPathKey dir) =
    find (\<lambda>i. module_parts (ms ! i) = path_parts dir) [0..<length ms]"
proof -
  have "riderPathKey (rr_dir (ms ! i)) = riderPathKey dir \<longleftrightarrow> module_parts (ms ! i) = path_parts dir"
    if "i < length ms" for i
    using assms that path_clean_eq_iff by (simp add: absolute_modules_def list_all_length riderPathKey_def clean_abs_def) metis
  then show ?thesis
    by (auto simp: newRiderModuleIndex_def index_fold intro!: find_cong)
qed

lemma prefix_butlast: "xs \<noteq> ys \<Longrightarrow> prefix xs ys \<longleftrightarrow> ys \<noteq> [] \<and> prefix xs (butlast ys)"
  by (cases ys rule: rev_cases) (auto simp: prefix_snoc)

text \<open>\<open>i\<close> is the first module with the deepest directory at or above the parts \<open>ps\<close>.\<close>

definition nearest_module :: "riderResolvedModule list \<Rightarrow> string list \<Rightarrow> nat \<Rightarrow> bool" where
  "nearest_module ms ps i \<longleftrightarrow>
     i < length ms \<and> prefix (module_parts (ms ! i)) ps \<and>
     (\<forall>j < length ms. prefix (module_parts (ms ! j)) ps \<longrightarrow> prefix (module_parts (ms ! j)) (module_parts (ms ! i))) \<and>
     (\<forall>j < i. module_parts (ms ! j) \<noteq> module_parts (ms ! i))"

lemma lookup_climb_nearest:
  assumes "absolute_modules ms" and "clean_abs dir"
  shows "case lookup_climb (newRiderModuleIndex ms) n dir of
      (Some m, k) \<Rightarrow> k \<le> n + length (path_parts dir) \<and> (\<exists>i. m = ms ! i \<and> nearest_module ms (path_parts dir) i)
    | (None, k) \<Rightarrow> k \<le> n + length (path_parts dir) \<and> (\<forall>m \<in> set ms. \<not> prefix (module_parts m) (path_parts dir))"
  using assms(2)
proof (induction "newRiderModuleIndex ms" n dir rule: lookup_climb.induct)
  case (1 n dir)
  note at = byDir_at[OF assms(1) 1(2)]
  show ?case
  proof (cases "ix_byDir (newRiderModuleIndex ms) (riderPathKey dir)")
    case (Some i)
    then have "i < length ms" "module_parts (ms ! i) = path_parts dir" "\<forall>j < i. module_parts (ms ! j) \<noteq> path_parts dir"
      unfolding at find_upt_Some by auto
    then have "nearest_module ms (path_parts dir) i" by (simp add: nearest_module_def)
    then show ?thesis
      using Some by (auto simp: lookup_climb.simps[of _ n dir]) (auto simp: newRiderModuleIndex_def)
  next
    case None
    then have none: "\<forall>i < length ms. module_parts (ms ! i) \<noteq> path_parts dir"
      unfolding at find_upt_None .
    note up = path_dir_clean_abs[OF 1(2)]
    show ?thesis
    proof (cases "path_dir dir = dir")
      case True
      then have "path_parts dir = []" using path_dir_fix[OF 1(2)] by simp
      then show ?thesis
        using None True none by (auto simp: lookup_climb.simps[of _ n dir] in_set_conv_nth)
    next
      case False
      then have ne: "path_parts dir \<noteq> []" using path_dir_fix[OF 1(2)] by simp
      have step: "lookup_climb (newRiderModuleIndex ms) n dir = lookup_climb (newRiderModuleIndex ms) (n + 1) (path_dir dir)"
        using None False by (simp add: lookup_climb.simps[of _ n dir])
      have pre: "prefix (module_parts (ms ! i)) (path_parts dir) \<longleftrightarrow> prefix (module_parts (ms ! i)) (butlast (path_parts dir))"
        if "i < length ms" for i
        using none that ne prefix_butlast by blast
      then have near: "nearest_module ms (path_parts dir) i \<longleftrightarrow> nearest_module ms (butlast (path_parts dir)) i" for i
        by (auto simp: nearest_module_def)
      have len: "n + 1 + length (butlast (path_parts dir)) = n + length (path_parts dir)"
        using ne by (cases "path_parts dir") auto
      have all: "(\<forall>m \<in> set ms. \<not> prefix (module_parts m) (butlast (path_parts dir))) \<longleftrightarrow>
          (\<forall>m \<in> set ms. \<not> prefix (module_parts m) (path_parts dir))"
        using pre by (metis in_set_conv_nth)
      show ?thesis
        using 1(1)[OF None False up(1)] unfolding step up(2) len near all .
    qed
  qed
qed

definition no_rules :: riderRules where
  "no_rules =
     \<lparr>PublicIncludePaths = [], PrivateIncludePaths = [], IncludePaths = [], Definitions = [], PublicDefinitions = [],
      PrivateDefinitions = [], ForceIncludeFiles = [], PublicSystemIncludePaths = [], SystemIncludePaths = [],
      InternalIncludePaths = [], LegacyPublicIncludePaths = [], ProjectDefinitions = [], ApiDefinitions = []\<rparr>"

definition sample_module :: "string \<Rightarrow> string \<Rightarrow> riderResolvedModule" where
  "sample_module name dir = \<lparr>rr_name = name, rr_dir = dir, rr_generatedDir = '''', rr_rules = no_rules\<rparr>"

definition sample_modules :: "riderResolvedModule list" where
  "sample_modules = [sample_module ''P'' ''/p'', sample_module ''A'' ''/p/Source/A'']"

text \<open>
  C27. The index gives a source file the nearest enclosing module: the first listed of those whose
  directory is the deepest one at or above the file's directory, and none exactly when no module
  encloses it; it looks at no more directories than the file has path components, however many
  modules there are.
\<close>

theorem lookup_is_nearest_module:
  assumes "absolute_modules ms" and "is_abs file"
  shows "case lookupWithProbes (newRiderModuleIndex ms) file of
      (Some m, k) \<Rightarrow> k \<le> 1 + length (butlast (path_parts file)) \<and>
        (\<exists>i. m = ms ! i \<and> nearest_module ms (butlast (path_parts file)) i)
    | (None, k) \<Rightarrow> k \<le> 1 + length (butlast (path_parts file)) \<and>
        (\<forall>m \<in> set ms. \<not> prefix (module_parts m) (butlast (path_parts file)))"
proof -
  note up = path_dir_clean_abs[OF clean_abs_clean[OF assms(2)], unfolded path_parts_clean[OF assms(2)]]
  show ?thesis
    unfolding lookupWithProbes_def using lookup_climb_nearest[OF assms(1) up(1), of 1] unfolding up(2) .
qed

theorem lookup_is_nearest_module_witness:
  "\<exists>i. sample_module ''A'' ''/p/Source/A'' = sample_modules ! i \<and>
     nearest_module sample_modules (butlast (path_parts ''/p/Source/A/x.cpp'')) i"
proof -
  have "absolute_modules sample_modules" "is_abs ''/p/Source/A/x.cpp''" by code_simp+
  note l = lookup_is_nearest_module[OF this]
  have "lookupWithProbes (newRiderModuleIndex sample_modules) ''/p/Source/A/x.cpp'' = (Some (sample_module ''A'' ''/p/Source/A''), 1)"
    by code_simp
  then show ?thesis using l by simp
qed

section \<open>The walk roots cover the modules\<close>

lemma covered_by_iff:
  assumes "clean_abs dir" and "list_all clean_abs roots"
  shows "covered_by (map riderPathKey roots) dir \<longleftrightarrow> (\<exists>r \<in> set roots. prefix (path_parts r) (path_parts dir))"
  using assms(1)
proof (induction "map riderPathKey roots" dir rule: covered_by.induct)
  case (1 dir)
  have key: "riderPathKey dir \<in> set (map riderPathKey roots) \<longleftrightarrow> (\<exists>r \<in> set roots. path_parts r = path_parts dir)"
    using assms(2) 1(2) by (auto simp: riderPathKey_def clean_abs_def list_all_iff path_clean_eq_iff image_iff) (metis path_clean_eq_iff)
  show ?case
  proof (cases "riderPathKey dir \<in> set (map riderPathKey roots)")
    case True
    then obtain r where "r \<in> set roots" "path_parts r = path_parts dir" using key by blast
    then have "\<exists>r \<in> set roots. prefix (path_parts r) (path_parts dir)" by (metis prefix_order.refl)
    moreover have "covered_by (map riderPathKey roots) dir"
      by (subst covered_by.simps) (simp only: True if_True)
    ultimately show ?thesis by blast
  next
    case False
    show ?thesis
    proof (cases "path_dir dir = dir")
      case True
      then have "path_parts dir = []" using path_dir_fix[OF 1(2)] by simp
      then show ?thesis using False True key by (auto simp: covered_by.simps[of _ dir])
    next
      case up: False
      then have "path_parts dir \<noteq> []" using path_dir_fix[OF 1(2)] by simp
      then show ?thesis
        using 1(1)[OF False up path_dir_clean_abs(1)[OF 1(2)]] False up key prefix_butlast path_dir_clean_abs(2)[OF 1(2)]
        by (simp add: covered_by.simps[of _ dir]) blast
    qed
  qed
qed

definition antichain :: "string list \<Rightarrow> bool" where
  "antichain roots \<longleftrightarrow>
     (\<forall>i j. i < length roots \<longrightarrow> j < length roots \<longrightarrow> i \<noteq> j \<longrightarrow> \<not> prefix (path_parts (roots ! i)) (path_parts (roots ! j)))"

lemma walk_roots_loop_spec:
  assumes "list_all clean_abs (roots @ dirs)" and "sorted (map length (roots @ dirs))" and "antichain roots"
  shows "antichain (walk_roots_loop roots dirs) \<and> set (walk_roots_loop roots dirs) \<subseteq> set (roots @ dirs) \<and>
    (\<forall>d \<in> set (roots @ dirs). \<exists>r \<in> set (walk_roots_loop roots dirs). prefix (path_parts r) (path_parts d))"
  using assms
proof (induction roots dirs rule: walk_roots_loop.induct)
  case (1 roots)
  then show ?case by auto
next
  case (2 roots d dirs)
  have clean: "clean_abs d" "list_all clean_abs roots" using 2(3) by simp_all
  show ?case
  proof (cases "covered_by (map riderPathKey roots) d")
    case True
    then have cov: "\<exists>r \<in> set roots. prefix (path_parts r) (path_parts d)"
      using covered_by_iff[OF clean] by simp
    have "list_all clean_abs (roots @ dirs)" "sorted (map length (roots @ dirs))"
      using 2(3,4) by (auto simp: sorted_append)
    note IH = 2(1)[OF True this 2(5)]
    obtain r where r: "r \<in> set roots" "prefix (path_parts r) (path_parts d)"
      using cov by blast
    then have "r \<in> set (roots @ dirs)" by simp
    then obtain r' where "r' \<in> set (walk_roots_loop roots dirs)" "prefix (path_parts r') (path_parts r)"
      using IH by blast
    with r have "\<exists>r \<in> set (walk_roots_loop roots dirs). prefix (path_parts r) (path_parts d)"
      by (meson prefix_order.trans)
    then show ?thesis using IH True by auto
  next
    case False
    then have uncovered: "\<forall>r \<in> set roots. \<not> prefix (path_parts r) (path_parts d)"
      using covered_by_iff[OF clean] by simp
    have "\<forall>r \<in> set roots. \<not> prefix (path_parts d) (path_parts r)"
    proof (intro ballI notI)
      fix r assume r: "r \<in> set roots" "prefix (path_parts d) (path_parts r)"
      then have "length r \<le> length d" "clean_abs r"
        using 2(3,4) by (auto simp: sorted_append list_all_iff)
      then have "d = r" using clean_abs_prefix_length[OF clean(1) _ r(2)] by simp
      then show False using uncovered r(1) by auto
    qed
    with uncovered 2(5) have "antichain (roots @ [d])"
      by (auto simp: antichain_def nth_append less_Suc_eq)
    moreover have "list_all clean_abs ((roots @ [d]) @ dirs)" "sorted (map length ((roots @ [d]) @ dirs))"
      using 2(3,4) by simp_all
    ultimately show ?thesis using 2(2)[OF False] False by simp
  qed
qed

text \<open>
  The synthesis walks every module and nothing twice: each root is a module's directory, every
  module's directory lies at or under a root, and no root lies at or under another.
\<close>

theorem walk_roots_cover:
  assumes "\<forall>m \<in> set ms. clean_abs (rr_dir m)"
  shows "set (riderModuleWalkRoots ms) \<subseteq> rr_dir ` set ms \<and>
    (\<forall>m \<in> set ms. \<exists>r \<in> set (riderModuleWalkRoots ms). prefix (path_parts r) (module_parts m)) \<and>
    distinct (riderModuleWalkRoots ms) \<and>
    (\<forall>r \<in> set (riderModuleWalkRoots ms). \<forall>r' \<in> set (riderModuleWalkRoots ms).
       prefix (path_parts r) (path_parts r') \<longrightarrow> r = r')"
proof -
  define ds where "ds = sort_key (\<lambda>d. (length d, d)) (map rr_dir ms)"
  have set: "set ds = rr_dir ` set ms" by (simp add: ds_def)
  have "sorted_wrt (\<lambda>d e. (length d, d) \<le> (length e, e)) ds"
    using sorted_sort_key[of "\<lambda>d. (length d, d)" "map rr_dir ms"] by (simp add: ds_def sorted_map)
  then have "sorted (map length ds)"
    unfolding sorted_map by (rule sorted_wrt_mono_rel[rotated]) auto
  moreover have "list_all clean_abs ds" using assms set by (auto simp: list_all_iff)
  ultimately have spec: "antichain (riderModuleWalkRoots ms) \<and> set (riderModuleWalkRoots ms) \<subseteq> set ds \<and>
      (\<forall>d \<in> set ds. \<exists>r \<in> set (riderModuleWalkRoots ms). prefix (path_parts r) (path_parts d))"
    using walk_roots_loop_spec[of "[]" ds] by (simp add: riderModuleWalkRoots_def ds_def antichain_def)
  then have "distinct (riderModuleWalkRoots ms)"
    unfolding antichain_def distinct_conv_nth by (metis prefix_order.refl)
  moreover have "\<forall>r \<in> set (riderModuleWalkRoots ms). \<forall>r' \<in> set (riderModuleWalkRoots ms).
       prefix (path_parts r) (path_parts r') \<longrightarrow> r = r'"
  proof (intro ballI impI)
    fix r r' assume "r \<in> set (riderModuleWalkRoots ms)" "r' \<in> set (riderModuleWalkRoots ms)"
      and p: "prefix (path_parts r) (path_parts r')"
    then obtain i j where "i < length (riderModuleWalkRoots ms)" "riderModuleWalkRoots ms ! i = r"
        "j < length (riderModuleWalkRoots ms)" "riderModuleWalkRoots ms ! j = r'"
      unfolding in_set_conv_nth by blast
    then show "r = r'" using spec p unfolding antichain_def by blast
  qed
  ultimately show ?thesis using spec set by auto
qed

theorem walk_roots_cover_witness:
  "\<exists>r \<in> set (riderModuleWalkRoots sample_modules). prefix (path_parts r) (path_parts ''/p/Source/A'')"
proof -
  have "\<forall>m \<in> set sample_modules. clean_abs (rr_dir m)" by code_simp
  from walk_roots_cover[OF this] show ?thesis by (auto simp: sample_modules_def sample_module_def)
qed

end
