(* ===== verification/Rider.thy ===== *)
theory Rider
  imports RiderModules Registry "HOL-Library.AList"
begin

text \<open>
  Synthesising a compilation database from Rider's project model (\<^verbatim>\<open>internal/compdb/rider.go\<close>): the two
  forms of module metadata, the choice of the target, the response file of a module, the walk over
  the sources and the sorted, fingerprinted result.  The file system, SHA-256 and JSON parsing are
  the environment; a Go map is an association list with distinct keys.
\<close>

section \<open>Metadata\<close>

record riderModule =
  rm_Directory :: string
  rm_Rules :: string
  rm_GeneratedCodeDirectory :: string
  rm_rules :: riderRules

record riderTarget =
  rt_Name :: string
  rt_TargetFile :: string
  rt_CompilerPath :: string
  rt_Modules :: "(string \<times> riderModule) list"
  rt_IncludePaths :: "json option"
  rt_Definitions :: "json option"

fun unique_loop :: "string list \<Rightarrow> string list \<Rightarrow> string list" where
  "unique_loop seen [] = []"
| "unique_loop seen (x # xs) =
     (if x \<noteq> '''' \<and> x \<notin> set seen then x # unique_loop (x # seen) xs else unique_loop seen xs)"

definition unique :: "string list \<Rightarrow> string list" where
  "unique xs = unique_loop [] xs"

definition mergeRiderRules :: "riderRules \<Rightarrow> riderRules \<Rightarrow> riderRules" where
  "mergeRiderRules a b =
     \<lparr>PublicIncludePaths = unique (PublicIncludePaths a @ PublicIncludePaths b),
      PrivateIncludePaths = unique (PrivateIncludePaths a @ PrivateIncludePaths b),
      IncludePaths = unique (IncludePaths a @ IncludePaths b),
      Definitions = unique (Definitions a @ Definitions b),
      PublicDefinitions = unique (PublicDefinitions a @ PublicDefinitions b),
      PrivateDefinitions = unique (PrivateDefinitions a @ PrivateDefinitions b),
      ForceIncludeFiles = unique (ForceIncludeFiles a @ ForceIncludeFiles b),
      PublicSystemIncludePaths = unique (PublicSystemIncludePaths a @ PublicSystemIncludePaths b),
      SystemIncludePaths = unique (SystemIncludePaths a @ SystemIncludePaths b),
      InternalIncludePaths = unique (InternalIncludePaths a @ InternalIncludePaths b),
      LegacyPublicIncludePaths = unique (LegacyPublicIncludePaths a @ LegacyPublicIncludePaths b),
      ProjectDefinitions = unique (ProjectDefinitions a @ ProjectDefinitions b),
      ApiDefinitions = unique (ApiDefinitions a @ ApiDefinitions b)\<rparr>"

definition dec_strings :: "json \<Rightarrow> string list option" where
  "dec_strings j = dec_list (\<lambda>x. dec_str x '''') j"

definition rules_fields :: "riderRules field_decoders" where
  "rules_fields =
     [(''PublicIncludePaths'', \<lambda>v r. map_option (\<lambda>x. r\<lparr>PublicIncludePaths := x\<rparr>) (dec_strings v)),
      (''PrivateIncludePaths'', \<lambda>v r. map_option (\<lambda>x. r\<lparr>PrivateIncludePaths := x\<rparr>) (dec_strings v)),
      (''IncludePaths'', \<lambda>v r. map_option (\<lambda>x. r\<lparr>IncludePaths := x\<rparr>) (dec_strings v)),
      (''Definitions'', \<lambda>v r. map_option (\<lambda>x. r\<lparr>Definitions := x\<rparr>) (dec_strings v)),
      (''PublicDefinitions'', \<lambda>v r. map_option (\<lambda>x. r\<lparr>PublicDefinitions := x\<rparr>) (dec_strings v)),
      (''PrivateDefinitions'', \<lambda>v r. map_option (\<lambda>x. r\<lparr>PrivateDefinitions := x\<rparr>) (dec_strings v)),
      (''ForceIncludeFiles'', \<lambda>v r. map_option (\<lambda>x. r\<lparr>ForceIncludeFiles := x\<rparr>) (dec_strings v)),
      (''PublicSystemIncludePaths'', \<lambda>v r. map_option (\<lambda>x. r\<lparr>PublicSystemIncludePaths := x\<rparr>) (dec_strings v)),
      (''SystemIncludePaths'', \<lambda>v r. map_option (\<lambda>x. r\<lparr>SystemIncludePaths := x\<rparr>) (dec_strings v)),
      (''InternalIncludePaths'', \<lambda>v r. map_option (\<lambda>x. r\<lparr>InternalIncludePaths := x\<rparr>) (dec_strings v)),
      (''LegacyPublicIncludePaths'', \<lambda>v r. map_option (\<lambda>x. r\<lparr>LegacyPublicIncludePaths := x\<rparr>) (dec_strings v)),
      (''ProjectDefinitions'', \<lambda>v r. map_option (\<lambda>x. r\<lparr>ProjectDefinitions := x\<rparr>) (dec_strings v)),
      (''ApiDefinitions'', \<lambda>v r. map_option (\<lambda>x. r\<lparr>ApiDefinitions := x\<rparr>) (dec_strings v))]"

text \<open>
  The wire form of a module.  Its own \<^verbatim>\<open>Rules\<close> is kept raw (\<open>None\<close> when the member is absent);
  \<^verbatim>\<open>ToolchainInfo\<close> is raw JSON nobody reads and is left out.
\<close>

record rider_wire =
  w_Directory :: string
  w_Rules :: "json option"
  w_GeneratedCodeDirectory :: string
  w_riderRules :: riderRules

definition wire_fields :: "rider_wire field_decoders" where
  "wire_fields =
     [(''Directory'', \<lambda>v r. map_option (\<lambda>s. r\<lparr>w_Directory := s\<rparr>) (dec_str v (w_Directory r))),
      (''Rules'', \<lambda>v r. Some (r\<lparr>w_Rules := Some v\<rparr>)),
      (''GeneratedCodeDirectory'',
         \<lambda>v r. map_option (\<lambda>s. r\<lparr>w_GeneratedCodeDirectory := s\<rparr>) (dec_str v (w_GeneratedCodeDirectory r))),
      (''ToolchainInfo'', \<lambda>v r. Some r)]
     @ map (\<lambda>(n, f). (n, \<lambda>v r. map_option (\<lambda>x. r\<lparr>w_riderRules := x\<rparr>) (f v (w_riderRules r)))) rules_fields"

text \<open>\<^verbatim>\<open>riderModule.UnmarshalJSON\<close>: both forms of \<^verbatim>\<open>Rules\<close>.\<close>

definition decode_riderModule :: "json \<Rightarrow> riderModule option" where
  "decode_riderModule j =
     (case dec_struct wire_fields j
             \<lparr>w_Directory = '''', w_Rules = None, w_GeneratedCodeDirectory = '''', w_riderRules = no_rules\<rparr> of
        None \<Rightarrow> None
      | Some w \<Rightarrow>
          let m = \<lparr>rm_Directory = w_Directory w, rm_Rules = '''',
                   rm_GeneratedCodeDirectory = w_GeneratedCodeDirectory w, rm_rules = w_riderRules w\<rparr>
          in case w_Rules w of
               None \<Rightarrow> Some m
             | Some JNull \<Rightarrow> Some m
             | Some (JStr s) \<Rightarrow> Some (m\<lparr>rm_Rules := s\<rparr>)
             | Some raw \<Rightarrow>
                 (case dec_struct rules_fields raw no_rules of
                    None \<Rightarrow> None
                  | Some nested \<Rightarrow> Some (m\<lparr>rm_rules := mergeRiderRules nested (rm_rules m)\<rparr>)))"

definition dec_module_member :: "string \<times> json \<Rightarrow> (string \<times> riderModule) list option \<Rightarrow> (string \<times> riderModule) list option" where
  "dec_module_member kv acc =
     (case acc of None \<Rightarrow> None
      | Some ms \<Rightarrow> map_option (\<lambda>m. AList.update (fst kv) m ms) (decode_riderModule (snd kv)))"

definition dec_modules :: "json \<Rightarrow> (string \<times> riderModule) list \<Rightarrow> (string \<times> riderModule) list option" where
  "dec_modules j old =
     (case j of JNull \<Rightarrow> Some [] | JObj fs \<Rightarrow> fold dec_module_member fs (Some old) | _ \<Rightarrow> None)"

definition target_fields :: "riderTarget field_decoders" where
  "target_fields =
     [(''Name'', \<lambda>v r. map_option (\<lambda>s. r\<lparr>rt_Name := s\<rparr>) (dec_str v (rt_Name r))),
      (''TargetFile'', \<lambda>v r. map_option (\<lambda>s. r\<lparr>rt_TargetFile := s\<rparr>) (dec_str v (rt_TargetFile r))),
      (''ToolchainInfo'', \<lambda>v r. map_option (\<lambda>s. r\<lparr>rt_CompilerPath := s\<rparr>)
         (dec_struct [(''CompilerPath'', dec_str)] v (rt_CompilerPath r))),
      (''Modules'', \<lambda>v r. map_option (\<lambda>ms. r\<lparr>rt_Modules := ms\<rparr>) (dec_modules v (rt_Modules r))),
      (''EnvironmentIncludePaths'', \<lambda>v r. Some (r\<lparr>rt_IncludePaths := Some v\<rparr>)),
      (''EnvironmentDefinitions'', \<lambda>v r. Some (r\<lparr>rt_Definitions := Some v\<rparr>))]"

definition no_target :: riderTarget where
  "no_target = \<lparr>rt_Name = '''', rt_TargetFile = '''', rt_CompilerPath = '''', rt_Modules = [],
                rt_IncludePaths = None, rt_Definitions = None\<rparr>"

text \<open>The strings in a JSON value, the members of an object in the order of their keys.\<close>

fun visit_strings :: "json \<Rightarrow> string list" where
  "visit_strings (JStr s) = [s]"
| "visit_strings (JArr xs) = concat (map visit_strings xs)"
| "visit_strings (JObj fs) =
     (let found = map (\<lambda>(k, v). (k, visit_strings v)) fs
      in concat (map (\<lambda>k. the (map_of (rev found) k)) (sort (remdups (map fst fs)))))"
| "visit_strings _ = []"

definition stringsFromJSON :: "json option \<Rightarrow> string list" where
  "stringsFromJSON raw = (case raw of None \<Rightarrow> [] | Some j \<Rightarrow> unique (visit_strings j))"

section \<open>The environment\<close>

text \<open>
  \<^verbatim>\<open>filepath.Glob\<close> (\<open>None\<close> for a malformed pattern), reading and parsing a JSON file (\<open>None\<close> when
  either fails), \<^verbatim>\<open>Lstat\<close> and \<^verbatim>\<open>Stat\<close>, modification times in nanoseconds, directory trees (an
  unreadable directory has no children), and the outcomes of the writes.  A rename can lose to
  another process, which then has put its own content there.
\<close>

datatype lstat = LExists | LMissing | LFailed
datatype rider_stat = IsDirectory | IsFile | IsMissing | StatFailed
datatype file_tree = FileNode string | DirNode string "file_tree list"
datatype rename_outcome = Renamed | RenameLost string | RenameFailed

record rider_env =
  rv_paths :: path_env
  rv_glob :: "string \<Rightarrow> string list option"
  rv_read :: "string \<Rightarrow> json option"
  rv_lstat :: "string \<Rightarrow> lstat"
  rv_stat :: "string \<Rightarrow> rider_stat"
  rv_mtime :: "string \<Rightarrow> int option"
  rv_tree :: "string \<Rightarrow> file_tree option"
  rv_mkdir :: "string \<Rightarrow> bool"
  rv_denied :: "string \<Rightarrow> bool"
  rv_write :: "string \<Rightarrow> bool"
  rv_rename :: "string \<Rightarrow> rename_outcome"
  rv_database :: bool
  rv_hash :: "string \<Rightarrow> string"

datatype rider_error =
    RiderNoWorkingDirectory
  | RiderBadPattern
  | RiderAmbiguous string
  | RiderMissing string
  | FullScopeMissing rider_error
  | RiderNoCompiler
  | ModuleEscapes string
  | GeneratedEscapes string
  | RiderMkdir
  | RiderWrite
  | RiderDatabase
  | RiderCoverage int int

definition RiderMetadataDir :: "string \<Rightarrow> string" where
  "RiderMetadataDir projectRoot =
     path_join [projectRoot, ''Intermediate'', ''ProjectFiles'', ''.Rider'', ''Win64'', ''Development'', ''Editor'']"

section \<open>Choosing the target\<close>

definition canonical_or_empty :: "rider_env \<Rightarrow> string \<Rightarrow> string" where
  "canonical_or_empty env p = (case canonical (rv_paths env) p of None \<Rightarrow> '''' | Some c \<Rightarrow> c)"

definition match_target :: "rider_env \<Rightarrow> string \<Rightarrow> string \<Rightarrow> string \<Rightarrow> string \<Rightarrow> (riderTarget \<times> string) option" where
  "match_target env name targetFile projectRoot f =
     (case rv_read env f of
        None \<Rightarrow> None
      | Some j \<Rightarrow>
          (case dec_struct target_fields j no_target of
             None \<Rightarrow> None
           | Some r \<Rightarrow>
               let tf = canonical_or_empty env (rt_TargetFile r);
                   safe = (compdb_within tf projectRoot \<and> equal_fold (path_base tf) (name @ ''.Target.cs''))
               in if equal_fold (rt_Name r) name \<and> safe \<and>
                     (targetFile = '''' \<or> equal_fold tf (canonical_or_empty env targetFile))
                  then map_option (Pair r) (canonical (rv_paths env) f)
                  else None))"

text \<open>The selected target with the path of its metadata.\<close>

definition selectRiderTarget :: "rider_env \<Rightarrow> string \<Rightarrow> string \<Rightarrow> string \<Rightarrow> string
    \<Rightarrow> (rider_error, riderTarget \<times> string) result" where
  "selectRiderTarget env dir name targetFile projectRoot =
     (case rv_glob env (path_join2 dir ''*.json'') of
        None \<Rightarrow> Inl RiderBadPattern
      | Some files \<Rightarrow>
          (case List.map_filter (match_target env name targetFile projectRoot) files of
             [] \<Rightarrow> Inl (RiderMissing name)
           | [m] \<Rightarrow> Inr m
           | _ # _ # _ \<Rightarrow> Inl (RiderAmbiguous name)))"

definition RiderMetadataAvailable :: "rider_env \<Rightarrow> string \<Rightarrow> string \<Rightarrow> string \<Rightarrow> bool" where
  "RiderMetadataAvailable env projectRoot target targetFile \<longleftrightarrow>
     is_ok (selectRiderTarget env (RiderMetadataDir projectRoot) target targetFile projectRoot)"

section \<open>Response files\<close>

definition quoteRsp :: "string \<Rightarrow> string" where
  "quoteRsp s =
     (if list_ex (\<lambda>c. c = CHR '' '' \<or> c = CHR 0x09 \<or> c = CHR 0x22) s
      then [CHR 0x22] @ replace_char (CHR 0x22) [bslash, CHR 0x22] s @ [CHR 0x22]
      else s)"

definition module_relative :: "riderResolvedModule \<Rightarrow> string \<Rightarrow> string" where
  "module_relative m x = (if is_abs x then x else path_join2 (rr_dir m) x)"

definition rsp_crlf :: string where
  "rsp_crlf = [CHR 0x0D, CHR 0x0A]"

definition response :: "riderResolvedModule \<Rightarrow> string list \<Rightarrow> string list \<Rightarrow> string" where
  "response m rootIncludes rootDefinitions =
     (let r = rr_rules m;
          inc0 = unique (rootIncludes @ PublicIncludePaths r @ PrivateIncludePaths r @ IncludePaths r
                   @ PublicSystemIncludePaths r @ SystemIncludePaths r @ InternalIncludePaths r @ LegacyPublicIncludePaths r);
          inc = (if rr_generatedDir m \<noteq> '''' then unique (inc0 @ [rr_generatedDir m]) else inc0);
          defs = unique (rootDefinitions @ Definitions r @ PublicDefinitions r @ PrivateDefinitions r
                   @ ProjectDefinitions r @ ApiDefinitions r);
          a = [''/nologo'', ''/TP'', ''/std:c++20'', ''--target=x86_64-pc-windows-msvc'', ''/utf-8'', ''/Zc:__cplusplus'',
               ''/permissive-'']
              @ map (\<lambda>x. ''/I'' @ quoteRsp (module_relative m x)) inc
              @ map (\<lambda>x. ''/D'' @ quoteRsp x) defs
              @ map (\<lambda>x. ''/FI'' @ quoteRsp (module_relative m x)) (ForceIncludeFiles r)
      in str_join rsp_crlf a @ rsp_crlf)"

text \<open>\<^verbatim>\<open>writeResponseAtomic\<close> on the files that exist: a temporary beside the target, then the rename.\<close>

definition writeResponseAtomic :: "rider_env \<Rightarrow> string \<Rightarrow> string \<Rightarrow> (string \<rightharpoonup> string) \<Rightarrow> bool \<times> (string \<rightharpoonup> string)" where
  "writeResponseAtomic env path data store =
     (let tmp = path @ ''.new'' in
      if \<not> rv_write env tmp then (False, store)
      else case rv_rename env path of
          Renamed \<Rightarrow> (True, (store(tmp := None))(path \<mapsto> data))
        | RenameLost other \<Rightarrow> (True, store(tmp \<mapsto> data, path \<mapsto> other))
        | RenameFailed \<Rightarrow> (False, store(tmp \<mapsto> data)))"

section \<open>Resolving the modules\<close>

text \<open>\<open>missing\<close> holds the base names left behind, the outermost last.\<close>

function resolve_existing :: "rider_env \<Rightarrow> string \<Rightarrow> string list \<Rightarrow> string option" where
  "resolve_existing env current missing =
     (case rv_lstat env current of
        LExists \<Rightarrow>
          (case EvalSymlinks (rv_paths env) current of
             None \<Rightarrow> None
           | Some resolved \<Rightarrow> Some (path_clean (foldl path_join2 resolved (rev missing))))
      | LFailed \<Rightarrow> None
      | LMissing \<Rightarrow>
          if path_dir current = current then None
          else resolve_existing env (path_dir current) (missing @ [path_base current]))"
  by pat_completeness auto
termination
  by (relation "measure (\<lambda>(env, current, missing). climb_measure current)") (auto simp: path_dir_measure)

declare resolve_existing.simps [simp del]

definition canonicalIncludingMissing :: "rider_env \<Rightarrow> string \<Rightarrow> string option" where
  "canonicalIncludingMissing env path =
     (case go_abs (rv_paths env) path of None \<Rightarrow> None | Some a \<Rightarrow> resolve_existing env (path_clean a) [])"

definition within_either :: "string \<Rightarrow> string \<Rightarrow> string \<Rightarrow> bool" where
  "within_either project engine p \<longleftrightarrow> compdb_within p project \<or> compdb_within p engine"

definition resolve_generated :: "rider_env \<Rightarrow> string \<Rightarrow> string \<Rightarrow> string \<Rightarrow> string \<Rightarrow> string \<Rightarrow> (rider_error, string) result" where
  "resolve_generated env project engine name d directory =
     (if directory = '''' then Inr ''''
      else case canonicalIncludingMissing env (if is_abs directory then directory else path_join2 d directory) of
          None \<Rightarrow> Inl (GeneratedEscapes name)
        | Some generated \<Rightarrow>
            if (rv_stat env generated \<noteq> IsDirectory \<and> rv_stat env generated \<noteq> IsMissing) \<or> \<not> within_either project engine generated
            then Inl (GeneratedEscapes name)
            else Inr generated)"

definition resolve_module :: "rider_env \<Rightarrow> string \<Rightarrow> string \<Rightarrow> string \<times> riderModule \<Rightarrow> (rider_error, riderResolvedModule) result" where
  "resolve_module env project engine nm =
     (case nm of (name, m) \<Rightarrow>
        (case canonical (rv_paths env) (rm_Directory m) of
           None \<Rightarrow> Inl (ModuleEscapes name)
         | Some d \<Rightarrow>
             if \<not> within_either project engine d then Inl (ModuleEscapes name)
             else case resolve_generated env project engine name d (rm_GeneratedCodeDirectory m) of
                 Inl e \<Rightarrow> Inl e
               | Inr generated \<Rightarrow>
                   Inr \<lparr>rr_name = name, rr_dir = d, rr_generatedDir = generated, rr_rules = rm_rules m\<rparr>))"

fun resolve_modules :: "rider_env \<Rightarrow> string \<Rightarrow> string \<Rightarrow> (string \<times> riderModule) list
    \<Rightarrow> (rider_error, riderResolvedModule list) result" where
  "resolve_modules env project engine [] = Inr []"
| "resolve_modules env project engine (nm # nms) =
     (case resolve_module env project engine nm of
        Inl e \<Rightarrow> Inl e
      | Inr r \<Rightarrow> (case resolve_modules env project engine nms of Inl e \<Rightarrow> Inl e | Inr rs \<Rightarrow> Inr (r # rs)))"

text \<open>The modules of the editor target join those the target does not have.\<close>

definition add_modules :: "(string \<times> riderModule) list \<Rightarrow> (string \<times> riderModule) list \<Rightarrow> (string \<times> riderModule) list" where
  "add_modules ms extra = ms @ filter (\<lambda>nm. fst nm \<notin> set (map fst ms)) extra"

section \<open>The walk\<close>

definition skipped_directories :: "string list" where
  "skipped_directories = [''Intermediate'', ''Binaries'', ''Saved'', ''.git'']"

definition tree_name :: "file_tree \<Rightarrow> string" where
  "tree_name t = (case t of FileNode n \<Rightarrow> n | DirNode n _ \<Rightarrow> n)"

fun walk_files :: "string \<Rightarrow> file_tree \<Rightarrow> string list" where
  "walk_files path (FileNode n) = [path]"
| "walk_files path (DirNode n ts) =
     (if n \<in> set skipped_directories then []
      else concat (map (\<lambda>t. walk_files (path_join2 path (tree_name t)) t) ts))"

definition root_files :: "rider_env \<Rightarrow> string \<Rightarrow> string list" where
  "root_files env root = (case rv_tree env root of None \<Rightarrow> [] | Some t \<Rightarrow> walk_files root t)"

record RiderInput =
  ri_ProjectRoot :: string
  ri_EngineRoot :: string
  ri_Target :: string
  ri_TargetFile :: string
  ri_StagingDir :: string
  ri_ResponseDir :: string
  ri_ClangCL :: string
  ri_EngineScopeFull :: bool

record synthesis =
  sy_store :: "string \<rightharpoonup> string"
  sy_entries :: "compdb_Entry list"
  sy_seen :: "string list"

text \<open>What the visit of a file uses besides the environment.\<close>

record walk_context =
  wc_project :: string
  wc_engine :: string
  wc_index :: riderModuleIndex
  wc_compiler :: string
  wc_includes :: "string list"
  wc_definitions :: "string list"
  wc_responseDir :: string

definition source_extensions :: "string list" where
  "source_extensions = [''.c'', ''.cc'', ''.cpp'', ''.cxx'']"

definition store_response :: "rider_env \<Rightarrow> string \<Rightarrow> string \<Rightarrow> synthesis \<Rightarrow> bool \<times> synthesis" where
  "store_response env rsp content st =
     (if sy_store st rsp = None \<and> \<not> rv_denied env rsp then
        (case writeResponseAtomic env rsp content (sy_store st) of
           (ok, store') \<Rightarrow> (ok, st\<lparr>sy_store := store'\<rparr>))
      else (True, st))"

definition add_entry :: "compdb_Entry \<Rightarrow> synthesis \<Rightarrow> synthesis" where
  "add_entry e st =
     (let key = to_lower (ce_File e) in
      if key \<in> set (sy_seen st) then st
      else st\<lparr>sy_entries := sy_entries st @ [e], sy_seen := key # sy_seen st\<rparr>)"

definition response_file :: "rider_env \<Rightarrow> walk_context \<Rightarrow> riderResolvedModule \<Rightarrow> string" where
  "response_file env c m =
     path_join2 (wc_responseDir c) (rv_hash env (response m (wc_includes c) (wc_definitions c)) @ ''.rsp'')"

definition visit_file :: "rider_env \<Rightarrow> walk_context \<Rightarrow> string \<Rightarrow> synthesis \<Rightarrow> rider_error option \<times> synthesis" where
  "visit_file env c path st =
     (if to_lower (path_ext path) \<notin> set source_extensions then (None, st)
      else case canonical (rv_paths env) path of
          None \<Rightarrow> (None, st)
        | Some source \<Rightarrow>
            if \<not> within_either (wc_project c) (wc_engine c) source then (None, st)
            else case index_lookup (wc_index c) source of
                None \<Rightarrow> (None, st)
              | Some m \<Rightarrow>
                  if \<not> rv_mkdir env (wc_responseDir c) then (Some RiderMkdir, st)
                  else case store_response env (response_file env c m) (response m (wc_includes c) (wc_definitions c)) st of
                      (False, st') \<Rightarrow> (Some RiderWrite, st')
                    | (True, st') \<Rightarrow>
                        (None, add_entry \<lparr>ce_Directory = rr_dir m, ce_File = source, ce_Command = '''',
                                ce_Arguments = [wc_compiler c, ''@'' @ response_file env c m, source]\<rparr> st'))"

fun visit_files :: "rider_env \<Rightarrow> walk_context \<Rightarrow> string list \<Rightarrow> synthesis \<Rightarrow> rider_error option \<times> synthesis" where
  "visit_files env c [] st = (None, st)"
| "visit_files env c (p # ps) st =
     (case visit_file env c p st of
        (Some e, st') \<Rightarrow> (Some e, st')
      | (None, st') \<Rightarrow> visit_files env c ps st')"

definition translationUnitClass :: "string \<Rightarrow> string \<Rightarrow> string \<Rightarrow> nat" where
  "translationUnitClass file project engine =
     (if compdb_within file project then 0 else if compdb_within file engine then 1 else 2)"

definition entry_order :: "string \<Rightarrow> string \<Rightarrow> compdb_Entry \<Rightarrow> nat \<times> string \<times> string" where
  "entry_order project engine e = (translationUnitClass (ce_File e) project engine, to_lower (ce_File e), ce_File e)"

section \<open>Synthesis\<close>

record RiderResult =
  rres_Project :: int
  rres_Engine :: int
  rres_Fingerprint :: string

text \<open>What the synthesis leaves behind: the response files and the database in the staging directory.\<close>

record rider_files =
  rf_store :: "string \<rightharpoonup> string"
  rf_database :: "compdb_Entry list option"

definition count_class :: "nat \<Rightarrow> string \<Rightarrow> string \<Rightarrow> compdb_Entry list \<Rightarrow> int" where
  "count_class k project engine es = int (length (filter (\<lambda>e. translationUnitClass (ce_File e) project engine = k) es))"

definition rider_fingerprint :: "rider_env \<Rightarrow> compdb_Entry list \<Rightarrow> string" where
  "rider_fingerprint env es =
     rv_hash env (concat (map (\<lambda>e. ce_File e @ [CHR 0x00] @ str_join [CHR 0x00] (ce_Arguments e) @ [CHR 0x0A]) es))"

definition synthesize_modules :: "rider_env \<Rightarrow> RiderInput \<Rightarrow> string \<Rightarrow> string \<Rightarrow> riderTarget
    \<Rightarrow> (rider_error, (string \<times> riderModule) list) result" where
  "synthesize_modules env i project engine target =
     (if \<not> ri_EngineScopeFull i then Inr (rt_Modules target)
      else case selectRiderTarget env (RiderMetadataDir project) ''UnrealEditor'' '''' engine of
          Inl e \<Rightarrow> Inl (FullScopeMissing e)
        | Inr (editor, _) \<Rightarrow> Inr (add_modules (rt_Modules target) (rt_Modules editor)))"

definition walk_context_of :: "RiderInput \<Rightarrow> string \<Rightarrow> string \<Rightarrow> string \<Rightarrow> riderTarget \<Rightarrow> riderResolvedModule list \<Rightarrow> walk_context" where
  "walk_context_of i project engine compiler target all =
     \<lparr>wc_project = project, wc_engine = engine, wc_index = newRiderModuleIndex all, wc_compiler = compiler,
      wc_includes = stringsFromJSON (rt_IncludePaths target),
      wc_definitions = unique (stringsFromJSON (rt_Definitions target)
        @ sort (concat (map (\<lambda>m. ApiDefinitions (rr_rules m)) all))),
      wc_responseDir = (if ri_ResponseDir i = '''' then ri_StagingDir i else ri_ResponseDir i)\<rparr>"

definition finish_synthesis :: "rider_env \<Rightarrow> string \<Rightarrow> string \<Rightarrow> synthesis \<Rightarrow> (rider_error, RiderResult) result \<times> rider_files" where
  "finish_synthesis env project engine st =
     (let es = sort_key (entry_order project engine) (sy_entries st) in
      if \<not> rv_database env then (Inl RiderDatabase, \<lparr>rf_store = sy_store st, rf_database = None\<rparr>)
      else
        let np = count_class 0 project engine es; ne = count_class 1 project engine es
        in (if np = 0 \<or> ne = 0 then Inl (RiderCoverage np ne)
            else Inr \<lparr>rres_Project = np, rres_Engine = ne, rres_Fingerprint = rider_fingerprint env es\<rparr>,
            \<lparr>rf_store = sy_store st, rf_database = Some es\<rparr>))"

definition synthesize_target :: "rider_env \<Rightarrow> RiderInput \<Rightarrow> string \<Rightarrow> string \<Rightarrow> riderTarget \<Rightarrow> (string \<rightharpoonup> string)
    \<Rightarrow> (rider_error, RiderResult) result \<times> rider_files" where
  "synthesize_target env i project engine target store =
     (let files = \<lparr>rf_store = store, rf_database = None\<rparr>;
          compiler = (if ri_ClangCL i \<noteq> '''' then ri_ClangCL i else rt_CompilerPath target)
      in if compiler = '''' then (Inl RiderNoCompiler, files)
         else case synthesize_modules env i project engine target of
             Inl e \<Rightarrow> (Inl e, files)
           | Inr modules \<Rightarrow>
               (case resolve_modules env project engine modules of
                  Inl e \<Rightarrow> (Inl e, files)
                | Inr resolved \<Rightarrow>
                    let all = sort_key (\<lambda>m. (rr_dir m, rr_name m)) resolved
                    in if \<not> rv_mkdir env (ri_StagingDir i) then (Inl RiderMkdir, files)
                       else case visit_files env (walk_context_of i project engine compiler target all)
                                   (concat (map (root_files env) (riderModuleWalkRoots all)))
                                   \<lparr>sy_store = store, sy_entries = [], sy_seen = []\<rparr> of
                           (Some e, st) \<Rightarrow> (Inl e, \<lparr>rf_store = sy_store st, rf_database = None\<rparr>)
                         | (None, st) \<Rightarrow> finish_synthesis env project engine st))"

definition SynthesizeRider :: "rider_env \<Rightarrow> RiderInput \<Rightarrow> (string \<rightharpoonup> string) \<Rightarrow> (rider_error, RiderResult) result \<times> rider_files" where
  "SynthesizeRider env i store =
     (let files = \<lparr>rf_store = store, rf_database = None\<rparr> in
      case canonical (rv_paths env) (ri_ProjectRoot i) of
        None \<Rightarrow> (Inl RiderNoWorkingDirectory, files)
      | Some project \<Rightarrow>
          (case canonical (rv_paths env) (ri_EngineRoot i) of
             None \<Rightarrow> (Inl RiderNoWorkingDirectory, files)
           | Some engine \<Rightarrow>
               (case selectRiderTarget env (RiderMetadataDir project) (ri_Target i) (ri_TargetFile i) project of
                  Inl e \<Rightarrow> (Inl e, files)
                | Inr (target, _) \<Rightarrow> synthesize_target env i project engine target store)))"

section \<open>What the synthesis produces\<close>

text \<open>What a module of the metadata becomes; anything else is an error of the synthesis.\<close>

definition resolved_from :: "rider_env \<Rightarrow> string \<Rightarrow> string \<Rightarrow> string \<times> riderModule \<Rightarrow> riderResolvedModule \<Rightarrow> bool" where
  "resolved_from env project engine nm m \<longleftrightarrow>
     rr_name m = fst nm \<and> rr_rules m = rm_rules (snd nm) \<and>
     canonical (rv_paths env) (rm_Directory (snd nm)) = Some (rr_dir m) \<and> within_either project engine (rr_dir m) \<and>
     (let g = rm_GeneratedCodeDirectory (snd nm) in
      if g = '''' then rr_generatedDir m = ''''
      else canonicalIncludingMissing env (if is_abs g then g else path_join2 (rr_dir m) g) = Some (rr_generatedDir m) \<and>
        rv_stat env (rr_generatedDir m) \<in> {IsDirectory, IsMissing} \<and> within_either project engine (rr_generatedDir m))"

lemma resolve_module_iff: "resolve_module env project engine nm = Inr m \<longleftrightarrow> resolved_from env project engine nm m"
  by (cases nm; cases m)
    (auto simp: resolve_module_def resolve_generated_def resolved_from_def Let_def split: option.splits sum.splits if_splits)

lemma resolve_modules_iff:
  "resolve_modules env project engine nms = Inr rs \<longleftrightarrow> list_all2 (resolved_from env project engine) nms rs"
proof (induction nms arbitrary: rs)
  case Nil
  then show ?case by auto
next
  case (Cons nm nms)
  have "list_all2 (resolved_from env project engine) (nm # nms) rs \<longleftrightarrow>
      (\<exists>m ms. rs = m # ms \<and> resolve_module env project engine nm = Inr m \<and> resolve_modules env project engine nms = Inr ms)"
    by (cases rs) (simp_all add: Cons.IH resolve_module_iff)
  then show ?case by (auto split: sum.splits)
qed

text \<open>The modules of the selected target, and in full scope those of the editor target it does not have.\<close>

definition chosen_module :: "rider_env \<Rightarrow> RiderInput \<Rightarrow> string \<Rightarrow> string \<Rightarrow> riderTarget \<Rightarrow> string \<times> riderModule \<Rightarrow> bool" where
  "chosen_module env i project engine target nm \<longleftrightarrow>
     nm \<in> set (rt_Modules target) \<or>
     ri_EngineScopeFull i \<and> fst nm \<notin> fst ` set (rt_Modules target) \<and>
     (\<exists>editor metadata. selectRiderTarget env (RiderMetadataDir project) ''UnrealEditor'' '''' engine = Inr (editor, metadata) \<and>
        nm \<in> set (rt_Modules editor))"

lemma synthesize_modules_chosen:
  "synthesize_modules env i project engine target = Inr modules \<Longrightarrow> nm \<in> set modules \<longleftrightarrow> chosen_module env i project engine target nm"
  by (auto simp: synthesize_modules_def chosen_module_def add_modules_def split: if_split_asm sum.split_asm prod.split_asm)
    (metis fst_conv image_eqI)+

text \<open>The modules the synthesis works with, in its order.\<close>

definition all_modules :: "rider_env \<Rightarrow> RiderInput \<Rightarrow> string \<Rightarrow> string \<Rightarrow> riderTarget \<Rightarrow> riderResolvedModule list \<Rightarrow> bool" where
  "all_modules env i project engine target all \<longleftrightarrow>
     sorted (map (\<lambda>m. (rr_dir m, rr_name m)) all) \<and>
     (\<forall>m \<in> set all. \<exists>nm. chosen_module env i project engine target nm \<and> resolved_from env project engine nm m) \<and>
     (\<forall>nm. chosen_module env i project engine target nm \<longrightarrow> (\<exists>m \<in> set all. resolved_from env project engine nm m))"

lemma all_modules_resolved:
  assumes "synthesize_modules env i project engine target = Inr modules" and "resolve_modules env project engine modules = Inr resolved"
  shows "all_modules env i project engine target (sort_key (\<lambda>m. (rr_dir m, rr_name m)) resolved)"
proof -
  have l: "list_all2 (resolved_from env project engine) modules resolved" using assms(2) by (simp add: resolve_modules_iff)
  have "\<exists>nm \<in> set modules. resolved_from env project engine nm m" if "m \<in> set resolved" for m
    using l that by (metis in_set_conv_nth list_all2_conv_all_nth nth_mem)
  moreover have "\<exists>m \<in> set resolved. resolved_from env project engine nm m" if "nm \<in> set modules" for nm
    using l that by (metis in_set_conv_nth list_all2_conv_all_nth nth_mem)
  ultimately show ?thesis
    unfolding all_modules_def set_sort synthesize_modules_chosen[OF assms(1), symmetric] by (meson sorted_sort_key)
qed

text \<open>
  A response file is named after the hash of its text.  The files that are there before, and what another
  process leaves that wins the race for one, are expected to be such files.
\<close>

definition text_file :: "rider_env \<Rightarrow> string \<Rightarrow> string \<Rightarrow> string" where
  "text_file env d t = path_join2 d (rv_hash env t @ ''.rsp'')"

definition content_addressed :: "rider_env \<Rightarrow> string \<Rightarrow> (string \<rightharpoonup> string) \<Rightarrow> bool" where
  "content_addressed env d store \<longleftrightarrow> (\<forall>t u. store (text_file env d t) = Some u \<longrightarrow> rv_hash env u = rv_hash env t)"

definition fair_races :: "rider_env \<Rightarrow> string \<Rightarrow> bool" where
  "fair_races env d \<longleftrightarrow> (\<forall>t u. rv_rename env (text_file env d t) = RenameLost u \<longrightarrow> rv_hash env u = rv_hash env t)"

lemma response_file_text: "response_file env c m = text_file env (wc_responseDir c) (response m (wc_includes c) (wc_definitions c))"
  by (simp add: response_file_def text_file_def)

text \<open>
  A good entry: the file lies in the project or the engine, the entry is that of the module the index finds
  for it, and its response file holds the module's flags, up to a collision of the hash (or the system
  does not let it be examined).
\<close>

definition good_entry :: "rider_env \<Rightarrow> walk_context \<Rightarrow> (string \<rightharpoonup> string) \<Rightarrow> compdb_Entry \<Rightarrow> bool" where
  "good_entry env c store e \<longleftrightarrow>
     within_either (wc_project c) (wc_engine c) (ce_File e) \<and>
     (\<exists>m. index_lookup (wc_index c) (ce_File e) = Some m \<and> ce_Directory e = rr_dir m \<and> ce_Command e = '''' \<and>
        ce_Arguments e = [wc_compiler c, ''@'' @ response_file env c m, ce_File e] \<and>
        (rv_denied env (response_file env c m) \<or>
         (\<exists>u. store (response_file env c m) = Some u \<and>
            rv_hash env u = rv_hash env (response m (wc_includes c) (wc_definitions c)))))"

text \<open>The source a walked path stands for.\<close>

definition source_at :: "rider_env \<Rightarrow> walk_context \<Rightarrow> string \<Rightarrow> string option" where
  "source_at env c path =
     (if to_lower (path_ext path) \<notin> set source_extensions then None
      else case canonical (rv_paths env) path of
          None \<Rightarrow> None
        | Some s \<Rightarrow> if within_either (wc_project c) (wc_engine c) s \<and> index_lookup (wc_index c) s \<noteq> None then Some s else None)"

definition sources_of :: "rider_env \<Rightarrow> walk_context \<Rightarrow> string set \<Rightarrow> string set" where
  "sources_of env c paths = {s. \<exists>p \<in> paths. source_at env c p = Some s}"

definition entry_key :: "compdb_Entry \<Rightarrow> string" where
  "entry_key e = to_lower (ce_File e)"

definition synthesis_good :: "rider_env \<Rightarrow> walk_context \<Rightarrow> string set \<Rightarrow> synthesis \<Rightarrow> bool" where
  "synthesis_good env c paths st \<longleftrightarrow>
     distinct (map entry_key (sy_entries st)) \<and> set (sy_seen st) = entry_key ` set (sy_entries st) \<and>
     list_all (good_entry env c (sy_store st)) (sy_entries st) \<and> content_addressed env (wc_responseDir c) (sy_store st) \<and>
     ce_File ` set (sy_entries st) \<subseteq> sources_of env c paths \<and>
     entry_key ` set (sy_entries st) = to_lower ` sources_of env c paths"

text \<open>The directory of the response files is clean and a hash has no separator, so names of files tell hashes apart.\<close>

definition plain_names :: "rider_env \<Rightarrow> string \<Rightarrow> bool" where
  "plain_names env d \<longleftrightarrow> clean_abs d \<and> (\<forall>s. sep \<notin> set (rv_hash env s))"

lemma text_file_text:
  assumes "plain_names env d"
  shows "\<exists>start. \<forall>t. text_file env d t = start @ rv_hash env t @ ''.rsp''"
proof -
  have "good_part (rv_hash env s @ ''.rsp'')" for s
    using assms[unfolded plain_names_def, THEN conjunct2, rule_format, of s]
    by (cases "rv_hash env s") (auto simp: good_part_def)
  then show ?thesis
    using path_join2_text[of d] assms
    by (cases "d = ''/''") (auto simp: text_file_def plain_names_def clean_abs_def)
qed

lemma text_files_apart:
  assumes "plain_names env d"
  shows "text_file env d t = text_file env d u \<longleftrightarrow> rv_hash env t = rv_hash env u" and "text_file env d t \<noteq> text_file env d u @ ''.new''"
proof -
  obtain start where d: "text_file env d t = start @ rv_hash env t @ ''.rsp''" for t using text_file_text[OF assms] by blast
  show "text_file env d t = text_file env d u \<longleftrightarrow> rv_hash env t = rv_hash env u" by (simp add: d)
  have "last (text_file env d t) = CHR ''p''" "last (text_file env d u @ ''.new'') = CHR ''w''" by (simp_all add: d)
  then show "text_file env d t \<noteq> text_file env d u @ ''.new''" by force
qed

lemma writeResponseAtomic_text:
  assumes "plain_names env d" and "fair_races env d" and "content_addressed env d store"
    and w: "writeResponseAtomic env (text_file env d t) t store = (ok, store')"
  shows "content_addressed env d store'" and "store (text_file env d u) = Some x \<Longrightarrow> \<exists>y. store' (text_file env d u) = Some y"
    and "ok \<Longrightarrow> \<exists>y. store' (text_file env d t) = Some y"
proof -
  note apart = text_files_apart[OF assms(1)]
  note same = assms(3)[unfolded content_addressed_def, rule_format]
  consider "store' = store" "\<not> ok" | "ok" "store' = (store(text_file env d t @ ''.new'' := None))(text_file env d t \<mapsto> t)"
    | other where "ok" "store' = store(text_file env d t @ ''.new'' \<mapsto> t, text_file env d t \<mapsto> other)" "rv_hash env other = rv_hash env t"
    | "\<not> ok" "store' = store(text_file env d t @ ''.new'' \<mapsto> t)"
    using w assms(2) by (auto simp: writeResponseAtomic_def fair_races_def Let_def split: if_split_asm rename_outcome.split_asm)
  then have "content_addressed env d store' \<and>
      (store (text_file env d u) = Some x \<longrightarrow> (\<exists>y. store' (text_file env d u) = Some y)) \<and>
      (ok \<longrightarrow> (\<exists>y. store' (text_file env d t) = Some y))"
    using apart same by cases (auto simp: content_addressed_def dest: same)
  then show "content_addressed env d store'" and "store (text_file env d u) = Some x \<Longrightarrow> \<exists>y. store' (text_file env d u) = Some y"
    and "ok \<Longrightarrow> \<exists>y. store' (text_file env d t) = Some y"
    by blast+
qed

lemma store_response_text:
  assumes names: "plain_names env d" and races: "fair_races env d" and addressed: "content_addressed env d (sy_store st)"
    and s: "store_response env (text_file env d t) t st = (ok, st')"
  shows "sy_entries st' = sy_entries st" "sy_seen st' = sy_seen st" "content_addressed env d (sy_store st')"
    "sy_store st (text_file env d u) = Some x \<Longrightarrow> \<exists>y. sy_store st' (text_file env d u) = Some y"
    "ok \<Longrightarrow> rv_denied env (text_file env d t) \<or> (\<exists>y. sy_store st' (text_file env d t) = Some y)"
proof -
  have "sy_entries st' = sy_entries st \<and> sy_seen st' = sy_seen st \<and> content_addressed env d (sy_store st') \<and>
    (sy_store st (text_file env d u) = Some x \<longrightarrow> (\<exists>y. sy_store st' (text_file env d u) = Some y)) \<and>
    (ok \<longrightarrow> rv_denied env (text_file env d t) \<or> (\<exists>y. sy_store st' (text_file env d t) = Some y))"
  proof (cases "sy_store st (text_file env d t) = None \<and> \<not> rv_denied env (text_file env d t)")
    case True
    then obtain store' where w: "writeResponseAtomic env (text_file env d t) t (sy_store st) = (ok, store')"
        and "st' = st\<lparr>sy_store := store'\<rparr>"
      using s by (auto simp: store_response_def split: prod.split_asm)
    then show ?thesis using writeResponseAtomic_text[OF names races addressed w] by auto
  next
    case False
    then have "st' = st" "ok" using s by (auto simp: store_response_def)
    with False addressed show ?thesis by auto
  qed
  then show "sy_entries st' = sy_entries st" "sy_seen st' = sy_seen st" "content_addressed env d (sy_store st')"
    "sy_store st (text_file env d u) = Some x \<Longrightarrow> \<exists>y. sy_store st' (text_file env d u) = Some y"
    "ok \<Longrightarrow> rv_denied env (text_file env d t) \<or> (\<exists>y. sy_store st' (text_file env d t) = Some y)" by blast+
qed

lemma good_entry_kept:
  assumes "good_entry env c store e" and "content_addressed env (wc_responseDir c) store'"
    and "\<And>u x. store (text_file env (wc_responseDir c) u) = Some x \<Longrightarrow> \<exists>y. store' (text_file env (wc_responseDir c) u) = Some y"
  shows "good_entry env c store' e"
  using assms unfolding good_entry_def response_file_text content_addressed_def by metis

text \<open>The visit of one path: nothing for a path that is no source, else the entry of its nearest module.\<close>

lemma visit_file_cases:
  assumes "visit_file env c p st = (r, st')"
  shows "source_at env c p = None \<and> r = None \<and> st' = st \<or>
    (\<exists>s m. source_at env c p = Some s \<and> within_either (wc_project c) (wc_engine c) s \<and> index_lookup (wc_index c) s = Some m \<and>
      (r \<noteq> None \<or> (\<exists>st1. store_response env (response_file env c m) (response m (wc_includes c) (wc_definitions c)) st = (True, st1) \<and>
         st' = add_entry \<lparr>ce_Directory = rr_dir m, ce_File = s, ce_Command = '''',
           ce_Arguments = [wc_compiler c, ''@'' @ response_file env c m, s]\<rparr> st1)))"
  using assms
  by (auto simp: visit_file_def source_at_def split: if_split_asm option.split_asm prod.split_asm bool.split_asm)

lemma sources_of_insert:
  "sources_of env c (insert p paths) = (case source_at env c p of None \<Rightarrow> {} | Some s \<Rightarrow> {s}) \<union> sources_of env c paths"
  by (auto simp: sources_of_def split: option.splits)

lemma add_entry_good:
  assumes g: "synthesis_good env c paths st" and e: "good_entry env c (sy_store st) e" "source_at env c p = Some (ce_File e)"
  shows "synthesis_good env c (insert p paths) (add_entry e st)"
proof (cases "entry_key e \<in> set (sy_seen st)")
  case True
  then have "add_entry e st = st" by (simp add: add_entry_def entry_key_def)
  with True g e(2) show ?thesis
    by (auto simp: synthesis_good_def sources_of_insert entry_key_def)
next
  case False
  then have "add_entry e st = st\<lparr>sy_entries := sy_entries st @ [e], sy_seen := entry_key e # sy_seen st\<rparr>"
    by (simp add: add_entry_def entry_key_def)
  with False g e show ?thesis
    by (auto simp: synthesis_good_def sources_of_insert entry_key_def)
qed

lemma visit_file_good:
  assumes names: "plain_names env (wc_responseDir c)" and races: "fair_races env (wc_responseDir c)" and g: "synthesis_good env c paths st"
    and v: "visit_file env c p st = (None, st')"
  shows "synthesis_good env c (insert p paths) st'"
proof (cases "source_at env c p")
  case None
  with visit_file_cases[OF v] g show ?thesis by (simp add: synthesis_good_def sources_of_insert)
next
  case (Some s)
  with visit_file_cases[OF v] obtain m st1 where m: "within_either (wc_project c) (wc_engine c) s" "index_lookup (wc_index c) s = Some m"
      "store_response env (response_file env c m) (response m (wc_includes c) (wc_definitions c)) st = (True, st1)"
      and st': "st' = add_entry \<lparr>ce_Directory = rr_dir m, ce_File = s, ce_Command = '''',
           ce_Arguments = [wc_compiler c, ''@'' @ response_file env c m, s]\<rparr> st1"
    by auto
  let ?t = "response m (wc_includes c) (wc_definitions c)"
  have addressed: "content_addressed env (wc_responseDir c) (sy_store st)" using g by (simp add: synthesis_good_def)
  note r = store_response_text[OF names races addressed m(3)[unfolded response_file_text]]
  have "good_entry env c (sy_store st1) e" if "good_entry env c (sy_store st) e" for e
    using good_entry_kept[OF that r(3)] r(4) by blast
  then have g1: "synthesis_good env c paths st1"
    using g r(1-3) by (simp add: synthesis_good_def list_all_iff)
  obtain u where u: "rv_denied env (text_file env (wc_responseDir c) ?t) \<or> sy_store st1 (text_file env (wc_responseDir c) ?t) = Some u" using r(5) by blast
  have "good_entry env c (sy_store st1) \<lparr>ce_Directory = rr_dir m, ce_File = s, ce_Command = '''',
      ce_Arguments = [wc_compiler c, ''@'' @ response_file env c m, s]\<rparr>"
    using m(1,2) u r(3) by (auto simp: good_entry_def response_file_text content_addressed_def)
  from add_entry_good[OF g1 this] Some show ?thesis by (simp add: st')
qed

lemma visit_files_good:
  "plain_names env (wc_responseDir c) \<Longrightarrow> fair_races env (wc_responseDir c) \<Longrightarrow> synthesis_good env c paths st \<Longrightarrow> visit_files env c ps st = (None, st') \<Longrightarrow>
   synthesis_good env c (paths \<union> set ps) st'"
proof (induction env c ps st arbitrary: paths rule: visit_files.induct)
  case (2 env c p ps st)
  obtain r1 st1 where v: "visit_file env c p st = (r1, st1)" by (cases "visit_file env c p st")
  with 2(5) have r1: "r1 = None" and rest: "visit_files env c ps st1 = (None, st')" by (auto split: option.split_asm)
  from 2(1)[OF v[symmetric] r1 2(2,3) visit_file_good[OF 2(2-4) v[unfolded r1]] rest] show ?case by simp
qed simp

text \<open>The walked paths: the files below the roots of the modules, without the skipped directories.\<close>

definition walked_paths :: "rider_env \<Rightarrow> riderResolvedModule list \<Rightarrow> string set" where
  "walked_paths env all = (\<Union>root \<in> set (riderModuleWalkRoots all). set (root_files env root))"

lemma synthesize_target_sound:
  assumes s: "synthesize_target env i project engine target store = (Inr r, files)"
    and "clean_abs (if ri_ResponseDir i = '''' then ri_StagingDir i else ri_ResponseDir i)"
    and "\<forall>t. sep \<notin> set (rv_hash env t)"
    and addressed: "content_addressed env (if ri_ResponseDir i = '''' then ri_StagingDir i else ri_ResponseDir i) store"
    and races: "fair_races env (if ri_ResponseDir i = '''' then ri_StagingDir i else ri_ResponseDir i)"
  shows "\<exists>compiler all es c. compiler = (if ri_ClangCL i \<noteq> '''' then ri_ClangCL i else rt_CompilerPath target) \<and> compiler \<noteq> '''' \<and>
    all_modules env i project engine target all \<and> c = walk_context_of i project engine compiler target all \<and>
    rf_database files = Some es \<and> sorted (map (entry_order project engine) es) \<and> distinct (map entry_key es) \<and>
    (\<forall>e \<in> set es. good_entry env c (rf_store files) e) \<and>
    ce_File ` set es \<subseteq> sources_of env c (walked_paths env all) \<and>
    entry_key ` set es = to_lower ` sources_of env c (walked_paths env all) \<and>
    rres_Project r = count_class 0 project engine es \<and> rres_Engine r = count_class 1 project engine es \<and>
    0 < rres_Project r \<and> 0 < rres_Engine r \<and> rres_Fingerprint r = rider_fingerprint env es"
proof -
  define compiler where "compiler = (if ri_ClangCL i \<noteq> '''' then ri_ClangCL i else rt_CompilerPath target)"
  obtain modules resolved st where ne: "compiler \<noteq> ''''"
      and mods: "synthesize_modules env i project engine target = Inr modules" "resolve_modules env project engine modules = Inr resolved"
      and visit: "visit_files env (walk_context_of i project engine compiler target (sort_key (\<lambda>m. (rr_dir m, rr_name m)) resolved))
        (concat (map (root_files env) (riderModuleWalkRoots (sort_key (\<lambda>m. (rr_dir m, rr_name m)) resolved))))
        \<lparr>sy_store = store, sy_entries = [], sy_seen = []\<rparr> = (None, st)"
      and fin: "finish_synthesis env project engine st = (Inr r, files)"
    using s unfolding synthesize_target_def Let_def compiler_def[symmetric]
    by (auto split: if_split_asm sum.split_asm prod.split_asm option.split_asm)
  define all where "all = sort_key (\<lambda>m. (rr_dir m, rr_name m)) resolved"
  define c where "c = walk_context_of i project engine compiler target all"
  have dir: "wc_responseDir c = (if ri_ResponseDir i = '''' then ri_StagingDir i else ri_ResponseDir i)"
    by (simp add: c_def walk_context_of_def)
  have names: "plain_names env (wc_responseDir c)" using assms(2,3) by (simp add: plain_names_def dir)
  have "synthesis_good env c {} \<lparr>sy_store = store, sy_entries = [], sy_seen = []\<rparr>"
    using addressed by (simp add: synthesis_good_def sources_of_def dir)
  from visit_files_good[OF names races[folded dir] this visit[folded all_def, folded c_def]]
  have good: "synthesis_good env c (walked_paths env all) st" by (simp add: walked_paths_def)
  define es where "es = sort_key (entry_order project engine) (sy_entries st)"
  have set: "set es = set (sy_entries st)" "distinct (map entry_key es)"
    using good by (simp_all add: es_def synthesis_good_def distinct_map)
  have files: "files = \<lparr>rf_store = sy_store st, rf_database = Some es\<rparr>"
      "r = \<lparr>rres_Project = count_class 0 project engine es, rres_Engine = count_class 1 project engine es,
        rres_Fingerprint = rider_fingerprint env es\<rparr>" "count_class 0 project engine es \<noteq> 0" "count_class 1 project engine es \<noteq> 0"
    using fin by (auto simp: finish_synthesis_def Let_def es_def[symmetric] split: if_split_asm)
  have "0 \<le> count_class k project engine es" for k by (simp add: count_class_def)
  with files(3,4) have "0 < count_class 0 project engine es" "0 < count_class 1 project engine es" by (simp_all add: order_less_le)
  moreover have "sorted (map (entry_order project engine) es)" by (simp add: es_def)
  moreover have "all_modules env i project engine target all" using all_modules_resolved[OF mods] by (simp add: all_def)
  ultimately show ?thesis
    using good set ne files(1,2) compiler_def
    by (intro exI[of _ compiler] exI[of _ all] exI[of _ es] exI[of _ c])
      (simp add: synthesis_good_def list_all_iff c_def)
qed

text \<open>
  C26. A synthesised database is usable, canonical and complete.  The modules are those of the selected
  target, in full scope with the editor's others, each resolved as the metadata says and none dropped;
  the compiler is the given one or the target's.  The entries are exactly the sources among the walked
  files, up to case, each once, with the directory and the flags of the module the index finds for it: its
  response file holds the text made of that module's rules, up to a collision of the hash.  Project
  files come before engine files and each group is sorted, both groups are present and counted, and the
  fingerprint is that of the entries.
\<close>

theorem SynthesizeRider_sound:
  assumes "SynthesizeRider env i store = (Inr r, files)"
    and "clean_abs (if ri_ResponseDir i = '''' then ri_StagingDir i else ri_ResponseDir i)"
    and "\<forall>t. sep \<notin> set (rv_hash env t)"
    and "content_addressed env (if ri_ResponseDir i = '''' then ri_StagingDir i else ri_ResponseDir i) store"
    and "fair_races env (if ri_ResponseDir i = '''' then ri_StagingDir i else ri_ResponseDir i)"
  shows "\<exists>project engine target metadata compiler all es c.
    canonical (rv_paths env) (ri_ProjectRoot i) = Some project \<and> canonical (rv_paths env) (ri_EngineRoot i) = Some engine \<and>
    selectRiderTarget env (RiderMetadataDir project) (ri_Target i) (ri_TargetFile i) project = Inr (target, metadata) \<and>
    compiler = (if ri_ClangCL i \<noteq> '''' then ri_ClangCL i else rt_CompilerPath target) \<and> compiler \<noteq> '''' \<and>
    all_modules env i project engine target all \<and> c = walk_context_of i project engine compiler target all \<and>
    rf_database files = Some es \<and> sorted (map (entry_order project engine) es) \<and> distinct (map entry_key es) \<and>
    (\<forall>e \<in> set es. good_entry env c (rf_store files) e) \<and>
    ce_File ` set es \<subseteq> sources_of env c (walked_paths env all) \<and>
    entry_key ` set es = to_lower ` sources_of env c (walked_paths env all) \<and>
    rres_Project r = count_class 0 project engine es \<and> rres_Engine r = count_class 1 project engine es \<and>
    0 < rres_Project r \<and> 0 < rres_Engine r \<and> rres_Fingerprint r = rider_fingerprint env es"
proof -
  obtain project engine target metadata where s: "canonical (rv_paths env) (ri_ProjectRoot i) = Some project"
      "canonical (rv_paths env) (ri_EngineRoot i) = Some engine"
      "selectRiderTarget env (RiderMetadataDir project) (ri_Target i) (ri_TargetFile i) project = Inr (target, metadata)"
      "synthesize_target env i project engine target store = (Inr r, files)"
    using assms(1) by (auto simp: SynthesizeRider_def Let_def split: option.split_asm sum.split_asm prod.split_asm)
  show ?thesis
    by (rule exI[of _ project], rule exI[of _ engine], rule exI[of _ target], rule exI[of _ metadata])
      (use s(1-3) synthesize_target_sound[OF s(4) assms(2-5)] in simp)
qed

definition sample_target_json :: json where
  "sample_target_json =
     JObj [(''Name'', JStr ''G''), (''TargetFile'', JStr ''/p/G.Target.cs''),
       (''ToolchainInfo'', JObj [(''CompilerPath'', JStr ''/cl'')]),
       (''Modules'', JObj [(''G'', JObj [(''Directory'', JStr ''/p'')]), (''C'', JObj [(''Directory'', JStr ''/e''), (''Rules'', JObj [(''PublicIncludePaths'', JArr [JStr ''inc''])])])])]"

definition sample_rider_env :: rider_env where
  "sample_rider_env =
     \<lparr>rv_paths = \<lparr>Getwd = Some ''/w'', EvalSymlinks = (\<lambda>p. Some (path_clean p))\<rparr>,
      rv_glob = (\<lambda>p. Some [''/p/t.json'']), rv_read = (\<lambda>p. Some sample_target_json), rv_lstat = (\<lambda>p. LExists),
      rv_stat = (\<lambda>p. IsDirectory), rv_mtime = (\<lambda>p. Some 1),
      rv_tree = (\<lambda>p. if p = ''/p'' then Some (DirNode ''p'' [FileNode ''g.c'', FileNode ''g.h''])
                     else if p = ''/e'' then Some (DirNode ''e'' [DirNode ''Saved'' [FileNode ''x.c''], FileNode ''c.c''])
                     else None),
      rv_mkdir = (\<lambda>p. True), rv_denied = (\<lambda>p. False), rv_write = (\<lambda>p. True), rv_rename = (\<lambda>p. Renamed),
      rv_database = True, rv_hash = (\<lambda>s. nat_digits (length s))\<rparr>"

definition sample_rider_input :: RiderInput where
  "sample_rider_input =
     \<lparr>ri_ProjectRoot = ''/p'', ri_EngineRoot = ''/e'', ri_Target = ''G'', ri_TargetFile = '''', ri_StagingDir = ''/s'',
      ri_ResponseDir = '''', ri_ClangCL = '''', ri_EngineScopeFull = False\<rparr>"

lemma digits_no_sep: "sep \<notin> set (nat_digits n)"
proof -
  have "\<not> is_digit sep" by code_simp
  then show ?thesis using nat_digits_all_digits[of n] by (auto simp: list_all_iff)
qed

definition sample_flags :: "string list" where
  "sample_flags = [''/nologo'', ''/TP'', ''/std:c++20'', ''--target=x86_64-pc-windows-msvc'', ''/utf-8'', ''/Zc:__cplusplus'', ''/permissive-'']"

text \<open>The flags an entry is compiled with: the content of its response file.\<close>

definition entry_flags :: "rider_files \<Rightarrow> compdb_Entry \<Rightarrow> string option" where
  "entry_flags files e = rf_store files (drop 1 (ce_Arguments e ! 1))"

lemma sample_synthesis:
  "map_prod (map_sum (\<lambda>_. ()) (\<lambda>r. r)) (\<lambda>f. map_option (map (\<lambda>e. (ce_File e, hd (ce_Arguments e), entry_flags f e))) (rf_database f))
     (SynthesizeRider sample_rider_env sample_rider_input (\<lambda>_. None)) =
   (Inr \<lparr>rres_Project = 1, rres_Engine = 1, rres_Fingerprint = ''59''\<rparr>,
    Some [(''/p/g.c'', ''/cl'', Some (str_join rsp_crlf sample_flags @ rsp_crlf)),
          (''/e/c.c'', ''/cl'', Some (str_join rsp_crlf (sample_flags @ [''/I/e/inc'']) @ rsp_crlf))])"
  by code_simp

theorem SynthesizeRider_sound_witness:
  "\<exists>(files :: rider_files) es compiler target all.
     rf_database files = Some es \<and> map ce_File es = [''/p/g.c'', ''/e/c.c''] \<and>
     map (entry_flags files) es = [Some (str_join rsp_crlf sample_flags @ rsp_crlf),
       Some (str_join rsp_crlf (sample_flags @ [''/I/e/inc'']) @ rsp_crlf)] \<and>
     all_modules sample_rider_env sample_rider_input ''/p'' ''/e'' target all \<and>
     entry_key ` set es = to_lower ` sources_of sample_rider_env
       (walk_context_of sample_rider_input ''/p'' ''/e'' compiler target all) (walked_paths sample_rider_env all)"
proof -
  obtain files where f: "SynthesizeRider sample_rider_env sample_rider_input (\<lambda>_. None) =
      (Inr \<lparr>rres_Project = 1, rres_Engine = 1, rres_Fingerprint = ''59''\<rparr>, files)"
    and db: "map_option (map (\<lambda>e. (ce_File e, hd (ce_Arguments e), entry_flags files e))) (rf_database files) =
      Some [(''/p/g.c'', ''/cl'', Some (str_join rsp_crlf sample_flags @ rsp_crlf)),
          (''/e/c.c'', ''/cl'', Some (str_join rsp_crlf (sample_flags @ [''/I/e/inc'']) @ rsp_crlf))]"
    using sample_synthesis
    by (cases "SynthesizeRider sample_rider_env sample_rider_input (\<lambda>_. None)") (auto simp: map_sum_def split: sum.split_asm)
  have dir: "(if ri_ResponseDir sample_rider_input = '''' then ri_StagingDir sample_rider_input else ri_ResponseDir sample_rider_input) = ''/s''"
    by (simp add: sample_rider_input_def)
  have hyps: "clean_abs ''/s''" "\<forall>s. sep \<notin> set (rv_hash sample_rider_env s)"
      "content_addressed sample_rider_env ''/s'' (\<lambda>_. None)" "fair_races sample_rider_env ''/s''"
    by (code_simp, simp_all add: sample_rider_env_def digits_no_sep content_addressed_def fair_races_def)
  obtain project engine target all es compiler where
      "canonical (rv_paths sample_rider_env) (ri_ProjectRoot sample_rider_input) = Some project"
      "canonical (rv_paths sample_rider_env) (ri_EngineRoot sample_rider_input) = Some engine"
      and es: "rf_database files = Some es" "all_modules sample_rider_env sample_rider_input project engine target all"
      "entry_key ` set es = to_lower ` sources_of sample_rider_env
        (walk_context_of sample_rider_input project engine compiler target all) (walked_paths sample_rider_env all)"
    using SynthesizeRider_sound[OF f, unfolded dir, OF hyps] by (elim exE conjE) (simp only:)
  moreover have "canonical (rv_paths sample_rider_env) (ri_ProjectRoot sample_rider_input) = Some ''/p''"
    "canonical (rv_paths sample_rider_env) (ri_EngineRoot sample_rider_input) = Some ''/e''" by code_simp+
  ultimately have r: "project = ''/p''" "engine = ''/e''" by (simp_all only: option.inject)
  have "map (\<lambda>e. (ce_File e, hd (ce_Arguments e), entry_flags files e)) es =
      [(''/p/g.c'', ''/cl'', Some (str_join rsp_crlf sample_flags @ rsp_crlf)),
          (''/e/c.c'', ''/cl'', Some (str_join rsp_crlf (sample_flags @ [''/I/e/inc'']) @ rsp_crlf))]"
    using db by (simp only: es(1) option.map option.inject)
  then have "map ce_File es = [''/p/g.c'', ''/e/c.c'']" "map (entry_flags files) es = [Some (str_join rsp_crlf sample_flags @ rsp_crlf),
       Some (str_join rsp_crlf (sample_flags @ [''/I/e/inc'']) @ rsp_crlf)]"
    by (auto simp only: map_eq_Cons_conv list.map Nil_is_map_conv map_is_Nil_conv prod.inject)
  then show ?thesis
    by (intro exI[of _ files] exI[of _ es] exI[of _ compiler] exI[of _ target] exI[of _ all] conjI)
      (rule es[unfolded r] | assumption)+
qed

end
