(* ===== verification/RiderStale.thy ===== *)
theory RiderStale
  imports Rider
begin

text \<open>
  When Rider's metadata is too old to be used (\<^verbatim>\<open>internal/compdb/rider.go\<close>): the comparison of the
  selected metadata with the rules, descriptors and project inputs it was made from.  The climb
  from a module's directory to its root has no bound of its own; its model is \<open>None\<close> where the
  loop would not end, and the section on termination shows that it always does.
\<close>

section \<open>Modification times\<close>

text \<open>Times are nanoseconds; 0 is the zero time.\<close>

definition newer :: "rider_env \<Rightarrow> string \<Rightarrow> int \<Rightarrow> bool" where
  "newer env path than = (case rv_mtime env path of None \<Rightarrow> False | Some t \<Rightarrow> than < t)"

definition missingOrNewer :: "rider_env \<Rightarrow> string \<Rightarrow> int \<Rightarrow> bool" where
  "missingOrNewer env path than = (case rv_mtime env path of None \<Rightarrow> True | Some t \<Rightarrow> than < t)"

fun oldest_loop :: "rider_env \<Rightarrow> int \<Rightarrow> string list \<Rightarrow> int" where
  "oldest_loop env oldest [] = oldest"
| "oldest_loop env oldest (p # ps) =
     (case rv_mtime env p of
        None \<Rightarrow> 0
      | Some t \<Rightarrow> oldest_loop env (if oldest = 0 \<or> t < oldest then t else oldest) ps)"

definition timeForSelections :: "rider_env \<Rightarrow> (riderTarget \<times> string) list \<Rightarrow> int" where
  "timeForSelections env selected = oldest_loop env 0 (map snd selected)"

section \<open>Project inputs\<close>

definition is_project_input :: "string \<Rightarrow> bool" where
  "is_project_input name \<longleftrightarrow>
     has_suffix name ''.Build.cs'' \<or> has_suffix name ''.Target.cs'' \<or> equal_fold (path_ext name) ''.uplugin''"

text \<open>The walk stops at the first newer input, so what it finds is whether there is one.\<close>

definition projectInputsNewer :: "rider_env \<Rightarrow> string \<Rightarrow> int \<Rightarrow> bool" where
  "projectInputsNewer env project than =
     list_ex (\<lambda>root. list_ex (\<lambda>path. is_project_input (path_base path) \<and> newer env path than) (root_files env root))
       [path_join2 project ''Source'', path_join2 project ''Plugins'']"

fun all_files :: "string \<Rightarrow> file_tree \<Rightarrow> string list" where
  "all_files path (FileNode n) = [path]"
| "all_files path (DirNode n ts) = concat (map (\<lambda>t. all_files (path_join2 path (tree_name t)) t) ts)"

definition older :: "rider_env \<Rightarrow> int option \<Rightarrow> string \<Rightarrow> int option" where
  "older env oldest file =
     (case rv_mtime env file of
        None \<Rightarrow> oldest
      | Some t \<Rightarrow> (case oldest of None \<Rightarrow> Some t | Some t0 \<Rightarrow> if t < t0 then Some t else oldest))"

definition RiderMetadataStale :: "rider_env \<Rightarrow> string \<Rightarrow> bool" where
  "RiderMetadataStale env projectRoot =
     (case rv_glob env (path_join2 (RiderMetadataDir projectRoot) ''*.json'') of
        None \<Rightarrow> True
      | Some files \<Rightarrow>
          if files = [] then True
          else case foldl (older env) None files of
              None \<Rightarrow> True
            | Some oldest \<Rightarrow>
                (case rv_tree env projectRoot of
                   None \<Rightarrow> False
                 | Some t \<Rightarrow>
                     list_ex (\<lambda>path.
                       (is_project_input (path_base path) \<or> equal_fold (path_ext (path_base path)) ''.uproject'') \<and>
                       newer env path oldest) (all_files projectRoot t)))"

section \<open>Descriptors\<close>

definition glob_or_none :: "rider_env \<Rightarrow> string \<Rightarrow> string list" where
  "glob_or_none env pat = (case rv_glob env pat of None \<Rightarrow> [] | Some fs \<Rightarrow> fs)"

text \<open>One directory of the climb: its plugin descriptors, and the plugin root it shows.\<close>

definition climb_visit :: "rider_env \<Rightarrow> string \<Rightarrow> string \<Rightarrow> string \<Rightarrow> string list \<times> string \<Rightarrow> string list \<times> string" where
  "climb_visit env project engine current = (\<lambda>(found, pluginRoot).
     (found @ glob_or_none env (path_join2 current ''*.uplugin''),
      if equal_fold (path_base current) ''Source'' \<and>
         (compdb_within (path_dir current) (path_join2 project ''Plugins'') \<or>
          compdb_within (path_dir current) (path_join [engine, ''Engine'', ''Plugins'']))
      then path_dir current else pluginRoot))"

function climb_descriptors :: "rider_env \<Rightarrow> string \<Rightarrow> string \<Rightarrow> string \<Rightarrow> string \<Rightarrow> string list \<times> string
    \<Rightarrow> (string list \<times> string) option" where
  "climb_descriptors env project engine boundary current acc =
     (let acc' = climb_visit env project engine current acc in
      if equal_fold current boundary then Some acc'
      else if path_dir current = current then None
      else climb_descriptors env project engine boundary (path_dir current) acc')"
  by pat_completeness auto
termination
  by (relation "measure (\<lambda>(env, project, engine, boundary, current, acc). climb_measure current)") (auto simp: path_dir_measure)

declare climb_descriptors.simps [simp del]

definition plugin_descriptors :: "rider_env \<Rightarrow> string \<Rightarrow> string list" where
  "plugin_descriptors env pluginRoot =
     (if pluginRoot = '''' then []
      else if glob_or_none env (path_join2 pluginRoot ''*.uplugin'') = []
      then [path_join2 pluginRoot (path_base pluginRoot @ ''.uplugin'')]
      else [])"

definition module_descriptors :: "rider_env \<Rightarrow> string \<Rightarrow> string \<Rightarrow> riderModule \<Rightarrow> string list option" where
  "module_descriptors env project engine m =
     (case canonical (rv_paths env) (rm_Directory m) of
        None \<Rightarrow> Some []
      | Some dir \<Rightarrow>
          if \<not> compdb_within dir project \<and> \<not> compdb_within dir engine then Some []
          else map_option (\<lambda>(found, pluginRoot). found @ plugin_descriptors env pluginRoot)
                 (climb_descriptors env project engine (if compdb_within dir project then project else engine) dir ([], '''')))"

fun all_descriptors :: "rider_env \<Rightarrow> string \<Rightarrow> string \<Rightarrow> riderModule list \<Rightarrow> string list option" where
  "all_descriptors env project engine [] = Some []"
| "all_descriptors env project engine (m # ms) =
     (case module_descriptors env project engine m of
        None \<Rightarrow> None
      | Some ds \<Rightarrow> map_option (\<lambda>rest. ds @ rest) (all_descriptors env project engine ms))"

definition project_descriptors :: "rider_env \<Rightarrow> string \<Rightarrow> string list" where
  "project_descriptors env project =
     (let uprojects = glob_or_none env (path_join2 project ''*.uproject'') in
      if uprojects = [] then [path_join2 project (path_base project @ ''.uproject'')] else uprojects)"

definition target_modules :: "(riderTarget \<times> string) list \<Rightarrow> riderModule list" where
  "target_modules ts = concat (map (\<lambda>t. map snd (rt_Modules (fst t))) ts)"

definition relevantDescriptors :: "rider_env \<Rightarrow> string \<Rightarrow> string \<Rightarrow> (riderTarget \<times> string) list \<Rightarrow> string list option" where
  "relevantDescriptors env project engine targets =
     map_option (\<lambda>ds. sort (remdups (project_descriptors env project @ ds)))
       (all_descriptors env project engine (target_modules targets))"

section \<open>Staleness\<close>

definition module_stale :: "rider_env \<Rightarrow> string \<Rightarrow> string \<Rightarrow> int \<Rightarrow> riderModule \<Rightarrow> bool" where
  "module_stale env project engine oldest m =
     (if rm_Rules m = '''' then False
      else case canonical (rv_paths env) (if is_abs (rm_Rules m) then rm_Rules m else path_join2 (rm_Directory m) (rm_Rules m)) of
          None \<Rightarrow> True
        | Some path \<Rightarrow> (\<not> compdb_within path project \<and> \<not> compdb_within path engine) \<or> missingOrNewer env path oldest)"

definition target_stale :: "rider_env \<Rightarrow> string \<Rightarrow> string \<Rightarrow> int \<Rightarrow> riderTarget \<times> string \<Rightarrow> bool" where
  "target_stale env project engine oldest t \<longleftrightarrow>
     missingOrNewer env (rt_TargetFile (fst t)) oldest \<or>
     list_ex (module_stale env project engine oldest) (map snd (rt_Modules (fst t)))"

text \<open>The selections the request needs.\<close>

definition stale_selections :: "rider_env \<Rightarrow> string \<Rightarrow> string \<Rightarrow> string \<Rightarrow> string \<Rightarrow> bool
    \<Rightarrow> (rider_error, (riderTarget \<times> string) list) result" where
  "stale_selections env project engine target targetFile full =
     (case selectRiderTarget env (RiderMetadataDir project) target targetFile project of
        Inl e \<Rightarrow> Inl e
      | Inr selected \<Rightarrow>
          if \<not> full then Inr [selected]
          else case selectRiderTarget env (RiderMetadataDir project) ''UnrealEditor'' '''' engine of
              Inl e \<Rightarrow> Inl (FullScopeMissing e)
            | Inr editor \<Rightarrow> Inr [selected, editor])"

text \<open>\<open>None\<close> when the call would not return.\<close>

definition RiderMetadataStaleFor :: "rider_env \<Rightarrow> string \<Rightarrow> string \<Rightarrow> string \<Rightarrow> string \<Rightarrow> bool
    \<Rightarrow> (rider_error, bool) result option" where
  "RiderMetadataStaleFor env projectRoot engineRoot target targetFile full =
     (case canonical (rv_paths env) projectRoot of
        None \<Rightarrow> Some (Inl RiderNoWorkingDirectory)
      | Some project \<Rightarrow>
          (case canonical (rv_paths env) engineRoot of
             None \<Rightarrow> Some (Inl RiderNoWorkingDirectory)
           | Some engine \<Rightarrow>
               (case stale_selections env project engine target targetFile full of
                  Inl e \<Rightarrow> Some (Inl e)
                | Inr all \<Rightarrow>
                    let oldest = timeForSelections env all in
                    if oldest = 0 then Some (Inr True)
                    else if list_ex (target_stale env project engine oldest) all then Some (Inr True)
                    else if projectInputsNewer env project oldest then Some (Inr True)
                    else map_option (\<lambda>ds. Inr (list_ex (\<lambda>d. missingOrNewer env d oldest) ds))
                           (relevantDescriptors env project engine all))))"

section \<open>The climb ends\<close>

lemma climb_descriptors_ends:
  assumes "clean_abs current" and "clean_abs boundary" and "prefix (path_parts boundary) (path_parts current)"
  shows "climb_descriptors env project engine boundary current acc \<noteq> None"
  using assms(1,3)
proof (induction env project engine boundary\<equiv>boundary current acc rule: climb_descriptors.induct)
  case (1 env project engine current acc)
  show ?case
  proof (cases "equal_fold current boundary")
    case True
    then show ?thesis by (simp add: climb_descriptors.simps[of _ _ _ _ current])
  next
    case False
    then have "path_parts boundary \<noteq> path_parts current"
      using clean_abs_eq[OF 1(2) assms(2)] by auto
    then have up: "path_parts current \<noteq> []" "prefix (path_parts boundary) (butlast (path_parts current))"
      using prefix_butlast 1(3) by auto
    then have step: "path_dir current \<noteq> current"
      using path_dir_fix[OF 1(2)] by simp
    from 1(1)[OF refl False step path_dir_clean_abs(1)[OF 1(2)]] up(2)
    have "climb_descriptors env project engine boundary (path_dir current) (climb_visit env project engine current acc) \<noteq> None"
      by (simp add: path_dir_clean_abs(2)[OF 1(2)])
    then show ?thesis
      using False step by (simp add: climb_descriptors.simps[of _ _ _ _ current])
  qed
qed

text \<open>Symbolic links resolve to absolute paths and the working directory is absolute.\<close>

definition sound_links :: "path_env \<Rightarrow> bool" where
  "sound_links env \<longleftrightarrow>
     (\<forall>p q. is_abs p \<longrightarrow> EvalSymlinks env p = Some q \<longrightarrow> is_abs q) \<and> (\<forall>d. Getwd env = Some d \<longrightarrow> is_abs d)"

lemma canonical_clean_abs:
  assumes "sound_links env" and "canonical env p = Some q"
  shows "clean_abs q"
proof -
  obtain a where a: "go_abs env p = Some a" "q = path_clean (case EvalSymlinks env a of Some r \<Rightarrow> r | None \<Rightarrow> a)"
    using assms(2) by (auto simp: canonical_def split: option.split_asm)
  have "is_abs a"
    using a(1) assms(1) by (auto simp: go_abs_def sound_links_def is_abs_clean path_join2_is_abs split: if_split_asm)
  then show ?thesis
    using a(2) assms(1) by (auto simp: sound_links_def intro!: clean_abs_clean split: option.split)
qed

lemma module_descriptors_returns:
  assumes "sound_links (rv_paths env)" and "clean_abs project" and "clean_abs engine"
  shows "module_descriptors env project engine m \<noteq> None"
proof -
  have "climb_descriptors env project engine (if compdb_within dir project then project else engine) dir acc \<noteq> None"
    if "canonical (rv_paths env) (rm_Directory m) = Some dir" "compdb_within dir project \<or> compdb_within dir engine" for dir acc
  proof -
    have dir: "clean_abs dir" by (rule canonical_clean_abs[OF assms(1) that(1)])
    have "compdb_within dir root \<Longrightarrow> clean_abs root \<Longrightarrow> climb_descriptors env project engine root dir acc \<noteq> None" for root
      using climb_descriptors_ends[OF dir] dir by (simp add: compdb_contains.inside_iff clean_abs_def)
    then show ?thesis using that(2) assms(2,3) by presburger
  qed
  then show ?thesis
    by (auto simp: module_descriptors_def split: option.split)
qed

lemma all_descriptors_returns:
  assumes "sound_links (rv_paths env)" and "clean_abs project" and "clean_abs engine"
  shows "all_descriptors env project engine ms \<noteq> None"
  using module_descriptors_returns[OF assms] by (induction ms) (auto split: option.split)

text \<open>What a fresh answer means.\<close>

definition up_to_date :: "rider_env \<Rightarrow> string \<Rightarrow> string \<Rightarrow> int \<Rightarrow> (riderTarget \<times> string) list \<Rightarrow> bool" where
  "up_to_date env project engine oldest all \<longleftrightarrow>
     (\<forall>t \<in> set all. \<exists>mt. rv_mtime env (snd t) = Some mt \<and> oldest \<le> mt) \<and>
     (\<forall>t \<in> set all. \<not> target_stale env project engine oldest t) \<and>
     \<not> projectInputsNewer env project oldest \<and>
     (\<forall>d \<in> set (project_descriptors env project). \<not> missingOrNewer env d oldest)"

lemma oldest_loop_le:
  "oldest_loop env o1 ps \<noteq> 0 \<Longrightarrow> \<forall>p. rv_mtime env p \<noteq> Some 0 \<Longrightarrow>
   (o1 \<noteq> 0 \<longrightarrow> oldest_loop env o1 ps \<le> o1) \<and> (\<forall>p \<in> set ps. \<exists>t. rv_mtime env p = Some t \<and> oldest_loop env o1 ps \<le> t)"
proof (induction env o1 ps rule: oldest_loop.induct)
  case (2 env o1 p ps)
  then obtain t where t: "rv_mtime env p = Some t" by (auto split: option.split_asm)
  show ?case
  proof (cases "o1 = 0 \<or> t < o1")
    case True
    then have "oldest_loop env t ps \<noteq> 0" "t \<noteq> 0" using 2(2,3) t by auto
    then show ?thesis using 2(1)[OF t] 2(3) t True by auto
  next
    case False
    then show ?thesis using 2 t by auto
  qed
qed simp

lemma all_descriptors_project:
  assumes "relevantDescriptors env project engine all = Some ds"
  shows "set (project_descriptors env project) \<subseteq> set ds \<and> sorted ds \<and> distinct ds"
  using assms by (auto simp: relevantDescriptors_def)

text \<open>
  C28. The staleness check always returns, and it only calls metadata fresh when nothing it was made
  from is newer: every selected metadata file can be examined and the oldest of them is no older than
  any target file, any module's rules file (each of which lies inside the project or the engine), any
  build or plugin file of the project, or any project or plugin descriptor.
\<close>

theorem fresh_metadata_is_up_to_date:
  assumes "sound_links (rv_paths env)" and "\<forall>p. rv_mtime env p \<noteq> Some 0"
  shows "case RiderMetadataStaleFor env projectRoot engineRoot target targetFile full of
      None \<Rightarrow> False
    | Some (Inr False) \<Rightarrow>
        (\<exists>project engine all ds. canonical (rv_paths env) projectRoot = Some project \<and>
           canonical (rv_paths env) engineRoot = Some engine \<and>
           stale_selections env project engine target targetFile full = Inr all \<and>
           up_to_date env project engine (timeForSelections env all) all \<and>
           relevantDescriptors env project engine all = Some ds \<and>
           (\<forall>d \<in> set ds. \<not> missingOrNewer env d (timeForSelections env all)))
    | _ \<Rightarrow> True"
proof -
  have returns: "relevantDescriptors env project engine all \<noteq> None"
    if "canonical (rv_paths env) projectRoot = Some project" "canonical (rv_paths env) engineRoot = Some engine"
    for project engine all
    using all_descriptors_returns[OF assms(1) canonical_clean_abs[OF assms(1) that(1)] canonical_clean_abs[OF assms(1) that(2)]]
    by (simp add: relevantDescriptors_def)
  show ?thesis
  proof (cases "RiderMetadataStaleFor env projectRoot engineRoot target targetFile full")
    case None
    then show ?thesis
      by (auto simp: RiderMetadataStaleFor_def Let_def returns split: option.split_asm sum.split_asm if_split_asm)
  next
    case (Some r)
    have "?thesis" if r: "r = Inr False"
    proof -
      obtain project engine all ds where s: "canonical (rv_paths env) projectRoot = Some project"
          "canonical (rv_paths env) engineRoot = Some engine"
          "stale_selections env project engine target targetFile full = Inr all"
          "timeForSelections env all \<noteq> 0" "\<not> list_ex (target_stale env project engine (timeForSelections env all)) all"
          "\<not> projectInputsNewer env project (timeForSelections env all)"
          "relevantDescriptors env project engine all = Some ds"
          "\<not> list_ex (\<lambda>d. missingOrNewer env d (timeForSelections env all)) ds"
        using Some r by (auto simp: RiderMetadataStaleFor_def Let_def split: option.split_asm sum.split_asm if_split_asm)
      have "\<forall>t \<in> set all. \<exists>mt. rv_mtime env (snd t) = Some mt \<and> timeForSelections env all \<le> mt"
        using oldest_loop_le[of env 0 "map snd all"] s(4) assms(2) by (auto simp: timeForSelections_def)
      then have "up_to_date env project engine (timeForSelections env all) all"
        using s all_descriptors_project[OF s(7)] by (auto simp: up_to_date_def list_ex_iff)
      then show ?thesis
        using Some r s by (auto simp: list_ex_iff)
    qed
    then show ?thesis
      using Some by (cases r) (auto split: bool.split)
  qed
qed

theorem fresh_metadata_is_up_to_date_witness:
  "RiderMetadataStaleFor sample_rider_env ''/p'' ''/e'' ''G'' '''' False \<noteq> None"
proof -
  have "sound_links (rv_paths sample_rider_env)" "\<forall>p. rv_mtime sample_rider_env p \<noteq> Some 0"
    by (auto simp: sound_links_def sample_rider_env_def is_abs_clean)
  from fresh_metadata_is_up_to_date[OF this, of "''/p''" "''/e''" "''G''" "''''" False] show ?thesis
    by (auto split: option.split_asm)
qed

end
