(* ===== verification/EngineIndex.thy ===== *)
theory EngineIndex
  imports Compdb RiderModules
begin

text \<open>
  The prebuilt engine index (\<^verbatim>\<open>internal/engineindex\<close>): the split of a compilation database, the key
  of an engine's entries, the build of the index file, the search for the indexer, and the shared
  \<^verbatim>\<open>.clangd\<close> fragment with its ownership rule.  The indexer, the file system and SHA-256 are
  arguments.
\<close>

section \<open>Splitting\<close>

definition underRoot :: "string \<Rightarrow> string \<Rightarrow> bool" where
  "underRoot absolute root =
     (case path_rel root absolute of
        None \<Rightarrow> False
      | Some rel \<Rightarrow> rel \<noteq> ''..'' \<and> \<not> has_prefix rel (''..'' @ [sep]) \<and> \<not> is_abs rel)"

lemma underRoot_rel: "underRoot p root = rel_inside (path_rel root p)"
  by (simp add: underRoot_def rel_inside_def split: option.split)

interpretation engine_contains: containment underRoot
  by unfold_locales (simp add: underRoot_rel rel_inside_iff_prefix)

fun split_entries :: "path_env \<Rightarrow> string \<Rightarrow> compdb_Entry list \<Rightarrow> compdb_Entry list \<times> compdb_Entry list" where
  "split_entries env root [] = ([], [])"
| "split_entries env root (e # es) =
     (case split_entries env root es of
        (engine, rest) \<Rightarrow>
          (case go_abs env (ce_File e) of
             None \<Rightarrow> (engine, rest)
           | Some p \<Rightarrow> if underRoot p root then (e # engine, rest) else (engine, e # rest)))"

definition Split :: "path_env \<Rightarrow> compdb_Entry list \<Rightarrow> string \<Rightarrow> compdb_Entry list \<times> compdb_Entry list" where
  "Split env entries engineRoot =
     (case go_abs env (path_join2 engineRoot ''Engine'') of
        None \<Rightarrow> ([], entries)
      | Some root \<Rightarrow> split_entries env root entries)"

section \<open>The key\<close>

definition key_args :: "compdb_Entry \<Rightarrow> string" where
  "key_args e = (if ce_Arguments e \<noteq> [] then str_join [CHR 0x00] (ce_Arguments e) else ce_Command e)"

fun keyed_files :: "path_env \<Rightarrow> compdb_Entry list \<Rightarrow> (string \<times> string) list option" where
  "keyed_files env [] = Some []"
| "keyed_files env (e # es) =
     (case go_abs env (ce_File e) of
        None \<Rightarrow> None
      | Some p \<Rightarrow> map_option (\<lambda>ks. (to_lower (to_slash p), key_args e) # ks) (keyed_files env es))"

definition key_line :: "string \<times> string \<Rightarrow> string" where
  "key_line k = fst k @ [CHR 0x00] @ snd k @ [CHR 0x0A]"

text \<open>What is hashed: the root, then a line per file in order.\<close>

definition key_preimage :: "string \<Rightarrow> (string \<times> string) list \<Rightarrow> string" where
  "key_preimage root ks = to_lower (to_slash root) @ [CHR 0x00] @ concat (map key_line (sort ks))"

definition index_Key :: "path_env \<Rightarrow> (string \<Rightarrow> string) \<Rightarrow> string \<Rightarrow> compdb_Entry list \<Rightarrow> string option" where
  "index_Key env hash engineRoot entries =
     (case go_abs env engineRoot of
        None \<Rightarrow> None
      | Some root \<Rightarrow> map_option (\<lambda>ks. take 16 (hash (key_preimage root ks))) (keyed_files env entries))"

section \<open>Files\<close>

text \<open>
  Files are a map from paths to contents.  \<^verbatim>\<open>os.WriteFile\<close> writes everything, or opens the file (which
  truncates it) and stops after some bytes, or does not open it; \<^verbatim>\<open>os.Remove\<close> works or does not.
\<close>

type_synonym file_map = "string \<rightharpoonup> string"

datatype file_write = FileWritten | FileTorn nat | FileRefused

definition write_file :: "file_write \<Rightarrow> string \<Rightarrow> string \<Rightarrow> file_map \<Rightarrow> bool \<times> file_map" where
  "write_file w path data fs =
     (case w of
        FileWritten \<Rightarrow> (True, fs(path \<mapsto> data))
      | FileTorn n \<Rightarrow> (False, fs(path \<mapsto> take n data))
      | FileRefused \<Rightarrow> (False, fs))"

definition remove_file :: "bool \<Rightarrow> string \<Rightarrow> file_map \<Rightarrow> file_map" where
  "remove_file works path fs = (if works then fs(path := None) else fs)"

lemma write_file_other: "write_file w path data fs = (ok, fs') \<Longrightarrow> f \<noteq> path \<Longrightarrow> fs' f = fs f"
  by (auto simp: write_file_def split: file_write.split_asm)

lemma remove_file_other: "f \<noteq> path \<Longrightarrow> remove_file works path fs f = fs f"
  by (simp add: remove_file_def)

section \<open>Building the index\<close>

text \<open>
  The outcome of each system call of the build.  The indexer's run gives its output, its log and
  whether it succeeded; both files keep what it wrote, whether or not it did.
\<close>

record index_io =
  xo_runner :: bool
  xo_mkdir :: bool
  xo_create :: bool
  xo_log :: bool
  xo_run :: "string \<Rightarrow> string list \<Rightarrow> string \<times> string \<times> bool"
  xo_close :: bool
  xo_stat :: bool
  xo_rename :: bool
  xo_remove :: bool

datatype index_error =
    NoIndexerRunner | CreateIndexDestination | CreateIndexStaging | OpenIndexerLog | IndexerFailed | WriteIndex | EmptyIndex | MoveIndex

definition run_indexer :: "index_io \<Rightarrow> string \<Rightarrow> string \<Rightarrow> string \<Rightarrow> string \<Rightarrow> file_map \<Rightarrow> (index_error, unit) result \<times> file_map" where
  "run_indexer ops indexerPath staged dest logPath fs =
     (let tmp = dest @ ''.new'' in
      if \<not> xo_create ops then (Inl CreateIndexStaging, fs)
      else if \<not> xo_log ops then (Inl OpenIndexerLog, fs(tmp \<mapsto> ''''))
      else case xo_run ops indexerPath [''--executor=all-TUs'', staged] of
          (output, errors, succeeded) \<Rightarrow>
            let fs' = fs(tmp \<mapsto> output, logPath \<mapsto> errors) in
            if \<not> succeeded then (Inl IndexerFailed, fs')
            else if \<not> xo_close ops then (Inl WriteIndex, fs')
            else if \<not> xo_stat ops \<or> length output = 0 then (Inl EmptyIndex, fs')
            else if \<not> xo_rename ops then (Inl MoveIndex, fs')
            else (Inr (), fs'(dest := fs' tmp, tmp := None)))"

text \<open>The deferred removal of the staging file after any error past the destination directory.\<close>

definition BuildIndex :: "index_io \<Rightarrow> string \<Rightarrow> string \<Rightarrow> string \<Rightarrow> string \<Rightarrow> file_map \<Rightarrow> (index_error, unit) result \<times> file_map" where
  "BuildIndex ops indexerPath staged dest logPath fs =
     (if \<not> xo_runner ops then (Inl NoIndexerRunner, fs)
      else if \<not> xo_mkdir ops then (Inl CreateIndexDestination, fs)
      else case run_indexer ops indexerPath staged dest logPath fs of
          (Inl e, fs') \<Rightarrow> (Inl e, remove_file (xo_remove ops) (dest @ ''.new'') fs')
        | (Inr u, fs') \<Rightarrow> (Inr u, fs'))"

definition FindIndexer :: "(string \<Rightarrow> bool) \<Rightarrow> (string \<Rightarrow> string option) \<Rightarrow> string \<Rightarrow> string option" where
  "FindIndexer isFile lookPath clangdPath =
     (let name = (if path_ext clangdPath \<noteq> '''' then ''clangd-indexer'' @ path_ext clangdPath else ''clangd-indexer'');
          candidate = path_join2 (path_dir clangdPath) name
      in if clangdPath \<noteq> '''' \<and> isFile candidate then Some candidate else lookPath name)"

section \<open>The fragment\<close>

definition fragmentMarker :: string where
  "fragmentMarker = ''# soft-ue-index:generated-engine-index''"

definition FragmentPath :: "string \<Rightarrow> string" where
  "FragmentPath engineRoot = path_join2 engineRoot ''.clangd''"

abbreviation newline :: string where "newline \<equiv> [CHR 0x0A]"
abbreviation quote_char :: char where "quote_char \<equiv> CHR 0x27"

definition fragmentContent :: "string \<Rightarrow> string \<Rightarrow> string \<Rightarrow> string" where
  "fragmentContent idx key owner =
     fragmentMarker @ '' '' @ key @ '' owner='' @ owner @ newline
     @ ''If:'' @ newline @ ''  PathMatch: '' @ [CHR 0x22] @ ''Engine/.*'' @ [CHR 0x22] @ newline
     @ ''Index:'' @ newline @ ''  External:'' @ newline
     @ ''    File: '' @ [quote_char] @ replace_char quote_char [quote_char, quote_char] idx @ [quote_char] @ newline
     @ ''    MountPoint: Engine'' @ newline"

definition parseFragmentMarker :: "string \<Rightarrow> (string \<times> string) option" where
  "parseFragmentMarker content =
     (case str_cut newline content of (line, _, _) \<Rightarrow>
        let pre = fragmentMarker @ '' '' in
        if \<not> has_prefix line pre then None
        else case str_cut '' owner='' (trim_prefix line pre) of
            (key, ownerField, found) \<Rightarrow>
              if \<not> found then None else Some (trim_space key, trim_space ownerField))"

text \<open>Reading the fragment: its content, that there is none, or another error.\<close>

datatype fragment_read = FragmentText string | NoFragment | FragmentUnreadable

datatype fragment_error = HandAuthored | DifferentProject string string | ReadFragment | WriteTemporary | MoveFragment

record fragment_io =
  fo_denied :: bool
  fo_write :: file_write
  fo_rename :: bool
  fo_remove :: bool

definition read_fragment :: "fragment_io \<Rightarrow> string option \<Rightarrow> fragment_read" where
  "read_fragment ops existing =
     (if fo_denied ops then FragmentUnreadable
      else case existing of None \<Rightarrow> NoFragment | Some t \<Rightarrow> FragmentText t)"

definition fragment_conflict :: "fragment_read \<Rightarrow> string \<Rightarrow> string \<Rightarrow> fragment_error option" where
  "fragment_conflict r key owner =
     (case r of
        FragmentText t \<Rightarrow>
          (case parseFragmentMarker t of
             None \<Rightarrow> Some HandAuthored
           | Some (existingKey, existingOwner) \<Rightarrow>
               if existingKey \<noteq> key \<and> existingOwner \<noteq> owner then Some (DifferentProject existingOwner existingKey) else None)
      | NoFragment \<Rightarrow> None
      | FragmentUnreadable \<Rightarrow> Some ReadFragment)"

text \<open>The temporary beside the fragment, then the rename; only a failed rename removes the temporary.\<close>

definition WriteFragment :: "fragment_io \<Rightarrow> string \<Rightarrow> string \<Rightarrow> string \<Rightarrow> string \<Rightarrow> file_map \<Rightarrow> (fragment_error, unit) result \<times> file_map" where
  "WriteFragment ops engineRoot idx key owner fs =
     (let path = FragmentPath engineRoot; tmp = path @ ''.new'' in
      case fragment_conflict (read_fragment ops (fs path)) key owner of
        Some e \<Rightarrow> (Inl e, fs)
      | None \<Rightarrow>
          (case write_file (fo_write ops) tmp (fragmentContent idx key owner) fs of
             (False, fs') \<Rightarrow> (Inl WriteTemporary, fs')
           | (True, fs') \<Rightarrow>
               if fo_rename ops then (Inr (), fs'(path := fs' tmp, tmp := None))
               else (Inl MoveFragment, remove_file (fo_remove ops) tmp fs')))"

section \<open>The key identifies the inputs\<close>

lemma keyed_files_map:
  "keyed_files env es = Some ks \<longleftrightarrow>
   map (\<lambda>e. map_option (\<lambda>p. (to_lower (to_slash p), key_args e)) (go_abs env (ce_File e))) es = map Some ks"
proof (induction es arbitrary: ks)
  case (Cons e es)
  then show ?case by (cases ks) (auto split: option.split)
qed auto

lemma map_Some_mset:
  "map f vs = map Some rs \<Longrightarrow> mset vs' = mset vs \<Longrightarrow> \<exists>rs'. map f vs' = map Some rs' \<and> mset rs' = mset rs"
proof -
  assume m: "map f vs = map Some rs" and p: "mset vs' = mset vs"
  have "\<forall>v \<in> set vs'. \<exists>x. f v = Some x"
    using m mset_eq_setD[OF p] by (metis (no_types, lifting) image_iff list.set_map)
  then have e: "map f vs' = map Some (map (the \<circ> f) vs')"
    by auto
  have "map (the \<circ> f) vs = rs"
    using arg_cong[OF m, of "map the"] by simp
  then have "mset (map (the \<circ> f) vs') = mset rs"
    using p by (simp add: comp_def) (metis mset_map)
  with e show ?thesis by blast
qed

lemma key_preimage_mset: "mset ks' = mset ks \<Longrightarrow> key_preimage root ks' = key_preimage root ks"
  unfolding key_preimage_def by (metis properties_for_sort mset_sort sorted_sort)

text \<open>A text is cut uniquely at the first occurrence of a byte.\<close>

lemma cut_unique:
  "c \<notin> set xs \<Longrightarrow> c \<notin> set ys \<Longrightarrow> xs @ c # r = ys @ c # s \<longleftrightarrow> xs = ys \<and> r = s"
proof (induction xs arbitrary: ys)
  case Nil
  then show ?case by (cases ys) auto
next
  case (Cons x xs)
  then show ?case by (cases ys) auto
qed

definition separable :: "(string \<times> string) list \<Rightarrow> bool" where
  "separable ks \<longleftrightarrow> list_all (\<lambda>(file, args). CHR 0x00 \<notin> set file \<and> CHR 0x0A \<notin> set args) ks"

lemma key_lines_unique:
  "separable ks \<Longrightarrow> separable ks' \<Longrightarrow> concat (map key_line ks) = concat (map key_line ks') \<Longrightarrow> ks = ks'"
proof (induction ks arbitrary: ks')
  case Nil
  then show ?case by (cases ks') (auto simp: key_line_def)
next
  case (Cons k ks)
  then obtain k' rest where ks': "ks' = k' # rest" by (cases ks') (auto simp: key_line_def)
  have "fst k @ CHR 0x00 # (snd k @ CHR 0x0A # concat (map key_line ks)) =
      fst k' @ CHR 0x00 # (snd k' @ CHR 0x0A # concat (map key_line rest))"
    using Cons.prems(3) by (simp add: ks' key_line_def[of k] key_line_def[of k'])
  then have "fst k = fst k' \<and> snd k = snd k' \<and> concat (map key_line ks) = concat (map key_line rest)"
    using Cons.prems(1,2) by (auto simp: separable_def ks' cut_unique split_beta)
  then show ?case
    using Cons.IH[of rest] Cons.prems(1,2) by (auto simp: ks' separable_def prod_eq_iff)
qed

lemma key_preimage_unique:
  assumes "key_preimage root ks = key_preimage root' ks'" and "separable ks" and "separable ks'"
    and "CHR 0x00 \<notin> set (to_lower root)" and "CHR 0x00 \<notin> set (to_lower root')"
  shows "to_lower root = to_lower root' \<and> mset ks = mset ks'"
proof -
  have "to_lower root = to_lower root'" and lines: "concat (map key_line (sort ks)) = concat (map key_line (sort ks'))"
    using assms(1,4,5) by (auto simp: key_preimage_def to_slash_def cut_unique)
  moreover have "sort ks = sort ks'"
    using key_lines_unique[OF _ _ lines] assms(2,3) by (simp add: separable_def list_all_iff)
  then have "mset ks = mset ks'"
    by (metis mset_sort)
  ultimately show ?thesis by blast
qed

text \<open>
  The key of an engine's entries does not depend on their order, and what is hashed determines the
  engine root and the whole multiset of files with their arguments, up to case of the names, as long
  as no path holds a NUL and no argument a line break.
\<close>

theorem Key_identifies_entries:
  "(mset es' = mset es \<longrightarrow> index_Key env hash engineRoot es' = index_Key env hash engineRoot es) \<and>
   (key_preimage root ks = key_preimage root' ks' \<and> separable ks \<and> separable ks' \<and>
      CHR 0x00 \<notin> set (to_lower root) \<and> CHR 0x00 \<notin> set (to_lower root') \<longrightarrow>
    to_lower root = to_lower root' \<and> mset ks = mset ks')"
proof
  have half: "index_Key env hash engineRoot es' = Some k" if p: "mset es' = mset es" and k: "index_Key env hash engineRoot es = Some k"
    for es es' k
  proof -
    obtain r ks where r: "go_abs env engineRoot = Some r" "keyed_files env es = Some ks" "k = take 16 (hash (key_preimage r ks))"
      using k by (auto simp: index_Key_def split: option.split_asm)
    from map_Some_mset[OF r(2)[unfolded keyed_files_map] p] obtain ks' where
        ks': "keyed_files env es' = Some ks'" "mset ks' = mset ks"
      unfolding keyed_files_map[symmetric] by blast
    show ?thesis
      using r(1,3) ks'(1) key_preimage_mset[OF ks'(2), of r] by (simp add: index_Key_def)
  qed
  show "mset es' = mset es \<longrightarrow> index_Key env hash engineRoot es' = index_Key env hash engineRoot es"
    using half by (metis option.exhaust)
  show "key_preimage root ks = key_preimage root' ks' \<and> separable ks \<and> separable ks' \<and>
      CHR 0x00 \<notin> set (to_lower root) \<and> CHR 0x00 \<notin> set (to_lower root') \<longrightarrow>
    to_lower root = to_lower root' \<and> mset ks = mset ks'"
    using key_preimage_unique by blast
qed

theorem Key_identifies_entries_witness:
  "mset [(''/e/a.c'', ''x''), (''/e/b.c'', ''y'')] = mset [(''/e/b.c'', ''y''), (''/e/a.c'', ''x'')] \<and>
   to_lower ''/E'' = to_lower ''/e''"
proof -
  have "key_preimage ''/E'' [(''/e/a.c'', ''x''), (''/e/b.c'', ''y'')] = key_preimage ''/e'' [(''/e/b.c'', ''y''), (''/e/a.c'', ''x'')]"
    "separable [(''/e/a.c'', ''x''), (''/e/b.c'', ''y'')]" "separable [(''/e/b.c'', ''y''), (''/e/a.c'', ''x'')]"
    "CHR 0x00 \<notin> set (to_lower ''/E'')" "CHR 0x00 \<notin> set (to_lower ''/e'')"
    by code_simp+
  then show ?thesis
    using Key_identifies_entries[of "[]" "[]" undefined undefined undefined "''/E''" "[(''/e/a.c'', ''x''), (''/e/b.c'', ''y'')]"
        "''/e''" "[(''/e/b.c'', ''y''), (''/e/a.c'', ''x'')]"] by blast
qed

section \<open>The index file\<close>

text \<open>
  The index a running clangd reads is replaced in one step or not at all.  A failed build changes
  at most the staging file and the log, and once past the destination directory it leaves no staging file
  unless its removal fails; a successful one puts exactly the indexer's nonempty output in place and
  its log beside it.
\<close>

theorem BuildIndex_atomic:
  assumes "logPath \<noteq> dest" and "logPath \<noteq> dest @ ''.new''"
  shows "case BuildIndex ops indexerPath staged dest logPath fs of
      (Inl e, fs') \<Rightarrow> (\<forall>f. f \<noteq> dest @ ''.new'' \<and> f \<noteq> logPath \<longrightarrow> fs' f = fs f) \<and>
        (fs' logPath = fs logPath \<or> fs' logPath = Some (fst (snd (xo_run ops indexerPath [''--executor=all-TUs'', staged])))) \<and>
        (if e \<in> {NoIndexerRunner, CreateIndexDestination} then fs' = fs else xo_remove ops \<longrightarrow> fs' (dest @ ''.new'') = None)
    | (Inr _, fs') \<Rightarrow> (\<exists>output errors. xo_run ops indexerPath [''--executor=all-TUs'', staged] = (output, errors, True) \<and>
        output \<noteq> '''' \<and> fs' = fs(logPath \<mapsto> errors, dest \<mapsto> output, dest @ ''.new'' := None))"
proof -
  obtain out errors ok where run: "xo_run ops indexerPath [''--executor=all-TUs'', staged] = (out, errors, ok)"
    by (cases "xo_run ops indexerPath [''--executor=all-TUs'', staged]")
  have moved: "(fs(dest @ ''.new'' \<mapsto> out, logPath \<mapsto> errors))(dest := Some out, dest @ ''.new'' := None) =
      fs(logPath \<mapsto> errors, dest \<mapsto> out, dest @ ''.new'' := None)"
    using assms by (auto simp: fun_eq_iff)
  show ?thesis
    using assms assms(2)[symmetric]
    unfolding BuildIndex_def run_indexer_def Let_def run prod.case
    by (simp add: moved remove_file_def)
qed

definition sample_index_io :: "bool \<Rightarrow> index_io" where
  "sample_index_io renamed =
     \<lparr>xo_runner = True, xo_mkdir = True, xo_create = True, xo_log = True, xo_run = (\<lambda>_ _. (''RIFF'', ''ok'', True)), xo_close = True,
      xo_stat = True, xo_rename = renamed, xo_remove = True\<rparr>"

theorem BuildIndex_atomic_witness:
  "(case BuildIndex (sample_index_io False) ''x'' ''c'' ''d'' ''l'' [''d'' \<mapsto> ''old''] of (r, fs') \<Rightarrow>
     r = Inl MoveIndex \<and> fs' ''d'' = Some ''old'' \<and> fs' ''d.new'' = None)"
proof -
  have r: "fst (BuildIndex (sample_index_io False) ''x'' ''c'' ''d'' ''l'' [''d'' \<mapsto> ''old'']) = Inl MoveIndex"
    by (simp add: BuildIndex_def run_indexer_def sample_index_io_def Let_def)
  have "''l'' \<noteq> ''d''" "''l'' \<noteq> ''d'' @ ''.new''" by simp_all
  from BuildIndex_atomic[OF this, where ops = "sample_index_io False" and indexerPath = "''x''" and staged = "''c''" and fs = "[''d'' \<mapsto> ''old'']"] r show ?thesis
    by (cases "BuildIndex (sample_index_io False) ''x'' ''c'' ''d'' ''l'' [''d'' \<mapsto> ''old'']")
      (auto simp: sample_index_io_def)
qed

section \<open>Ownership of the fragment\<close>

text \<open>What a key (hex digits) and an owner look like on the marker line.\<close>

definition marker_safe :: "string \<Rightarrow> bool" where
  "marker_safe s \<longleftrightarrow> CHR 0x0A \<notin> set s \<and> trim_space s = s"

lemma str_cut_space:
  "CHR '' '' \<notin> set key \<Longrightarrow> str_cut ('' '' @ m) (key @ '' '' @ m @ r) = (key, r, True)"
  using str_cut_found[of "CHR '' ''" key m r] by simp

lemma parse_fragmentContent:
  assumes "marker_safe key" and "CHR '' '' \<notin> set key" and "marker_safe owner"
  shows "parseFragmentMarker (fragmentContent idx key owner) = Some (key, owner)"
proof -
  let ?line = "fragmentMarker @ '' '' @ key @ '' owner='' @ owner"
  have nl: "CHR 0x0A \<notin> set ?line"
    using assms by (simp add: marker_safe_def fragmentMarker_def)
  obtain rest where c: "fragmentContent idx key owner = ?line @ newline @ rest"
    by (simp add: fragmentContent_def)
  have "str_cut newline (fragmentContent idx key owner) = (?line, rest, True)"
    using str_cut_found[OF nl, of "[]" rest] by (simp add: c)
  moreover have "str_cut '' owner='' (key @ '' owner='' @ owner) = (key, owner, True)"
    using str_cut_space[OF assms(2), of "''owner=''" owner] by simp
  moreover have "has_prefix ?line (fragmentMarker @ '' '')" "trim_prefix ?line (fragmentMarker @ '' '') = key @ '' owner='' @ owner"
    using trim_prefix_append[of "fragmentMarker @ '' ''" "key @ '' owner='' @ owner"] by (simp_all add: has_prefix_def)
  ultimately show ?thesis
    using assms by (simp add: parseFragmentMarker_def Let_def marker_safe_def del: append_assoc append.simps)
qed

text \<open>How a write of the fragment ends.\<close>

lemma WriteFragment_cases:
  assumes "WriteFragment ops engineRoot idx key owner fs = (r, fs')"
  shows "case r of
      Inl e \<Rightarrow> (\<forall>f. f \<noteq> FragmentPath engineRoot @ ''.new'' \<longrightarrow> fs' f = fs f) \<and>
        (e \<notin> {WriteTemporary, MoveFragment} \<or> fo_write ops = FileRefused \<longrightarrow> fs' = fs) \<and>
        (e = MoveFragment \<and> fo_remove ops \<longrightarrow> fs' (FragmentPath engineRoot @ ''.new'') = None)
    | Inr _ \<Rightarrow> fragment_conflict (read_fragment ops (fs (FragmentPath engineRoot))) key owner = None \<and>
        fs' = fs(FragmentPath engineRoot \<mapsto> fragmentContent idx key owner, FragmentPath engineRoot @ ''.new'' := None)"
proof (cases "fragment_conflict (read_fragment ops (fs (FragmentPath engineRoot))) key owner")
  case None
  let ?path = "FragmentPath engineRoot" and ?tmp = "FragmentPath engineRoot @ ''.new''" and ?t = "fragmentContent idx key owner"
  have "(fs(?tmp \<mapsto> ?t))(?path \<mapsto> ?t, ?tmp := None) = fs(?path \<mapsto> ?t, ?tmp := None)" by (simp add: fun_eq_iff)
  with assms None show ?thesis
    by (cases "fo_write ops"; cases "fo_rename ops")
      (auto simp: WriteFragment_def Let_def write_file_def remove_file_def)
next
  case (Some e)
  then have "e \<notin> {WriteTemporary, MoveFragment}"
    by (auto simp: fragment_conflict_def split: fragment_read.split_asm option.split_asm prod.split_asm if_split_asm)
  with Some assms show ?thesis by (auto simp: WriteFragment_def Let_def)
qed

text \<open>
  The shared fragment has one owner: a write either fails and leaves it as it was, or replaces a
  missing fragment or one this program generated for the same key or by the same owner; a hand-written
  file is never touched.  After a write the owner can always refresh it, even with another key, while
  another project with another key is refused and changes no file at all.
\<close>

theorem WriteFragment_respects_owner:
  assumes "WriteFragment ops engineRoot idx key owner fs = (r, fs')"
  shows "(case r of
      Inl _ \<Rightarrow> fs' (FragmentPath engineRoot) = fs (FragmentPath engineRoot)
    | Inr _ \<Rightarrow> fs' (FragmentPath engineRoot) = Some (fragmentContent idx key owner) \<and>
        (\<forall>t. fs (FragmentPath engineRoot) = Some t \<longrightarrow> (\<exists>k o1. parseFragmentMarker t = Some (k, o1) \<and> (k = key \<or> o1 = owner)))) \<and>
    (is_ok r \<and> marker_safe key \<and> CHR '' '' \<notin> set key \<and> marker_safe owner \<longrightarrow>
      (\<forall>ops' key'. \<not> fo_denied ops' \<longrightarrow> fragment_conflict (read_fragment ops' (fs' (FragmentPath engineRoot))) key' owner = None) \<and>
      (\<forall>ops' idx' key' owner'. key' \<noteq> key \<and> owner' \<noteq> owner \<longrightarrow>
         snd (WriteFragment ops' engineRoot idx' key' owner' fs') = fs' \<and>
         \<not> is_ok (fst (WriteFragment ops' engineRoot idx' key' owner' fs'))))"
proof -
  note cases = WriteFragment_cases[OF assms]
  have own: "fs' (FragmentPath engineRoot) = Some (fragmentContent idx key owner)" if "is_ok r"
    using cases that by (auto split: sum.split_asm)
  have "\<exists>k o1. parseFragmentMarker t = Some (k, o1) \<and> (k = key \<or> o1 = owner)"
    if "is_ok r" "fs (FragmentPath engineRoot) = Some t" for t
    using cases that
    by (auto simp: fragment_conflict_def read_fragment_def split: sum.split_asm option.split_asm if_split_asm prod.split_asm)
  moreover have "fragment_conflict (read_fragment ops' (fs' (FragmentPath engineRoot))) key' owner = None"
    if "is_ok r" "marker_safe key" "CHR '' '' \<notin> set key" "marker_safe owner" "\<not> fo_denied ops'" for ops' key'
    using that(5) by (simp add: own[OF that(1)] read_fragment_def fragment_conflict_def parse_fragmentContent[OF that(2-4)])
  moreover have "snd (WriteFragment ops' engineRoot idx' key' owner' fs') = fs' \<and>
      \<not> is_ok (fst (WriteFragment ops' engineRoot idx' key' owner' fs'))"
    if "is_ok r" "marker_safe key" "CHR '' '' \<notin> set key" "marker_safe owner" "key' \<noteq> key" "owner' \<noteq> owner"
    for ops' key' owner' idx'
    using that(5,6)
    by (auto simp: own[OF that(1)] WriteFragment_def Let_def read_fragment_def fragment_conflict_def parse_fragmentContent[OF that(2-4)])
  moreover have "(case r of
      Inl _ \<Rightarrow> fs' (FragmentPath engineRoot) = fs (FragmentPath engineRoot)
    | Inr _ \<Rightarrow> fs' (FragmentPath engineRoot) = Some (fragmentContent idx key owner) \<and>
        (\<forall>t. fs (FragmentPath engineRoot) = Some t \<longrightarrow> (\<exists>k o1. parseFragmentMarker t = Some (k, o1) \<and> (k = key \<or> o1 = owner))))"
    using cases own calculation(1) by (cases r) auto
  ultimately show ?thesis by blast
qed

theorem WriteFragment_respects_owner_witness:
  "snd (WriteFragment \<lparr>fo_denied = False, fo_write = FileWritten, fo_rename = True, fo_remove = True\<rparr> ''/e'' ''/y'' ''cd'' ''Q''
     [''/e/.clangd'' \<mapsto> fragmentContent ''/x'' ''ab'' ''P'']) ''/e/.clangd'' = Some (fragmentContent ''/x'' ''ab'' ''P'')"
proof -
  let ?ops = "\<lparr>fo_denied = False, fo_write = FileWritten, fo_rename = True, fo_remove = True\<rparr>"
  have path: "FragmentPath ''/e'' = ''/e/.clangd''" by code_simp
  have w: "WriteFragment ?ops ''/e'' ''/x'' ''ab'' ''P'' Map.empty = (Inr (), [''/e/.clangd'' \<mapsto> fragmentContent ''/x'' ''ab'' ''P''])"
    by (simp add: WriteFragment_def path read_fragment_def fragment_conflict_def write_file_def Let_def fun_eq_iff)
  have "marker_safe ''ab''" "CHR '' '' \<notin> set ''ab''" "marker_safe ''P''" by code_simp+
  with WriteFragment_respects_owner[OF w] have
      "snd (WriteFragment ?ops ''/e'' ''/y'' ''cd'' ''Q'' [''/e/.clangd'' \<mapsto> fragmentContent ''/x'' ''ab'' ''P'']) =
        [''/e/.clangd'' \<mapsto> fragmentContent ''/x'' ''ab'' ''P'']"
    by simp
  then show ?thesis by simp
qed

text \<open>A write of the temporary that stops halfway leaves it beside the fragment: nothing removes it.\<close>

lemma torn_temporary_stays:
  assumes "fragment_conflict (read_fragment ops (fs (FragmentPath engineRoot))) key owner = None" and "fo_write ops = FileTorn n"
  shows "WriteFragment ops engineRoot idx key owner fs =
    (Inl WriteTemporary, fs(FragmentPath engineRoot @ ''.new'' \<mapsto> take n (fragmentContent idx key owner)))"
  using assms by (simp add: WriteFragment_def Let_def write_file_def)

end
