(* ===== verification/Daemon.thy ===== *)
theory Daemon
  imports Bufio Registry
begin

text \<open>
  The daemon's control plane (\<^verbatim>\<open>internal/daemon\<close>): the endpoint names, the one-line protocol with its
  server handler and its clients, and the start of a daemon by clients that may race.  Errors are
  their texts.  A connection is what answers the bytes written to it; the accept loop of the server
  is the theory after this one.
\<close>

section \<open>Endpoints\<close>

text \<open>
  \<^verbatim>\<open>runtime.GOOS\<close>, the current user's name and home, the cache directory and the directory for temporary files, as
  the operating system gives them.
\<close>

record user_env =
  ue_goos :: string
  ue_user :: "(string \<times> string) option"
  ue_cache :: "string option"
  ue_temp :: string

definition stableUserTag :: "(string \<Rightarrow> string) \<Rightarrow> string \<Rightarrow> string \<Rightarrow> string \<Rightarrow> string" where
  "stableUserTag hash goos username home =
     take 12 (hash (to_lower (trim_space username) @ ''|'' @ to_lower (trim_space home) @ ''|'' @ goos))"

definition defaultPipeBase :: "(string \<Rightarrow> string) \<Rightarrow> string \<Rightarrow> string \<Rightarrow> string \<Rightarrow> string" where
  "defaultPipeBase hash goos username home = ''soft-ue-index-daemon-'' @ stableUserTag hash goos username home"

definition pipePath :: "(string \<Rightarrow> string) \<Rightarrow> string \<Rightarrow> string \<Rightarrow> string \<Rightarrow> string" where
  "pipePath hash goos username home =
     [bslash, bslash, CHR ''.'', bslash] @ ''pipe'' @ [bslash] @ defaultPipeBase hash goos username home"

definition DefaultPipePath :: "(string \<Rightarrow> string) \<Rightarrow> user_env \<Rightarrow> string option" where
  "DefaultPipePath hash env = map_option (\<lambda>(username, home). pipePath hash (ue_goos env) username home) (ue_user env)"

definition defaultRoot :: "user_env \<Rightarrow> string" where
  "defaultRoot env =
     (case ue_cache env of
        Some cache \<Rightarrow> if cache \<noteq> '''' then cache else path_join2 (ue_temp env) ''soft-ue-index''
      | None \<Rightarrow> path_join2 (ue_temp env) ''soft-ue-index'')"

definition defaultLockBase :: "(string \<Rightarrow> string) \<Rightarrow> string \<Rightarrow> string \<Rightarrow> string \<Rightarrow> string" where
  "defaultLockBase hash goos username home = path_join [''soft-ue-index'', ''daemon'', stableUserTag hash goos username home]"

definition DefaultStartupLockPath :: "(string \<Rightarrow> string) \<Rightarrow> user_env \<Rightarrow> string option" where
  "DefaultStartupLockPath hash env =
     map_option (\<lambda>(username, home). path_join [defaultRoot env, defaultLockBase hash (ue_goos env) username home, ''startup.lock'']) (ue_user env)"

definition DefaultDaemonLockPath :: "(string \<Rightarrow> string) \<Rightarrow> user_env \<Rightarrow> string option" where
  "DefaultDaemonLockPath hash env =
     map_option (\<lambda>(username, home). path_join [defaultRoot env, defaultLockBase hash (ue_goos env) username home, ''daemon.lock'']) (ue_user env)"

section \<open>The protocol\<close>

definition controlPrefix :: string where
  "controlPrefix = ''mcp-control:''"

datatype ControlCommand = CmdMCP | CmdStatus | CmdStop

fun command_text :: "ControlCommand \<Rightarrow> string" where
  "command_text CmdMCP = ''mcp''"
| "command_text CmdStatus = ''status''"
| "command_text CmdStop = ''stop''"

definition commandFrame :: "ControlCommand \<Rightarrow> string" where
  "commandFrame command = controlPrefix @ command_text command"

definition maxControlLine :: nat where
  "maxControlLine = 256"

text \<open>
  \<^verbatim>\<open>readControlLine\<close>, byte by byte: the line with its newline and the bytes it leaves on the
  connection.  \<open>fault\<close> is the error of a read after the last byte.
\<close>

fun control_line :: "string \<Rightarrow> string \<Rightarrow> string \<Rightarrow> (string, string) result \<times> string" where
  "control_line fault line [] =
     (if length line < maxControlLine then (Inl fault, []) else (Inl ''daemon control response is too large'', []))"
| "control_line fault line (c # s) =
     (if length line < maxControlLine
      then if c = chr_nl then (Inr (line @ [c]), s) else control_line fault (line @ [c]) s
      else (Inl ''daemon control response is too large'', c # s))"

definition readControlLine :: "string \<Rightarrow> string \<Rightarrow> (string, string) result \<times> string" where
  "readControlLine fault s = control_line fault [] s"

text \<open>\<^verbatim>\<open>readLine\<close> through a buffered reader, which has no limit.\<close>

definition readLine :: "string \<Rightarrow> string \<Rightarrow> (string, string) result" where
  "readLine fault s =
     (if chr_nl \<in> set s then Inr (takeWhile (\<lambda>c. c \<noteq> chr_nl) s @ [chr_nl]) else Inl fault)"

section \<open>The server's handler\<close>

text \<open>The callbacks of a \<^verbatim>\<open>Server\<close> (\<open>None\<close> or \<open>False\<close> for nil) with what they return.\<close>

record server_hooks =
  OnStatus :: "(string, string) result option"
  OnStop :: "(string, unit) result option"
  OnMCP :: bool

text \<open>
  What a handler did: the line it wrote, whether it cancelled the server, and the stream it handed to
  the MCP callback.
\<close>

record handled =
  hd_reply :: string
  hd_cancelled :: bool
  hd_session :: "string option"

definition sendLine :: "string \<Rightarrow> string" where
  "sendLine line = line @ [chr_nl]"

definition daemon_sendError :: "string \<Rightarrow> string" where
  "daemon_sendError e = sendLine (''err: '' @ e)"

definition replied :: "string \<Rightarrow> handled" where
  "replied r = \<lparr>hd_reply = r, hd_cancelled = False, hd_session = None\<rparr>"

text \<open>\<^verbatim>\<open>handle\<close> on the bytes of one connection; \<open>sent\<close> tells whether writing the reply succeeds.\<close>

definition server_handle :: "server_hooks \<Rightarrow> bool \<Rightarrow> string \<Rightarrow> string \<Rightarrow> handled" where
  "server_handle hooks sent fault s =
     (case readControlLine fault s of
        (Inl e, rest) \<Rightarrow> replied (daemon_sendError e)
      | (Inr line, rest) \<Rightarrow>
          let command = trim_space (trim_prefix line controlPrefix) in
          if \<not> has_prefix line controlPrefix then replied (daemon_sendError ''invalid control preface'')
          else if command = command_text CmdStatus then
            (case OnStatus hooks of
               None \<Rightarrow> replied (sendLine ''ready'')
             | Some (Inl e) \<Rightarrow> replied (daemon_sendError e)
             | Some (Inr v) \<Rightarrow> replied (sendLine v))
          else if command = command_text CmdStop then
            (case OnStop hooks of
               Some (Inl e) \<Rightarrow> replied (daemon_sendError e)
             | _ \<Rightarrow> (replied (sendLine ''ok''))\<lparr>hd_cancelled := True\<rparr>)
          else if command = command_text CmdMCP then
            (if \<not> sent \<or> \<not> OnMCP hooks then replied (sendLine ''ok'')
             else (replied (sendLine ''ok''))\<lparr>hd_session := Some rest\<rparr>)
          else replied (daemon_sendError ''unknown control command''))"

section \<open>The clients\<close>

text \<open>
  A dialled connection: the error of a write, if any, the bytes that arrive in answer to the bytes
  written, and the error of a read after them.
\<close>

record connection =
  cn_write :: "string option"
  cn_answer :: "string \<Rightarrow> string"
  cn_fault :: string

type_synonym dialer = "string \<Rightarrow> (string, connection) result"

definition client_conn :: "dialer \<Rightarrow> string \<Rightarrow> (string, connection) result" where
  "client_conn dial path = (if path = '''' then Inl ''missing pipe path'' else dial path)"

definition client_control :: "dialer \<Rightarrow> string \<Rightarrow> ControlCommand \<Rightarrow> (string, string) result" where
  "client_control dial path command =
     (case client_conn dial path of
        Inl e \<Rightarrow> Inl e
      | Inr c \<Rightarrow>
          (case cn_write c of
             Some e \<Rightarrow> Inl e
           | None \<Rightarrow>
               (case readLine (cn_fault c) (cn_answer c (sendLine (commandFrame command))) of
                  Inl e \<Rightarrow> Inl e
                | Inr resp \<Rightarrow>
                    if has_prefix resp ''err:'' then Inl (trim_space (trim_prefix resp ''err:'')) else Inr resp)))"

definition client_Status :: "dialer \<Rightarrow> string \<Rightarrow> (string, string) result" where
  "client_Status dial path = map_sum id trim_space (client_control dial path CmdStatus)"

definition client_Stop :: "dialer \<Rightarrow> string \<Rightarrow> (string, unit) result" where
  "client_Stop dial path = map_sum id (\<lambda>_. ()) (client_control dial path CmdStop)"

text \<open>
  \<^verbatim>\<open>MCP\<close>: on success the connection stays open and what is left to read of it is the value; on every
  error it has been closed.
\<close>

definition client_MCP :: "dialer \<Rightarrow> string \<Rightarrow> (string, string) result" where
  "client_MCP dial path =
     (case client_conn dial path of
        Inl e \<Rightarrow> Inl e
      | Inr c \<Rightarrow>
          (case cn_write c of
             Some e \<Rightarrow> Inl e
           | None \<Rightarrow>
               (case readControlLine (cn_fault c) (cn_answer c (sendLine (commandFrame CmdMCP))) of
                  (Inl e, rest) \<Rightarrow> Inl e
                | (Inr line, rest) \<Rightarrow>
                    if trim_space line \<noteq> ''ok'' then Inl (''mcp control failed: '' @ trim_space line) else Inr rest)))"

section \<open>Line readers\<close>

text \<open>
  What both ends rely on: a reader returns the first line, with its newline, when the line fits, and
  whatever it returns is the first line.
\<close>

locale line_reader =
  fixes read :: "string \<Rightarrow> string \<Rightarrow> (string, string) result" and fits :: "string \<Rightarrow> bool"
  assumes read_line: "fits l \<Longrightarrow> chr_nl \<notin> set l \<Longrightarrow> read fault (l @ chr_nl # r) = Inr (l @ [chr_nl])"
    and read_Inr: "read fault s = Inr line \<Longrightarrow> \<exists>l r. line = l @ [chr_nl] \<and> fits l \<and> chr_nl \<notin> set l \<and> s = l @ chr_nl # r"
begin

lemma read_sent: "fits l \<Longrightarrow> chr_nl \<notin> set l \<Longrightarrow> read fault (sendLine l) = Inr (sendLine l)"
  using read_line[of l fault "[]"] by (simp add: sendLine_def)

lemma read_unique:
  assumes "read fault (l @ chr_nl # r) = Inr line" and "chr_nl \<notin> set l"
  shows "line = sendLine l"
proof -
  obtain m q where m: "line = m @ [chr_nl]" "chr_nl \<notin> set m" "l @ chr_nl # r = m @ chr_nl # q"
    using read_Inr[OF assms(1)] by blast
  have "takeWhile (\<lambda>c. c \<noteq> chr_nl) (l @ chr_nl # r) = l" "takeWhile (\<lambda>c. c \<noteq> chr_nl) (m @ chr_nl # q) = m"
    using assms(2) m(2) by (simp_all add: takeWhile_nl)
  with m show ?thesis by (simp add: sendLine_def)
qed

end

lemma control_line_fits:
  "length line + length l < maxControlLine \<Longrightarrow> chr_nl \<notin> set l \<Longrightarrow>
   control_line fault line (l @ chr_nl # r) = (Inr (line @ l @ [chr_nl]), r)"
  by (induction l arbitrary: line) auto

lemma control_line_Inr:
  "control_line fault line s = (Inr whole, rest) \<Longrightarrow>
   \<exists>l. whole = line @ l @ [chr_nl] \<and> length line + length l < maxControlLine \<and> chr_nl \<notin> set l \<and> s = l @ chr_nl # rest"
proof (induction fault line s rule: control_line.induct)
  case (2 fault line c s)
  show ?case
  proof (cases "c = chr_nl")
    case True
    with 2 show ?thesis by (auto split: if_split_asm intro!: exI[of _ "[]"])
  next
    case False
    with 2 obtain l where "whole = (line @ [c]) @ l @ [chr_nl]" "length (line @ [c]) + length l < maxControlLine"
        "chr_nl \<notin> set l" "s = l @ chr_nl # rest"
      by (auto split: if_split_asm)
    with False show ?thesis by (auto intro!: exI[of _ "c # l"])
  qed
qed (auto split: if_split_asm)

interpretation control_reader: line_reader "\<lambda>fault s. fst (readControlLine fault s)" "\<lambda>l. length l < maxControlLine"
proof
  show "length l < maxControlLine \<Longrightarrow> chr_nl \<notin> set l \<Longrightarrow> fst (readControlLine fault (l @ chr_nl # r)) = Inr (l @ [chr_nl])"
    for l fault r
    by (simp add: readControlLine_def control_line_fits)
  show "fst (readControlLine fault s) = Inr line \<Longrightarrow>
      \<exists>l r. line = l @ [chr_nl] \<and> length l < maxControlLine \<and> chr_nl \<notin> set l \<and> s = l @ chr_nl # r" for fault s line
    using control_line_Inr[of fault "[]" s line] by (cases "readControlLine fault s") (fastforce simp: readControlLine_def)
qed

interpretation buffered_reader: line_reader readLine "\<lambda>_. True"
proof
  show "chr_nl \<notin> set l \<Longrightarrow> readLine fault (l @ chr_nl # r) = Inr (l @ [chr_nl])" for l fault r
    by (simp add: readLine_def takeWhile_nl)
  show "\<exists>l r. line = l @ [chr_nl] \<and> True \<and> chr_nl \<notin> set l \<and> s = l @ chr_nl # r" if r: "readLine fault s = Inr line"
    for fault s line
  proof -
    from r have "chr_nl \<in> set s" by (simp add: readLine_def split: if_split_asm)
    then obtain l q where "s = l @ chr_nl # q" "chr_nl \<notin> set l" by (metis split_list_first)
    with r show ?thesis by (auto simp: readLine_def takeWhile_nl)
  qed
qed

section \<open>A client talking to the server\<close>

text \<open>The connection to a server with these hooks, and what its handler does to a client's request.\<close>

definition served :: "server_hooks \<Rightarrow> string \<Rightarrow> ControlCommand \<Rightarrow> handled" where
  "served hooks fault command = server_handle hooks True fault (sendLine (commandFrame command))"

definition daemon_connection :: "server_hooks \<Rightarrow> string \<Rightarrow> connection" where
  "daemon_connection hooks fault =
     \<lparr>cn_write = None, cn_answer = (\<lambda>sent. hd_reply (server_handle hooks True fault sent)), cn_fault = fault\<rparr>"

definition to_daemon :: "server_hooks \<Rightarrow> string \<Rightarrow> dialer" where
  "to_daemon hooks fault path = Inr (daemon_connection hooks fault)"

definition first_line :: "string \<Rightarrow> string" where
  "first_line s = takeWhile (\<lambda>c. c \<noteq> chr_nl) s"

lemma readControlLine_frame:
  "readControlLine fault (sendLine (commandFrame command) @ r) = (Inr (sendLine (commandFrame command)), r)"
proof -
  have "length (commandFrame command) < maxControlLine" "chr_nl \<notin> set (commandFrame command)"
    by (cases command; simp add: commandFrame_def controlPrefix_def maxControlLine_def)+
  then show ?thesis
    using control_line_fits[of "[]" "commandFrame command" fault r] by (simp add: readControlLine_def sendLine_def)
qed

lemma trim_space_nl: "trim_space (s @ [chr_nl]) = trim_space s"
proof (cases "dropWhile is_space s = []")
  case True
  then have "list_all is_space s" by (simp add: list_all_iff)
  then have "dropWhile is_space (s @ [chr_nl]) = []" by (auto simp: list_all_iff is_space_def byte_def)
  then show ?thesis by (simp only: trim_space_def trim_left_def True)
next
  case False
  then obtain x where "x \<in> set s" "\<not> is_space x" by (auto simp: dropWhile_eq_Nil_conv)
  then have "dropWhile is_space (s @ [chr_nl]) = dropWhile is_space s @ [chr_nl]"
    by (simp add: dropWhile_append1)
  then show ?thesis by (simp add: trim_space_def trim_left_def trim_right_def is_space_def byte_def)
qed

lemma command_of_frame:
  "has_prefix (sendLine (commandFrame command)) controlPrefix"
  "trim_space (trim_prefix (sendLine (commandFrame command)) controlPrefix) = command_text command"
proof -
  show "has_prefix (sendLine (commandFrame command)) controlPrefix"
    by (simp add: has_prefix_def sendLine_def commandFrame_def)
  have "trim_space (command_text command @ [chr_nl]) = command_text command"
    unfolding trim_space_nl by (rule trim_space_no_space) (cases command; simp add: is_space_def byte_def)
  then show "trim_space (trim_prefix (sendLine (commandFrame command)) controlPrefix) = command_text command"
    by (simp add: sendLine_def commandFrame_def)
qed

lemma server_handle_frame:
  "server_handle hooks sent fault (sendLine (commandFrame command) @ r) =
     (case command of
        CmdStatus \<Rightarrow> (case OnStatus hooks of None \<Rightarrow> replied (sendLine ''ready'')
          | Some (Inl e) \<Rightarrow> replied (daemon_sendError e) | Some (Inr v) \<Rightarrow> replied (sendLine v))
      | CmdStop \<Rightarrow> (case OnStop hooks of Some (Inl e) \<Rightarrow> replied (daemon_sendError e)
          | _ \<Rightarrow> (replied (sendLine ''ok''))\<lparr>hd_cancelled := True\<rparr>)
      | CmdMCP \<Rightarrow> (if \<not> sent \<or> \<not> OnMCP hooks then replied (sendLine ''ok'')
          else (replied (sendLine ''ok''))\<lparr>hd_session := Some r\<rparr>))"
  unfolding server_handle_def readControlLine_frame
  by (cases command) (simp_all add: command_of_frame Let_def)

lemma first_line_no_nl: "chr_nl \<notin> set (first_line s)"
  by (auto simp: first_line_def dest: set_takeWhileD)

lemma readLine_sent: "readLine fault (sendLine s) = Inr (sendLine (first_line s))"
proof -
  have "takeWhile (\<lambda>c. c \<noteq> chr_nl) (s @ [chr_nl]) = first_line s"
    unfolding first_line_def by (induction s) auto
  then show ?thesis by (simp add: readLine_def sendLine_def)
qed

lemma trim_space_blank: "trim_space (CHR '' '' # s) = trim_space s"
  by (simp add: trim_space_def trim_left_def is_space_def byte_def)

lemma first_line_err: "has_prefix (first_line s) ''err:'' \<longleftrightarrow> has_prefix s ''err:''"
proof
  assume "has_prefix (first_line s) ''err:''"
  then show "has_prefix s ''err:''"
    by (metis first_line_def has_prefix_def prefix_order.trans takeWhile_is_prefix)
next
  assume "has_prefix s ''err:''"
  then obtain z where s: "s = ''err:'' @ z" by (auto simp: has_prefix_def prefix_def)
  have "first_line s = ''err:'' @ first_line z" by (simp add: s first_line_def)
  then show "has_prefix (first_line s) ''err:''" by (simp add: has_prefix_def)
qed

lemma first_line_error: "first_line (''err: '' @ e) = ''err:'' @ CHR '' '' # first_line e"
  by (simp add: first_line_def)

lemma err_prefix_nl: "has_prefix (l @ [chr_nl]) ''err:'' \<longleftrightarrow> has_prefix l ''err:''"
proof -
  have "''err:'' \<noteq> l @ [chr_nl]" by (cases l rule: rev_cases) (auto dest: arg_cong[where f = last])
  then show ?thesis by (simp add: has_prefix_def prefix_snoc)
qed

text \<open>What a client makes of a reply.\<close>

definition read_reply :: "string \<Rightarrow> (string, string) result" where
  "read_reply line = (if has_prefix line ''err:'' then Inl (trim_space (drop 4 (first_line line))) else Inr (trim_space (first_line line)))"

lemma read_reply_error: "read_reply (''err: '' @ e) = Inl (trim_space (first_line e))"
proof -
  have "has_prefix (''err: '' @ e) ''err:''" by (simp add: has_prefix_def)
  moreover have "drop 4 (first_line (''err: '' @ e)) = CHR '' '' # first_line e" unfolding first_line_error by simp
  ultimately show ?thesis by (simp only: read_reply_def trim_space_blank if_True)
qed

lemma read_reply_ok: "read_reply ''ok'' = Inr ''ok''" "read_reply ''ready'' = Inr ''ready''"
  by code_simp+

lemma client_control_reply:
  assumes "hd_reply (served hooks fault command) = sendLine w"
  shows "map_sum id trim_space (client_control (to_daemon hooks fault) (c # cs) command) = read_reply w"
proof -
  let ?l = "first_line w"
  have trimmed: "trim_space (trim_prefix (sendLine ?l) ''err:'') = trim_space (drop 4 ?l)" if p: "has_prefix ?l ''err:''"
  proof -
    have "4 \<le> length ?l" using prefix_length_le[of "''err:''" ?l] p by (simp add: has_prefix_def)
    moreover have "prefix ''err:'' (?l @ [chr_nl])" using p by (simp add: has_prefix_def)
    ultimately have "trim_prefix (sendLine ?l) ''err:'' = drop 4 ?l @ [chr_nl]" by (simp add: trim_prefix_def sendLine_def numeral_eq_Suc)
    then show ?thesis by (simp add: trim_space_nl)
  qed
  have "client_control (to_daemon hooks fault) (c # cs) command =
      (if has_prefix (sendLine ?l) ''err:'' then Inl (trim_space (trim_prefix (sendLine ?l) ''err:'')) else Inr (sendLine ?l))"
    using assms by (simp add: client_control_def client_conn_def to_daemon_def daemon_connection_def served_def readLine_sent)
  then show ?thesis
    using trimmed by (simp add: read_reply_def sendLine_def err_prefix_nl first_line_err trim_space_nl)
qed

text \<open>
  C34. A client and the server understand each other: the status a client reports is the first line of
  the server's, an error of a callback comes back as that error, and stopping the server cancels it
  exactly when the client is told so; a session opened with the MCP command hands the server exactly
  the bytes after the request and the client exactly the bytes after the acknowledgement.
\<close>

theorem control_exchange:
  "client_Status (to_daemon hooks fault) (c # cs) =
      (case OnStatus hooks of None \<Rightarrow> Inr ''ready'' | Some (Inl e) \<Rightarrow> Inl (trim_space (first_line e)) | Some (Inr v) \<Rightarrow> read_reply v) \<and>
    client_Stop (to_daemon hooks fault) (c # cs) = (case OnStop hooks of Some (Inl e) \<Rightarrow> Inl (trim_space (first_line e)) | _ \<Rightarrow> Inr ()) \<and>
    (hd_cancelled (served hooks fault command) \<longleftrightarrow> command = CmdStop \<and> is_ok (client_Stop (to_daemon hooks fault) (c # cs))) \<and>
    hd_session (server_handle hooks True fault (sendLine (commandFrame CmdMCP) @ x)) = (if OnMCP hooks then Some x else None) \<and>
    client_MCP (\<lambda>_. Inr \<lparr>cn_write = None, cn_answer = (\<lambda>sent. hd_reply (server_handle hooks True fault sent) @ y), cn_fault = fault\<rparr>)
      (c # cs) = Inr y"
proof -
  note frame = server_handle_frame[of hooks True fault _ "[]", simplified]
  have status: "client_Status (to_daemon hooks fault) (c # cs) =
      (case OnStatus hooks of None \<Rightarrow> Inr ''ready'' | Some (Inl e) \<Rightarrow> Inl (trim_space (first_line e)) | Some (Inr v) \<Rightarrow> read_reply v)"
    unfolding client_Status_def
    using client_control_reply[of hooks fault CmdStatus "case OnStatus hooks of None \<Rightarrow> ''ready'' | Some (Inl e) \<Rightarrow> ''err: '' @ e | Some (Inr v) \<Rightarrow> v" c cs]
    by (simp add: served_def frame replied_def daemon_sendError_def read_reply_ok read_reply_error[simplified] split: option.split sum.split)
  have "map_sum id trim_space (client_control (to_daemon hooks fault) (c # cs) CmdStop) =
      (case OnStop hooks of Some (Inl e) \<Rightarrow> Inl (trim_space (first_line e)) | _ \<Rightarrow> Inr ''ok'')"
    using client_control_reply[of hooks fault CmdStop "case OnStop hooks of Some (Inl e) \<Rightarrow> ''err: '' @ e | _ \<Rightarrow> ''ok''" c cs]
    by (simp add: served_def frame replied_def daemon_sendError_def read_reply_ok read_reply_error[simplified] split: option.split sum.split)
  then have stop: "client_Stop (to_daemon hooks fault) (c # cs) = (case OnStop hooks of Some (Inl e) \<Rightarrow> Inl (trim_space (first_line e)) | _ \<Rightarrow> Inr ())"
    by (auto simp: client_Stop_def map_sum_def split: option.split sum.split_asm sum.split)
  have cancelled: "hd_cancelled (served hooks fault command) \<longleftrightarrow> command = CmdStop \<and> is_ok (client_Stop (to_daemon hooks fault) (c # cs))"
    unfolding stop by (simp add: served_def frame replied_def split: ControlCommand.split option.split sum.split)
  have session: "hd_session (server_handle hooks True fault (sendLine (commandFrame CmdMCP) @ x)) = (if OnMCP hooks then Some x else None)"
    by (simp add: server_handle_frame replied_def)
  have "hd_reply (server_handle hooks True fault (sendLine (commandFrame CmdMCP))) = sendLine ''ok''"
    by (simp add: frame replied_def)
  moreover have "readControlLine fault (sendLine ''ok'' @ y) = (Inr (sendLine ''ok''), y)"
    using control_line_fits[of "[]" "''ok''" fault y] by (simp add: readControlLine_def sendLine_def maxControlLine_def)
  moreover have "trim_space (sendLine ''ok'') = ''ok''" by code_simp
  ultimately have "client_MCP (\<lambda>_. Inr \<lparr>cn_write = None, cn_answer = (\<lambda>sent. hd_reply (server_handle hooks True fault sent) @ y),
      cn_fault = fault\<rparr>) (c # cs) = Inr y"
    by (simp add: client_MCP_def client_conn_def)
  with status stop cancelled session show ?thesis by blast
qed

section \<open>The handler obeys its request\<close>

lemma prefix_nl: "chr_nl \<notin> set p \<Longrightarrow> has_prefix (l @ [chr_nl]) p \<longleftrightarrow> has_prefix l p"
  by (auto simp: has_prefix_def prefix_snoc)

lemma command_of_line:
  assumes "has_prefix l controlPrefix"
  shows "trim_space (trim_prefix (l @ [chr_nl]) controlPrefix) = trim_space (trim_prefix l controlPrefix)"
proof -
  obtain x where "l = controlPrefix @ x" using assms by (auto simp: has_prefix_def prefix_def)
  then show ?thesis by (simp add: trim_space_nl)
qed

lemma readControlLine_Inr:
  "readControlLine fault s = (Inr whole, rest) \<Longrightarrow>
   \<exists>l. whole = l @ [chr_nl] \<and> length l < maxControlLine \<and> chr_nl \<notin> set l \<and> s = l @ chr_nl # rest"
  using control_line_Inr[of fault "[]" s whole rest] by (simp add: readControlLine_def)

lemma server_handle_line:
  assumes "readControlLine fault s = (Inr (l @ [chr_nl]), rest)"
  shows "server_handle hooks sent fault s =
    (if \<not> has_prefix l controlPrefix then replied (daemon_sendError ''invalid control preface'')
     else if trim_space (trim_prefix l controlPrefix) = ''status'' then
       (case OnStatus hooks of None \<Rightarrow> replied (sendLine ''ready'')
        | Some (Inl e) \<Rightarrow> replied (daemon_sendError e) | Some (Inr v) \<Rightarrow> replied (sendLine v))
     else if trim_space (trim_prefix l controlPrefix) = ''stop'' then
       (case OnStop hooks of Some (Inl e) \<Rightarrow> replied (daemon_sendError e) | _ \<Rightarrow> (replied (sendLine ''ok''))\<lparr>hd_cancelled := True\<rparr>)
     else if trim_space (trim_prefix l controlPrefix) = ''mcp'' then
       (if \<not> sent \<or> \<not> OnMCP hooks then replied (sendLine ''ok'') else (replied (sendLine ''ok''))\<lparr>hd_session := Some rest\<rparr>)
     else replied (daemon_sendError ''unknown control command''))"
proof -
  have "has_prefix (l @ [chr_nl]) controlPrefix \<longleftrightarrow> has_prefix l controlPrefix"
    by (rule prefix_nl) (simp add: controlPrefix_def)
  then show ?thesis
    unfolding server_handle_def assms by (auto simp: Let_def command_of_line)
qed

definition requests :: "ControlCommand \<Rightarrow> string \<Rightarrow> string \<Rightarrow> bool" where
  "requests command s rest \<longleftrightarrow>
     (\<exists>l. s = l @ chr_nl # rest \<and> chr_nl \<notin> set l \<and> length l < 256 \<and> has_prefix l controlPrefix \<and>
       trim_space (trim_prefix l controlPrefix) = command_text command)"

text \<open>
  Only a well-formed request line of fewer than 256 bytes makes the server act: a session is
  handed over only for the MCP command and then with exactly the bytes after its line, the server is
  stopped only for the stop command when its callback agrees, both are acknowledged, and a peer that
  sends no line in its first 256 bytes gets an error and nothing else.
\<close>

theorem handler_obeys_request:
  "(hd_session (server_handle hooks sent fault s) = Some rest \<longrightarrow>
      requests CmdMCP s rest \<and> sent \<and> OnMCP hooks \<and> hd_reply (server_handle hooks sent fault s) = sendLine ''ok'') \<and>
   (hd_cancelled (server_handle hooks sent fault s) \<longrightarrow>
      (\<exists>rest. requests CmdStop s rest) \<and> (\<forall>e. OnStop hooks \<noteq> Some (Inl e)) \<and>
      hd_reply (server_handle hooks sent fault s) = sendLine ''ok'') \<and>
   (chr_nl \<notin> set (take 256 s) \<longrightarrow> (\<exists>e. server_handle hooks sent fault s = replied (daemon_sendError e)))"
proof (cases "readControlLine fault s")
  case (Pair r left)
  show ?thesis
  proof (cases r)
    case (Inl e)
    then have "server_handle hooks sent fault s = replied (daemon_sendError e)"
      by (simp add: server_handle_def Pair)
    then show ?thesis by (auto simp: replied_def)
  next
    case (Inr whole)
    then obtain l where l: "whole = l @ [chr_nl]" "length l < maxControlLine" "chr_nl \<notin> set l" "s = l @ chr_nl # left"
      using readControlLine_Inr[of fault s whole left] Pair by blast
    have "chr_nl \<in> set (take 256 s)"
      using l(2) by (simp add: l(4) maxControlLine_def take_Cons')
    moreover note h = server_handle_line[of fault s l left hooks sent] Pair[unfolded Inr l(1)]
    have "hd_session (server_handle hooks sent fault s) = Some rest \<longrightarrow>
      requests CmdMCP s rest \<and> sent \<and> OnMCP hooks \<and> hd_reply (server_handle hooks sent fault s) = sendLine ''ok''"
      using l h by (auto simp: replied_def requests_def maxControlLine_def split: if_split_asm option.split_asm sum.split_asm)
    moreover have "hd_cancelled (server_handle hooks sent fault s) \<longrightarrow>
      (\<exists>rest. requests CmdStop s rest) \<and> (\<forall>e. OnStop hooks \<noteq> Some (Inl e)) \<and>
      hd_reply (server_handle hooks sent fault s) = sendLine ''ok''"
      using l h by (auto simp: replied_def requests_def maxControlLine_def split: if_split_asm option.split_asm sum.split_asm)
    ultimately show ?thesis by blast
  qed
qed

theorem handler_obeys_request_witness:
  "requests CmdMCP (''mcp-control: mcp'' @ [chr_nl] @ ''{}'') ''{}'' \<and>
   requests CmdStop (''mcp-control:stop'' @ [chr_nl]) ''''"
proof -
  let ?hooks = "\<lparr>OnStatus = None, OnStop = None, OnMCP = True\<rparr>"
  have "hd_session (server_handle ?hooks True '''' (''mcp-control: mcp'' @ [chr_nl] @ ''{}'')) = Some ''{}''"
    "hd_cancelled (server_handle ?hooks True '''' (''mcp-control:stop'' @ [chr_nl]))"
    by code_simp+
  moreover have "requests CmdStop (''mcp-control:stop'' @ [chr_nl]) rest \<Longrightarrow> rest = ''''" for rest
    by (auto simp: requests_def append_eq_append_conv2 append_eq_Cons_conv Cons_eq_append_conv)
  ultimately show ?thesis
    using handler_obeys_request[of ?hooks True "''''" "''mcp-control: mcp'' @ [chr_nl] @ ''{}''" "''{}''"]
      handler_obeys_request[of ?hooks True "''''" "''mcp-control:stop'' @ [chr_nl]" "''''"] by metis
qed

end
