(* ===== verification/DaemonStart.thy ===== *)
theory DaemonStart
  imports Daemon
begin

text \<open>
  Starting a daemon on demand (\<^verbatim>\<open>EnsureRunning\<close> and its configuration): one caller as a function of
  what its status calls, the start-up lock, the clock and the start callback do, and any number of
  callers racing as a step relation.  Times are nanoseconds.
\<close>

section \<open>One caller\<close>

definition defaultPollWindow :: int where
  "defaultPollWindow = 5000000000"

record run_config =
  rc_has_start :: bool
  rc_dialer :: dialer
  rc_PipePath :: string
  rc_StartupLockPath :: string
  rc_Timeout :: int

text \<open>A \<^verbatim>\<open>Client\<close>: its timeout and endpoint.\<close>

record client =
  cl_Timeout :: int
  cl_PipePath :: string
  cl_Dialer :: dialer

definition normalize_config :: "run_config \<Rightarrow> run_config" where
  "normalize_config cfg = (if rc_Timeout cfg \<le> 0 then cfg\<lparr>rc_Timeout := defaultPollWindow\<rparr> else cfg)"

definition effectivePipePath :: "(string \<Rightarrow> string) \<Rightarrow> user_env \<Rightarrow> run_config \<Rightarrow> string option" where
  "effectivePipePath hash env cfg = (if rc_PipePath cfg \<noteq> '''' then Some (rc_PipePath cfg) else DefaultPipePath hash env)"

definition config_client :: "(string \<Rightarrow> string) \<Rightarrow> user_env \<Rightarrow> run_config \<Rightarrow> client option" where
  "config_client hash env cfg =
     map_option (\<lambda>path. \<lparr>cl_Timeout = (if rc_Timeout cfg \<le> 0 then 2000000000 else rc_Timeout cfg), cl_PipePath = path,
       cl_Dialer = rc_dialer cfg\<rparr>) (effectivePipePath hash env cfg)"

definition config_lock_path :: "(string \<Rightarrow> string) \<Rightarrow> user_env \<Rightarrow> run_config \<Rightarrow> string option" where
  "config_lock_path hash env cfg =
     (if rc_StartupLockPath cfg \<noteq> '''' then Some (rc_StartupLockPath cfg) else DefaultStartupLockPath hash env)"

definition config_timeout :: "run_config \<Rightarrow> int" where
  "config_timeout cfg = (if rc_Timeout cfg \<le> 0 then defaultPollWindow else rc_Timeout cfg)"

text \<open>The deadline a control call puts on its connection.\<close>

definition controlDeadline :: "int \<Rightarrow> int option \<Rightarrow> int \<Rightarrow> int" where
  "controlDeadline timeout ctx_deadline now =
     (let deadline = (if timeout \<le> 0 then now + 2000000000 else now + timeout) in
      case ctx_deadline of Some d \<Rightarrow> if d < deadline then d else deadline | None \<Rightarrow> deadline)"

definition minDuration :: "int \<Rightarrow> int \<Rightarrow> int" where
  "minDuration a b = (if a < b then a else b)"

text \<open>
  What one call meets: whether its first status call, the one under the lock and the \<open>k\<close>-th poll (with
  the time it is given) are answered, the outcome of taking the lock at a path, the error of the start
  callback, and the clock when the deadline is set and before each poll.
\<close>

record ensure_world =
  ew_first :: bool
  ew_second :: bool
  ew_lock :: "string \<Rightarrow> file_lock_error + bool"
  ew_start :: "string option"
  ew_begin :: int
  ew_now :: "nat \<Rightarrow> int"
  ew_poll :: "nat \<Rightarrow> int \<Rightarrow> bool"

datatype ensure_error =
    NoCurrentUser | MissingStart | StartupLockError file_lock_error | StartFailed string
  | WaitingTimedOut | NotReady

text \<open>The polling loop; \<open>None\<close> would be that it never returns.  The value has the number of polls.\<close>

partial_function (option) poll_ready :: "ensure_world \<Rightarrow> int \<Rightarrow> bool \<Rightarrow> nat \<Rightarrow> ((ensure_error, unit) result \<times> nat) option" where
  "poll_ready w deadline owner k =
     (let remaining = deadline - ew_now w k in
      if remaining \<le> 0 then Some (Inl (if owner then NotReady else WaitingTimedOut), k)
      else if ew_poll w k (minDuration 150000000 remaining) then Some (Inr (), Suc k)
      else poll_ready w deadline owner (Suc k))"

text \<open>What a call did: its result, whether it called the start callback, and its polls.\<close>

record ensured =
  en_result :: "(ensure_error, unit) result"
  en_started :: bool
  en_polls :: nat

definition EnsureRunning :: "(string \<Rightarrow> string) \<Rightarrow> user_env \<Rightarrow> run_config \<Rightarrow> ensure_world \<Rightarrow> ensured option" where
  "EnsureRunning hash env cfg w =
     (let stop = (\<lambda>r started. Some \<lparr>en_result = r, en_started = started, en_polls = 0\<rparr>);
          wait = (\<lambda>owner. map_option (\<lambda>(r, k). \<lparr>en_result = r, en_started = owner, en_polls = k\<rparr>)
            (poll_ready w (ew_begin w + config_timeout (normalize_config cfg)) owner 0)) in
      case config_client hash env cfg of
        None \<Rightarrow> stop (Inl NoCurrentUser) False
      | Some c \<Rightarrow>
          if \<not> rc_has_start cfg then stop (Inl MissingStart) False
          else if ew_first w then stop (Inr ()) False
          else case config_lock_path hash env (normalize_config cfg) of
              None \<Rightarrow> stop (Inl NoCurrentUser) False
            | Some path \<Rightarrow>
                (case ew_lock w path of
                   Inl e \<Rightarrow> stop (Inl (StartupLockError e)) False
                 | Inr False \<Rightarrow> wait False
                 | Inr True \<Rightarrow>
                     if ew_second w then stop (Inr ()) False
                     else (case ew_start w of
                         Some e \<Rightarrow> stop (Inl (StartFailed e)) True
                       | None \<Rightarrow> wait True)))"

section \<open>A call returns\<close>

text \<open>Between two polls the caller sleeps 100 ms, so the clock has moved that far.\<close>

definition sleeps :: "ensure_world \<Rightarrow> bool" where
  "sleeps w \<longleftrightarrow> ew_begin w \<le> ew_now w 0 \<and> (\<forall>k. ew_now w k + 100000000 \<le> ew_now w (Suc k))"

lemma sleeps_now: "sleeps w \<Longrightarrow> ew_begin w + 100000000 * int k \<le> ew_now w k"
proof (induction k)
  case (Suc k)
  then have "ew_now w k + 100000000 \<le> ew_now w (Suc k)" by (simp add: sleeps_def)
  with Suc show ?case by (simp add: algebra_simps)
qed (simp add: sleeps_def)

text \<open>The first poll that ends the loop: past the deadline, or answered.\<close>

definition poll_ends :: "ensure_world \<Rightarrow> int \<Rightarrow> nat \<Rightarrow> bool" where
  "poll_ends w deadline k \<longleftrightarrow> deadline \<le> ew_now w k \<or> ew_poll w k (minDuration 150000000 (deadline - ew_now w k))"

lemma poll_ready_first:
  assumes "poll_ends w deadline (k + n)" and "\<forall>j < n. \<not> poll_ends w deadline (k + j)"
  shows "poll_ready w deadline owner k =
    (if deadline \<le> ew_now w (k + n) then Some (Inl (if owner then NotReady else WaitingTimedOut), k + n)
     else Some (Inr (), Suc (k + n)))"
  using assms
proof (induction n arbitrary: k)
  case 0
  then show ?case by (subst poll_ready.simps) (auto simp: poll_ends_def Let_def)
next
  case (Suc n)
  have "\<not> poll_ends w deadline k" using Suc.prems(2) by (metis add_0_right zero_less_Suc)
  then have "poll_ready w deadline owner k = poll_ready w deadline owner (Suc k)"
    by (subst poll_ready.simps) (auto simp: poll_ends_def Let_def)
  moreover have "\<forall>j < n. \<not> poll_ends w deadline (Suc k + j)" using Suc.prems(2) by auto
  ultimately show ?case using Suc.IH[of "Suc k"] Suc.prems(1) by simp
qed

lemma poll_ready_returns:
  assumes "sleeps w" and "0 \<le> timeout"
  shows "\<exists>r k. poll_ready w (ew_begin w + timeout) owner 0 = Some (r, k) \<and> 100000000 * (int k - 1) \<le> timeout \<and>
    (is_ok r \<longleftrightarrow> (\<exists>j. ew_poll w j (minDuration 150000000 (ew_begin w + timeout - ew_now w j)) \<and>
      (\<forall>i \<le> j. ew_now w i < ew_begin w + timeout)))"
proof -
  let ?d = "ew_begin w + timeout"
  have "timeout \<le> 100000000 * int (nat timeout)" using assms(2) by simp
  then have "poll_ends w ?d (nat timeout)"
    using sleeps_now[OF assms(1), of "nat timeout"] by (auto simp: poll_ends_def)
  then obtain n where n: "poll_ends w ?d n" "\<forall>j < n. \<not> poll_ends w ?d j"
    using exists_least_iff[of "poll_ends w ?d"] by blast
  have earlier: "ew_now w j < ?d" if "j < n" for j
    using n(2) that by (auto simp: poll_ends_def)
  have bound: "100000000 * (int n - 1) \<le> timeout"
  proof (cases n)
    case 0
    with assms(2) show ?thesis by simp
  next
    case (Suc m)
    with earlier[of m] sleeps_now[OF assms(1), of m] show ?thesis by simp
  qed
  show ?thesis
  proof (cases "?d \<le> ew_now w n")
    case True
    then have "poll_ready w ?d owner 0 = Some (Inl (if owner then NotReady else WaitingTimedOut), n)"
      using poll_ready_first[of w ?d 0 n owner] n by simp
    moreover have "\<not> (\<exists>j. ew_poll w j (minDuration 150000000 (?d - ew_now w j)) \<and> (\<forall>i \<le> j. ew_now w i < ?d))"
    proof
      assume "\<exists>j. ew_poll w j (minDuration 150000000 (?d - ew_now w j)) \<and> (\<forall>i \<le> j. ew_now w i < ?d)"
      then obtain j where j: "ew_poll w j (minDuration 150000000 (?d - ew_now w j))" "\<forall>i \<le> j. ew_now w i < ?d" by blast
      then have "j < n" using True by (meson linorder_not_le)
      with n(2) j(1) show False by (auto simp: poll_ends_def)
    qed
    ultimately show ?thesis using bound by (auto split: if_split_asm)
  next
    case False
    then have "poll_ready w ?d owner 0 = Some (Inr (), Suc n)"
      using poll_ready_first[of w ?d 0 n owner] n by simp
    moreover have "ew_poll w n (minDuration 150000000 (?d - ew_now w n))" "\<forall>i \<le> n. ew_now w i < ?d"
      using n(1) False earlier by (auto simp: poll_ends_def le_less)
    moreover have "100000000 * (int (Suc n) - 1) \<le> timeout"
      using False sleeps_now[OF assms(1), of n] by simp
    ultimately show ?thesis by auto
  qed
qed

text \<open>
  Ensuring a daemon always returns, after at most one poll for every 100 ms of the timeout and
  one more; it reports success only after a status call was answered; and it calls the start callback
  only while holding the start-up lock, after a status call failed before and another after taking it.
\<close>

theorem EnsureRunning_returns:
  assumes "sleeps w"
  shows "\<exists>e. EnsureRunning hash env cfg w = Some e \<and>
    100000000 * (int (en_polls e) - 1) \<le> config_timeout cfg \<and>
    (is_ok (en_result e) \<longrightarrow> ew_first w \<or> ew_second w \<or> (\<exists>j t. ew_poll w j t)) \<and>
    (en_started e \<longrightarrow> \<not> ew_first w \<and> \<not> ew_second w \<and>
      (\<exists>path. config_lock_path hash env cfg = Some path \<and> ew_lock w path = Inr True))"
proof -
  have t: "config_timeout (normalize_config cfg) = config_timeout cfg"
      "config_lock_path hash env (normalize_config cfg) = config_lock_path hash env cfg" "0 \<le> config_timeout cfg"
    by (auto simp: config_timeout_def normalize_config_def config_lock_path_def defaultPollWindow_def)
  obtain r k where p: "poll_ready w (ew_begin w + config_timeout cfg) True 0 = Some (r, k)"
      "100000000 * (int k - 1) \<le> config_timeout cfg" "is_ok r \<longrightarrow> (\<exists>j t. ew_poll w j t)"
    using poll_ready_returns[OF assms t(3), of True] by blast
  obtain r' k' where q: "poll_ready w (ew_begin w + config_timeout cfg) False 0 = Some (r', k')"
      "100000000 * (int k' - 1) \<le> config_timeout cfg" "is_ok r' \<longrightarrow> (\<exists>j t. ew_poll w j t)"
    using poll_ready_returns[OF assms t(3), of False] by blast
  show ?thesis
    using p q t(3)
    by (auto simp: EnsureRunning_def t(1,2) split: option.split sum.split bool.split)
qed

theorem EnsureRunning_returns_witness:
  "EnsureRunning id \<lparr>ue_goos = ''windows'', ue_user = Some (''u'', ''h''), ue_cache = None, ue_temp = ''t''\<rparr>
     \<lparr>rc_has_start = True, rc_dialer = (\<lambda>_. Inl ''''), rc_PipePath = ''p'', rc_StartupLockPath = ''l'', rc_Timeout = 1\<rparr>
     \<lparr>ew_first = False, ew_second = False, ew_lock = (\<lambda>_. Inr True), ew_start = None, ew_begin = 0,
       ew_now = (\<lambda>k. 100000000 * int k), ew_poll = (\<lambda>_ _. False)\<rparr> \<noteq> None"
  (is "EnsureRunning id ?env ?cfg ?w \<noteq> None")
proof -
  have "sleeps ?w" by (simp add: sleeps_def)
  from EnsureRunning_returns[OF this, of id ?env ?cfg] show ?thesis by auto
qed

section \<open>Racing callers\<close>

text \<open>
  Where a caller is: before its first status call, at the lock, before the status call under the lock,
  before the start callback, polling (as the owner of the lock or not), and back with a result.
\<close>

datatype ensure_phase = EnChecking | EnLocking | EnRechecking | EnStarting | EnPolling bool | EnDone bool

datatype ensure_input = StatusAnswered bool | LockTried "file_lock_error + bool" | StartReturned bool | DeadlinePassed

fun ensure_advance :: "ensure_phase \<Rightarrow> ensure_input \<Rightarrow> ensure_phase" where
  "ensure_advance EnChecking (StatusAnswered b) = (if b then EnDone True else EnLocking)"
| "ensure_advance EnLocking (LockTried (Inl e)) = EnDone False"
| "ensure_advance EnLocking (LockTried (Inr acquired)) = (if acquired then EnRechecking else EnPolling False)"
| "ensure_advance EnRechecking (StatusAnswered b) = (if b then EnDone True else EnStarting)"
| "ensure_advance EnStarting (StartReturned ok) = (if ok then EnPolling True else EnDone False)"
| "ensure_advance (EnPolling own) (StatusAnswered b) = (if b then EnDone True else EnPolling own)"
| "ensure_advance (EnPolling own) DeadlinePassed = EnDone False"
| "ensure_advance p i = p"

text \<open>The inputs a single call meets, in order.\<close>

definition poll_input :: "ensure_world \<Rightarrow> int \<Rightarrow> nat \<Rightarrow> ensure_input" where
  "poll_input w deadline k =
     (if deadline \<le> ew_now w k then DeadlinePassed else StatusAnswered (ew_poll w k (minDuration 150000000 (deadline - ew_now w k))))"

definition ensure_inputs :: "ensure_world \<Rightarrow> string \<Rightarrow> int \<Rightarrow> nat \<Rightarrow> ensure_input list" where
  "ensure_inputs w path deadline n =
     StatusAnswered (ew_first w) # LockTried (ew_lock w path)
     # (if ew_lock w path = Inr True then [StatusAnswered (ew_second w), StartReturned (ew_start w = None)] else [])
     @ map (poll_input w deadline) [0..<n]"

lemma done_final [simp]: "foldl ensure_advance (EnDone b) is = EnDone b"
  by (induction "is") auto

lemma poll_ready_phases:
  assumes "poll_ready w deadline own k = Some y"
  shows "k \<le> snd y \<and> foldl ensure_advance (EnPolling own) (map (poll_input w deadline) [k..<Suc (snd y)]) = EnDone (is_ok (fst y))"
proof (rule poll_ready.raw_induct[OF _ assms, where P = "\<lambda>w d own k y. k \<le> snd y \<and>
    foldl ensure_advance (EnPolling own) (map (poll_input w d) [k..<Suc (snd y)]) = EnDone (is_ok (fst y))"])
  fix poll w d own k and y :: "(ensure_error, unit) result \<times> nat"
  assume IH: "\<And>w d own k y. poll w d own k = Some y \<Longrightarrow> k \<le> snd y \<and>
      foldl ensure_advance (EnPolling own) (map (poll_input w d) [k..<Suc (snd y)]) = EnDone (is_ok (fst y))"
    and body: "(let remaining = d - ew_now w k in
      if remaining \<le> 0 then Some (Inl (if own then NotReady else WaitingTimedOut), k)
      else if ew_poll w k (minDuration 150000000 remaining) then Some (Inr (), Suc k)
      else poll w d own (Suc k)) = Some y"
  have head: "[k..<Suc n] = k # [Suc k..<Suc n]" if "k \<le> n" for n
    using that by (simp add: upt_conv_Cons)
  consider "d \<le> ew_now w k" | "ew_now w k < d" "ew_poll w k (minDuration 150000000 (d - ew_now w k))"
    | "ew_now w k < d" "\<not> ew_poll w k (minDuration 150000000 (d - ew_now w k))"
    by linarith
  then show "k \<le> snd y \<and> foldl ensure_advance (EnPolling own) (map (poll_input w d) [k..<Suc (snd y)]) = EnDone (is_ok (fst y))"
  proof cases
    case 1
    with body have "y = (Inl (if own then NotReady else WaitingTimedOut), k)" by (simp add: Let_def)
    with 1 show ?thesis by (simp add: poll_input_def)
  next
    case 2
    with body have "y = (Inr (), Suc k)" by (simp add: Let_def)
    with 2 show ?thesis by (simp add: head poll_input_def)
  next
    case 3
    with body have "poll w d own (Suc k) = Some y" by (simp add: Let_def)
    from IH[OF this] 3 show ?thesis by (simp add: head poll_input_def del: upt_Suc)
  qed
qed

text \<open>
  C32. A single call is one of the racing callers: the phases of the step relation, run over what the call
  meets, end with the result \<^verbatim>\<open>EnsureRunning\<close> returns.
\<close>

theorem EnsureRunning_is_a_caller:
  assumes "EnsureRunning hash env cfg w = Some e" and "rc_has_start cfg"
    and "effectivePipePath hash env cfg \<noteq> None" and "config_lock_path hash env cfg = Some path"
  shows "foldl ensure_advance EnChecking
      (ensure_inputs w path (ew_begin w + config_timeout cfg) (Suc (en_polls e))) = EnDone (is_ok (en_result e))"
proof -
  have t: "config_timeout (normalize_config cfg) = config_timeout cfg" "config_lock_path hash env (normalize_config cfg) = Some path"
    using assms(4) by (auto simp: config_timeout_def normalize_config_def config_lock_path_def)
  have polled: "foldl ensure_advance (EnPolling own) (map (poll_input w d) [0..<Suc k]) = EnDone (is_ok r)"
    if "poll_ready w d own 0 = Some (r, k)" for own d r k
    using poll_ready_phases[OF that] by simp
  obtain c where c: "config_client hash env cfg = Some c"
    using assms(3) by (auto simp: config_client_def)
  show ?thesis
    using assms(1,2) polled
    by (auto simp: EnsureRunning_def ensure_inputs_def Let_def t c simp del: upt_Suc
        split: if_split_asm sum.split_asm bool.split_asm option.split_asm)
qed

theorem EnsureRunning_is_a_caller_witness:
  "foldl ensure_advance EnChecking
     (ensure_inputs \<lparr>ew_first = False, ew_second = False, ew_lock = (\<lambda>_. Inr True), ew_start = Some ''no'', ew_begin = 0,
       ew_now = (\<lambda>k. 100000000 * int k), ew_poll = (\<lambda>_ _. False)\<rparr> ''l'' 1 1) = EnDone False"
proof -
  let ?w = "\<lparr>ew_first = False, ew_second = False, ew_lock = (\<lambda>_. Inr True), ew_start = Some ''no'', ew_begin = 0,
       ew_now = (\<lambda>k. 100000000 * int k), ew_poll = (\<lambda>_ _. False)\<rparr>"
  let ?cfg = "\<lparr>rc_has_start = True, rc_dialer = (\<lambda>_. Inl ''''), rc_PipePath = ''p'', rc_StartupLockPath = ''l'', rc_Timeout = 1\<rparr>"
  let ?env = "\<lparr>ue_goos = ''windows'', ue_user = Some (''u'', ''h''), ue_cache = None, ue_temp = ''t''\<rparr>"
  have "EnsureRunning id ?env ?cfg ?w = Some \<lparr>en_result = Inl (StartFailed ''no''), en_started = True, en_polls = 0\<rparr>"
    by (simp add: EnsureRunning_def config_client_def effectivePipePath_def config_lock_path_def normalize_config_def)
  moreover have "effectivePipePath id ?env ?cfg \<noteq> None" "config_lock_path id ?env ?cfg = Some ''l''" "config_timeout ?cfg = 1"
    by (simp_all add: effectivePipePath_def config_lock_path_def config_timeout_def)
  ultimately show ?thesis
    using EnsureRunning_is_a_caller[of id ?env ?cfg ?w _ "''l''"] by fastforce
qed

text \<open>The callers, the holder of the lock, whether the daemon answers, and counts of what happened.\<close>

record race =
  ra_phase :: "nat \<Rightarrow> ensure_phase"
  ra_lock :: "nat option"
  ra_up :: bool
  ra_launches :: nat
  ra_given_up :: nat
  ra_crashes :: nat
  ra_missed :: nat

definition new_race :: race where
  "new_race = \<lparr>ra_phase = (\<lambda>_. EnChecking), ra_lock = None, ra_up = False, ra_launches = 0, ra_given_up = 0, ra_crashes = 0, ra_missed = 0\<rparr>"

fun owns_lock :: "ensure_phase \<Rightarrow> bool" where
  "owns_lock EnRechecking = True"
| "owns_lock EnStarting = True"
| "owns_lock (EnPolling own) = own"
| "owns_lock _ = False"

text \<open>A caller's next phase; returning releases the lock it holds.\<close>

definition move_caller :: "nat \<Rightarrow> ensure_phase \<Rightarrow> race \<Rightarrow> race" where
  "move_caller i p s =
     s\<lparr>ra_phase := (ra_phase s)(i := p),
       ra_lock := (if owns_lock p then Some i else if ra_lock s = Some i then None else ra_lock s)\<rparr>"

definition count_given_up :: "ensure_phase \<Rightarrow> race \<Rightarrow> race" where
  "count_given_up p s = (if p = EnPolling True then s\<lparr>ra_given_up := Suc (ra_given_up s)\<rparr> else s)"

text \<open>
  A status call is answered only by a daemon that is up, and may miss one; the lock goes to at most one
  caller; a caller may die, which frees its lock; the daemon comes up and goes down on its own.
\<close>

inductive race_step :: "race \<Rightarrow> race \<Rightarrow> bool" where
  race_status: "ra_phase s i \<in> {EnChecking, EnRechecking, EnPolling True, EnPolling False} \<Longrightarrow> b \<longrightarrow> ra_up s \<Longrightarrow>
     race_step s ((move_caller i (ensure_advance (ra_phase s i) (StatusAnswered b)) s)
       \<lparr>ra_missed := ra_missed s + (if ra_phase s i = EnRechecking \<and> ra_up s \<and> \<not> b then 1 else 0)\<rparr>)"
| race_lock: "ra_phase s i = EnLocking \<Longrightarrow> (r = Inr True \<longrightarrow> ra_lock s = None) \<Longrightarrow> (r = Inr False \<longrightarrow> ra_lock s \<noteq> None) \<Longrightarrow>
     race_step s (move_caller i (ensure_advance EnLocking (LockTried r)) s)"
| race_start: "ra_phase s i = EnStarting \<Longrightarrow>
     race_step s ((move_caller i (ensure_advance EnStarting (StartReturned ok)) s)\<lparr>ra_launches := ra_launches s + (if ok then 1 else 0)\<rparr>)"
| race_deadline: "ra_phase s i = EnPolling own \<Longrightarrow>
     race_step s (count_given_up (EnPolling own) (move_caller i (ensure_advance (EnPolling own) DeadlinePassed) s))"
| race_dies: "race_step s (count_given_up (ra_phase s i) (move_caller i (EnDone False) s))"
| race_up: "race_step s (s\<lparr>ra_up := True\<rparr>)"
| race_down: "race_step s (s\<lparr>ra_up := False, ra_crashes := ra_crashes s + (if ra_up s then 1 else 0)\<rparr>)"

definition race_excused :: "race \<Rightarrow> nat" where
  "race_excused s = ra_given_up s + ra_crashes s + ra_missed s"

fun race_credit :: "ensure_phase \<Rightarrow> bool \<Rightarrow> nat" where
  "race_credit EnStarting up = 0"
| "race_credit (EnPolling own) up = (if own then 1 else of_bool up)"
| "race_credit p up = of_bool up"

text \<open>How many launches beyond the excused ones the state allows.\<close>

definition race_allow :: "race \<Rightarrow> nat" where
  "race_allow s = (case ra_lock s of None \<Rightarrow> of_bool (ra_up s) | Some i \<Rightarrow> race_credit (ra_phase s i) (ra_up s))"

definition lock_kept :: "race \<Rightarrow> bool" where
  "lock_kept s \<longleftrightarrow> (\<forall>i. ra_lock s = Some i \<longleftrightarrow> owns_lock (ra_phase s i))"

definition race_good :: "race \<Rightarrow> bool" where
  "race_good s \<longleftrightarrow> lock_kept s \<and> ra_launches s \<le> race_excused s + race_allow s"

lemma lock_keptD: "lock_kept s \<Longrightarrow> ra_lock s = Some i \<longleftrightarrow> owns_lock (ra_phase s i)"
  by (simp add: lock_kept_def)

lemma lock_kept_move:
  assumes "lock_kept s" and "owns_lock p \<longrightarrow> ra_lock s = None \<or> ra_lock s = Some i"
  shows "lock_kept (move_caller i p s)"
proof -
  have "ra_lock (move_caller i p s) = Some j \<longleftrightarrow> owns_lock (ra_phase (move_caller i p s) j)" for j
  proof (cases "j = i")
    case True
    then show ?thesis by (simp add: move_caller_def)
  next
    case False
    then have "ra_lock (move_caller i p s) = Some j \<longleftrightarrow> \<not> owns_lock p \<and> ra_lock s = Some j"
      by (auto simp: move_caller_def)
    also have "\<dots> \<longleftrightarrow> ra_lock s = Some j"
      using assms(2) False by auto
    finally show ?thesis
      using False lock_keptD[OF assms(1)] by (simp add: move_caller_def)
  qed
  then show ?thesis by (simp add: lock_kept_def)
qed

lemma race_allow_move:
  "lock_kept s \<Longrightarrow> race_allow (move_caller i p s) =
    (if owns_lock p then race_credit p (ra_up s) else if owns_lock (ra_phase s i) then of_bool (ra_up s) else race_allow s)"
proof (cases "ra_lock s")
  case None
  moreover assume "lock_kept s"
  ultimately have "\<not> owns_lock (ra_phase s i)" using lock_keptD[of s i] by simp
  with None show ?thesis by (simp add: race_allow_def move_caller_def)
next
  case (Some j)
  moreover assume "lock_kept s"
  ultimately have "owns_lock (ra_phase s i) \<longleftrightarrow> j = i" using lock_keptD[of s i] by auto
  with Some show ?thesis by (auto simp: race_allow_def move_caller_def)
qed

lemma race_allow_owner: "lock_kept s \<Longrightarrow> owns_lock (ra_phase s i) \<Longrightarrow> race_allow s = race_credit (ra_phase s i) (ra_up s)"
  using lock_keptD[of s i] by (simp add: race_allow_def)

lemma race_move_simps [simp]:
  "ra_up (move_caller i p s) = ra_up s" "ra_launches (move_caller i p s) = ra_launches s"
  "ra_missed (move_caller i p s) = ra_missed s" "race_excused (move_caller i p s) = race_excused s"
  by (simp_all add: move_caller_def race_excused_def)

lemma race_update_simps [simp]:
  "lock_kept (s\<lparr>ra_missed := n\<rparr>) = lock_kept s" "race_allow (s\<lparr>ra_missed := n\<rparr>) = race_allow s"
  "lock_kept (s\<lparr>ra_launches := n\<rparr>) = lock_kept s" "race_allow (s\<lparr>ra_launches := n\<rparr>) = race_allow s"
  "race_excused (s\<lparr>ra_launches := n\<rparr>) = race_excused s"
  "race_excused (s\<lparr>ra_missed := ra_missed s + k\<rparr>) = race_excused s + k"
  by (simp_all add: lock_kept_def race_allow_def race_excused_def split: option.split)

lemma count_given_up_simps [simp]:
  "lock_kept (count_given_up p s) = lock_kept s" "race_allow (count_given_up p s) = race_allow s"
  "race_excused (count_given_up p s) = race_excused s + of_bool (p = EnPolling True)"
  "ra_launches (count_given_up p s) = ra_launches s"
  by (simp_all add: lock_kept_def race_allow_def count_given_up_def race_excused_def split: option.split)

lemma race_leaves:
  assumes "race_good s"
  shows "race_good (count_given_up (ra_phase s i) (move_caller i (EnDone b) s))"
proof -
  have k: "lock_kept s" "ra_launches s \<le> race_excused s + race_allow s" using assms by (auto simp: race_good_def)
  have "race_allow s \<le> of_bool (ra_phase s i = EnPolling True) + of_bool (ra_up s)" if "owns_lock (ra_phase s i)"
    using that unfolding race_allow_owner[OF k(1) that] by (cases "ra_phase s i") auto
  then show ?thesis
    using k by (auto simp: race_good_def lock_kept_move race_allow_move)
qed

lemma race_good_status:
  assumes "race_good s" and phase: "ra_phase s i \<in> {EnChecking, EnRechecking, EnPolling True, EnPolling False}" and "b \<longrightarrow> ra_up s"
  shows "race_good ((move_caller i (ensure_advance (ra_phase s i) (StatusAnswered b)) s)
    \<lparr>ra_missed := ra_missed s + (if ra_phase s i = EnRechecking \<and> ra_up s \<and> \<not> b then 1 else 0)\<rparr>)"
    (is "race_good (?t\<lparr>ra_missed := _ + ?k\<rparr>)")
proof -
  have k: "lock_kept s" "ra_launches s \<le> race_excused s + race_allow s" using assms(1) by (auto simp: race_good_def)
  have "lock_kept ?t"
    by (rule lock_kept_move[OF k(1)]) (use phase lock_keptD[OF k(1), of i] in \<open>auto split: if_split_asm\<close>)
  moreover have "ra_launches s \<le> race_excused s + race_allow ?t + ?k"
    using phase k assms(3) race_allow_owner[OF k(1), of i] by (cases b) (auto simp: race_allow_move)
  moreover have "?t\<lparr>ra_missed := ra_missed s + ?k\<rparr> = ?t\<lparr>ra_missed := ra_missed ?t + ?k\<rparr>" by simp
  ultimately show ?thesis unfolding race_good_def by (simp del: race_move_simps(3))
qed

lemma race_good_step:
  assumes "race_good s" and "race_step s t"
  shows "race_good t"
  using assms(2)
proof cases
  case (race_status i b)
  then show ?thesis using race_good_status[OF assms(1)] by simp
next
  case (race_lock i r)
  have k: "lock_kept s" "ra_launches s \<le> race_excused s + race_allow s" using assms(1) by (auto simp: race_good_def)
  show ?thesis
  proof (cases r)
    case (Inl e)
    then show ?thesis using k race_lock(2) unfolding race_lock(1) by (simp add: race_good_def lock_kept_move race_allow_move)
  next
    case (Inr acquired)
    with race_lock have "acquired \<longrightarrow> ra_lock s = None" by auto
    then have "acquired \<longrightarrow> race_allow s = of_bool (ra_up s)" by (simp add: race_allow_def)
    then show ?thesis
      using k race_lock(2) Inr \<open>acquired \<longrightarrow> ra_lock s = None\<close> unfolding race_lock(1)
      by (cases acquired) (simp_all add: race_good_def lock_kept_move race_allow_move)
  qed
next
  case (race_start i ok)
  have k: "lock_kept s" "ra_launches s \<le> race_excused s + race_allow s" using assms(1) by (auto simp: race_good_def)
  have "race_allow s = 0" "ra_lock s = Some i"
    using race_allow_owner[OF k(1), of i] lock_keptD[OF k(1), of i] race_start(2) by simp_all
  then show ?thesis
    using k race_start by (auto simp: race_good_def lock_kept_move race_allow_move)
next
  case (race_deadline i own)
  then show ?thesis using race_leaves[OF assms(1), of i False] by simp
next
  case (race_dies i)
  then show ?thesis using race_leaves[OF assms(1)] by simp
next
  case race_up
  have "race_credit p up \<le> race_credit p True" for p up by (cases p) auto
  then have "race_allow s \<le> race_allow t" unfolding race_up race_allow_def by (auto split: option.split)
  then show ?thesis
    using assms(1) by (simp add: race_up race_good_def lock_kept_def race_excused_def)
next
  case race_down
  have "race_credit p True \<le> Suc (race_credit p False)" for p by (cases p) auto
  then have "race_allow s \<le> race_allow t + of_bool (ra_up s)" unfolding race_down race_allow_def by (auto split: option.split)
  then show ?thesis
    using assms(1) by (auto simp: race_down race_good_def lock_kept_def race_excused_def)
qed

interpretation racing: invariant_system "\<lambda>s. s = new_race" race_step race_good
proof
  show "s = new_race \<Longrightarrow> race_good s" for s by (simp add: new_race_def race_good_def lock_kept_def)
qed (rule race_good_step)

text \<open>
  C31. Callers that race start one daemon: at every moment at most one of them is between taking the
  start-up lock and returning, and they launch no more than one daemon more than the number of owners
  that gave up waiting, daemons that went down and status calls that missed a running daemon.
\<close>

theorem racing_callers_launch_once:
  assumes "race_step\<^sup>*\<^sup>* new_race s"
  shows "(\<forall>i j. owns_lock (ra_phase s i) \<and> owns_lock (ra_phase s j) \<longrightarrow> i = j) \<and>
    ra_launches s \<le> 1 + ra_given_up s + ra_crashes s + ra_missed s"
proof -
  have g: "race_good s" using racing.run_good[OF assms] by simp
  have "race_credit p up \<le> 1" for p up by (cases p) auto
  then have "race_allow s \<le> 1" by (auto simp: race_allow_def split: option.split)
  with g have "ra_launches s \<le> race_excused s + 1" by (auto simp: race_good_def)
  moreover have "\<forall>i j. owns_lock (ra_phase s i) \<and> owns_lock (ra_phase s j) \<longrightarrow> i = j"
    using g unfolding race_good_def by (metis lock_keptD option.inject)
  ultimately show ?thesis by (simp add: race_excused_def)
qed

theorem racing_callers_launch_once_witness:
  "\<exists>s. race_step\<^sup>*\<^sup>* new_race s \<and> ra_launches s = 1 \<and> ra_lock s = Some 0 \<and> ra_launches s \<le> 1 + ra_given_up s + ra_crashes s + ra_missed s"
proof -
  define checked where "checked = (move_caller 0 (ensure_advance (ra_phase new_race 0) (StatusAnswered False)) new_race)
    \<lparr>ra_missed := ra_missed new_race + (if ra_phase new_race 0 = EnRechecking \<and> ra_up new_race \<and> \<not> False then 1 else 0)\<rparr>"
  define locked where "locked = move_caller 0 (ensure_advance EnLocking (LockTried (Inr True))) checked"
  define ready where "ready = (move_caller 0 (ensure_advance (ra_phase locked 0) (StatusAnswered False)) locked)
    \<lparr>ra_missed := ra_missed locked + (if ra_phase locked 0 = EnRechecking \<and> ra_up locked \<and> \<not> False then 1 else 0)\<rparr>"
  define launched where "launched = (move_caller 0 (ensure_advance EnStarting (StartReturned True)) ready)
    \<lparr>ra_launches := ra_launches ready + (if True then 1 else 0)\<rparr>"
  have c: "ra_phase checked 0 = EnLocking" "ra_lock checked = None" "ra_launches checked = 0"
    by (simp_all add: checked_def move_caller_def new_race_def)
  have l: "ra_phase locked 0 = EnRechecking" "ra_lock locked = Some 0" "ra_launches locked = 0"
    by (simp_all add: locked_def move_caller_def c)
  have r: "ra_phase ready 0 = EnStarting" "ra_lock ready = Some 0" "ra_launches ready = 0"
    by (simp_all add: ready_def move_caller_def l)
  have "race_step new_race checked"
    unfolding checked_def by (rule race_status) (auto simp: new_race_def)
  moreover have "race_step checked locked"
    unfolding locked_def by (rule race_lock) (auto simp: c)
  moreover have "race_step locked ready"
    unfolding ready_def by (rule race_status) (auto simp: l)
  moreover have "race_step ready launched"
    unfolding launched_def by (rule race_start) (simp add: r)
  ultimately have run: "race_step\<^sup>*\<^sup>* new_race launched" by (simp add: converse_rtranclp_into_rtranclp)
  have "ra_launches launched = 1" "ra_lock launched = Some 0"
    by (simp_all add: launched_def move_caller_def r)
  with run racing_callers_launch_once[OF run] show ?thesis by blast
qed

end
