(* ===== verification/DaemonServer.thy ===== *)
theory DaemonServer
  imports Daemon
begin

text \<open>
  The daemon's server (\<^verbatim>\<open>Server.ListenAndServe\<close>): its entry with the defaults and the lock, and the
  accept loop with its bounded handlers as a step relation, up to the return once every handler has
  ended.  Connections are numbers; what a handler says on one is the theory before.
\<close>

section \<open>Entry\<close>

record server_config =
  sc_PipePath :: string
  sc_LockPath :: string
  sc_LockAlreadyHeld :: bool

definition normalizeDefaults :: "(string \<Rightarrow> string) \<Rightarrow> user_env \<Rightarrow> server_config \<Rightarrow> server_config option" where
  "normalizeDefaults hash env cfg =
     (case (if sc_PipePath cfg = '''' then DefaultPipePath hash env else Some (sc_PipePath cfg)) of
        None \<Rightarrow> None
      | Some pipe \<Rightarrow>
          (case (if sc_LockPath cfg = '''' then DefaultDaemonLockPath hash env else Some (sc_LockPath cfg)) of
             None \<Rightarrow> None
           | Some lock \<Rightarrow> Some (cfg\<lparr>sc_PipePath := pipe, sc_LockPath := lock\<rparr>)))"

datatype serve_error = NoUser | DaemonLockError file_lock_error | AlreadyRunning | ListenFailed

text \<open>Where the main goroutine is, and where a handler's goroutine is.\<close>

datatype serve_phase = Accepting | Draining bool | Returned bool

datatype handler_phase = Handling | Handled | TokenFreed | Untracked

record daemon_server =
  sv_phase :: serve_phase
  sv_listening :: bool
  sv_cancelled :: bool
  sv_tokens :: nat
  sv_running :: nat
  sv_connections :: "nat set"
  sv_handlers :: "nat \<rightharpoonup> handler_phase"
  sv_accepted :: "nat set"
  sv_closed :: "nat set"

definition maxDaemonConnections :: nat where
  "maxDaemonConnections = 32"

definition listening_server :: daemon_server where
  "listening_server = \<lparr>sv_phase = Accepting, sv_listening = True, sv_cancelled = False, sv_tokens = 0, sv_running = 0,
     sv_connections = {}, sv_handlers = Map.empty, sv_accepted = {}, sv_closed = {}\<rparr>"

text \<open>\<^verbatim>\<open>ListenAndServe\<close> up to its loop; on an error after taking the lock, the lock is released.\<close>

definition serve_entry :: "(string \<Rightarrow> string) \<Rightarrow> user_env \<Rightarrow> server_config \<Rightarrow> (string \<Rightarrow> file_lock_error + bool) \<Rightarrow> (string \<Rightarrow> bool)
    \<Rightarrow> (serve_error, daemon_server) result" where
  "serve_entry hash env cfg lock listen =
     (case normalizeDefaults hash env cfg of
        None \<Rightarrow> Inl NoUser
      | Some c \<Rightarrow>
          let bound = (if listen (sc_PipePath c) then Inr listening_server else Inl ListenFailed) in
          if sc_LockAlreadyHeld c then bound
          else (case lock (sc_LockPath c) of
              Inl e \<Rightarrow> Inl (DaemonLockError e)
            | Inr acquired \<Rightarrow> if \<not> acquired then Inl AlreadyRunning else bound))"

section \<open>The loop\<close>

definition track :: "nat \<Rightarrow> daemon_server \<Rightarrow> daemon_server" where
  "track c s = s\<lparr>sv_connections := insert c (sv_connections s)\<rparr>"

definition untrack :: "nat \<Rightarrow> daemon_server \<Rightarrow> daemon_server" where
  "untrack c s = s\<lparr>sv_connections := sv_connections s - {c}\<rparr>"

definition close_connection :: "nat \<Rightarrow> daemon_server \<Rightarrow> daemon_server" where
  "close_connection c s = s\<lparr>sv_closed := insert c (sv_closed s)\<rparr>"

definition closeConnections :: "daemon_server \<Rightarrow> daemon_server" where
  "closeConnections s = s\<lparr>sv_closed := sv_closed s \<union> sv_connections s\<rparr>"

text \<open>An accepted connection: a handler if a token is left, otherwise it is closed.\<close>

definition accept_connection :: "nat \<Rightarrow> daemon_server \<Rightarrow> daemon_server" where
  "accept_connection c s =
     (let s = s\<lparr>sv_accepted := insert c (sv_accepted s)\<rparr> in
      if sv_tokens s < maxDaemonConnections
      then (track c s)\<lparr>sv_tokens := Suc (sv_tokens s), sv_running := Suc (sv_running s), sv_handlers := (sv_handlers s)(c \<mapsto> Handling)\<rparr>
      else close_connection c s)"

text \<open>\<^verbatim>\<open>Accept\<close> failed: an error is reported only when the server was not cancelled.\<close>

definition leave_loop :: "daemon_server \<Rightarrow> daemon_server" where
  "leave_loop s =
     closeConnections (s\<lparr>sv_phase := Draining (\<not> sv_cancelled s), sv_cancelled := True, sv_listening := False\<rparr>)"

definition wait_handlers :: "daemon_server \<Rightarrow> daemon_server" where
  "wait_handlers s =
     (case sv_phase s of Draining e \<Rightarrow> if sv_running s = 0 then s\<lparr>sv_phase := Returned e\<rparr> else s | _ \<Rightarrow> s)"

text \<open>
  A handler's goroutine: \<^verbatim>\<open>handle\<close> returns and has closed its connection, the token is given back, the
  connection is untracked, and the wait group is told.
\<close>

definition advance_handler :: "nat \<Rightarrow> daemon_server \<Rightarrow> daemon_server" where
  "advance_handler c s =
     (case sv_handlers s c of
        None \<Rightarrow> s
      | Some Handling \<Rightarrow> (close_connection c s)\<lparr>sv_handlers := (sv_handlers s)(c \<mapsto> Handled)\<rparr>
      | Some Handled \<Rightarrow> s\<lparr>sv_tokens := sv_tokens s - 1, sv_handlers := (sv_handlers s)(c \<mapsto> TokenFreed)\<rparr>
      | Some TokenFreed \<Rightarrow> (untrack c s)\<lparr>sv_handlers := (sv_handlers s)(c \<mapsto> Untracked)\<rparr>
      | Some Untracked \<Rightarrow> s\<lparr>sv_running := sv_running s - 1, sv_handlers := (sv_handlers s)(c := None)\<rparr>)"

inductive serve_step :: "daemon_server \<Rightarrow> daemon_server \<Rightarrow> bool" where
  serve_accept: "sv_phase s = Accepting \<Longrightarrow> sv_listening s \<Longrightarrow> c \<notin> sv_accepted s \<Longrightarrow> serve_step s (accept_connection c s)"
| serve_fails: "sv_phase s = Accepting \<Longrightarrow> serve_step s (leave_loop s)"
| serve_waits: "serve_step s (wait_handlers s)"
| serve_handler: "serve_step s (advance_handler c s)"
| serve_stop: "sv_handlers s c = Some Handling \<Longrightarrow> serve_step s (s\<lparr>sv_cancelled := True\<rparr>)"
| serve_context: "serve_step s (s\<lparr>sv_cancelled := True\<rparr>)"
| serve_unlisten: "sv_cancelled s \<Longrightarrow> serve_step s (s\<lparr>sv_listening := False\<rparr>)"

section \<open>The invariant\<close>

definition handlers_in :: "handler_phase set \<Rightarrow> (nat \<rightharpoonup> handler_phase) \<Rightarrow> nat set" where
  "handlers_in ps h = {c. \<exists>p \<in> ps. h c = Some p}"

definition serve_good :: "daemon_server \<Rightarrow> bool" where
  "serve_good s \<longleftrightarrow>
     finite (dom (sv_handlers s)) \<and>
     sv_tokens s = card (handlers_in {Handling, Handled} (sv_handlers s)) \<and> sv_tokens s \<le> maxDaemonConnections \<and>
     sv_running s = card (dom (sv_handlers s)) \<and>
     sv_connections s = handlers_in {Handling, Handled, TokenFreed} (sv_handlers s) \<and>
     dom (sv_handlers s) \<subseteq> sv_accepted s \<and>
     sv_accepted s \<subseteq> sv_closed s \<union> handlers_in {Handling} (sv_handlers s) \<and>
     (sv_phase s \<noteq> Accepting \<longrightarrow> handlers_in {Handling} (sv_handlers s) \<subseteq> sv_closed s \<and> sv_cancelled s) \<and>
     (\<forall>e. sv_phase s = Returned e \<longrightarrow> sv_handlers s = Map.empty)"

lemma handlers_in_finite: "finite (dom h) \<Longrightarrow> finite (handlers_in ps h)"
  by (rule finite_subset) (auto simp: handlers_in_def)

lemma handlers_in_update [simp]:
  "handlers_in ps (h(c \<mapsto> p)) = (if p \<in> ps then insert c (handlers_in ps h) else handlers_in ps h - {c})"
  "handlers_in ps (h(c := None)) = handlers_in ps h - {c}"
  by (auto simp: handlers_in_def split: if_split_asm)

lemma handlers_in_iff: "h c = Some p \<Longrightarrow> c \<in> handlers_in ps h \<longleftrightarrow> p \<in> ps"
  by (auto simp: handlers_in_def)

lemma handlers_in_new: "h c = None \<Longrightarrow> c \<notin> handlers_in ps h"
  by (auto simp: handlers_in_def)

lemma handlers_in_mono: "ps \<subseteq> qs \<Longrightarrow> handlers_in ps h \<subseteq> handlers_in qs h"
  by (auto simp: handlers_in_def)

lemma serve_good_accept:
  assumes "serve_good s" and "sv_phase s = Accepting" and "c \<notin> sv_accepted s"
  shows "serve_good (accept_connection c s)"
proof -
  have "sv_handlers s c = None" using assms by (auto simp: serve_good_def dom_def)
  then show ?thesis
    using assms handlers_in_new[of "sv_handlers s" c] handlers_in_finite[of "sv_handlers s"]
    by (auto simp: serve_good_def accept_connection_def track_def close_connection_def Let_def card_insert_if)
qed

lemma serve_good_leave: "serve_good s \<Longrightarrow> sv_phase s = Accepting \<Longrightarrow> serve_good (leave_loop s)"
  using handlers_in_mono[of "{Handling}" "{Handling, Handled, TokenFreed}" "sv_handlers s"]
  by (auto simp: serve_good_def leave_loop_def closeConnections_def)

lemma serve_good_wait: "serve_good s \<Longrightarrow> serve_good (wait_handlers s)"
  by (auto simp: serve_good_def wait_handlers_def handlers_in_def split: serve_phase.split)

lemma serve_good_handler:
  assumes "serve_good s"
  shows "serve_good (advance_handler c s)"
proof (cases "sv_handlers s c")
  case None
  with assms show ?thesis by (simp add: advance_handler_def)
next
  case (Some p)
  have member: "c \<in> handlers_in ps (sv_handlers s) \<longleftrightarrow> p \<in> ps" for ps
    using handlers_in_iff[of "sv_handlers s" c p] Some by simp
  note fin = handlers_in_finite[of "sv_handlers s"]
  have "c \<in> dom (sv_handlers s)" using Some by blast
  moreover have "sv_phase s \<noteq> Returned e" for e using assms Some by (auto simp: serve_good_def)
  ultimately show ?thesis
    using assms Some member fin
    by (cases p) (auto simp: serve_good_def advance_handler_def close_connection_def untrack_def card_insert_if
      card_Diff_singleton insert_absorb)
qed

lemma serve_good_step: "serve_good s \<Longrightarrow> serve_step s t \<Longrightarrow> serve_good t"
proof (erule serve_step.cases, goal_cases)
  case 1 then show ?case by (simp add: serve_good_accept)
next
  case 2 then show ?case by (simp add: serve_good_leave)
next
  case 3 then show ?case by (simp add: serve_good_wait)
next
  case 4 then show ?case by (simp add: serve_good_handler)
qed (auto simp: serve_good_def)

lemma serve_good_start: "serve_good listening_server"
  by (simp add: serve_good_def listening_server_def handlers_in_def)

interpretation serving: invariant_system "\<lambda>s. s = listening_server" serve_step serve_good
  by unfold_locales (auto intro: serve_good_start serve_good_step)

text \<open>
  C33. The server never serves more than 32 connections at once and leaks none: of the connections it
  accepted only those of running handlers, at most 32, are open; the tracked connections are those of
  the handlers not yet finished; and when it returns it was cancelled or its listener failed, no
  handler is left and every connection it ever accepted has been closed.
\<close>

theorem server_bounds_and_drains:
  assumes "serve_step\<^sup>*\<^sup>* listening_server s"
  shows "card (sv_accepted s - sv_closed s) \<le> 32 \<and>
    (\<forall>c \<in> sv_accepted s - sv_closed s. sv_handlers s c = Some Handling) \<and>
    sv_running s = card (dom (sv_handlers s)) \<and>
    (\<forall>e. sv_phase s = Returned e \<longrightarrow> sv_handlers s = Map.empty \<and> sv_connections s = {} \<and> sv_accepted s \<subseteq> sv_closed s)"
proof -
  have g: "serve_good s" using serving.run_good[OF assms] by simp
  let ?h = "sv_handlers s"
  have open_conns: "sv_accepted s - sv_closed s \<subseteq> handlers_in {Handling} ?h"
    using g by (auto simp: serve_good_def)
  also have "\<dots> \<subseteq> handlers_in {Handling, Handled} ?h" by (rule handlers_in_mono) simp
  finally have "card (sv_accepted s - sv_closed s) \<le> card (handlers_in {Handling, Handled} ?h)"
    using g by (intro card_mono handlers_in_finite) (auto simp: serve_good_def)
  moreover have "card (handlers_in {Handling, Handled} ?h) \<le> 32"
    using g by (auto simp: serve_good_def maxDaemonConnections_def)
  moreover have "sv_accepted s \<subseteq> sv_closed s" "sv_connections s = {}" if "sv_phase s = Returned e" for e
    using g that by (auto simp: serve_good_def handlers_in_def)
  ultimately show ?thesis
    using g open_conns by (auto simp: serve_good_def handlers_in_def)
qed

theorem server_bounds_and_drains_witness:
  "card (sv_accepted (accept_connection 7 listening_server) - sv_closed (accept_connection 7 listening_server)) \<le> 32 \<and>
   sv_running (accept_connection 7 listening_server) = 1"
proof -
  have "serve_step listening_server (accept_connection 7 listening_server)"
    by (rule serve_accept) (simp_all add: listening_server_def)
  from server_bounds_and_drains[OF r_into_rtranclp[of serve_step, OF this]]
  show ?thesis by (simp add: accept_connection_def listening_server_def maxDaemonConnections_def track_def Let_def)
qed

section \<open>The server returns\<close>

lemma handler_ends:
  assumes "sv_handlers s c = Some p"
  shows "\<exists>t. serve_step\<^sup>*\<^sup>* s t \<and> sv_handlers t = (sv_handlers s)(c := None) \<and> sv_phase t = sv_phase s \<and> sv_accepted t = sv_accepted s"
proof -
  have step: "serve_step\<^sup>*\<^sup>* s ((advance_handler c ^^ n) s)" for n
    by (induction n) (auto intro: serve_handler rtranclp.rtrancl_into_rtrancl)
  let ?n = "(case p of Handling \<Rightarrow> 4 | Handled \<Rightarrow> 3 | TokenFreed \<Rightarrow> 2 | Untracked \<Rightarrow> 1) :: nat"
  have "sv_handlers ((advance_handler c ^^ ?n) s) = (sv_handlers s)(c := None)"
      "sv_phase ((advance_handler c ^^ ?n) s) = sv_phase s" "sv_accepted ((advance_handler c ^^ ?n) s) = sv_accepted s"
    using assms by (cases p; simp add: eval_nat_numeral advance_handler_def close_connection_def untrack_def)+
  with step show ?thesis by blast
qed

lemma handlers_end:
  assumes "finite (dom (sv_handlers s))"
  shows "\<exists>t. serve_step\<^sup>*\<^sup>* s t \<and> sv_handlers t = Map.empty \<and> sv_phase t = sv_phase s \<and> sv_accepted t = sv_accepted s"
  using assms
proof (induction "card (dom (sv_handlers s))" arbitrary: s)
  case 0
  then have "sv_handlers s = Map.empty" by simp
  then show ?case by blast
next
  case (Suc n)
  then obtain c p where c: "sv_handlers s c = Some p" by (metis card_eq_0_iff dom_eq_empty_conv nat.distinct(1) not_None_eq)
  then obtain t where t: "serve_step\<^sup>*\<^sup>* s t" "sv_handlers t = (sv_handlers s)(c := None)" "sv_phase t = sv_phase s" "sv_accepted t = sv_accepted s"
    using handler_ends by blast
  have "c \<in> dom (sv_handlers s)" using c by blast
  then have "n = card (dom (sv_handlers t))" "finite (dom (sv_handlers t))"
    using Suc.hyps(2) Suc.prems by (simp_all add: t(2))
  from Suc.hyps(1)[OF this] t show ?case by (metis rtranclp_trans)
qed

text \<open>
  The server can always return: from every state it reaches outside its return, with any number of
  handlers at work, there is a way to a state in which it has returned, without an error when it had
  been cancelled, and with every connection it accepted closed.
\<close>

theorem server_can_return:
  assumes "serve_step\<^sup>*\<^sup>* listening_server s" and "sv_phase s \<in> {Accepting, Draining e}"
  shows "\<exists>t. serve_step\<^sup>*\<^sup>* s t \<and> sv_phase t = Returned (if sv_phase s = Accepting then \<not> sv_cancelled s else e) \<and>
    sv_accepted t = sv_accepted s \<and> sv_accepted t \<subseteq> sv_closed t"
proof -
  let ?e = "if sv_phase s = Accepting then \<not> sv_cancelled s else e"
  obtain d where d: "serve_step\<^sup>*\<^sup>* s d" "sv_phase d = Draining ?e" "sv_accepted d = sv_accepted s"
  proof (cases "sv_phase s = Accepting")
    case True
    then have "serve_step s (leave_loop s)" by (rule serve_fails)
    then show thesis by (rule that[OF r_into_rtranclp]) (simp_all add: leave_loop_def closeConnections_def True)
  next
    case False
    with assms(2) show thesis by (intro that[of s]) auto
  qed
  have "serve_good d" using serving.run_good[OF rtranclp_trans[OF assms(1) d(1)]] by simp
  then have "finite (dom (sv_handlers d))" by (simp add: serve_good_def)
  from handlers_end[OF this] obtain q where q: "serve_step\<^sup>*\<^sup>* d q" "sv_handlers q = Map.empty" "sv_phase q = Draining ?e"
      "sv_accepted q = sv_accepted s"
    using d by metis
  have "serve_good q" using serving.steps_good[OF q(1) \<open>serve_good d\<close>] .
  then have "sv_running q = 0" "sv_accepted q \<subseteq> sv_closed q" using q(2) by (auto simp: serve_good_def handlers_in_def)
  then have "sv_phase (wait_handlers q) = Returned ?e" "sv_accepted (wait_handlers q) = sv_accepted s"
      "sv_accepted (wait_handlers q) \<subseteq> sv_closed (wait_handlers q)"
    using q(3,4) by (simp_all add: wait_handlers_def)
  moreover have "serve_step\<^sup>*\<^sup>* s (wait_handlers q)"
    using rtranclp_trans[OF d(1) q(1)] serve_waits by (rule rtranclp.rtrancl_into_rtrancl)
  ultimately show ?thesis by blast
qed

theorem server_can_return_witness:
  "\<exists>t. serve_step\<^sup>*\<^sup>* (accept_connection 7 listening_server) t \<and> sv_phase t = Returned True \<and> 7 \<in> sv_closed t"
proof -
  have "serve_step listening_server (accept_connection 7 listening_server)"
    by (rule serve_accept) (simp_all add: listening_server_def)
  moreover have "sv_phase (accept_connection 7 listening_server) = Accepting" "\<not> sv_cancelled (accept_connection 7 listening_server)"
      "7 \<in> sv_accepted (accept_connection 7 listening_server)"
    by (simp_all add: accept_connection_def listening_server_def maxDaemonConnections_def track_def Let_def)
  ultimately show ?thesis
    using server_can_return[of "accept_connection 7 listening_server" True] by (auto simp: r_into_rtranclp subset_iff)
qed

end
