(* ===== verification/AppQueries.thy ===== *)
theory AppQueries
  imports McpServer LspManager LspRequests Compdb
begin

text \<open>
  The translation between registered projects and the language server (\<^verbatim>\<open>lspQueries\<close> and its helpers in
  \<^verbatim>\<open>internal/app/app.go\<close>): the cache directory of a project and the check that a session only uses it,
  the queries the MCP server asks, and the filters on clangd's answers, with how they agree with the
  server's own guard.
\<close>

section \<open>Results inside the project\<close>

text \<open>The query and the fragment of a parsed URL, which its record leaves out.\<close>

definition url_RawQuery :: "string \<Rightarrow> string" where
  "url_RawQuery raw = (case str_cut ''#'' raw of (u, _, _) \<Rightarrow> fst (snd (str_cut ''?'' u)))"

definition url_Fragment :: "string \<Rightarrow> string" where
  "url_Fragment raw = fst (snd (str_cut ''#'' raw))"

definition localFileURIPath :: "string \<Rightarrow> string \<Rightarrow> string option" where
  "localFileURIPath goos raw =
     (case url_parse raw of
        None \<Rightarrow> None
      | Some u \<Rightarrow>
          if \<not> equal_fold (url_Scheme u) ''file'' \<or> url_Host u \<noteq> '''' \<or> url_Path u = '''' \<or> url_RawQuery raw \<noteq> ''''
            \<or> url_Fragment raw \<noteq> '''' then None
          else let p = url_Path u;
                   path = from_slash (if goos = ''windows'' \<and> 3 \<le> length p \<and> p ! 0 = sep \<and> p ! 2 = CHR '':'' then tl p else p)
               in if is_abs path then Some path else None)"

text \<open>The climb to the nearest ancestor that resolves; \<open>missing\<close> has its newest element first.\<close>

function canonical_climb :: "safe_env \<Rightarrow> string \<Rightarrow> string list \<Rightarrow> string option" where
  "canonical_climb env current missing =
     (case EvalSymlinks (sf_paths env) current of
        Some resolved \<Rightarrow> Some (path_clean (foldl path_join2 resolved missing))
      | None \<Rightarrow>
          if sf_failure env current \<noteq> NotExist then None
          else if path_dir current = current then None
          else canonical_climb env (path_dir current) (path_base current # missing))"
  by pat_completeness auto
termination
  by (relation "measure (\<lambda>(env, current, missing). climb_measure current)") (auto intro: path_dir_measure)

declare canonical_climb.simps [simp del]

definition canonicalResultPath :: "safe_env \<Rightarrow> string \<Rightarrow> string option" where
  "canonicalResultPath env path =
     (case go_abs (sf_paths env) path of None \<Rightarrow> None | Some a \<Rightarrow> canonical_climb env (path_clean a) [])"

definition pathWithinRoot :: "string \<Rightarrow> string \<Rightarrow> bool" where
  "pathWithinRoot path root =
     (case path_rel root path of
        None \<Rightarrow> False
      | Some rel \<Rightarrow> rel \<noteq> ''..'' \<and> \<not> has_prefix rel (''..'' @ [sep]) \<and> \<not> is_abs rel)"

definition resultRoots :: "safe_env \<Rightarrow> Project \<Rightarrow> string list" where
  "resultRoots env p = List.map_filter (canonicalResultPath env) [path_dir (UProject p), eng_Root (proj_Engine p)]"

definition lspResultURIAllowedIn :: "safe_env \<Rightarrow> string list \<Rightarrow> string \<Rightarrow> bool" where
  "lspResultURIAllowedIn env rs raw =
     (case localFileURIPath runtimeGOOS raw of
        None \<Rightarrow> False
      | Some path \<Rightarrow> (case canonicalResultPath env path of None \<Rightarrow> False | Some c \<Rightarrow> list_ex (pathWithinRoot c) rs))"

definition lspResultURIAllowed :: "safe_env \<Rightarrow> Project \<Rightarrow> string \<Rightarrow> bool" where
  "lspResultURIAllowed env p raw = lspResultURIAllowedIn env (resultRoots env p) raw"

definition filterLSPSymbols :: "safe_env \<Rightarrow> Project \<Rightarrow> Symbol list \<Rightarrow> Symbol list" where
  "filterLSPSymbols env p items =
     (if items = [] then items
      else let rs = resultRoots env p in filter (\<lambda>v. lspResultURIAllowedIn env rs (loc_URI (sym_Location v))) items)"

definition filterLSPLocations :: "safe_env \<Rightarrow> Project \<Rightarrow> Location list \<Rightarrow> Location list" where
  "filterLSPLocations env p items =
     (if items = [] then items
      else let rs = resultRoots env p in filter (\<lambda>v. lspResultURIAllowedIn env rs (loc_URI v)) items)"

definition filterLSPCallItems :: "safe_env \<Rightarrow> Project \<Rightarrow> CallHierarchyItem list \<Rightarrow> CallHierarchyItem list" where
  "filterLSPCallItems env p items =
     (if items = [] then items
      else let rs = resultRoots env p in filter (\<lambda>v. lspResultURIAllowedIn env rs (ch_URI v)) items)"

definition call_allowed :: "safe_env \<Rightarrow> string list \<Rightarrow> CallHierarchyCall \<Rightarrow> bool" where
  "call_allowed env rs call \<longleftrightarrow>
     (call_From call \<noteq> None \<or> call_To call \<noteq> None) \<and>
     (case call_From call of None \<Rightarrow> True | Some i \<Rightarrow> lspResultURIAllowedIn env rs (ch_URI i)) \<and>
     (case call_To call of None \<Rightarrow> True | Some i \<Rightarrow> lspResultURIAllowedIn env rs (ch_URI i))"

definition filterLSPCalls :: "safe_env \<Rightarrow> Project \<Rightarrow> CallHierarchyCall list \<Rightarrow> CallHierarchyCall list" where
  "filterLSPCalls env p items =
     (if items = [] then items else let rs = resultRoots env p in filter (call_allowed env rs) items)"

section \<open>The cache of a project\<close>

text \<open>\<^verbatim>\<open>projectCache\<close>, below the user's cache directory; \<^verbatim>\<open>strings.Map\<close> replaces an invalid byte.\<close>

definition safe_rune :: "string \<Rightarrow> string" where
  "safe_rune r = (if \<not> valid_rune r then replacement_char else if r \<in> {[sep], [bslash], '':''} then ''_'' else r)"

definition projectCache :: "string option \<Rightarrow> string \<Rightarrow> string option" where
  "projectCache cache ident =
     map_option (\<lambda>root. path_join [root, ''soft-ue-index'', ''projects'', concat (map safe_rune (runes ident))]) cache"

definition equalClean :: "string \<Rightarrow> string \<Rightarrow> string \<Rightarrow> bool" where
  "equalClean goos a b =
     (if goos = ''windows'' then equal_fold (path_clean a) (path_clean b) else path_clean a = path_clean b)"

datatype cache_error = NoCacheRoot | CacheMismatch | CacheUnresolved | CacheEscapes | DatabaseEscapes

definition validateProjectCache :: "safe_env \<Rightarrow> string option \<Rightarrow> Project \<Rightarrow> (cache_error, unit) result" where
  "validateProjectCache env cache p =
     (case (projectCache cache (proj_ID p), cache) of
        (Some expected, Some user) \<Rightarrow>
          let cacheRoot = path_join [user, ''soft-ue-index'', ''projects''];
              expectedDatabase = path_join2 expected DatabaseName
          in if \<not> equalClean runtimeGOOS (CacheDir (proj_Generation p)) expected \<or>
               \<not> equalClean runtimeGOOS (CompilationDatabase (proj_Generation p)) expectedDatabase then Inl CacheMismatch
          else (case canonicalResultPath env expected of
              None \<Rightarrow> Inl CacheUnresolved
            | Some expectedResolved \<Rightarrow>
                (case canonicalResultPath env cacheRoot of
                   None \<Rightarrow> Inl CacheEscapes
                 | Some rootResolved \<Rightarrow>
                     if \<not> pathWithinRoot expectedResolved rootResolved then Inl CacheEscapes
                     else (case canonicalResultPath env expectedDatabase of
                         None \<Rightarrow> Inl DatabaseEscapes
                       | Some databaseResolved \<Rightarrow>
                           if pathWithinRoot databaseResolved expectedResolved then Inr () else Inl DatabaseEscapes)))
      | _ \<Rightarrow> Inl NoCacheRoot)"

section \<open>Queries\<close>

definition fileURI :: "string \<Rightarrow> string" where
  "fileURI path =
     (let p = to_slash path;
          q = (if 2 \<le> length p \<and> p ! 1 = CHR '':'' then CHR ''/'' # p else p)
      in url_String ''file'' q)"

text \<open>
  What the queries run in: paths, the user's cache directory, the manager's answer to a request for a
  client of a project, and the phase and message of its session.
\<close>

record query_env =
  qe_paths :: safe_env
  qe_cache :: "string option"
  qe_client :: "ProjectConfig \<Rightarrow> (go_error, lsp_peer) result"
  qe_state :: "string \<Rightarrow> string \<times> string"

definition lsp_config :: "Project \<Rightarrow> ProjectConfig" where
  "lsp_config p = \<lparr>cfg_ID = proj_ID p, cfg_Clangd = ClangdPath (proj_Toolchain p),
     cfg_CompilationDatabase = CompilationDatabase (proj_Generation p), cfg_CacheDir = CacheDir (proj_Generation p),
     cfg_RootURI = fileURI (path_dir (UProject p)), cfg_Threads = 0, cfg_IdleTimeout = 0, cfg_IndexGraceTimeout = 0\<rparr>"

fun cache_error_text :: "cache_error \<Rightarrow> string" where
  "cache_error_text NoCacheRoot = ''user cache directory''"
| "cache_error_text CacheMismatch = ''project cache does not match registered project''"
| "cache_error_text CacheUnresolved = ''project cache''"
| "cache_error_text CacheEscapes = ''project cache escapes user cache root''"
| "cache_error_text DatabaseEscapes = ''compilation database escapes project cache''"

definition query_client :: "query_env \<Rightarrow> Project \<Rightarrow> (go_error, lsp_peer) result" where
  "query_client qe p =
     (if ClangdPath (proj_Toolchain p) = '''' then Inl (plain_error ''clangd is not configured for project'')
      else case validateProjectCache (qe_paths qe) (qe_cache qe) p of
          Inl e \<Rightarrow> Inl (plain_error (cache_error_text e))
        | Inr _ \<Rightarrow> qe_client qe (lsp_config p))"

text \<open>
  A query with its client, and the projects whose client it releases: exactly the one it got, whatever
  the query returns.
\<close>

definition with_client :: "query_env \<Rightarrow> Project \<Rightarrow> (lsp_peer \<Rightarrow> (go_error, 'a) result) \<Rightarrow> (go_error, 'a) result \<times> string list" where
  "with_client qe p f = (case query_client qe p of Inl e \<Rightarrow> (Inl e, []) | Inr c \<Rightarrow> (f c, [proj_ID p]))"

definition wrapIndexBuildingTimeout :: "go_error \<Rightarrow> string \<Rightarrow> go_error" where
  "wrapIndexBuildingTimeout e phase =
     (if phase \<noteq> ''ready'' \<and> ErrDeadlineExceeded \<in> set (ge_is e)
      then \<lparr>ge_is = ErrIndexBuilding # ge_is e,
            ge_text = ''background index is still building (index phase is '' @ [CHR 0x22] @ phase @ [CHR 0x22] @ ''): '' @ ge_text e\<rparr>
      else e)"

definition query_Symbols :: "query_env \<Rightarrow> Project \<Rightarrow> string \<Rightarrow> int \<Rightarrow> (go_error, Symbol list) result \<times> string list" where
  "query_Symbols qe p s n =
     (case query_client qe p of
        Inl e \<Rightarrow> (Inl (wrapIndexBuildingTimeout e ''starting''), [])
      | Inr c \<Rightarrow>
          ((case WorkspaceSymbols c s n of
              Inl e \<Rightarrow> Inl (wrapIndexBuildingTimeout e (lp_phase c))
            | Inr items \<Rightarrow> Inr (filterLSPSymbols (qe_paths qe) p items)), [proj_ID p]))"

definition query_IndexState :: "query_env \<Rightarrow> Project \<Rightarrow> string \<times> string" where
  "query_IndexState qe p = qe_state qe (proj_ID p)"

definition position_of :: "TextPosition \<Rightarrow> TextDocumentPosition" where
  "position_of v = \<lparr>tdp_URI = fileURI (tp_Path v), tdp_Position = \<lparr>pos_Line = tp_Line v, pos_Character = tp_Character v\<rparr>\<rparr>"

definition query_Locations :: "query_env \<Rightarrow> Project \<Rightarrow> string \<Rightarrow> TextPosition \<Rightarrow> int
    \<Rightarrow> (go_error, Location list) result \<times> string list" where
  "query_Locations qe p kind v n =
     with_client qe p (\<lambda>c. map_sum id (filterLSPLocations (qe_paths qe) p)
       (if kind = ''definition'' then Definitions c (position_of v) n
        else if kind = ''references'' then ReferenceLocations c (position_of v) n
        else Implementations c (position_of v) n))"

definition query_DocumentSymbols :: "query_env \<Rightarrow> Project \<Rightarrow> string \<Rightarrow> int \<Rightarrow> (go_error, DocumentSymbol list) result \<times> string list" where
  "query_DocumentSymbols qe p path n = with_client qe p (\<lambda>c. request_DocumentSymbols c (fileURI path) n)"

definition query_Hover :: "query_env \<Rightarrow> Project \<Rightarrow> TextPosition \<Rightarrow> (go_error, HoverResult option) result \<times> string list" where
  "query_Hover qe p v = with_client qe p (\<lambda>c. map_sum id Some (request_HoverResult c (position_of v)))"

definition query_PrepareCallHierarchy :: "query_env \<Rightarrow> Project \<Rightarrow> TextPosition \<Rightarrow> (go_error, CallHierarchyItem list) result \<times> string list" where
  "query_PrepareCallHierarchy qe p v =
     with_client qe p (\<lambda>c. map_sum id (filterLSPCallItems (qe_paths qe) p) (request_PrepareCallHierarchy c (position_of v)))"

definition query_IncomingCalls :: "query_env \<Rightarrow> Project \<Rightarrow> CallHierarchyItem \<Rightarrow> (go_error, CallHierarchyCall list) result \<times> string list" where
  "query_IncomingCalls qe p i = with_client qe p (\<lambda>c. map_sum id (filterLSPCalls (qe_paths qe) p) (request_IncomingCalls c i))"

definition query_OutgoingCalls :: "query_env \<Rightarrow> Project \<Rightarrow> CallHierarchyItem \<Rightarrow> (go_error, CallHierarchyCall list) result \<times> string list" where
  "query_OutgoingCalls qe p i = with_client qe p (\<lambda>c. map_sum id (filterLSPCalls (qe_paths qe) p) (request_OutgoingCalls c i))"

text \<open>The queries as the MCP server's argument.\<close>

definition lspQueries :: "query_env \<Rightarrow> queries" where
  "lspQueries qe =
     \<lparr>q_Symbols = (\<lambda>p s n. fst (query_Symbols qe p s n)),
      q_Locations = (\<lambda>p k v n. fst (query_Locations qe p k v n)),
      q_DocumentSymbols = (\<lambda>p path n. fst (query_DocumentSymbols qe p path n)),
      q_Hover = (\<lambda>p v. fst (query_Hover qe p v)),
      q_PrepareCallHierarchy = (\<lambda>p v. fst (query_PrepareCallHierarchy qe p v)),
      q_IncomingCalls = (\<lambda>p i. fst (query_IncomingCalls qe p i)),
      q_OutgoingCalls = (\<lambda>p i. fst (query_OutgoingCalls qe p i)),
      q_IndexState = (\<lambda>p. Inr (query_IndexState qe p))\<rparr>"

section \<open>Canonical paths\<close>

text \<open>Where the climb succeeds it gives the registry's path identity.\<close>

lemma canonical_climb_resolves:
  "canonical_climb env current missing = Some r \<Longrightarrow> resolve_from (EvalSymlinks (sf_paths env)) path current missing = r"
proof (induction env current missing rule: canonical_climb.induct)
  case (1 env current missing)
  then show ?case
    by (subst resolve_from.simps) (auto simp: canonical_climb.simps[of env current] split: option.split_asm if_split_asm)
qed

lemma is_abs_dir:
  assumes "is_abs p"
  shows "is_abs (path_dir p)"
proof -
  obtain q where "p = sep # q" using assms by (cases p) auto
  then have "is_abs (rev (dropWhile (\<lambda>c. c \<noteq> sep) (rev p)))" by (simp add: dropWhile_append)
  then show ?thesis unfolding path_dir_def by (rule is_abs_clean)
qed

lemma canonical_climb_abs:
  "sound_symlinks env \<Longrightarrow> is_abs current \<Longrightarrow> canonical_climb env current missing = Some r \<Longrightarrow> is_abs r \<and> path_clean r = r"
proof (induction env current missing rule: canonical_climb.induct)
  case (1 env current missing)
  then show ?case
    by (auto simp: canonical_climb.simps[of env current] sound_symlinks_def intro: is_abs_dir foldl_join_is_abs is_abs_clean
        path_clean_idem split: option.split_asm if_split_asm)
qed

lemma canonicalResultPath_abs:
  "sound_symlinks env \<Longrightarrow> canonicalResultPath env p = Some r \<Longrightarrow> is_abs r \<and> path_clean r = r"
  using canonical_climb_abs[of env] go_abs_is_abs[of env p] is_abs_clean
  by (auto simp: canonicalResultPath_def split: option.split_asm)


lemma pathWithinRoot_rel: "pathWithinRoot p root = rel_inside (path_rel root p)"
  by (simp add: pathWithinRoot_def rel_inside_def split: option.split)

interpretation result_contains: containment pathWithinRoot
  by unfold_locales (simp add: pathWithinRoot_rel rel_inside_iff_prefix)

section \<open>The filter and the server's guard\<close>












section \<open>Caches are isolated\<close>

text \<open>Identifiers whose cache directory is named like them.\<close>

definition plain_id :: "string \<Rightarrow> bool" where
  "plain_id s \<longleftrightarrow> valid_utf8 s \<and> good_part s \<and> bslash \<notin> set s \<and> CHR '':'' \<notin> set s"

lemma plain_id_name: "plain_id s \<Longrightarrow> concat (map safe_rune (runes s)) = s"
proof -
  assume p: "plain_id s"
  have "safe_rune r = r" if "r \<in> set (runes s)" for r
  proof -
    have "set r \<subseteq> set s" using that concat_runes[of s] by (metis UN_upper set_concat)
    then have "r \<notin> {[sep], [bslash], '':''}" using p by (auto simp: plain_id_def good_part_def)
    moreover have "valid_rune r" using p that by (simp add: plain_id_def valid_utf8_def list_all_iff)
    ultimately show ?thesis by (simp add: safe_rune_def)
  qed
  then have "map safe_rune (runes s) = runes s" by (simp add: map_idI)
  then show ?thesis by simp
qed

lemma good_cache_names: "good_part ''soft-ue-index''" "good_part ''projects''" "good_part DatabaseName"
  by (simp_all add: good_part_def DatabaseName_def)

lemma projectCache_plain:
  "plain_id s \<Longrightarrow> projectCache (Some user) s = Some (path_join [user, ''soft-ue-index'', ''projects'', s])"
  by (simp add: projectCache_def plain_id_name)

lemma projectCache_parts:
  assumes "is_abs user" and "plain_id s" and "projectCache (Some user) s = Some c"
  shows "is_abs c" "path_clean c = c" "path_parts c = path_parts user @ [''soft-ue-index'', ''projects'', s]"
  using assms path_join_abs[OF assms(1), of "[''soft-ue-index'', ''projects'', s]"] good_cache_names
  by (auto simp: projectCache_plain plain_id_def)

text \<open>
  The caches of two projects are apart: for identifiers that are plain names the cache directory is
  a proper subdirectory of the projects directory, different projects have different directories, and
  neither contains the other.
\<close>

theorem project_caches_are_apart:
  assumes "is_abs user" and "plain_id s" and "plain_id t"
    and "projectCache (Some user) s = Some c" and "projectCache (Some user) t = Some d"
  shows "pathWithinRoot c (path_join [user, ''soft-ue-index'', ''projects'']) \<and>
    c \<noteq> path_join [user, ''soft-ue-index'', ''projects''] \<and>
    (c = d \<longleftrightarrow> s = t) \<and> (s \<noteq> t \<longrightarrow> \<not> pathWithinRoot c d)"
proof -
  note c = projectCache_parts[OF assms(1,2,4)] and d = projectCache_parts[OF assms(1,3,5)]
  let ?root = "path_join [user, ''soft-ue-index'', ''projects'']"
  have r: "is_abs ?root" "path_parts ?root = path_parts user @ [''soft-ue-index'', ''projects'']"
    using path_join_abs[OF assms(1), of "[''soft-ue-index'', ''projects'']"] good_cache_names by simp_all
  have "c \<noteq> ?root" using c(3) r(2) by auto
  moreover have "c = d \<longleftrightarrow> s = t"
  proof
    assume "c = d"
    then show "s = t" using c(3) d(3) by simp
  next
    assume "s = t"
    then show "c = d" using assms(4,5) by simp
  qed
  moreover have "pathWithinRoot c ?root" using c r by (simp add: result_contains.inside_iff)
  moreover have "\<not> pathWithinRoot c d" if "s \<noteq> t" using c d that by (simp add: result_contains.inside_iff)
  ultimately show ?thesis by blast
qed

theorem project_caches_are_apart_witness:
  "\<not> pathWithinRoot ''/c/soft-ue-index/projects/alpha'' ''/c/soft-ue-index/projects/alpha-2''"
proof -
  have p: "plain_id ''alpha''" "plain_id ''alpha-2''" by code_simp+
  have c: "projectCache (Some ''/c'') ''alpha'' = Some ''/c/soft-ue-index/projects/alpha''"
    "projectCache (Some ''/c'') ''alpha-2'' = Some ''/c/soft-ue-index/projects/alpha-2''" by code_simp+
  have "is_abs ''/c''" by simp
  from project_caches_are_apart[OF this p c] show ?thesis by simp
qed

text \<open>
  Other identifiers are not apart: a separator and a colon are replaced by the same byte, and the
  identifier of two dots names the directory above.
\<close>

theorem project_caches_can_meet:
  "projectCache (Some ''/c'') ''a:b'' = projectCache (Some ''/c'') ''a/b'' \<and>
   projectCache (Some ''/c'') ''..'' = Some ''/c/soft-ue-index''"
  by code_simp

text \<open>
  A session only starts in its project's own cache: when the check passes, the registered cache
  directory is the one computed from the project's identifier, what it resolves to lies under what the
  projects directory resolves to, and the database resolves to a place under that, whatever symbolic
  links are in between.
\<close>

theorem validateProjectCache_sound:
  assumes "sound_symlinks env" and "validateProjectCache env cache p = Inr ()"
  shows "\<exists>user expected root c d. cache = Some user \<and> projectCache cache (proj_ID p) = Some expected \<and>
    path_clean (CacheDir (proj_Generation p)) = path_clean expected \<and>
    path_clean (CompilationDatabase (proj_Generation p)) = path_clean (path_join2 expected DatabaseName) \<and>
    canonicalResultPath env (path_join [user, ''soft-ue-index'', ''projects'']) = Some root \<and>
    canonicalResultPath env expected = Some c \<and> prefix (path_parts root) (path_parts c) \<and>
    canonicalResultPath env (path_join2 expected DatabaseName) = Some d \<and> prefix (path_parts c) (path_parts d)"
proof -
  obtain user expected where e: "cache = Some user" "projectCache cache (proj_ID p) = Some expected"
    using assms(2) by (auto simp: validateProjectCache_def split: option.split_asm)
  obtain c root d where v: "equalClean runtimeGOOS (CacheDir (proj_Generation p)) expected"
      "equalClean runtimeGOOS (CompilationDatabase (proj_Generation p)) (path_join2 expected DatabaseName)"
      "canonicalResultPath env expected = Some c" "canonicalResultPath env (path_join [user, ''soft-ue-index'', ''projects'']) = Some root"
      "pathWithinRoot c root" "canonicalResultPath env (path_join2 expected DatabaseName) = Some d" "pathWithinRoot d c"
    using assms(2) unfolding validateProjectCache_def e(2) unfolding e(1)
    by (auto simp: Let_def split: option.split_asm if_split_asm)
  have "prefix (path_parts root) (path_parts c)" "prefix (path_parts c) (path_parts d)"
    using v(5,7) canonicalResultPath_abs[OF assms(1) v(3)] canonicalResultPath_abs[OF assms(1) v(4)] canonicalResultPath_abs[OF assms(1) v(6)]
    by (simp_all add: result_contains.inside_iff)
  with e v show ?thesis by (auto simp: equalClean_def runtimeGOOS_def)
qed

definition ready_project :: Project where
  "ready_project = (sample_project ''p'' ''/p/P.uproject'')
     \<lparr>proj_Toolchain := \<lparr>ClangdPath = ''/clangd'', ClangdVersion = ''''\<rparr>,
      proj_Generation := \<lparr>CompilationDatabase = ''/c/soft-ue-index/projects/p/compile_commands.json'',
        CacheDir = ''/c/soft-ue-index/projects/p'', LastFingerprint = ''f'', LastGeneratedAt = 1, InvalidationReason = ''''\<rparr>\<rparr>"

lemma ready_cache: "validateProjectCache sample_safe_env (Some ''/c'') ready_project = Inr ()"
  by code_simp

theorem validateProjectCache_sound_witness:
  "\<exists>root c. canonicalResultPath sample_safe_env (path_join [''/c'', ''soft-ue-index'', ''projects'']) = Some root \<and>
    canonicalResultPath sample_safe_env ''/c/soft-ue-index/projects/p'' = Some c \<and> prefix (path_parts root) (path_parts c)"
proof -
  have "projectCache (Some ''/c'') (proj_ID ready_project) = Some ''/c/soft-ue-index/projects/p''" by code_simp
  then show ?thesis
    using validateProjectCache_sound[OF sample_safe_env_sound ready_cache] by auto
qed

section \<open>From clangd to the client\<close>

lemma empty_uri_dropped: "\<not> lspResultURIAllowedIn env rs ''''"
proof -
  have "localFileURIPath runtimeGOOS '''' = None" by code_simp
  then show ?thesis by (simp add: lspResultURIAllowedIn_def)
qed

lemma filterLSPSymbols_set:
  "set (filterLSPSymbols env p items) = {v \<in> set items. lspResultURIAllowedIn env (resultRoots env p) (loc_URI (sym_Location v))}"
  by (auto simp: filterLSPSymbols_def Let_def)

lemma query_Symbols_Inr:
  "fst (query_Symbols qe p s n) = Inr found \<longleftrightarrow>
   (\<exists>c items. query_client qe p = Inr c \<and> WorkspaceSymbols c s n = Inr items \<and> found = filterLSPSymbols (qe_paths qe) p items)"
  by (auto simp: query_Symbols_def split: sum.split)

lemma WorkspaceSymbols_typed: "WorkspaceSymbols c query n = Inr vs \<Longrightarrow> list_all symbol_typed vs"
  using dec_structs_keep[OF Symbol_fields_keep zero_typed(3)]
  by (auto simp: WorkspaceSymbols_def limited_Inr decoded_Inr dec_symbols_def intro!: limit_items_keeps)

lemma faithful_sent:
  assumes "faithful_answer m ok candidates sent truncated" and "v \<in> set sent"
  shows "v \<in> set candidates \<and> ok v"
proof -
  obtain k where "sent = take k (filter ok (take (nat m) candidates))"
    using assms(1) by (auto simp: faithful_answer_def)
  with assms(2) have "v \<in> set (filter ok (take (nat m) candidates))" by (metis in_set_takeD)
  then show ?thesis by (auto dest: in_set_takeD)
qed

text \<open>
  C9. End to end, a symbol the MCP client is shown was found by the language server of the project it
  asked for: the project is registered, its session runs in the project's own cache, clangd returned
  the symbol for the query, it is well typed, and its file is one the server's guard allows.
\<close>

theorem served_symbols_come_from_clangd:
  assumes "s = New ps (Some (lspQueries qe)) opener limits (qe_paths qe) stat"
    and "SearchSymbols s key query maxItems pathPrefix = Inr r"
  shows "\<exists>p c n items. find_project s key = Inr p \<and> validateProjectCache (qe_paths qe) (qe_cache qe) p = Inr () \<and>
    qe_client qe (lsp_config p) = Inr c \<and> WorkspaceSymbols c query n = Inr items \<and>
    (\<forall>v \<in> set (ssr_Items r). v \<in> set items \<and> symbol_typed v \<and>
      lspResultURIAllowed (qe_paths qe) p (loc_URI (sym_Location v)) \<and> allowed (qe_paths qe) p (loc_URI (sym_Location v)))"
proof -
  have sv: "sv_queries s = Some (lspQueries qe)" "sv_paths s = qe_paths qe" by (simp_all add: assms(1) New_def)
  have "0 < MaxItems (sv_limits s)" by (simp add: assms(1) New_limits)
  from SearchSymbols_faithful[OF this assms(2)] obtain p q scope found where q: "find_project s key = Inr p" "sv_queries s = Some q"
      "q_Symbols q p query (search_size s scope maxItems) = Inr found"
      "faithful_answer (itemLimit s maxItems)
        (\<lambda>v. loc_URI (sym_Location v) = '''' \<or> allowed (sv_paths s) p (loc_URI (sym_Location v)))
        (if scope = '''' then found else filterSymbolsByPathScope (sv_paths s) scope found) (ssr_Items r) (ssr_Truncated r)"
    by blast
  then have f: "find_project s key = Inr p" "fst (query_Symbols qe p query (search_size s scope maxItems)) = Inr found"
      "faithful_answer (itemLimit s maxItems)
        (\<lambda>v. loc_URI (sym_Location v) = '''' \<or> allowed (qe_paths qe) p (loc_URI (sym_Location v)))
        (if scope = '''' then found else filterSymbolsByPathScope (qe_paths qe) scope found) (ssr_Items r) (ssr_Truncated r)"
  proof -
    have "q = lspQueries qe" using q(2) sv(1) by simp
    then have "q_Symbols q p query (search_size s scope maxItems) = fst (query_Symbols qe p query (search_size s scope maxItems))"
      by (simp add: lspQueries_def)
    with q(3) show "fst (query_Symbols qe p query (search_size s scope maxItems)) = Inr found" by simp
  qed (use q(1,4) in \<open>simp_all only: sv\<close>)
  then obtain c items where c: "query_client qe p = Inr c" "WorkspaceSymbols c query (search_size s scope maxItems) = Inr items"
      "found = filterLSPSymbols (qe_paths qe) p items"
    by (auto simp: query_Symbols_Inr)
  have client: "validateProjectCache (qe_paths qe) (qe_cache qe) p = Inr ()" "qe_client qe (lsp_config p) = Inr c"
    using c(1) by (auto simp: query_client_def split: if_split_asm sum.split_asm)
  have "v \<in> set items \<and> symbol_typed v \<and> lspResultURIAllowed (qe_paths qe) p (loc_URI (sym_Location v)) \<and>
      allowed (qe_paths qe) p (loc_URI (sym_Location v))" if v: "v \<in> set (ssr_Items r)" for v
  proof -
    let ?ok = "\<lambda>v. loc_URI (sym_Location v) = '''' \<or> allowed (qe_paths qe) p (loc_URI (sym_Location v))"
    have ok: "v \<in> set found" "?ok v"
      using faithful_sent[OF f(3) v] by (auto simp: filterSymbolsByPathScope_def split: if_split_asm)
    then have l: "v \<in> set items" "lspResultURIAllowedIn (qe_paths qe) (resultRoots (qe_paths qe) p) (loc_URI (sym_Location v))"
      by (auto simp: c(3) filterLSPSymbols_set)
    then have "loc_URI (sym_Location v) \<noteq> ''''" using empty_uri_dropped by metis
    with ok l WorkspaceSymbols_typed[OF c(2)] show ?thesis by (auto simp: lspResultURIAllowed_def list_all_iff)
  qed
  with f(1) client c(2) show ?thesis by blast
qed

text \<open>A clangd that knows two symbols outside the project and one inside.\<close>

definition sample_peer :: lsp_peer where
  "sample_peer = \<lparr>lp_open = (\<lambda>_. None),
     lp_call = (\<lambda>_ _. Inr (Some (JArr (map json_Symbol
       [sample_symbol ''file:///z/a.cpp'', sample_symbol ''file:///z/b.cpp'', sample_symbol ''file:///p/c.cpp''])))),
     lp_remarshal = json_encode, lp_phase = ''ready''\<rparr>"

definition sample_query_env :: query_env where
  "sample_query_env = \<lparr>qe_paths = sample_safe_env, qe_cache = Some ''/c'', qe_client = (\<lambda>_. Inr sample_peer),
     qe_state = (\<lambda>_. (''ready'', ''''))\<rparr>"

definition query_server :: mcp_server where
  "query_server = New (Some (Inr \<lparr>reg_Version = 1, Projects = [ready_project]\<rparr>)) (Some (lspQueries sample_query_env))
     (\<lambda>_. Inr sample_source) sample_limits (qe_paths sample_query_env) (\<lambda>_. None)"

lemma sample_search_all:
  "SearchSymbols query_server ''p'' ''f'' 5 '''' =
   Inr \<lparr>ssr_Items = [sample_symbol ''file:///p/c.cpp''], ssr_Truncated = False, ssr_IndexState = ''ready''\<rparr>"
  by code_simp

theorem served_symbols_come_from_clangd_witness:
  "symbol_typed (sample_symbol ''file:///p/c.cpp'') \<and>
   lspResultURIAllowed sample_safe_env ready_project ''file:///p/c.cpp''"
proof -
  have "find_project query_server ''p'' = Inr ready_project" by code_simp
  with served_symbols_come_from_clangd[OF query_server_def sample_search_all] show ?thesis
    by (auto simp: sample_symbol_def sample_query_env_def)
qed

text \<open>
  A search can hide that it was cut short.  The symbols outside the project are dropped after
  clangd's answer was cut to the requested number and before the server sees it, so the server counts
  too few symbols to notice: asked for one symbol, it answers that there is none and that nothing is
  missing, although the project has one.
\<close>

theorem search_hides_truncation:
  "SearchSymbols query_server ''p'' ''f'' 1 '''' = Inr \<lparr>ssr_Items = [], ssr_Truncated = False, ssr_IndexState = ''ready''\<rparr> \<and>
   (\<exists>items. WorkspaceSymbols sample_peer ''f'' 0 = Inr items \<and>
     (\<exists>v \<in> set items. allowed sample_safe_env ready_project (loc_URI (sym_Location v))))"
proof -
  have "WorkspaceSymbols sample_peer ''f'' 0 =
      Inr [sample_symbol ''file:///z/a.cpp'', sample_symbol ''file:///z/b.cpp'', sample_symbol ''file:///p/c.cpp'']"
    "allowed sample_safe_env ready_project (loc_URI (sym_Location (sample_symbol ''file:///p/c.cpp'')))"
    "SearchSymbols query_server ''p'' ''f'' 1 '''' = Inr \<lparr>ssr_Items = [], ssr_Truncated = False, ssr_IndexState = ''ready''\<rparr>"
    by code_simp+
  then show ?thesis by simp
qed

end
