(* ===== verification/Unreal.thy ===== *)
theory Unreal
  imports Json Registry
begin

text \<open>
  Discovery of a project (\<^verbatim>\<open>internal/unreal\<close>): its descriptor, the engine it is associated with and
  the editor target it is built by.  The file system, the JSON parser and the table of engine
  associations are arguments; Windows' registry is one such table.
\<close>

section \<open>Engines\<close>

record unreal_Version =
  uv_Major :: int
  uv_Minor :: int

record unreal_Engine =
  ue_Root :: string
  ue_Version :: unreal_Version
  ue_UnrealBuildToolPath :: string

datatype unreal_error =
    ErrPathRequired
  | ErrUnrealNormalize string
  | ErrReadBuildVersion
  | ErrMalformedEngine
  | ErrUnsupportedEngine int int
  | ErrUnrealBuildToolNotFound string
  | ErrInspectBuildTool string
  | ErrNotUProject string
  | ErrReadUProject
  | ErrMalformedProject
  | ErrAssociationNotFound string
  | ErrResolveAssociation string
  | ErrFindTargets
  | ErrInspectTarget string
  | ErrEditorTargetNotFound
  | ErrAmbiguousEditorTarget "string list"

datatype unreal_stat = UStatMissing | UStatFailed | UStatRegular | UStatOther

text \<open>
  \<open>un_read\<close> is \<^verbatim>\<open>os.ReadFile\<close> (\<open>None\<close> for its error) followed by the JSON parser (\<open>Some None\<close> for
  a text that is not JSON); \<open>un_glob\<close> is \<open>None\<close> for a malformed pattern.
\<close>

record unreal_env =
  un_paths :: path_env
  un_read :: "string \<Rightarrow> json option option"
  un_stat :: "string \<Rightarrow> unreal_stat"
  un_glob :: "string \<Rightarrow> string list option"

definition unreal_normalizePath :: "path_env \<Rightarrow> string \<Rightarrow> unreal_error + string" where
  "unreal_normalizePath env path =
     (if path = '''' then Inl ErrPathRequired
      else case go_abs env (path_clean path) of
          None \<Rightarrow> Inl (ErrUnrealNormalize path)
        | Some a \<Rightarrow>
            (case EvalSymlinks env a of
               Some resolved \<Rightarrow> Inr (path_clean resolved)
             | None \<Rightarrow> Inr a))"

definition buildVersion_fields :: "unreal_Version field_decoders" where
  "buildVersion_fields =
     [(''MajorVersion'', \<lambda>v r. map_option (\<lambda>n. r\<lparr>uv_Major := n\<rparr>) (dec_int v (uv_Major r))),
      (''MinorVersion'', \<lambda>v r. map_option (\<lambda>n. r\<lparr>uv_Minor := n\<rparr>) (dec_int v (uv_Minor r)))]"

definition build_version_path :: "string \<Rightarrow> string" where
  "build_version_path root = path_join [root, ''Engine'', ''Build'', ''Build.version'']"

definition ubt_path :: "string \<Rightarrow> string" where
  "ubt_path root = path_join [root, ''Engine'', ''Binaries'', ''DotNET'', ''UnrealBuildTool'', ''UnrealBuildTool.dll'']"

definition ValidateEngine :: "unreal_env \<Rightarrow> string \<Rightarrow> unreal_error + unreal_Engine" where
  "ValidateEngine env root =
     (case unreal_normalizePath (un_paths env) root of Inl e \<Rightarrow> Inl e | Inr normalizedRoot \<Rightarrow>
      case un_read env (build_version_path normalizedRoot) of
        None \<Rightarrow> Inl ErrReadBuildVersion
      | Some contents \<Rightarrow>
         (case Option.bind contents (\<lambda>j. dec_struct buildVersion_fields j \<lparr>uv_Major = 0, uv_Minor = 0\<rparr>) of
            None \<Rightarrow> Inl ErrMalformedEngine
          | Some version \<Rightarrow>
              if uv_Major version \<noteq> 5 \<or> uv_Minor version \<noteq> 8
              then Inl (ErrUnsupportedEngine (uv_Major version) (uv_Minor version))
              else Inr \<lparr>ue_Root = normalizedRoot, ue_Version = version, ue_UnrealBuildToolPath = ''''\<rparr>))"

definition validateUnrealBuildTool :: "unreal_env \<Rightarrow> string \<Rightarrow> unreal_error + unit" where
  "validateUnrealBuildTool env path =
     (case un_stat env path of
        UStatMissing \<Rightarrow> Inl (ErrUnrealBuildToolNotFound path)
      | UStatFailed \<Rightarrow> Inl (ErrInspectBuildTool path)
      | UStatOther \<Rightarrow> Inl (ErrUnrealBuildToolNotFound path)
      | UStatRegular \<Rightarrow> Inr ())"

definition discoverEngine :: "unreal_env \<Rightarrow> string \<Rightarrow> unreal_error + unreal_Engine" where
  "discoverEngine env root =
     (case ValidateEngine env root of Inl e \<Rightarrow> Inl e | Inr engine \<Rightarrow>
      case validateUnrealBuildTool env (ubt_path (ue_Root engine)) of Inl e \<Rightarrow> Inl e | Inr _ \<Rightarrow>
        Inr (engine\<lparr>ue_UnrealBuildToolPath := ubt_path (ue_Root engine)\<rparr>))"

section \<open>The editor target\<close>

text \<open>The matches that are regular files, in order; a match that vanished meanwhile is skipped.\<close>

fun regular_matches :: "(string \<Rightarrow> unreal_stat) \<Rightarrow> string list \<Rightarrow> unreal_error + string list" where
  "regular_matches stat [] = Inr []"
| "regular_matches stat (m # ms) =
     (case stat m of
        UStatMissing \<Rightarrow> regular_matches stat ms
      | UStatFailed \<Rightarrow> Inl (ErrInspectTarget m)
      | UStatOther \<Rightarrow> regular_matches stat ms
      | UStatRegular \<Rightarrow>
          (case regular_matches stat ms of Inl e \<Rightarrow> Inl e | Inr rs \<Rightarrow> Inr (m # rs)))"

definition target_name :: "string \<Rightarrow> string" where
  "target_name match = trim_suffix (path_base match) ''.Target.cs''"

definition unreal_project_name :: "string \<Rightarrow> string" where
  "unreal_project_name uproject = trim_suffix (path_base uproject) (path_ext uproject)"

definition exact_target :: "string \<Rightarrow> string" where
  "exact_target uproject =
     path_join [path_dir uproject, ''Source'', unreal_project_name uproject @ ''Editor.Target.cs'']"

definition discoverEditorTarget :: "unreal_env \<Rightarrow> string \<Rightarrow> unreal_error + string" where
  "discoverEditorTarget env uproject =
     (case un_glob env (path_join [path_dir uproject, ''Source'', ''*Editor.Target.cs'']) of
        None \<Rightarrow> Inl ErrFindTargets
      | Some found \<Rightarrow>
         (case regular_matches (un_stat env) found of
            Inl e \<Rightarrow> Inl e
          | Inr matches \<Rightarrow>
             (case find (\<lambda>m. equal_fold (path_clean m) (path_clean (exact_target uproject))) matches of
                Some m \<Rightarrow> Inr (target_name m)
              | None \<Rightarrow>
                  if matches = [] then Inl ErrEditorTargetNotFound
                  else if 1 < length matches then Inl (ErrAmbiguousEditorTarget matches)
                  else Inr (target_name (hd matches)))))"

section \<open>Projects\<close>

text \<open>
  The association source maps a name to a root (\<open>Inr (Some root)\<close>), to nothing (\<open>Inr None\<close>) or
  fails; a request may come without one.
\<close>

type_synonym association_source = "string \<Rightarrow> string + string option"

record ProjectRequest =
  ur_UProject :: string
  ur_EngineRoot :: string
  ur_AssociationSource :: "association_source option"

record unreal_Project =
  up_UProject :: string
  up_EngineAssociation :: string
  up_Engine :: unreal_Engine
  up_Version :: unreal_Version
  up_EditorTarget :: string

definition MapAssociationSource :: "(string \<rightharpoonup> string) \<Rightarrow> association_source" where
  "MapAssociationSource source association = Inr (source association)"

definition uproject_fields :: "string field_decoders" where
  "uproject_fields = [(''EngineAssociation'', dec_str)]"

definition resolve_engine_root :: "ProjectRequest \<Rightarrow> string \<Rightarrow> unreal_error + string" where
  "resolve_engine_root request association =
     (if ur_EngineRoot request \<noteq> '''' then Inr (ur_EngineRoot request)
      else case ur_AssociationSource request of
          None \<Rightarrow> Inl (ErrAssociationNotFound association)
        | Some source \<Rightarrow>
            if association = '''' then Inl (ErrAssociationNotFound association)
            else (case source association of
                Inl _ \<Rightarrow> Inl (ErrResolveAssociation association)
              | Inr None \<Rightarrow> Inl (ErrAssociationNotFound association)
              | Inr (Some root) \<Rightarrow>
                  if root = '''' then Inl (ErrAssociationNotFound association) else Inr root))"

definition unreal_Discover :: "unreal_env \<Rightarrow> ProjectRequest \<Rightarrow> unreal_error + unreal_Project" where
  "unreal_Discover env request =
     (case unreal_normalizePath (un_paths env) (ur_UProject request) of Inl e \<Rightarrow> Inl e | Inr uproject \<Rightarrow>
      if \<not> equal_fold (path_ext uproject) ''.uproject'' then Inl (ErrNotUProject uproject)
      else case un_read env uproject of
        None \<Rightarrow> Inl ErrReadUProject
      | Some contents \<Rightarrow>
         (case Option.bind contents (\<lambda>j. dec_struct uproject_fields j '''') of
            None \<Rightarrow> Inl ErrMalformedProject
          | Some association \<Rightarrow>
             (case resolve_engine_root request association of Inl e \<Rightarrow> Inl e | Inr engineRoot \<Rightarrow>
              case discoverEngine env engineRoot of Inl e \<Rightarrow> Inl e | Inr engine \<Rightarrow>
              case discoverEditorTarget env uproject of Inl e \<Rightarrow> Inl e | Inr target \<Rightarrow>
                Inr \<lparr>up_UProject = uproject, up_EngineAssociation = association, up_Engine = engine,
                     up_Version = ue_Version engine, up_EditorTarget = target\<rparr>)))"

section \<open>What discovery finds\<close>

lemma regular_matches_Inr:
  "regular_matches stat ms = Inr rs \<Longrightarrow>
   rs = filter (\<lambda>m. stat m = UStatRegular) ms \<and> (\<forall>m \<in> set ms. stat m \<noteq> UStatFailed)"
  by (induction ms arbitrary: rs) (auto split: unreal_stat.splits sum.splits)

text \<open>The editor target by its meaning: the file named after the project if there is one, else the only file.\<close>

definition target_spec :: "unreal_env \<Rightarrow> string \<Rightarrow> string list \<Rightarrow> string option" where
  "target_spec env uproject found =
     (let files = filter (\<lambda>m. un_stat env m = UStatRegular) found;
          named = filter (\<lambda>m. equal_fold (path_clean m) (path_clean (exact_target uproject))) files
      in if named \<noteq> [] then Some (target_name (hd named))
         else case files of [m] \<Rightarrow> Some (target_name m) | _ \<Rightarrow> None)"

lemma find_filter: "find P xs = (case filter P xs of [] \<Rightarrow> None | y # _ \<Rightarrow> Some y)"
  by (induction xs) auto

lemma discoverEditorTarget_iff:
  "discoverEditorTarget env uproject = Inr t \<longleftrightarrow>
   (\<exists>found. un_glob env (path_join [path_dir uproject, ''Source'', ''*Editor.Target.cs'']) = Some found \<and>
      (\<forall>m \<in> set found. un_stat env m \<noteq> UStatFailed) \<and> target_spec env uproject found = Some t)"
proof (cases "un_glob env (path_join [path_dir uproject, ''Source'', ''*Editor.Target.cs''])")
  case None
  then show ?thesis by (simp add: discoverEditorTarget_def)
next
  case (Some found)
  show ?thesis
  proof (cases "regular_matches (un_stat env) found")
    case (Inl e)
    have "regular_matches stat ms = Inl e \<Longrightarrow> \<exists>m \<in> set ms. stat m = UStatFailed" for stat ms
      by (induction ms) (auto split: unreal_stat.splits sum.splits)
    from this[OF Inl] show ?thesis using Some Inl by (auto simp: discoverEditorTarget_def)
  next
    case (Inr rs)
    note r = regular_matches_Inr[OF Inr]
    show ?thesis using Some Inr r
      by (auto simp: discoverEditorTarget_def target_spec_def find_filter Let_def
          split: list.splits)
  qed
qed

lemma target_spec_found:
  "target_spec env u found = Some t \<Longrightarrow> \<exists>m \<in> set found. un_stat env m = UStatRegular \<and> t = target_name m"
proof -
  assume t: "target_spec env u found = Some t"
  let ?files = "filter (\<lambda>m. un_stat env m = UStatRegular) found"
  obtain m where "m \<in> set ?files" "t = target_name m"
  proof (cases "filter (\<lambda>m. equal_fold (path_clean m) (path_clean (exact_target u))) ?files")
    case Nil
    with t obtain m where "?files = [m]" "t = target_name m"
      by (auto simp: target_spec_def Let_def split: list.splits)
    then show ?thesis using that by (metis list.set_intros(1))
  next
    case (Cons m ms)
    then have "set (m # ms) \<subseteq> set ?files" by (metis filter_is_subset)
    then have "m \<in> set ?files" by simp
    with t Cons that show ?thesis by (auto simp: target_spec_def Let_def)
  qed
  then show ?thesis by auto
qed

section \<open>Discovery is stable\<close>

lemma path_join2_clean: "is_abs d \<Longrightarrow> path_clean (path_join2 d r) = path_join2 d r"
  by (cases d; cases r) (auto simp: path_join_def path_clean_idem)

lemma unreal_normalizePath_Inr:
  assumes "sound_env env" "unreal_normalizePath env p = Inr q"
  shows "is_abs q" "path_clean q = q" "EvalSymlinks env q = None \<or> EvalSymlinks env q = Some q"
proof -
  from assms(2) obtain a where a: "go_abs env (path_clean p) = Some a"
    and q: "q = (case EvalSymlinks env a of Some r \<Rightarrow> path_clean r | None \<Rightarrow> a)"
    by (auto simp: unreal_normalizePath_def split: if_splits option.splits)
  from a assms(1) have abs: "is_abs a" "path_clean a = a"
    by (auto simp: go_abs_def sound_env_def is_abs_clean path_clean_idem path_join2_is_abs path_join2_clean
        split: if_splits)
  have ev: "sound_eval (EvalSymlinks env)" using assms(1) by (simp add: sound_env_def)
  note s = sound_evalD[OF ev abs(1)]
  show "is_abs q" "path_clean q = q" "EvalSymlinks env q = None \<or> EvalSymlinks env q = Some q"
    using abs s by (cases "EvalSymlinks env a"; simp add: q)+
qed

lemma unreal_normalizePath_again:
  assumes "sound_env env" "unreal_normalizePath env p = Inr q"
  shows "unreal_normalizePath env q = Inr q"
proof -
  note n = unreal_normalizePath_Inr[OF assms]
  from n(1) have "q \<noteq> ''''" by auto
  with n show ?thesis by (auto simp: unreal_normalizePath_def go_abs_def)
qed

lemma ValidateEngine_again:
  assumes "sound_env (un_paths env)" "ValidateEngine env root = Inr e"
  shows "ValidateEngine env (ue_Root e) = Inr e"
  using assms(2) unreal_normalizePath_again[OF assms(1), of root]
  by (auto simp: ValidateEngine_def split: sum.splits option.splits if_splits)

lemma discoverEngine_Inr:
  assumes "discoverEngine env root = Inr e"
  obtains e0 where "ValidateEngine env root = Inr e0" "e = e0\<lparr>ue_UnrealBuildToolPath := ubt_path (ue_Root e0)\<rparr>"
    "un_stat env (ubt_path (ue_Root e0)) = UStatRegular"
  using assms
  by (auto simp: discoverEngine_def validateUnrealBuildTool_def split: sum.splits unreal_stat.splits)

lemma discoverEngine_again:
  assumes "sound_env (un_paths env)" "discoverEngine env root = Inr e"
  shows "discoverEngine env (ue_Root e) = Inr e"
proof -
  from assms(2) show ?thesis
    by (rule discoverEngine_Inr)
      (simp add: discoverEngine_def validateUnrealBuildTool_def ValidateEngine_again[OF assms(1)])
qed

lemma ValidateEngine_version:
  "ValidateEngine env root = Inr e \<Longrightarrow>
   ue_Version e = \<lparr>uv_Major = 5, uv_Minor = 8\<rparr> \<and> unreal_normalizePath (un_paths env) root = Inr (ue_Root e) \<and>
   un_read env (build_version_path (ue_Root e)) \<noteq> None"
  by (auto simp: ValidateEngine_def split: sum.splits option.splits if_splits)

lemma unreal_Discover_Inr:
  assumes "unreal_Discover env req = Inr p"
  obtains contents root where
    "unreal_normalizePath (un_paths env) (ur_UProject req) = Inr (up_UProject p)"
    "equal_fold (path_ext (up_UProject p)) ''.uproject''"
    "un_read env (up_UProject p) = Some contents"
    "Option.bind contents (\<lambda>j. dec_struct uproject_fields j '''') = Some (up_EngineAssociation p)"
    "discoverEngine env root = Inr (up_Engine p)" "up_Version p = ue_Version (up_Engine p)"
    "discoverEditorTarget env (up_UProject p) = Inr (up_EditorTarget p)"
  using assms unfolding unreal_Discover_def by (auto split: sum.splits option.splits if_splits)

text \<open>The request that names what was discovered.\<close>

definition recorded_request :: "unreal_Project \<Rightarrow> ProjectRequest" where
  "recorded_request p =
     \<lparr>ur_UProject = up_UProject p, ur_EngineRoot = ue_Root (up_Engine p), ur_AssociationSource = None\<rparr>"

text \<open>
  C40. A discovered project is usable and stable: its descriptor is an absolute clean path with the
  project extension, its engine is a 5.8 whose UnrealBuildTool is a regular file, its editor target
  is named by a regular file among the targets found, and discovering again from the recorded
  descriptor and engine root, without any association table, gives the same project.
\<close>

theorem discovery_is_sound_and_stable:
  assumes "sound_env (un_paths env)" and "unreal_Discover env req = Inr p"
  shows "is_abs (up_UProject p) \<and> path_clean (up_UProject p) = up_UProject p \<and>
    equal_fold (path_ext (up_UProject p)) ''.uproject'' \<and>
    up_Version p = \<lparr>uv_Major = 5, uv_Minor = 8\<rparr> \<and> is_abs (ue_Root (up_Engine p)) \<and>
    un_stat env (ubt_path (ue_Root (up_Engine p))) = UStatRegular \<and>
    (\<exists>found m. un_glob env (path_join [path_dir (up_UProject p), ''Source'', ''*Editor.Target.cs'']) = Some found \<and>
       m \<in> set found \<and> un_stat env m = UStatRegular \<and> up_EditorTarget p = target_name m) \<and>
    unreal_Discover env (recorded_request p) = Inr p"
  using assms(2)
proof (rule unreal_Discover_Inr)
  fix contents root
  assume u: "unreal_normalizePath (un_paths env) (ur_UProject req) = Inr (up_UProject p)"
    and ext: "equal_fold (path_ext (up_UProject p)) ''.uproject''"
    and r: "un_read env (up_UProject p) = Some contents"
    and a: "Option.bind contents (\<lambda>j. dec_struct uproject_fields j '''') = Some (up_EngineAssociation p)"
    and e: "discoverEngine env root = Inr (up_Engine p)" and v: "up_Version p = ue_Version (up_Engine p)"
    and t: "discoverEditorTarget env (up_UProject p) = Inr (up_EditorTarget p)"
  note n = unreal_normalizePath_Inr[OF assms(1) u]
  from e obtain e0 where e0: "ValidateEngine env root = Inr e0" "ue_Root (up_Engine p) = ue_Root e0"
    "ue_Version (up_Engine p) = ue_Version e0" "un_stat env (ubt_path (ue_Root e0)) = UStatRegular"
    by (rule discoverEngine_Inr) auto
  note ev = ValidateEngine_version[OF e0(1)]
  have root: "is_abs (ue_Root e0)" using unreal_normalizePath_Inr(1)[OF assms(1)] ev by blast
  then have "ue_Root e0 \<noteq> ''''" by auto
  then have again: "unreal_Discover env (recorded_request p) = Inr p"
    using unreal_normalizePath_again[OF assms(1) u] ext r a discoverEngine_again[OF assms(1) e] t v e0(2)
    by (simp add: unreal_Discover_def recorded_request_def resolve_engine_root_def)
  have "\<exists>found m. un_glob env (path_join [path_dir (up_UProject p), ''Source'', ''*Editor.Target.cs'']) = Some found \<and>
       m \<in> set found \<and> un_stat env m = UStatRegular \<and> up_EditorTarget p = target_name m"
    using t unfolding discoverEditorTarget_iff by (blast dest: target_spec_found)
  with n ext v ev e0 root again show ?thesis by simp
qed

definition sample_unreal_env :: unreal_env where
  "sample_unreal_env =
     \<lparr>un_paths = plain_env,
      un_read = (\<lambda>f. if f = ''/p/G.uproject'' then Some (Some (JObj [(''EngineAssociation'', JStr ''UE_5.8'')]))
        else if f = ''/e/Engine/Build/Build.version''
          then Some (Some (JObj [(''MajorVersion'', JInt 5), (''MinorVersion'', JInt 8)])) else None),
      un_stat = (\<lambda>f. if f = ubt_path ''/e'' \<or> f = ''/p/Source/GEditor.Target.cs'' then UStatRegular else UStatMissing),
      un_glob = (\<lambda>_. Some [''/p/Source/GEditor.Target.cs''])\<rparr>"

definition sample_request :: ProjectRequest where
  "sample_request =
     \<lparr>ur_UProject = ''/p/./G.uproject'', ur_EngineRoot = '''',
      ur_AssociationSource = Some (MapAssociationSource [''UE_5.8'' \<mapsto> ''/e/''])\<rparr>"

definition sample_discovered :: unreal_Project where
  "sample_discovered =
     \<lparr>up_UProject = ''/p/G.uproject'', up_EngineAssociation = ''UE_5.8'',
      up_Engine = \<lparr>ue_Root = ''/e'', ue_Version = \<lparr>uv_Major = 5, uv_Minor = 8\<rparr>, ue_UnrealBuildToolPath = ubt_path ''/e''\<rparr>,
      up_Version = \<lparr>uv_Major = 5, uv_Minor = 8\<rparr>, up_EditorTarget = ''GEditor''\<rparr>"

lemma sample_discovery: "unreal_Discover sample_unreal_env sample_request = Inr sample_discovered"
  by code_simp

theorem discovery_is_sound_and_stable_witness:
  "unreal_Discover sample_unreal_env sample_request = Inr sample_discovered \<and>
   unreal_Discover sample_unreal_env (recorded_request sample_discovered) = Inr sample_discovered"
  using discovery_is_sound_and_stable[OF _ sample_discovery] sample_discovery plain_env_sound
  by (simp add: sample_unreal_env_def)

end
