(* ===== verification/AppCommands.thy ===== *)
theory AppCommands
  imports AppQueries Unreal Cli
begin

text \<open>
  The commands over the registry (\<^verbatim>\<open>internal/app/app.go\<close>): \<^verbatim>\<open>list\<close>, \<^verbatim>\<open>add\<close>, \<^verbatim>\<open>remove\<close>, \<^verbatim>\<open>status\<close> and
  \<^verbatim>\<open>generate\<close>, each with its calls of the store in the code's order.  Between two calls other processes
  may change the registry; what they do, the outcome of every system call and the generator are arguments.
\<close>

section \<open>Output\<close>

datatype app_error =
    StoreError registry_error
  | DiscoverError unreal_error
  | ProjectNotFound string
  | CacheDirUnknown
  | GenerationLock file_lock_error
  | GenerateError string
  | OutputError

text \<open>
  What a command leaves: its error, the text it handed to the output, and the registry's directory.
  An error of the writer is only noticed by \<^verbatim>\<open>writeJSON\<close>.
\<close>

record outcome =
  oc_error :: "app_error option"
  oc_text :: string
  oc_disk :: disk

definition failed :: "app_error \<Rightarrow> disk \<Rightarrow> outcome" where
  "failed e d = \<lparr>oc_error = Some e, oc_text = '''', oc_disk = d\<rparr>"

definition printed :: "string \<Rightarrow> disk \<Rightarrow> outcome" where
  "printed t d = \<lparr>oc_error = None, oc_text = t, oc_disk = d\<rparr>"

definition writeJSON :: "bool \<Rightarrow> json \<Rightarrow> disk \<Rightarrow> outcome" where
  "writeJSON ok j d =
     \<lparr>oc_error = (if ok then None else Some OutputError), oc_text = json_encode j @ [CHR 10], oc_disk = d\<rparr>"

text \<open>\<open>stamp\<close> is the RFC 3339 text of an instant, which depends on its time zone.\<close>

definition json_Generation :: "(int \<Rightarrow> string) \<Rightarrow> GenerationState \<Rightarrow> json" where
  "json_Generation stamp g =
     JObj [(''compilationDatabase'', JStr (CompilationDatabase g)), (''cacheDir'', JStr (CacheDir g)),
           (''lastFingerprint'', JStr (LastFingerprint g)), (''lastGeneratedAt'', JStr (stamp (LastGeneratedAt g))),
           (''invalidationReason'', JStr (InvalidationReason g))]"

definition json_Project :: "(int \<Rightarrow> string) \<Rightarrow> Project \<Rightarrow> json" where
  "json_Project stamp p =
     JObj [(''id'', JStr (proj_ID p)), (''name'', JStr (proj_Name p)), (''uproject'', JStr (UProject p)),
           (''target'', JStr (proj_Target p)), (''platform'', JStr (proj_Platform p)),
           (''configuration'', JStr (proj_Configuration p)), (''watchEnabled'', JBool (WatchEnabled p)),
           (''engine'', JObj [(''root'', JStr (eng_Root (proj_Engine p))), (''version'', JStr (eng_Version (proj_Engine p)))]),
           (''toolchain'', JObj [(''clangdPath'', JStr (ClangdPath (proj_Toolchain p))),
                                 (''clangdVersion'', JStr (ClangdVersion (proj_Toolchain p)))]),
           (''generation'', json_Generation stamp (proj_Generation p))]"

section \<open>The environment of a command\<close>

text \<open>
  \<open>ap_io i\<close> and \<open>ap_others i\<close> are the system calls of the \<open>i\<close>-th call of the store and what other
  processes did to the directory before it; \<open>ap_lock\<close> is the outcome of \<^verbatim>\<open>AcquireFileLock\<close>.
\<close>

record app_env =
  ap_codec :: codec
  ap_unreal :: unreal_env
  ap_associations :: association_source
  ap_io :: "nat \<Rightarrow> io"
  ap_others :: "nat \<Rightarrow> disk \<Rightarrow> disk"
  ap_stat :: "string \<Rightarrow> file_info option"
  ap_cache :: "string option"
  ap_lock :: "string \<Rightarrow> (file_lock_error, unit) result"
  ap_stamp :: "int \<Rightarrow> string"
  ap_written :: bool
  ap_Generate :: "Project \<Rightarrow> (string, Project) result"
  ap_GenerateScoped :: "Project \<Rightarrow> bool \<Rightarrow> (string, Project) result"

abbreviation ap_paths :: "app_env \<Rightarrow> path_env" where
  "ap_paths ae \<equiv> un_paths (ap_unreal ae)"

definition app_load :: "app_env \<Rightarrow> nat \<Rightarrow> disk \<Rightarrow> (registry_error, Registry) result \<times> disk" where
  "app_load ae i d = store_Load (ap_codec ae) (ap_paths ae) (ap_io ae i) (ap_others ae i d)"

definition app_update :: "app_env \<Rightarrow> nat \<Rightarrow> mutation \<Rightarrow> disk \<Rightarrow> (registry_error, unit) result \<times> disk" where
  "app_update ae i m d = store_Update (ap_codec ae) (ap_paths ae) (ap_io ae i) (Some m) (ap_others ae i d)"

section \<open>Projects of the registry\<close>

text \<open>The loops that act on the first project they look for.\<close>

fun change_first :: "(Project \<Rightarrow> bool) \<Rightarrow> (Project \<Rightarrow> Project list) \<Rightarrow> Project list \<Rightarrow> Project list option" where
  "change_first wanted f [] = None"
| "change_first wanted f (p # ps) =
     (if wanted p then Some (f p @ ps) else map_option ((#) p) (change_first wanted f ps))"

definition change_or_fail :: "string \<Rightarrow> (Project \<Rightarrow> bool) \<Rightarrow> (Project \<Rightarrow> Project list) \<Rightarrow> mutation" where
  "change_or_fail ident wanted f r =
     (case change_first wanted f (Projects r) of
        None \<Rightarrow> Inl (ErrMutate (''project not found: '' @ ident))
      | Some ps \<Rightarrow> Inr (r\<lparr>Projects := ps\<rparr>))"

definition goes_by :: "string \<Rightarrow> Project \<Rightarrow> bool" where
  "goes_by ident p \<longleftrightarrow> proj_ID p = ident \<or> proj_Name p = ident"

definition app_find :: "app_env \<Rightarrow> nat \<Rightarrow> string \<Rightarrow> disk \<Rightarrow> (app_error, Project) result \<times> disk" where
  "app_find ae i ident d =
     (case app_load ae i d of
        (Inl e, d') \<Rightarrow> (Inl (StoreError e), d')
      | (Inr r, d') \<Rightarrow>
          (case find (goes_by ident) (Projects r) of
             Some p \<Rightarrow> (Inr p, d')
           | None \<Rightarrow> (Inl (ProjectNotFound ident), d')))"

subsection \<open>Identifiers\<close>

definition stable_base :: "string \<Rightarrow> string" where
  "stable_base name =
     (let base = to_lower (replace_char (CHR '' '') ''-'' (trim_space name))
      in if base = '''' then ''project'' else base)"

definition stable_candidate :: "string \<Rightarrow> nat \<Rightarrow> string" where
  "stable_candidate base n = (if n = 1 then base else base @ ''-'' @ nat_digits n)"

definition taken :: "Project list \<Rightarrow> string \<Rightarrow> bool" where
  "taken projects ident \<longleftrightarrow> list_ex (\<lambda>p. equal_fold (proj_ID p) ident) projects"

text \<open>Different numbers give different identifiers, so a list of projects has finitely many of them.\<close>

lemma lower_digits: "to_lower (nat_digits n) = nat_digits n"
proof -
  have "lower_char c = c" if "is_digit c" for c
    using that by (auto simp: is_digit_def lower_char_def is_upper_def)
  then show ?thesis using nat_digits_all_digits[of n] by (auto simp: to_lower_def list_all_iff map_idI)
qed

lemma to_lower_Cons: "to_lower (c # s) = lower_char c # to_lower s"
  by (simp add: to_lower_def)

lemma stable_candidate_inj: "inj (\<lambda>n. to_lower (stable_candidate base n))"
proof (rule injI)
  fix m n
  assume "to_lower (stable_candidate base m) = to_lower (stable_candidate base n)"
  then show "m = n"
    by (cases "m = 1"; cases "n = 1") (auto simp: stable_candidate_def to_lower_Cons lower_digits)
qed

lemma finite_taken: "finite {n. taken projects (stable_candidate base n)}"
proof (rule finite_subset)
  show "{n. taken projects (stable_candidate base n)} \<subseteq>
    (\<lambda>n. to_lower (stable_candidate base n)) -` (\<lambda>p. to_lower (proj_ID p)) ` set projects"
    by (auto simp: taken_def list_ex_iff equal_fold_def) (metis (mono_tags) image_eqI)
  show "finite ((\<lambda>n. to_lower (stable_candidate base n)) -` (\<lambda>p. to_lower (proj_ID p)) ` set projects)"
    using stable_candidate_inj by (intro finite_vimageI) auto
qed

function stable_loop :: "Project list \<Rightarrow> string \<Rightarrow> nat \<Rightarrow> string" where
  "stable_loop projects base n =
     (if taken projects (stable_candidate base n) then stable_loop projects base (Suc n)
      else stable_candidate base n)"
  by pat_completeness auto
termination
proof (relation "measure (\<lambda>(ps, base, n). card {m. n \<le> m \<and> taken ps (stable_candidate base m)})")
  fix projects base n
  assume t: "taken projects (stable_candidate base n)"
  let ?later = "\<lambda>k. {m. k \<le> m \<and> taken projects (stable_candidate base m)}"
  have "finite (?later n)" by (rule finite_subset[OF _ finite_taken[of projects base]]) auto
  moreover have "n \<in> ?later n - ?later (Suc n)" "?later (Suc n) \<subseteq> ?later n" using t by auto
  then have "?later (Suc n) \<subset> ?later n" by blast
  ultimately have "card (?later (Suc n)) < card (?later n)" using psubset_card_mono by blast
  then show "((projects, base, Suc n), (projects, base, n))
      \<in> measure (\<lambda>(ps, base, n). card {m. n \<le> m \<and> taken ps (stable_candidate base m)})" by simp
qed simp

declare stable_loop.simps [simp del]

definition stableID :: "string \<Rightarrow> Project list \<Rightarrow> string" where
  "stableID name projects = stable_loop projects (stable_base name) 1"

section \<open>The commands\<close>

definition app_list :: "app_env \<Rightarrow> bool \<Rightarrow> disk \<Rightarrow> outcome" where
  "app_list ae asJSON d =
     (case app_load ae 0 d of
        (Inl e, d') \<Rightarrow> failed (StoreError e) d'
      | (Inr r, d') \<Rightarrow>
          if asJSON then writeJSON (ap_written ae) (JArr (map (json_Project (ap_stamp ae)) (Projects r))) d'
          else printed (concat (map (\<lambda>p. proj_ID p @ [CHR 9] @ proj_Name p @ [CHR 10]) (Projects r))) d')"

definition discovered_project :: "unreal_Project \<Rightarrow> Project" where
  "discovered_project u =
     \<lparr>proj_ID = '''', proj_Name = unreal_project_name (up_UProject u), UProject = up_UProject u,
      proj_Target = up_EditorTarget u, proj_Platform = ''Win64'', proj_Configuration = ''Development'',
      WatchEnabled = False,
      proj_Engine = \<lparr>eng_Root = ue_Root (up_Engine u),
        eng_Version = int_digits (uv_Major (up_Version u)) @ ''.'' @ int_digits (uv_Minor (up_Version u))\<rparr>,
      proj_Toolchain = \<lparr>ClangdPath = '''', ClangdVersion = ''''\<rparr>,
      proj_Generation = \<lparr>CompilationDatabase = '''', CacheDir = '''', LastFingerprint = '''', LastGeneratedAt = 0,
        InvalidationReason = ''''\<rparr>\<rparr>"

definition named_in :: "Registry \<Rightarrow> Project \<Rightarrow> Project" where
  "named_in r p = p\<lparr>proj_ID := stableID (proj_Name p) (Projects r)\<rparr>"

definition add_mutation :: "Project \<Rightarrow> mutation" where
  "add_mutation p r = Inr (r\<lparr>Projects := Projects r @ [named_in r p]\<rparr>)"

text \<open>The mutation leaves the identifier it chose in the captured variable \<^verbatim>\<open>p\<close>, which is then printed.\<close>

definition app_add :: "app_env \<Rightarrow> Command \<Rightarrow> disk \<Rightarrow> outcome" where
  "app_add ae c d =
     (case unreal_Discover (ap_unreal ae) \<lparr>ur_UProject = cmd_ProjectPath c, ur_EngineRoot = '''',
             ur_AssociationSource = Some (ap_associations ae)\<rparr> of
        Inl e \<Rightarrow> failed (DiscoverError e) d
      | Inr u \<Rightarrow>
         (case app_update ae 0 (add_mutation (discovered_project u)) d of
            (Inl e, d') \<Rightarrow> failed (StoreError e) d'
          | (Inr _, d') \<Rightarrow>
              let p = (case loadUnlocked (ap_codec ae) (ap_paths ae) (ap_io ae 0) (ap_others ae 0 d) of
                         Inr r \<Rightarrow> named_in r (discovered_project u)
                       | Inl _ \<Rightarrow> discovered_project u)
              in if cmd_JSON c then writeJSON (ap_written ae) (json_Project (ap_stamp ae) p) d'
                 else printed (''added '' @ proj_ID p @ [CHR 10]) d'))"

definition remove_mutation :: "string \<Rightarrow> mutation" where
  "remove_mutation name = change_or_fail name (goes_by name) (\<lambda>_. [])"

definition app_remove :: "app_env \<Rightarrow> Command \<Rightarrow> disk \<Rightarrow> outcome" where
  "app_remove ae c d =
     (case app_update ae 0 (remove_mutation (cmd_ProjectName c)) d of
        (Inl e, d') \<Rightarrow> failed (StoreError e) d'
      | (Inr _, d') \<Rightarrow>
          if cmd_JSON c then writeJSON (ap_written ae) (JObj [(''removed'', JStr (cmd_ProjectName c))]) d'
          else printed (''removed '' @ cmd_ProjectName c @ [CHR 10]) d')"

definition app_status :: "app_env \<Rightarrow> Command \<Rightarrow> disk \<Rightarrow> outcome" where
  "app_status ae c d =
     (case app_find ae 0 (cmd_ProjectName c) d of
        (Inl e, d') \<Rightarrow> failed e d'
      | (Inr p, d') \<Rightarrow>
          if cmd_JSON c then writeJSON (ap_written ae) (json_Project (ap_stamp ae) p) d'
          else printed (proj_ID p @ '': '' @ (if Registry.Ready (ap_stat ae) p then ''ready'' else ''not generated'') @ [CHR 10]) d')"

subsection \<open>Generation\<close>

definition store_project :: "string \<Rightarrow> Project \<Rightarrow> mutation" where
  "store_project ident p = change_or_fail ident (\<lambda>q. proj_ID q = ident) (\<lambda>_. [p])"

definition generation_lock_path :: "string \<Rightarrow> string" where
  "generation_lock_path cache = path_join2 cache ''generation.lock''"

definition withProjectGenerationLock :: "app_env \<Rightarrow> string \<Rightarrow> (disk \<Rightarrow> app_error option \<times> disk) \<Rightarrow>
    disk \<Rightarrow> app_error option \<times> disk" where
  "withProjectGenerationLock ae ident body d =
     (case projectCache (ap_cache ae) ident of
        None \<Rightarrow> (Some CacheDirUnknown, d)
      | Some cache \<Rightarrow>
         (case ap_lock ae (generation_lock_path cache) of
            Inl e \<Rightarrow> (Some (GenerationLock e), d)
          | Inr _ \<Rightarrow> body d))"

definition generate_under_lock :: "app_env \<Rightarrow> (Project \<Rightarrow> (string, Project) result) \<Rightarrow> string \<Rightarrow> disk \<Rightarrow>
    app_error option \<times> disk" where
  "generate_under_lock ae generator ident d =
     (case app_find ae 1 ident d of
        (Inl e, d1) \<Rightarrow> (Some e, d1)
      | (Inr p, d1) \<Rightarrow>
         (case generator p of
            Inl e \<Rightarrow> (Some (GenerateError e), d1)
          | Inr q \<Rightarrow>
             (case app_update ae 2 (store_project ident q) d1 of
                (Inl e, d2) \<Rightarrow> (Some (StoreError e), d2)
              | (Inr _, d2) \<Rightarrow> (None, d2))))"

definition chosen_generator :: "app_env \<Rightarrow> Command \<Rightarrow> Project \<Rightarrow> (string, Project) result" where
  "chosen_generator ae c p =
     (if cmd_EngineScope c \<noteq> '''' then ap_GenerateScoped ae p (cmd_EngineScope c = ''full'') else ap_Generate ae p)"

definition app_generate :: "app_env \<Rightarrow> Command \<Rightarrow> disk \<Rightarrow> outcome" where
  "app_generate ae c d =
     (case app_find ae 0 (cmd_ProjectName c) d of
        (Inl e, d0) \<Rightarrow> failed e d0
      | (Inr p, d0) \<Rightarrow>
         (case withProjectGenerationLock ae (proj_ID p) (generate_under_lock ae (chosen_generator ae c) (proj_ID p)) d0 of
            (Some e, d2) \<Rightarrow> failed e d2
          | (None, d2) \<Rightarrow>
              if cmd_JSON c then
                (case app_find ae 3 (proj_ID p) d2 of
                   (Inl e, d3) \<Rightarrow> failed e d3
                 | (Inr q, d3) \<Rightarrow> writeJSON (ap_written ae) (json_Project (ap_stamp ae) q) d3)
              else printed (''generated '' @ proj_ID p @ [CHR 10]) d2))"

section \<open>Identifiers are fresh\<close>

lemma stable_loop_least:
  "\<exists>m \<ge> n. stable_loop projects base n = stable_candidate base m \<and> \<not> taken projects (stable_candidate base m) \<and>
     (\<forall>k. n \<le> k \<longrightarrow> k < m \<longrightarrow> taken projects (stable_candidate base k))"
proof (induction projects base n rule: stable_loop.induct)
  case (1 projects base n)
  show ?case
  proof (cases "taken projects (stable_candidate base n)")
    case False
    then show ?thesis by (subst stable_loop.simps) (auto intro: exI[of _ n])
  next
    case True
    from 1[OF True] obtain m where m: "Suc n \<le> m" "stable_loop projects base (Suc n) = stable_candidate base m"
      "\<not> taken projects (stable_candidate base m)" "\<forall>k. Suc n \<le> k \<longrightarrow> k < m \<longrightarrow> taken projects (stable_candidate base k)"
      by blast
    with True have "\<forall>k. n \<le> k \<longrightarrow> k < m \<longrightarrow> taken projects (stable_candidate base k)"
      by (metis Suc_leI le_neq_implies_less)
    with True m show ?thesis by (subst stable_loop.simps) (auto intro!: exI[of _ m])
  qed
qed

text \<open>As many candidates are taken as there are projects at most, so the number stays small.\<close>

lemma taken_at_most:
  assumes "\<forall>k. 1 \<le> k \<longrightarrow> k < m \<longrightarrow> taken projects (stable_candidate base k)"
  shows "m - 1 \<le> length projects"
proof -
  let ?f = "\<lambda>n. to_lower (stable_candidate base n)"
  have "?f ` {1..<m} \<subseteq> (\<lambda>p. to_lower (proj_ID p)) ` set projects"
    using assms by (auto simp: taken_def list_ex_iff equal_fold_def) (metis (mono_tags) image_eqI)
  then have "card (?f ` {1..<m}) \<le> card ((\<lambda>p. to_lower (proj_ID p)) ` set projects)"
    by (intro card_mono) auto
  also have "\<dots> \<le> card (set projects)" by (rule card_image_le) simp
  also have "\<dots> \<le> length projects" by (rule card_length)
  finally show ?thesis using stable_candidate_inj[of base] by (simp add: card_image inj_on_subset)
qed

lemma stable_candidate_not_Nil: "base \<noteq> '''' \<Longrightarrow> stable_candidate base n \<noteq> ''''"
  by (simp add: stable_candidate_def)

lemma stableID_candidate:
  "\<exists>n \<ge> 1. stableID name projects = stable_candidate (stable_base name) n \<and>
     \<not> taken projects (stable_candidate (stable_base name) n) \<and>
     (\<forall>k. 1 \<le> k \<longrightarrow> k < n \<longrightarrow> taken projects (stable_candidate (stable_base name) k))"
  unfolding stableID_def by (rule stable_loop_least)

lemma stableID_fresh: "\<not> taken projects (stableID name projects)" "stableID name projects \<noteq> ''''"
proof -
  have "stable_base name \<noteq> ''''" by (simp add: stable_base_def Let_def)
  with stableID_candidate[of name projects] show "\<not> taken projects (stableID name projects)" "stableID name projects \<noteq> ''''"
    by (metis stable_candidate_not_Nil)+
qed

text \<open>
  The identifier given to a new project is the first free one of \<^verbatim>\<open>name\<close>, \<^verbatim>\<open>name-2\<close>, \<^verbatim>\<open>name-3\<close>, ...:
  it is not empty, differs from every registered identifier even up to case, all smaller numbers
  are taken, and it is found after at most one try more than there are projects.
\<close>

theorem stableID_is_first_free:
  "\<exists>n. 1 \<le> n \<and> n \<le> length projects + 1 \<and> stableID name projects = stable_candidate (stable_base name) n \<and>
     stableID name projects \<noteq> '''' \<and>
     filter (\<lambda>p. equal_fold (proj_ID p) (stableID name projects)) projects = [] \<and>
     filter (\<lambda>k. \<not> taken projects (stable_candidate (stable_base name) k)) [1..<n] = []"
proof -
  obtain n where n: "n \<ge> 1" "stableID name projects = stable_candidate (stable_base name) n"
    "\<forall>k. 1 \<le> k \<longrightarrow> k < n \<longrightarrow> taken projects (stable_candidate (stable_base name) k)"
    using stableID_candidate by blast
  have "\<not> taken projects (stableID name projects)" "stableID name projects \<noteq> ''''" by (rule stableID_fresh)+
  with n taken_at_most[OF n(3)] show ?thesis
    by (intro exI[of _ n]) (auto simp: taken_def list_ex_iff filter_empty_conv)
qed

section \<open>What a committed change leaves alone\<close>

text \<open>The projects of a loaded registry are their own normal forms, so storing them again changes nothing.\<close>

definition settled :: "path_env \<Rightarrow> Project list \<Rightarrow> bool" where
  "settled env ps \<longleftrightarrow> list_all (\<lambda>p. normalize_project env p = Inr p) ps"

lemma settled_simps [simp]:
  "settled env []" "settled env (p # ps) \<longleftrightarrow> normalize_project env p = Inr p \<and> settled env ps"
  "settled env (ps @ qs) \<longleftrightarrow> settled env ps \<and> settled env qs"
  by (simp_all add: settled_def)

lemma normalize_projects_pointwise:
  "normalize_projects env ids paths ps = Inr qs \<Longrightarrow> list_all2 (\<lambda>p q. normalize_project env p = Inr q) ps qs"
proof (induction ps arbitrary: ids paths qs)
  case (Cons p ps)
  then show ?case unfolding normalize_projects_Cons by auto
qed simp

lemma normalized_settled:
  assumes "sound_env env" and "list_all2 (\<lambda>p q. normalize_project env p = Inr q) ps qs"
  shows "settled env qs"
  using assms(2)
proof (induction rule: list_all2_induct)
  case (Cons p ps q qs)
  with normalize_project_idem[OF assms(1) Cons.hyps(1)] show ?case by simp
qed simp

lemma loaded_settled:
  assumes "sound_env env" and "loadUnlocked cd env sys d = Inr r"
  shows "settled env (Projects r)"
proof (cases "disk_registry d")
  case None
  with assms(2) show ?thesis by (auto simp: loadUnlocked_def)
next
  case (Some contents)
  with assms(2) obtain r0 where "normalizeAndValidate env r0 = Inr r"
    by (auto simp: loadUnlocked_def split: if_splits option.splits)
  then obtain ps where "normalize_projects env {} {} ps = Inr (Projects r)"
    by (auto simp: normalizeAndValidate_Inr)
  from normalized_settled[OF assms(1) normalize_projects_pointwise[OF this]] show ?thesis .
qed

lemma settled_unchanged:
  "settled env ps \<Longrightarrow> list_all2 (\<lambda>p q. normalize_project env p = Inr q) ps qs \<Longrightarrow> qs = ps"
proof (induction ps arbitrary: qs)
  case (Cons p ps)
  then show ?case by (cases qs) auto
qed simp

lemma change_first_Some:
  "change_first wanted f xs = Some ys \<longleftrightarrow>
   (\<exists>ps q qs. xs = ps @ q # qs \<and> wanted q \<and> (\<forall>p \<in> set ps. \<not> wanted p) \<and> ys = ps @ f q @ qs)"
proof (induction xs arbitrary: ys)
  case (Cons x xs)
  show ?case
  proof (cases "wanted x")
    case True
    then show ?thesis by (auto simp: Cons_eq_append_conv intro: exI[of _ "[]"])
  next
    case False
    have right: "(\<exists>ps q qs. x # xs = ps @ q # qs \<and> wanted q \<and> (\<forall>p \<in> set ps. \<not> wanted p) \<and> ys = ps @ f q @ qs) \<longleftrightarrow>
      (\<exists>zs ps q qs. xs = ps @ q # qs \<and> wanted q \<and> (\<forall>p \<in> set ps. \<not> wanted p) \<and> zs = ps @ f q @ qs \<and> ys = x # zs)"
      (is "?l \<longleftrightarrow> ?r")
    proof
      assume ?l
      then obtain ps q qs where l: "x # xs = ps @ q # qs" "wanted q" "\<forall>p \<in> set ps. \<not> wanted p" "ys = ps @ f q @ qs"
        by blast
      with False obtain ps' where "ps = x # ps'" by (cases ps) auto
      with l show ?r by auto
    next
      assume ?r
      then obtain ps q qs where "xs = ps @ q # qs" "wanted q" "\<forall>p \<in> set ps. \<not> wanted p" "ys = x # ps @ f q @ qs"
        by blast
      with False show ?l by (intro exI[of _ "x # ps"] exI[of _ q] exI[of _ qs]) simp
    qed
    have left: "change_first wanted f (x # xs) = Some ys \<longleftrightarrow> (\<exists>zs. ys = x # zs \<and> change_first wanted f xs = Some zs)"
      using False by auto
    show ?thesis unfolding left right Cons.IH by blast
  qed
qed simp

lemma normalize_app:
  assumes "list_all2 (\<lambda>p q. normalize_project env p = Inr q) (ps @ fs @ qs) rs" "settled env ps" "settled env qs"
  obtains gs where "rs = ps @ gs @ qs" "list_all2 (\<lambda>p q. normalize_project env p = Inr q) fs gs"
proof -
  from assms(1) obtain ps' fs' qs' where "rs = ps' @ fs' @ qs'"
    "list_all2 (\<lambda>p q. normalize_project env p = Inr q) ps ps'"
    "list_all2 (\<lambda>p q. normalize_project env p = Inr q) fs fs'"
    "list_all2 (\<lambda>p q. normalize_project env p = Inr q) qs qs'"
    by (auto simp: list_all2_append1)
  with settled_unchanged[OF assms(2)] settled_unchanged[OF assms(3)] that show ?thesis by blast
qed

lemma change_value:
  assumes "settled env (Projects r)" and "update_value env (change_or_fail ident wanted f) r = Inr r'"
  obtains ps q qs gs where "Projects r = ps @ q # qs" "wanted q" "\<forall>p \<in> set ps. \<not> wanted p"
    "list_all2 (\<lambda>p q. normalize_project env p = Inr q) (f q) gs" "r' = r\<lparr>Projects := ps @ gs @ qs\<rparr>"
proof -
  from assms(2) obtain xs where x: "change_first wanted f (Projects r) = Some xs"
    and n: "normalizeAndValidate env (r\<lparr>Projects := xs\<rparr>) = Inr r'"
    by (auto simp: update_value_def change_or_fail_def split: option.splits)
  from x obtain ps q qs where p: "Projects r = ps @ q # qs" "wanted q" "\<forall>p \<in> set ps. \<not> wanted p" "xs = ps @ f q @ qs"
    unfolding change_first_Some by blast
  from n obtain zs where z: "normalize_projects env {} {} xs = Inr zs" "r' = r\<lparr>Projects := zs\<rparr>"
    by (auto simp: normalizeAndValidate_Inr)
  have "settled env ps" "settled env qs" using assms(1) p(1) by simp_all
  with normalize_projects_pointwise[OF z(1)] p(4) obtain gs where "zs = ps @ gs @ qs"
    "list_all2 (\<lambda>p q. normalize_project env p = Inr q) (f q) gs"
    using normalize_app by metis
  with that p z(2) show ?thesis by blast
qed

section \<open>The calls of the store\<close>

lemma app_load_Inr:
  assumes "app_load ae i d = (Inr r, d')" and "quiet (ap_others ae i d)"
  shows "loadUnlocked (ap_codec ae) (ap_paths ae) (ap_io ae i) (ap_others ae i d) = Inr r"
    "disk_registry d' = disk_registry (ap_others ae i d)" "quiet d'"
  using assms by (auto simp: app_load_def store_Load_def with_lock_def quiet_def split: if_splits sum.splits prod.splits)

lemma app_load_Inl:
  "app_load ae i d = (Inl e, d') \<Longrightarrow> disk_registry d' = disk_registry (ap_others ae i d)"
  by (auto simp: app_load_def store_Load_def with_lock_def split: if_splits sum.splits prod.splits)

lemma app_update_Inr:
  assumes "app_update ae i m d = (Inr u, d')" and "quiet (ap_others ae i d)"
  obtains r r' where "loadUnlocked (ap_codec ae) (ap_paths ae) (ap_io ae i) (ap_others ae i d) = Inr r"
    "update_value (ap_paths ae) m r = Inr r'" "valid_registry r'"
    "disk_registry d' = Some (codec_encode (ap_codec ae) r')" "quiet d'"
  using store_Update_cases[OF assms(2), of "ap_codec ae" "ap_paths ae" "ap_io ae i" "Some m" "Inr u" d'] assms(1)
  by (auto simp: app_update_def dest: update_value_valid)

lemma app_update_Inl:
  assumes "app_update ae i m d = (Inl e, d')" and "quiet (ap_others ae i d)"
  shows "disk_registry d' = disk_registry (ap_others ae i d)" "quiet d'"
  using store_Update_cases[OF assms(2), of "ap_codec ae" "ap_paths ae" "ap_io ae i" "Some m" "Inl e" d'] assms(1)
  by (auto simp: app_update_def)

lemma app_find_Inr:
  assumes "app_find ae i ident d = (Inr p, d')" and "quiet (ap_others ae i d)"
  obtains r where "loadUnlocked (ap_codec ae) (ap_paths ae) (ap_io ae i) (ap_others ae i d) = Inr r"
    "find (goes_by ident) (Projects r) = Some p" "quiet d'" "disk_registry d' = disk_registry (ap_others ae i d)"
  using assms app_load_Inr[of ae i d _ d']
  by (auto simp: app_find_def split: sum.splits prod.splits option.splits)

lemma failed_simps [simp]: "oc_error (failed e d) = Some e" "oc_disk (failed e d) = d" "oc_text (failed e d) = ''''"
  by (simp_all add: failed_def)

lemma printed_simps [simp]: "oc_error (printed t d) = None" "oc_disk (printed t d) = d" "oc_text (printed t d) = t"
  by (simp_all add: printed_def)

lemma writeJSON_simps [simp]:
  "oc_error (writeJSON ok j d) = None \<longleftrightarrow> ok" "oc_disk (writeJSON ok j d) = d" "oc_text (writeJSON ok j d) = json_encode j @ [CHR 10]"
  by (simp_all add: writeJSON_def)

section \<open>The commands do what they say\<close>

text \<open>What other processes do to the registry leaves it unlocked and without a temporary file.\<close>

definition polite :: "app_env \<Rightarrow> bool" where
  "polite ae \<longleftrightarrow> (\<forall>i d. quiet d \<longrightarrow> quiet (ap_others ae i d))"

lemma politeD: "polite ae \<Longrightarrow> quiet d \<Longrightarrow> quiet (ap_others ae i d)"
  by (simp add: polite_def)

text \<open>What the \<open>i\<close>-th call of the store finds in the directory \<open>d\<close>.\<close>

definition registry_at :: "app_env \<Rightarrow> nat \<Rightarrow> disk \<Rightarrow> Registry \<Rightarrow> bool" where
  "registry_at ae i d r \<longleftrightarrow>
     loadUnlocked (ap_codec ae) (ap_paths ae) (ap_io ae i) (ap_others ae i d) = Inr r"

lemma registry_at_settled: "sound_env (ap_paths ae) \<Longrightarrow> registry_at ae i d r \<Longrightarrow> settled (ap_paths ae) (Projects r)"
  unfolding registry_at_def by (rule loaded_settled)

text \<open>
  \<^verbatim>\<open>remove\<close> drops one project: when it succeeds, the file is the registry that was there with the
  first project of that identifier or name left out, every other entry unchanged and in its place.
\<close>

theorem remove_drops_one_project:
  assumes "sound_env (ap_paths ae)" and "polite ae" and "quiet d"
    and "oc_error (app_remove ae c d) = None"
  shows "\<exists>r ps q qs. registry_at ae 0 d r \<and> Projects r = ps @ q # qs \<and> goes_by (cmd_ProjectName c) q \<and>
    find (goes_by (cmd_ProjectName c)) ps = None \<and>
    disk_registry (oc_disk (app_remove ae c d)) = Some (codec_encode (ap_codec ae) (r\<lparr>Projects := ps @ qs\<rparr>))"
proof -
  let ?m = "remove_mutation (cmd_ProjectName c)"
  obtain d' where u: "app_update ae 0 ?m d = (Inr (), d')" and d': "oc_disk (app_remove ae c d) = d'"
    using assms(4) by (auto simp: app_remove_def split: prod.splits sum.splits if_splits)
  from u politeD[OF assms(2,3)] show ?thesis
  proof (rule app_update_Inr)
    fix r r'
    assume r: "loadUnlocked (ap_codec ae) (ap_paths ae) (ap_io ae 0) (ap_others ae 0 d) = Inr r"
      and v: "update_value (ap_paths ae) ?m r = Inr r'" and "valid_registry r'" "quiet d'"
      and stored: "disk_registry d' = Some (codec_encode (ap_codec ae) r')"
    from loaded_settled[OF assms(1) r] v[unfolded remove_mutation_def] obtain ps q qs gs where
      "Projects r = ps @ q # qs" "goes_by (cmd_ProjectName c) q" "\<forall>p \<in> set ps. \<not> goes_by (cmd_ProjectName c) p"
      "list_all2 (\<lambda>p q. normalize_project (ap_paths ae) p = Inr q) [] gs" "r' = r\<lparr>Projects := ps @ gs @ qs\<rparr>"
      by (rule change_value)
    with r stored d' show ?thesis
      by (intro exI[of _ r] exI[of _ ps] exI[of _ q] exI[of _ qs]) (simp add: registry_at_def find_None_iff)
  qed
qed

subsection \<open>Adding\<close>

text \<open>Whatever can be read can be resolved: \<^verbatim>\<open>EvalSymlinks\<close> succeeds on the paths of existing files.\<close>

definition readable_resolves :: "unreal_env \<Rightarrow> bool" where
  "readable_resolves env \<longleftrightarrow> (\<forall>p. un_read env p \<noteq> None \<longrightarrow> EvalSymlinks (un_paths env) p \<noteq> None)"

lemma normalizePath_resolved:
  assumes "is_abs q" "path_clean q = q" "EvalSymlinks env q = Some q"
  shows "normalizePath env q = Inr q"
proof -
  from assms(1) have "q \<noteq> ''''" by auto
  with assms show ?thesis by (simp add: normalizePath_def go_abs_def resolvePathIdentity_def resolve_from.simps)
qed

lemma readable_normal:
  assumes "sound_env (un_paths env)" "readable_resolves env"
    and "unreal_normalizePath (un_paths env) p = Inr q" "un_read env q \<noteq> None"
  shows "normalizePath (un_paths env) q = Inr q"
  using unreal_normalizePath_Inr[OF assms(1,3)] assms(2,4) normalizePath_resolved
  by (auto simp: readable_resolves_def)

lemma engine_root_normal:
  assumes "sound_env (un_paths env)" "readable_resolves env"
    and "unreal_normalizePath (un_paths env) p = Inr q" "un_read env (build_version_path q) \<noteq> None"
  shows "normalizePath (un_paths env) q = Inr q"
proof -
  note n = unreal_normalizePath_Inr[OF assms(1,3)]
  let ?ms = "[''Engine'', ''Build'', ''Build.version'']"
  have g: "list_all good_part ?ms" by (simp add: good_part_def)
  have ev: "sound_eval (EvalSymlinks (un_paths env))" using assms(1) by (simp add: sound_env_def)
  have "EvalSymlinks (un_paths env) (build_version_path q) \<noteq> None"
    using assms(2,4) by (simp add: readable_resolves_def)
  moreover have "build_version_path q = foldl path_join2 q ?ms"
    unfolding build_version_path_def by (rule path_join_foldl[OF n(1,2) g])
  ultimately have "EvalSymlinks (un_paths env) q \<noteq> None"
    using eval_below_None[OF ev n(1,2) g] by metis
  with n show ?thesis by (auto intro: normalizePath_resolved)
qed

lemma discovered_normal:
  assumes "sound_env (un_paths env)" "readable_resolves env" "unreal_Discover env req = Inr u"
  shows "normalize_project (un_paths env) (discovered_project u\<lparr>proj_ID := ident\<rparr>)
    = Inr (discovered_project u\<lparr>proj_ID := ident\<rparr>)"
  using assms(3)
proof (rule unreal_Discover_Inr)
  fix contents root
  assume u: "unreal_normalizePath (un_paths env) (ur_UProject req) = Inr (up_UProject u)"
    and r: "un_read env (up_UProject u) = Some contents" and e: "discoverEngine env root = Inr (up_Engine u)"
  from e obtain e0 where e0: "ValidateEngine env root = Inr e0" "ue_Root (up_Engine u) = ue_Root e0"
    by (rule discoverEngine_Inr) auto
  note v = ValidateEngine_version[OF e0(1)]
  have "normalizePath (un_paths env) (up_UProject u) = Inr (up_UProject u)"
    using readable_normal[OF assms(1,2) u] r by simp
  moreover have "normalizePath (un_paths env) (ue_Root e0) = Inr (ue_Root e0)"
    using engine_root_normal[OF assms(1,2), of root] v by blast
  moreover have "normalizePath (un_paths env) '''' = Inr ''''" by (simp add: normalizePath_def)
  ultimately show ?thesis
    by (simp add: normalize_project_def discovered_project_def e0(2))
qed

text \<open>
  C6. \<^verbatim>\<open>add\<close> stores what it prints: when it succeeds, the file is the registry that was there with one
  project appended, the very project (path, engine, target and identifier) that is printed; its
  identifier differs from all others up to case, and no other entry has changed.
\<close>

theorem add_appends_what_it_prints:
  assumes "sound_env (ap_paths ae)" and "readable_resolves (ap_unreal ae)" and "polite ae" and "quiet d"
    and "oc_error (app_add ae c d) = None"
  shows "\<exists>r p. registry_at ae 0 d r \<and> \<not> taken (Projects r) (proj_ID p) \<and> proj_ID p \<noteq> '''' \<and>
    disk_registry (oc_disk (app_add ae c d)) = Some (codec_encode (ap_codec ae) (r\<lparr>Projects := Projects r @ [p]\<rparr>)) \<and>
    oc_text (app_add ae c d) =
      (if cmd_JSON c then json_encode (json_Project (ap_stamp ae) p) else ''added '' @ proj_ID p) @ [CHR 10]"
proof -
  let ?req = "\<lparr>ur_UProject = cmd_ProjectPath c, ur_EngineRoot = '''', ur_AssociationSource = Some (ap_associations ae)\<rparr>"
  obtain u where u: "unreal_Discover (ap_unreal ae) ?req = Inr u"
    using assms(5) by (auto simp: app_add_def split: sum.splits)
  let ?m = "add_mutation (discovered_project u)"
  obtain d' where upd: "app_update ae 0 ?m d = (Inr (), d')"
    using assms(5) u by (auto simp: app_add_def split: prod.splits sum.splits)
  from upd politeD[OF assms(3,4)] show ?thesis
  proof (rule app_update_Inr)
    fix r r'
    assume r: "loadUnlocked (ap_codec ae) (ap_paths ae) (ap_io ae 0) (ap_others ae 0 d) = Inr r"
      and v: "update_value (ap_paths ae) ?m r = Inr r'"
      and stored: "disk_registry d' = Some (codec_encode (ap_codec ae) r')"
    let ?p = "named_in r (discovered_project u)"
    from v obtain zs where z: "normalize_projects (ap_paths ae) {} {} (Projects r @ [?p]) = Inr zs" "r' = r\<lparr>Projects := zs\<rparr>"
      by (auto simp: update_value_def add_mutation_def normalizeAndValidate_Inr)
    have "settled (ap_paths ae) (Projects r @ [?p])"
      using loaded_settled[OF assms(1) r] discovered_normal[OF assms(1,2) u] by (simp add: named_in_def)
    from settled_unchanged[OF this normalize_projects_pointwise[OF z(1)]] z(2)
    have r': "r' = r\<lparr>Projects := Projects r @ [?p]\<rparr>" by simp
    have "\<not> taken (Projects r) (proj_ID ?p)" "proj_ID ?p \<noteq> ''''"
      using stableID_fresh by (auto simp: named_in_def)
    with r r' stored u upd show ?thesis
      by (intro exI[of _ r] exI[of _ ?p]) (simp add: registry_at_def app_add_def Let_def)
  qed
qed

subsection \<open>Generating\<close>

lemma generation_Inr:
  assumes "withProjectGenerationLock ae ident (generate_under_lock ae generator ident) d = (None, d2)"
    and "sound_env (ap_paths ae)" and "polite ae" and "quiet d"
  obtains r1 p1 p d1 r2 ps q qs p' where "registry_at ae 1 d r1" "find (goes_by ident) (Projects r1) = Some p1"
    "generator p1 = Inr p" "disk_registry d1 = disk_registry (ap_others ae 1 d)"
    "registry_at ae 2 d1 r2" "Projects r2 = ps @ q # qs" "proj_ID q = ident"
    "normalize_project (ap_paths ae) p = Inr p'" "valid_registry (r2\<lparr>Projects := ps @ p' # qs\<rparr>)"
    "disk_registry d2 = Some (codec_encode (ap_codec ae) (r2\<lparr>Projects := ps @ p' # qs\<rparr>))" "quiet d2"
proof -
  from assms(1) have "generate_under_lock ae generator ident d = (None, d2)"
    by (auto simp: withProjectGenerationLock_def split: option.splits sum.splits)
  then obtain p1 d1 p where f: "app_find ae 1 ident d = (Inr p1, d1)" and g: "generator p1 = Inr p"
    and u: "app_update ae 2 (store_project ident p) d1 = (Inr (), d2)"
    by (auto simp: generate_under_lock_def split: prod.splits sum.splits)
  from f politeD[OF assms(3,4)] obtain r1 where r1: "registry_at ae 1 d r1" "find (goes_by ident) (Projects r1) = Some p1"
    "quiet d1" "disk_registry d1 = disk_registry (ap_others ae 1 d)"
    unfolding registry_at_def by (rule app_find_Inr)
  from u politeD[OF assms(3) r1(3)] show thesis
  proof (rule app_update_Inr)
    fix r2 r'
    assume r2: "loadUnlocked (ap_codec ae) (ap_paths ae) (ap_io ae 2) (ap_others ae 2 d1) = Inr r2"
      and v: "update_value (ap_paths ae) (store_project ident p) r2 = Inr r'" and valid: "valid_registry r'"
      and stored: "disk_registry d2 = Some (codec_encode (ap_codec ae) r')" and quiet: "quiet d2"
    from loaded_settled[OF assms(2) r2] v[unfolded store_project_def] show thesis
    proof (rule change_value)
      fix ps q qs gs
      assume p: "Projects r2 = ps @ q # qs" "proj_ID q = ident"
        and n: "list_all2 (\<lambda>p q. normalize_project (ap_paths ae) p = Inr q) [p] gs" "r' = r2\<lparr>Projects := ps @ gs @ qs\<rparr>"
      from n(1) obtain p' where "gs = [p']" "normalize_project (ap_paths ae) p = Inr p'" by (auto simp: list_all2_Cons1)
      with that[OF r1(1,2) g r1(4) r2[folded registry_at_def] p] n(2) valid stored quiet show thesis by auto
    qed
  qed
qed

lemma app_generate_Inr:
  assumes "oc_error (app_generate ae c d) = None"
  obtains p0 d0 d2 where "app_find ae 0 (cmd_ProjectName c) d = (Inr p0, d0)"
    "withProjectGenerationLock ae (proj_ID p0) (generate_under_lock ae (chosen_generator ae c) (proj_ID p0)) d0 = (None, d2)"
    "cmd_JSON c = False \<Longrightarrow> oc_disk (app_generate ae c d) = d2"
  using assms by (auto simp: app_generate_def split: prod.splits sum.splits option.splits if_splits)

text \<open>Looking for the identifier during a generation finds no project that is only named like it.\<close>

definition unshadowed :: "app_env \<Rightarrow> string \<Rightarrow> bool" where
  "unshadowed ae ident \<longleftrightarrow>
     (\<forall>d r p. registry_at ae 1 d r \<longrightarrow> find (goes_by ident) (Projects r) = Some p \<longrightarrow> proj_ID p = ident)"

definition keeps_identity :: "(Project \<Rightarrow> (string, Project) result) \<Rightarrow> bool" where
  "keeps_identity generator \<longleftrightarrow> (\<forall>p q. generator p = Inr q \<longrightarrow> proj_ID q = proj_ID p)"

lemma find_goes_by:
  "find (goes_by ident) ps = Some p \<Longrightarrow> p \<in> set ps \<and> goes_by ident p"
  by (induction ps) (auto split: if_splits)

text \<open>
  C5. \<^verbatim>\<open>generate\<close> does not lose the changes of others: however other processes change the registry
  between its steps, a successful run leaves the registry that was there at its commit with a
  single entry replaced, the one of the project it generated, and no entry added, removed or moved.
\<close>

theorem generate_keeps_concurrent_changes:
  assumes "sound_env (ap_paths ae)" and "polite ae" and "quiet d"
    and "keeps_identity (chosen_generator ae c)"
    and "unshadowed ae ident"
    and "app_find ae 0 (cmd_ProjectName c) d = (Inr p0, d0)" and "ident = proj_ID p0"
    and "oc_error (app_generate ae c d) = None" and "\<not> cmd_JSON c"
  shows "\<exists>d1 r ps q qs r1 p1 p p'. registry_at ae 1 d0 r1 \<and> p1 \<in> set (Projects r1) \<and> proj_ID p1 = ident \<and>
    chosen_generator ae c p1 = Inr p \<and> normalize_project (ap_paths ae) p = Inr p' \<and> proj_ID p' = ident \<and>
    registry_at ae 2 d1 r \<and> Projects r = ps @ q # qs \<and> proj_ID q = ident \<and>
    disk_registry (oc_disk (app_generate ae c d)) = Some (codec_encode (ap_codec ae) (r\<lparr>Projects := ps @ p' # qs\<rparr>))"
proof -
  obtain d2 where lock: "withProjectGenerationLock ae ident (generate_under_lock ae (chosen_generator ae c) ident) d0 = (None, d2)"
    and d2: "oc_disk (app_generate ae c d) = d2"
    using assms(6-9) by - (erule app_generate_Inr, auto)
  have "quiet d0" using assms(6) politeD[OF assms(2,3)] by (rule app_find_Inr)
  from lock assms(1,2) this show ?thesis
  proof (rule generation_Inr)
    fix r1 p1 p d1 r2 ps q qs p'
    assume a: "registry_at ae 1 d0 r1" "find (goes_by ident) (Projects r1) = Some p1" "chosen_generator ae c p1 = Inr p"
      "registry_at ae 2 d1 r2" "Projects r2 = ps @ q # qs" "proj_ID q = ident"
      "normalize_project (ap_paths ae) p = Inr p'"
      "disk_registry d2 = Some (codec_encode (ap_codec ae) (r2\<lparr>Projects := ps @ p' # qs\<rparr>))"
    have p1: "proj_ID p1 = ident" "p1 \<in> set (Projects r1)" using assms(5) a(1,2) find_goes_by[OF a(2)] by (auto simp: unshadowed_def)
    with a(3) assms(4) normalize_project_ID[OF a(7)] have "proj_ID p' = ident" by (auto simp: keeps_identity_def)
    with a p1 d2 show ?thesis
      by (intro exI[of _ d1] exI[of _ r2] exI[of _ ps] exI[of _ q] exI[of _ qs] exI[of _ r1] exI[of _ p1] exI[of _ p] exI[of _ p']) simp
  qed
qed

lemma registry_at_unique:
  assumes "\<forall>i d. ap_others ae i d = d" "registry_at ae i d r" "registry_at ae j d' r'" "disk_registry d = disk_registry d'"
  shows "r = r'"
  using assms by (auto simp: registry_at_def loadUnlocked_def split: option.splits if_splits)

lemma registry_at_valid: "registry_at ae i d r \<Longrightarrow> valid_registry r"
  by (auto simp: registry_at_def loadUnlocked_def valid_registry_def split: option.splits if_splits
      dest!: normalizeAndValidate_valid)

text \<open>
  A project can be shadowed: when an earlier project is named exactly like its identifier, every
  attempt to generate it by its own name fails, because the project is looked up a second time by
  its identifier, the other one is generated, and its entry does not fit into the place of the first.
\<close>

theorem shadowed_project_is_never_generated:
  assumes "sound_env (ap_paths ae)" and "\<forall>i d. ap_others ae i d = d" and "quiet d"
    and "keeps_identity (chosen_generator ae c)"
    and "registry_at ae 0 d r" and "find (goes_by (cmd_ProjectName c)) (Projects r) = Some b"
    and "find (goes_by (proj_ID b)) (Projects r) = Some a" and "proj_ID a \<noteq> proj_ID b"
  shows "oc_error (app_generate ae c d) \<noteq> None"
proof
  have polite: "polite ae" using assms(2) by (simp add: polite_def)
  assume "oc_error (app_generate ae c d) = None"
  then obtain p0 d0 d2 where f: "app_find ae 0 (cmd_ProjectName c) d = (Inr p0, d0)"
    and lock: "withProjectGenerationLock ae (proj_ID p0) (generate_under_lock ae (chosen_generator ae c) (proj_ID p0)) d0 = (None, d2)"
    by (rule app_generate_Inr)
  from f politeD[OF polite assms(3)] obtain r0 where r0: "registry_at ae 0 d r0"
    "find (goes_by (cmd_ProjectName c)) (Projects r0) = Some p0" "quiet d0" "disk_registry d0 = disk_registry d"
    using assms(2) unfolding registry_at_def by (elim app_find_Inr) auto
  have p0: "p0 = b" using r0(1,2) assms(5,6) by (simp add: registry_at_def)
  from lock assms(1) polite r0(3) show False
  proof (rule generation_Inr)
    fix r1 p1 p d1 r2 ps q qs p'
    assume g: "registry_at ae 1 d0 r1" "find (goes_by (proj_ID p0)) (Projects r1) = Some p1"
      "chosen_generator ae c p1 = Inr p" "disk_registry d1 = disk_registry (ap_others ae 1 d0)"
      "registry_at ae 2 d1 r2" "Projects r2 = ps @ q # qs" "proj_ID q = proj_ID p0"
      "normalize_project (ap_paths ae) p = Inr p'" "valid_registry (r2\<lparr>Projects := ps @ p' # qs\<rparr>)"
    have same: "r1 = r" "r2 = r"
      using registry_at_unique[OF assms(2) g(1) assms(5)] registry_at_unique[OF assms(2) g(5) assms(5)]
        r0(4) g(4) assms(2) by auto
    with g(2) assms(7) p0 have "p1 = a" by simp
    with g(3,8) assms(4) have p': "proj_ID p' = proj_ID a"
      using normalize_project_ID by (auto simp: keeps_identity_def)
    have "a \<in> set (Projects r2)" using find_goes_by[OF assms(7)] same by simp
    with g(6,7) assms(8) p0 have "a \<in> set ps \<union> set qs" by auto
    with g(9) p' show False by (auto simp: valid_registry_def)
  qed
qed

section \<open>Samples\<close>

definition named_project :: "string \<Rightarrow> string \<Rightarrow> Project" where
  "named_project ident name = (sample_project ident (''/'' @ ident @ ''.uproject''))\<lparr>proj_Name := name\<rparr>"

definition sample_registries :: codec where
  "sample_registries =
     \<lparr>codec_encode = (\<lambda>r. str_join '','' (map proj_ID (Projects r))),
      codec_decode = (\<lambda>t. map_option (\<lambda>ps. (\<lparr>reg_Version = 1, Projects = ps\<rparr>, False))
        (if t = ''x,y'' then Some [named_project ''x'' ''X'', named_project ''y'' ''Y'']
         else if t = ''x,y,z'' then Some [named_project ''x'' ''X'', named_project ''y'' ''Y'', named_project ''z'' ''Z'']
         else if t = ''y-2,y'' then Some [named_project ''y-2'' ''y'', named_project ''y'' ''Y''] else None))\<rparr>"

definition sample_generator :: "Project \<Rightarrow> (string, Project) result" where
  "sample_generator p = Inr (p\<lparr>proj_Toolchain := \<lparr>ClangdPath = ''/c'', ClangdVersion = ''20.1.8''\<rparr>\<rparr>)"

definition sample_app :: "(nat \<Rightarrow> disk \<Rightarrow> disk) \<Rightarrow> app_env" where
  "sample_app others =
     \<lparr>ap_codec = sample_registries, ap_unreal = sample_unreal_env,
      ap_associations = MapAssociationSource [''UE_5.8'' \<mapsto> ''/e/''], ap_io = (\<lambda>_. sample_io), ap_others = others,
      ap_stat = (\<lambda>_. None), ap_cache = Some ''/cache'', ap_lock = (\<lambda>_. Inr ()), ap_stamp = int_digits, ap_written = True,
      ap_Generate = sample_generator, ap_GenerateScoped = (\<lambda>p full. sample_generator p)\<rparr>"

definition alone :: "nat \<Rightarrow> disk \<Rightarrow> disk" where
  "alone i d = d"

definition holding :: "string \<Rightarrow> disk" where
  "holding contents = \<lparr>disk_registry = Some contents, disk_temporary = None, disk_locked = False\<rparr>"

definition named_command :: "string \<Rightarrow> Command" where
  "named_command name = zero_Command\<lparr>cmd_ProjectName := name, cmd_ProjectPath := ''/p/./G.uproject''\<rparr>"

lemma sample_app_facts:
  "sound_env (ap_paths (sample_app others))" "polite (sample_app alone)" "quiet (holding t)"
  "keeps_identity (chosen_generator (sample_app others) c)"
  by (auto simp: sample_app_def sample_unreal_env_def plain_env_sound polite_def alone_def quiet_def holding_def
      keeps_identity_def chosen_generator_def sample_generator_def)

theorem remove_drops_one_project_witness:
  "disk_registry (oc_disk (app_remove (sample_app alone) (named_command ''X'') (holding ''x,y''))) = Some ''y'' \<and>
   (\<exists>r ps q qs. registry_at (sample_app alone) 0 (holding ''x,y'') r \<and> Projects r = ps @ q # qs \<and> goes_by ''X'' q)"
proof -
  have e: "oc_error (app_remove (sample_app alone) (named_command ''X'') (holding ''x,y'')) = None"
    and d: "disk_registry (oc_disk (app_remove (sample_app alone) (named_command ''X'') (holding ''x,y''))) = Some ''y''"
    by code_simp+
  have "cmd_ProjectName (named_command ''X'') = ''X''" by (simp add: named_command_def)
  with remove_drops_one_project[OF sample_app_facts(1-3) e] d show ?thesis by auto
qed

lemma sample_readable: "readable_resolves (ap_unreal (sample_app others))"
  by (auto simp: readable_resolves_def sample_app_def sample_unreal_env_def plain_env_def split: if_splits)

theorem add_appends_what_it_prints_witness:
  "disk_registry (oc_disk (app_add (sample_app alone) (named_command '''') (holding ''x,y''))) = Some ''x,y,g'' \<and>
   (\<exists>r (p :: Project). registry_at (sample_app alone) 0 (holding ''x,y'') r \<and> \<not> taken (Projects r) (proj_ID p) \<and>
      oc_text (app_add (sample_app alone) (named_command '''') (holding ''x,y'')) = ''added '' @ proj_ID p @ [CHR 10])"
proof -
  have e: "oc_error (app_add (sample_app alone) (named_command '''') (holding ''x,y'')) = None"
    and d: "disk_registry (oc_disk (app_add (sample_app alone) (named_command '''') (holding ''x,y''))) = Some ''x,y,g''"
    by code_simp+
  have j: "\<not> cmd_JSON (named_command '''')" by (simp add: named_command_def zero_Command_def)
  from add_appends_what_it_prints[OF sample_app_facts(1) sample_readable sample_app_facts(2,3) e]
  obtain r and p :: Project where r: "registry_at (sample_app alone) 0 (holding ''x,y'') r" "\<not> taken (Projects r) (proj_ID p)"
    and t: "oc_text (app_add (sample_app alone) (named_command '''') (holding ''x,y'')) = (''added '' @ proj_ID p) @ [CHR 10]"
    unfolding if_not_P[OF j] by blast
  show ?thesis
    by (intro conjI d exI[of _ r] exI[of _ p] r) (simp only: t append_assoc)
qed

text \<open>Another process adds a project while \<open>x\<close> is generated.\<close>

definition busy_neighbour :: "nat \<Rightarrow> disk \<Rightarrow> disk" where
  "busy_neighbour i d = (if i = 1 then holding ''x,y'' else if i = 2 then holding ''x,y,z'' else d)"

theorem generate_keeps_concurrent_changes_witness:
  "oc_error (app_generate (sample_app busy_neighbour) (named_command ''X'') (holding ''x,y'')) = None \<and>
   disk_registry (oc_disk (app_generate (sample_app busy_neighbour) (named_command ''X'') (holding ''x,y''))) = Some ''x,y,z'' \<and>
   (\<exists>d1 r. registry_at (sample_app busy_neighbour) 2 d1 r \<and> (\<exists>q \<in> set (Projects r). proj_ID q = ''x''))"
proof -
  let ?ae = "sample_app busy_neighbour" and ?c = "named_command ''X''" and ?d = "holding ''x,y''"
  have polite: "polite ?ae" by (auto simp: sample_app_def polite_def busy_neighbour_def quiet_def holding_def)
  have found: "unshadowed ?ae ''x''"
    unfolding unshadowed_def
  proof (intro allI impI)
    fix d0 r p
    assume that: "registry_at ?ae 1 d0 r" "find (goes_by ''x'') (Projects r) = Some p"
    have "ap_others ?ae 1 d0 = ?d" by (simp add: sample_app_def busy_neighbour_def)
    moreover have "loadUnlocked (ap_codec ?ae) (ap_paths ?ae) (ap_io ?ae 1) ?d =
      Inr \<lparr>reg_Version = 1, Projects = [named_project ''x'' ''X'', named_project ''y'' ''Y'']\<rparr>" by code_simp
    ultimately have "r = \<lparr>reg_Version = 1, Projects = [named_project ''x'' ''X'', named_project ''y'' ''Y'']\<rparr>"
      using that(1) by (simp add: registry_at_def)
    with that(2) show "proj_ID p = ''x''" by (simp add: goes_by_def named_project_def sample_project_def) auto
  qed
  have e: "oc_error (app_generate ?ae ?c ?d) = None"
    and d: "disk_registry (oc_disk (app_generate ?ae ?c ?d)) = Some ''x,y,z''"
    and f: "app_find ?ae 0 (cmd_ProjectName ?c) ?d = (Inr (named_project ''x'' ''X''), ?d)"
    and i: "''x'' = proj_ID (named_project ''x'' ''X'')" and j: "\<not> cmd_JSON ?c"
    by code_simp+
  from generate_keeps_concurrent_changes[OF sample_app_facts(1) polite sample_app_facts(3,4) found f i e j]
  obtain d1 r ps q qs where "registry_at ?ae 2 d1 r" "Projects r = ps @ q # qs" "proj_ID q = ''x''" by blast
  then have "\<exists>d1 r. registry_at ?ae 2 d1 r \<and> (\<exists>q \<in> set (Projects r). proj_ID q = ''x'')"
    by (intro exI[of _ d1] exI[of _ r]) simp
  with e d show ?thesis by blast
qed

theorem shadowed_project_is_never_generated_witness:
  "oc_error (app_generate (sample_app alone) (named_command ''Y'') (holding ''y-2,y'')) \<noteq> None \<and>
   oc_error (app_status (sample_app alone) (named_command ''Y'') (holding ''y-2,y'')) = None"
proof -
  let ?r = "\<lparr>reg_Version = 1, Projects = [named_project ''y-2'' ''y'', named_project ''y'' ''Y'']\<rparr>"
  have a: "\<forall>i d. ap_others (sample_app alone) i d = d" by (simp add: sample_app_def alone_def)
  have "loadUnlocked (ap_codec (sample_app alone)) (ap_paths (sample_app alone)) (ap_io (sample_app alone) 0)
      (ap_others (sample_app alone) 0 (holding ''y-2,y'')) = Inr ?r" by code_simp
  then have r: "registry_at (sample_app alone) 0 (holding ''y-2,y'') ?r" by (simp add: registry_at_def)
  have b: "find (goes_by (cmd_ProjectName (named_command ''Y''))) (Projects ?r) = Some (named_project ''y'' ''Y'')"
    and s: "find (goes_by (proj_ID (named_project ''y'' ''Y''))) (Projects ?r) = Some (named_project ''y-2'' ''y'')"
    and n: "proj_ID (named_project ''y-2'' ''y'') \<noteq> proj_ID (named_project ''y'' ''Y'')"
    and st: "oc_error (app_status (sample_app alone) (named_command ''Y'') (holding ''y-2,y'')) = None"
    by code_simp+
  from shadowed_project_is_never_generated[OF sample_app_facts(1) a sample_app_facts(3,4) r b s n] st
  show ?thesis by blast
qed

end
