(* ===== verification/Diagnostics.thy ===== *)
theory Diagnostics
  imports Toolchain
begin

text \<open>
  The report of \<^verbatim>\<open>doctor\<close> (\<^verbatim>\<open>internal/diagnostics\<close>): the facts of a probe, the probe of the Windows
  compilers, the eight checks in their fixed order, their annotation with the failing projects and
  their rendering as text.
\<close>

section \<open>Results\<close>

datatype diag_Status = Pass | Fail

fun status_text :: "diag_Status \<Rightarrow> string" where
  "status_text Pass = ''pass''"
| "status_text Fail = ''fail''"

record diag_Result =
  dr_Status :: diag_Status
  dr_Code :: string
  dr_Summary :: string
  dr_Detail :: string
  dr_Remediation :: string

record Report =
  Checks :: "diag_Result list"

record Probe =
  pr_Engine :: bool
  pr_UBT :: bool
  pr_Dotnet :: bool
  pr_LLVM :: bool
  pr_MSVC :: bool
  pr_WindowsSDK :: bool
  pr_GeneratedHeaders :: bool
  pr_ResponseFiles :: bool

section \<open>The Windows host\<close>

definition programFilesRoots :: "environment \<Rightarrow> string list" where
  "programFilesRoots env =
     concat (map (\<lambda>name. case env name of
                     Some v \<Rightarrow> if trim_space v \<noteq> '''' then [v] else []
                   | None \<Rightarrow> [])
                 [''ProgramFiles'', ''ProgramFiles(x86)''])"

definition anyExisting :: "FileSystem \<Rightarrow> string \<Rightarrow> bool" where
  "anyExisting fs pattern = list_ex (fs_Exists fs) (fs_Glob fs pattern)"

definition msvc_pattern :: "string \<Rightarrow> string" where
  "msvc_pattern root = windowsPath [root, ''Microsoft Visual Studio'', ''*'', ''*'', ''VC'', ''Tools'', ''MSVC'',
     ''*'', ''bin'', ''Hostx64'', ''x64'', ''cl.exe'']"

definition sdk_pattern :: "string \<Rightarrow> string" where
  "sdk_pattern root = windowsPath [root, ''Windows Kits'', ''10'', ''Include'', ''*'', ''um'', ''windows.h'']"

definition apply_root :: "FileSystem \<Rightarrow> Probe \<Rightarrow> string \<Rightarrow> Probe" where
  "apply_root fs probe root =
     (let p1 = (if anyExisting fs (msvc_pattern root) then probe\<lparr>pr_MSVC := True\<rparr> else probe)
      in if anyExisting fs (sdk_pattern root) then p1\<lparr>pr_WindowsSDK := True\<rparr> else p1)"

definition host_Apply :: "environment option \<Rightarrow> FileSystem option \<Rightarrow> Probe \<Rightarrow> Probe" where
  "host_Apply env fs probe =
     (case (env, fs) of
        (Some e, Some f) \<Rightarrow> foldl (apply_root f) probe (programFilesRoots e)
      | _ \<Rightarrow> probe)"

section \<open>The checks\<close>

definition diag_result :: "bool \<Rightarrow> string \<Rightarrow> string \<Rightarrow> string \<Rightarrow> string \<Rightarrow> string \<Rightarrow> diag_Result" where
  "diag_result ok code summary successDetail failureDetail remediation =
     (if ok then \<lparr>dr_Status = Pass, dr_Code = code, dr_Summary = summary, dr_Detail = successDetail, dr_Remediation = ''''\<rparr>
      else \<lparr>dr_Status = Fail, dr_Code = code, dr_Summary = summary, dr_Detail = failureDetail, dr_Remediation = remediation\<rparr>)"

definition Check :: "Probe \<Rightarrow> Report" where
  "Check probe = \<lparr>Checks = [
     diag_result (pr_Engine probe) ''engine'' ''Unreal Engine'' ''The Unreal Engine installation was found.''
       ''No supported Unreal Engine installation was found.'' ''Install or select a supported Unreal Engine installation.'',
     diag_result (pr_UBT probe) ''ubt'' ''UnrealBuildTool'' ''UnrealBuildTool is available.''
       ''UnrealBuildTool.dll is missing.'' ''Build the engine or repair the Unreal Engine installation.'',
     diag_result (pr_Dotnet probe) ''dotnet'' ''Bundled .NET'' ''The bundled .NET runtime is available.''
       ''The bundled .NET runtime is missing.'' ''Repair the Unreal Engine installation so its bundled .NET runtime is present.'',
     diag_result (pr_LLVM probe) ''llvm'' ''LLVM / clangd'' ''A compatible clangd was found.''
       ''No compatible clangd was found.'' ''Install a clangd version supported by this engine or configure its location.'',
     diag_result (pr_MSVC probe) ''msvc'' ''MSVC'' ''The MSVC toolchain is available.''
       ''The MSVC toolchain is missing.'' ''Install the Visual Studio C++ build tools required by the engine.'',
     diag_result (pr_WindowsSDK probe) ''windows-sdk'' ''Windows SDK'' ''The Windows SDK is available.''
       ''The Windows SDK is missing.'' ''Install a Windows SDK version supported by the engine.'',
     diag_result (pr_GeneratedHeaders probe) ''generated-headers'' ''Generated headers'' ''Generated headers are available.''
       ''Generated headers are missing.'' ''Generate project files and build the editor target.'',
     diag_result (pr_ResponseFiles probe) ''response-files'' ''Response files'' ''Compile response files are available.''
       ''Compile response files are missing.'' ''Generate project files and build the editor target.'']\<rparr>"

text \<open>A code without labels gives the empty list, as a missing key of the Go map does.\<close>

definition annotate :: "(string \<Rightarrow> string list) \<Rightarrow> diag_Result \<Rightarrow> diag_Result" where
  "annotate failures c =
     (let labels = failures (dr_Code c)
      in if labels = [] then c
         else c\<lparr>dr_Detail := dr_Detail c @ '' Failing projects: '' @ str_join '', '' (sort labels) @ ''.''\<rparr>)"

definition WithProjectFailures :: "Report \<Rightarrow> (string \<Rightarrow> string list) \<Rightarrow> Report" where
  "WithProjectFailures report failures = report\<lparr>Checks := map (annotate failures) (Checks report)\<rparr>"

section \<open>Rendering\<close>

definition em_dash :: string where
  "em_dash = [CHR 0xE2, CHR 0x80, CHR 0x94]"

definition render_line :: "diag_Result \<Rightarrow> string" where
  "render_line c =
     to_upper (status_text (dr_Status c)) @ '' '' @ dr_Code c @ '': '' @ dr_Summary c @ '' '' @ em_dash @ '' '' @ dr_Detail c
     @ (if dr_Remediation c \<noteq> '''' then '' Remediation: '' @ dr_Remediation c else '''')"

definition RenderHuman :: "Report \<Rightarrow> string" where
  "RenderHuman report = str_join [CHR 10] (map render_line (Checks report))"

section \<open>Facts\<close>

text \<open>What the eight checks look at, in their order.\<close>

definition probed :: "Probe \<Rightarrow> (string \<times> bool) list" where
  "probed p =
     [(''engine'', pr_Engine p), (''ubt'', pr_UBT p), (''dotnet'', pr_Dotnet p), (''llvm'', pr_LLVM p),
      (''msvc'', pr_MSVC p), (''windows-sdk'', pr_WindowsSDK p), (''generated-headers'', pr_GeneratedHeaders p),
      (''response-files'', pr_ResponseFiles p)]"

lemma diag_result_simps [simp]:
  "dr_Code (diag_result ok c s a b r) = c"
  "dr_Status (diag_result ok c s a b r) = Pass \<longleftrightarrow> ok"
  "dr_Status (diag_result ok c s a b r) = Fail \<longleftrightarrow> \<not> ok"
  by (simp_all add: diag_result_def)

lemma Check_probed: "map (\<lambda>c. (dr_Code c, dr_Status c = Pass)) (Checks (Check p)) = probed p"
  by (simp add: Check_def probed_def)

lemma annotate_simps [simp]:
  "dr_Code (annotate f c) = dr_Code c" "dr_Status (annotate f c) = dr_Status c"
  "dr_Remediation (annotate f c) = dr_Remediation c"
  by (simp_all add: annotate_def Let_def)

lemma apply_root_fields:
  "apply_root fs p root = p\<lparr>pr_MSVC := pr_MSVC p \<or> anyExisting fs (msvc_pattern root),
     pr_WindowsSDK := pr_WindowsSDK p \<or> anyExisting fs (sdk_pattern root)\<rparr>"
  by (simp add: apply_root_def Let_def)

lemma foldl_apply_root:
  "foldl (apply_root fs) p roots = p\<lparr>pr_MSVC := pr_MSVC p \<or> (\<exists>r \<in> set roots. anyExisting fs (msvc_pattern r)),
     pr_WindowsSDK := pr_WindowsSDK p \<or> (\<exists>r \<in> set roots. anyExisting fs (sdk_pattern r))\<rparr>"
  by (induction roots arbitrary: p) (auto simp: apply_root_fields)

text \<open>Text without line breaks stays on one line.\<close>

definition one_line :: "diag_Result \<Rightarrow> bool" where
  "one_line c \<longleftrightarrow> CHR 10 \<notin> set (dr_Code c) \<union> set (dr_Summary c) \<union> set (dr_Detail c) \<union> set (dr_Remediation c)"

lemma upper_status: "to_upper ''pass'' = ''PASS''" "to_upper ''fail'' = ''FAIL''"
  by code_simp+

lemma render_line_one: "one_line c \<Longrightarrow> CHR 10 \<notin> set (render_line c)"
  by (cases "dr_Status c") (auto simp: one_line_def render_line_def em_dash_def upper_status)

lemma set_str_join: "set (str_join s xs) \<subseteq> set s \<union> (\<Union> (set ` set xs))"
  by (induction s xs rule: str_join.induct) auto

lemma annotate_one_line:
  "one_line c \<Longrightarrow> (\<And>l. l \<in> set (f (dr_Code c)) \<Longrightarrow> CHR 10 \<notin> set l) \<Longrightarrow> one_line (annotate f c)"
  using set_str_join[of "'', ''" "sort (f (dr_Code c))"] by (auto simp: one_line_def annotate_def Let_def)

lemma Check_one_line: "list_all one_line (Checks (Check p))"
  by (simp add: Check_def one_line_def diag_result_def)

lemma RenderHuman_lines:
  assumes "list_all one_line (Checks r)" and "Checks r \<noteq> []"
  shows "split_on (CHR 10) (RenderHuman r) = map render_line (Checks r)"
  unfolding RenderHuman_def
  using assms by (intro split_join) (auto simp: list_all_iff render_line_one)

end
