(* ===== verification/AppDoctor.thy ===== *)
theory AppDoctor
  imports AppCommands Diagnostics Watcher
begin

text \<open>
  The command \<^verbatim>\<open>doctor\<close> (\<^verbatim>\<open>internal/app/app.go\<close>): the health of every registered project, the bounded
  search for build artifacts, the runner of the toolchain probes, and the report that names the
  failing projects.  Files, the environment and the processes that are run are arguments.
\<close>

section \<open>Build artifacts\<close>

definition maxDoctorBuildEntries :: nat where
  "maxDoctorBuildEntries = 10000"

definition maxDoctorBuildDepth :: nat where
  "maxDoctorBuildDepth = 10"

datatype artifact_scan = Scanning nat | ArtifactFound | ScanExhausted

text \<open>
  One call of the walk's function: \<open>level\<close> is the number of directories above the entry, the root
  having none, so the code's \<^verbatim>\<open>depth\<close> is one less.  An unreadable directory is visited, and the second
  call that reports its error skips it.
\<close>

definition visit_artifact :: "string \<Rightarrow> string option \<Rightarrow> nat \<Rightarrow> artifact_scan" where
  "visit_artifact sfx file n =
     (if maxDoctorBuildEntries < Suc n then ScanExhausted
      else case file of
          Some name \<Rightarrow> if has_suffix (to_lower name) (to_lower sfx) then ArtifactFound else Scanning (Suc n)
        | None \<Rightarrow> Scanning (Suc n))"

fun walk_artifacts :: "string \<Rightarrow> nat \<Rightarrow> entry \<Rightarrow> nat \<Rightarrow> artifact_scan"
  and walk_artifact_list :: "string \<Rightarrow> nat \<Rightarrow> entry list \<Rightarrow> nat \<Rightarrow> artifact_scan" where
  "walk_artifacts sfx level (FileEntry name) n = visit_artifact sfx (Some name) n"
| "walk_artifacts sfx level (Unreadable name) n = visit_artifact sfx None n"
| "walk_artifacts sfx level (DirEntry name entries) n =
     (case visit_artifact sfx None n of
        Scanning m \<Rightarrow>
          if maxDoctorBuildDepth \<le> level - 1 then Scanning m else walk_artifact_list sfx (Suc level) entries m
      | r \<Rightarrow> r)"
| "walk_artifact_list sfx level [] n = Scanning n"
| "walk_artifact_list sfx level (e # es) n =
     (case walk_artifacts sfx level e n of
        Scanning m \<Rightarrow> walk_artifact_list sfx level es m
      | r \<Rightarrow> r)"

definition artifact_root :: "string \<Rightarrow> string" where
  "artifact_root projectRoot = path_join [projectRoot, ''Intermediate'', ''Build'']"

text \<open>\<open>tree\<close> is what lies at a path, \<open>None\<close> when it cannot be examined.\<close>

definition hasBuildArtifact :: "(string \<Rightarrow> entry option) \<Rightarrow> string \<Rightarrow> string \<Rightarrow> bool" where
  "hasBuildArtifact tree projectRoot sfx =
     (case tree (artifact_root projectRoot) of
        None \<Rightarrow> False
      | Some e \<Rightarrow> walk_artifacts sfx 0 e 0 = ArtifactFound)"

subsection \<open>The search is a bounded search in the listing\<close>

text \<open>The entries in the order of the walk, files by their name.\<close>

fun listing :: "nat \<Rightarrow> entry \<Rightarrow> string option list" where
  "listing level (FileEntry name) = [Some name]"
| "listing level (Unreadable name) = [None]"
| "listing level (DirEntry name entries) =
     None # (if maxDoctorBuildDepth \<le> level - 1 then [] else concat (map (listing (Suc level)) entries))"

fun scan_listing :: "string \<Rightarrow> string option list \<Rightarrow> nat \<Rightarrow> artifact_scan" where
  "scan_listing sfx [] n = Scanning n"
| "scan_listing sfx (f # fs) n =
     (case visit_artifact sfx f n of Scanning m \<Rightarrow> scan_listing sfx fs m | r \<Rightarrow> r)"

lemma scan_listing_append:
  "scan_listing sfx (xs @ ys) n =
   (case scan_listing sfx xs n of Scanning m \<Rightarrow> scan_listing sfx ys m | r \<Rightarrow> r)"
  by (induction xs arbitrary: n) (auto split: artifact_scan.split)

lemma walk_is_scan:
  "walk_artifacts sfx level e n = scan_listing sfx (listing level e) n"
  "walk_artifact_list sfx level es n = scan_listing sfx (concat (map (listing level) es)) n"
proof (induction sfx level e n and sfx level es n rule: walk_artifacts_walk_artifact_list.induct)
  case (3 sfx level name entries n)
  then show ?case by (auto split: artifact_scan.split)
qed (auto simp: scan_listing_append split: artifact_scan.split)

definition is_artifact :: "string \<Rightarrow> string option \<Rightarrow> bool" where
  "is_artifact sfx f \<longleftrightarrow> (case f of Some name \<Rightarrow> has_suffix (to_lower name) (to_lower sfx) | None \<Rightarrow> False)"

lemma scan_listing_found:
  "scan_listing sfx fs n = ArtifactFound \<longleftrightarrow> list_ex (is_artifact sfx) (take (maxDoctorBuildEntries - n) fs)"
proof (induction fs arbitrary: n)
  case (Cons f fs)
  show ?case
  proof (cases "maxDoctorBuildEntries < Suc n")
    case True
    then show ?thesis by (simp add: visit_artifact_def)
  next
    case False
    then have "maxDoctorBuildEntries - n = Suc (maxDoctorBuildEntries - Suc n)" by simp
    with False Cons.IH[of "Suc n"] show ?thesis
      by (auto simp: visit_artifact_def is_artifact_def split: option.split)
  qed
qed simp

text \<open>
  The search for a build artifact finds one exactly when it is among the first ten thousand
  entries, in the order of the walk, of the build tree down to the tenth level of directories:
  leaving early on a hit, on the bound or below that depth changes no answer.
\<close>

theorem hasBuildArtifact_bounded_search:
  "hasBuildArtifact tree projectRoot sfx =
     (case tree (artifact_root projectRoot) of
        None \<Rightarrow> False
      | Some e \<Rightarrow> list_ex (is_artifact sfx) (take 10000 (listing 0 e)))"
  by (simp add: hasBuildArtifact_def walk_is_scan scan_listing_found maxDoctorBuildEntries_def split: option.split)

section \<open>The probe's runner\<close>

definition probeBuffer_Write :: "nat \<Rightarrow> string \<Rightarrow> string \<Rightarrow> string" where
  "probeBuffer_Write limit buffer p =
     (if length buffer < limit then buffer @ (if limit - length buffer < length p then take (limit - length buffer) p else p)
      else buffer)"

definition defaultProbeCapture :: int where
  "defaultProbeCapture = 32 * 1024"

text \<open>
  \<^verbatim>\<open>execRunner.Run\<close>: the writes of the process to its two streams, which share the buffer, its own
  error and whether the time ran out; the first component is the text returned with either outcome.
\<close>

definition execRunner_Run :: "int \<Rightarrow> string list \<Rightarrow> string option \<Rightarrow> bool \<Rightarrow> string \<times> string option" where
  "execRunner_Run maxCapture writes failure timedOut =
     (let limit = (if maxCapture \<le> 0 then defaultProbeCapture else maxCapture);
          captured = foldl (probeBuffer_Write (nat limit)) '''' writes
      in (captured, if timedOut then Some ''toolchain probe timed out'' else failure))"

lemma probeBuffer_take: "probeBuffer_Write limit (take limit s) p = take limit (s @ p)"
  by (auto simp: probeBuffer_Write_def min_def)

lemma probeBuffer_prefix: "foldl (probeBuffer_Write limit) (take limit s) ws = take limit (s @ concat ws)"
  by (induction ws arbitrary: s) (simp_all add: probeBuffer_take del: take_append)

section \<open>The health of a project\<close>

record doctor_env =
  dx_environment :: environment
  dx_files :: FileSystem
  dx_read :: "string \<Rightarrow> string option"
  dx_sdk :: "string \<Rightarrow> RawSDK option"
  dx_runner :: "string \<Rightarrow> string + string"
  dx_tree :: "string \<Rightarrow> entry option"

definition sdk_config_path :: "string \<Rightarrow> string" where
  "sdk_config_path root = path_join [root, ''Engine'', ''Config'', ''Windows'', ''Windows_SDK.json'']"

text \<open>The toolchain of a project, chosen for its engine's configuration; \<open>None\<close> for any failure.\<close>

definition all_candidates :: "doctor_env \<Rightarrow> Project \<Rightarrow> Candidate list" where
  "all_candidates dx p =
     DiscoverCandidates (ClangdPath (proj_Toolchain p)) (dx_environment dx) (StandardCandidates (dx_environment dx))
       (VisualStudioCandidates (dx_environment dx) (Some (dx_files dx)))"

definition project_clangd :: "doctor_env \<Rightarrow> Project \<Rightarrow> Selection option" where
  "project_clangd dx p =
     (case dx_read dx (sdk_config_path (eng_Root (proj_Engine p))) of
        None \<Rightarrow> None
      | Some raw \<Rightarrow>
         (case ParseSDKConfig (dx_sdk dx) raw of
            Inl _ \<Rightarrow> None
          | Inr config \<Rightarrow>
             (case SelectClangd config (all_candidates dx p) (dx_runner dx) of
                Inl _ \<Rightarrow> None
              | Inr selection \<Rightarrow> Some selection)))"

text \<open>What doctor looks at for one project, by the code of the check; the host's checks look at none.\<close>

definition healthy :: "app_env \<Rightarrow> doctor_env \<Rightarrow> string \<Rightarrow> Project \<Rightarrow> bool" where
  "healthy ae dx code p =
     (let root = eng_Root (proj_Engine p); projectRoot = path_dir (UProject p) in
      if code = ''engine'' then is_ok (ValidateEngine (ap_unreal ae) root)
      else if code = ''ubt'' then fs_Exists (dx_files dx) (ubt_path root)
      else if code = ''dotnet'' then FindBundledDotnet root (dx_files dx) \<noteq> None
      else if code = ''llvm'' then project_clangd dx p \<noteq> None
      else if code = ''generated-headers'' then hasBuildArtifact (dx_tree dx) projectRoot ''.generated.h''
      else if code = ''response-files'' then hasBuildArtifact (dx_tree dx) projectRoot ''.rsp''
      else True)"

definition project_label :: "Project \<Rightarrow> string" where
  "project_label p =
     proj_ID p @ (if proj_Name p \<noteq> '''' \<and> proj_Name p \<noteq> proj_ID p then '' ('' @ proj_Name p @ '')'' else '''')"

record doctor_state =
  ds_probe :: Probe
  ds_failures :: "string \<Rightarrow> string list"
  ds_updates :: "(string \<times> ToolchainInfo) list"

definition note_failure :: "string \<Rightarrow> bool \<Rightarrow> string \<Rightarrow> (string \<Rightarrow> string list) \<Rightarrow> string \<Rightarrow> string list" where
  "note_failure code ok label failures = (if ok then failures else failures(code := failures code @ [label]))"

definition note_toolchain :: "doctor_env \<Rightarrow> Project \<Rightarrow> (string \<times> ToolchainInfo) list \<Rightarrow> (string \<times> ToolchainInfo) list" where
  "note_toolchain dx p updates =
     (case project_clangd dx p of
        None \<Rightarrow> updates
      | Some sel \<Rightarrow>
          if ClangdPath (proj_Toolchain p) \<noteq> sel_Path sel \<or> ClangdVersion (proj_Toolchain p) \<noteq> Version_String (sel_Version sel)
          then (proj_ID p, \<lparr>ClangdPath = sel_Path sel, ClangdVersion = Version_String (sel_Version sel)\<rparr>) # updates
          else updates)"

text \<open>One round of the loop; \<^verbatim>\<open>updates\<close> maps an identifier to the latest toolchain found for it.\<close>

definition doctor_step :: "app_env \<Rightarrow> doctor_env \<Rightarrow> doctor_state \<Rightarrow> Project \<Rightarrow> doctor_state" where
  "doctor_step ae dx st p =
     (let label = project_label p; probe = ds_probe st;
          engineOK = healthy ae dx ''engine'' p; ubtOK = healthy ae dx ''ubt'' p; dotnet = healthy ae dx ''dotnet'' p;
          llvmOK = healthy ae dx ''llvm'' p; generatedOK = healthy ae dx ''generated-headers'' p;
          responseOK = healthy ae dx ''response-files'' p
      in \<lparr>ds_probe = probe\<lparr>pr_Engine := pr_Engine probe \<and> engineOK, pr_UBT := pr_UBT probe \<and> ubtOK,
            pr_Dotnet := pr_Dotnet probe \<and> dotnet, pr_LLVM := pr_LLVM probe \<and> llvmOK,
            pr_GeneratedHeaders := pr_GeneratedHeaders probe \<and> generatedOK,
            pr_ResponseFiles := pr_ResponseFiles probe \<and> responseOK\<rparr>,
          ds_failures = note_failure ''response-files'' responseOK label
            (note_failure ''generated-headers'' generatedOK label (note_failure ''llvm'' llvmOK label
              (note_failure ''dotnet'' dotnet label (note_failure ''ubt'' ubtOK label
                (note_failure ''engine'' engineOK label (ds_failures st)))))),
          ds_updates = note_toolchain dx p (ds_updates st)\<rparr>)"

definition initial_probe :: "bool \<Rightarrow> Probe" where
  "initial_probe present =
     \<lparr>pr_Engine = present, pr_UBT = present, pr_Dotnet = present, pr_LLVM = present, pr_MSVC = False,
      pr_WindowsSDK = False, pr_GeneratedHeaders = present, pr_ResponseFiles = present\<rparr>"

definition toolchain_mutation :: "(string \<times> ToolchainInfo) list \<Rightarrow> mutation" where
  "toolchain_mutation updates r =
     Inr (r\<lparr>Projects := map (\<lambda>p. case map_of updates (proj_ID p) of
            Some tool \<Rightarrow> p\<lparr>proj_Toolchain := tool\<rparr> | None \<Rightarrow> p) (Projects r)\<rparr>)"

definition doctorReal :: "app_env \<Rightarrow> doctor_env \<Rightarrow> disk \<Rightarrow> (registry_error, Report) result \<times> disk" where
  "doctorReal ae dx d =
     (case app_load ae 0 d of
        (Inl e, d') \<Rightarrow> (Inl e, d')
      | (Inr r, d') \<Rightarrow>
          let st = foldl (doctor_step ae dx) \<lparr>ds_probe = initial_probe (0 < length (Projects r)),
                     ds_failures = (\<lambda>_. []), ds_updates = []\<rparr> (Projects r);
              report = WithProjectFailures
                (Check (host_Apply (Some (dx_environment dx)) (Some (dx_files dx)) (ds_probe st))) (ds_failures st)
          in if length (ds_updates st) \<noteq> 0 then
               (case app_update ae 1 (toolchain_mutation (ds_updates st)) d' of
                  (Inl e, d'') \<Rightarrow> (Inl e, d'')
                | (Inr _, d'') \<Rightarrow> (Inr report, d''))
             else (Inr report, d'))"

definition json_diag :: "diag_Result \<Rightarrow> json" where
  "json_diag c =
     JObj [(''status'', JStr (status_text (dr_Status c))), (''code'', JStr (dr_Code c)), (''summary'', JStr (dr_Summary c)),
           (''detail'', JStr (dr_Detail c)), (''remediation'', JStr (dr_Remediation c))]"

definition json_Report :: "Report \<Rightarrow> json" where
  "json_Report r = JObj [(''checks'', JArr (map json_diag (Checks r)))]"

text \<open>The human report is printed with \<^verbatim>\<open>Fprintln\<close>, whose error counts here.\<close>

definition app_doctor :: "app_env \<Rightarrow> doctor_env \<Rightarrow> bool \<Rightarrow> disk \<Rightarrow> outcome" where
  "app_doctor ae dx asJSON d =
     (case doctorReal ae dx d of
        (Inl e, d') \<Rightarrow> failed (StoreError e) d'
      | (Inr report, d') \<Rightarrow>
          if asJSON then writeJSON (ap_written ae) (json_Report report) d'
          else \<lparr>oc_error = (if ap_written ae then None else Some OutputError), oc_text = RenderHuman report @ [CHR 10],
                oc_disk = d'\<rparr>)"

section \<open>The report names the failing projects\<close>

definition project_codes :: "string list" where
  "project_codes = [''engine'', ''ubt'', ''dotnet'', ''llvm'', ''generated-headers'', ''response-files'']"

definition failing :: "app_env \<Rightarrow> doctor_env \<Rightarrow> Project list \<Rightarrow> string \<Rightarrow> string list" where
  "failing ae dx ps code = map project_label (filter (\<lambda>p. \<not> healthy ae dx code p) ps)"

lemma healthy_other: "code \<notin> set project_codes \<Longrightarrow> healthy ae dx code p"
  by (simp add: healthy_def project_codes_def)

lemma doctor_step_failures:
  "ds_failures (doctor_step ae dx st p) code = ds_failures st code @ failing ae dx [p] code"
proof (cases "code \<in> set project_codes")
  case True
  then show ?thesis
    by (auto simp: project_codes_def doctor_step_def note_failure_def failing_def Let_def)
next
  case False
  with healthy_other[OF False, of ae dx p] show ?thesis
    by (auto simp: project_codes_def doctor_step_def note_failure_def failing_def Let_def)
qed

lemma doctor_loop_failures:
  "ds_failures (foldl (doctor_step ae dx) st ps) code = ds_failures st code @ failing ae dx ps code"
  by (induction ps arbitrary: st) (auto simp: doctor_step_failures failing_def)

lemma doctor_step_probe:
  "ds_probe (doctor_step ae dx st p) = (ds_probe st)\<lparr>pr_Engine := pr_Engine (ds_probe st) \<and> healthy ae dx ''engine'' p,
     pr_UBT := pr_UBT (ds_probe st) \<and> healthy ae dx ''ubt'' p,
     pr_Dotnet := pr_Dotnet (ds_probe st) \<and> healthy ae dx ''dotnet'' p,
     pr_LLVM := pr_LLVM (ds_probe st) \<and> healthy ae dx ''llvm'' p,
     pr_GeneratedHeaders := pr_GeneratedHeaders (ds_probe st) \<and> healthy ae dx ''generated-headers'' p,
     pr_ResponseFiles := pr_ResponseFiles (ds_probe st) \<and> healthy ae dx ''response-files'' p\<rparr>"
  by (simp add: doctor_step_def Let_def)

lemma doctor_loop_probe:
  "ds_probe (foldl (doctor_step ae dx) st ps) =
     (ds_probe st)\<lparr>pr_Engine := pr_Engine (ds_probe st) \<and> list_all (healthy ae dx ''engine'') ps,
     pr_UBT := pr_UBT (ds_probe st) \<and> list_all (healthy ae dx ''ubt'') ps,
     pr_Dotnet := pr_Dotnet (ds_probe st) \<and> list_all (healthy ae dx ''dotnet'') ps,
     pr_LLVM := pr_LLVM (ds_probe st) \<and> list_all (healthy ae dx ''llvm'') ps,
     pr_GeneratedHeaders := pr_GeneratedHeaders (ds_probe st) \<and> list_all (healthy ae dx ''generated-headers'') ps,
     pr_ResponseFiles := pr_ResponseFiles (ds_probe st) \<and> list_all (healthy ae dx ''response-files'') ps\<rparr>"
  by (induction ps arbitrary: st) (auto simp: doctor_step_probe)

text \<open>The probe and the report doctor means to give for a list of projects.\<close>

definition doctor_probe :: "app_env \<Rightarrow> doctor_env \<Rightarrow> Project list \<Rightarrow> Probe" where
  "doctor_probe ae dx ps =
     (let ok = (\<lambda>code. ps \<noteq> [] \<and> list_all (healthy ae dx code) ps);
          found = (\<lambda>pattern. list_ex (\<lambda>root. anyExisting (dx_files dx) (pattern root)) (programFilesRoots (dx_environment dx)))
      in \<lparr>pr_Engine = ok ''engine'', pr_UBT = ok ''ubt'', pr_Dotnet = ok ''dotnet'', pr_LLVM = ok ''llvm'',
          pr_MSVC = found msvc_pattern, pr_WindowsSDK = found sdk_pattern,
          pr_GeneratedHeaders = ok ''generated-headers'', pr_ResponseFiles = ok ''response-files''\<rparr>)"

definition doctor_report :: "app_env \<Rightarrow> doctor_env \<Rightarrow> Project list \<Rightarrow> Report" where
  "doctor_report ae dx ps = WithProjectFailures (Check (doctor_probe ae dx ps)) (failing ae dx ps)"

lemma doctor_loop_report:
  assumes "st = foldl (doctor_step ae dx) \<lparr>ds_probe = initial_probe (0 < length ps), ds_failures = (\<lambda>_. []), ds_updates = []\<rparr> ps"
  shows "WithProjectFailures (Check (host_Apply (Some (dx_environment dx)) (Some (dx_files dx)) (ds_probe st))) (ds_failures st)
    = doctor_report ae dx ps"
proof -
  have "ds_failures st = failing ae dx ps" by (rule ext) (simp add: assms doctor_loop_failures)
  moreover have "host_Apply (Some (dx_environment dx)) (Some (dx_files dx)) (ds_probe st) = doctor_probe ae dx ps"
    by (simp add: assms doctor_loop_probe host_Apply_def foldl_apply_root doctor_probe_def initial_probe_def Let_def list_ex_iff)
  ultimately show ?thesis by (simp add: doctor_report_def)
qed

text \<open>
  C39. The report says what is the case and blames exactly the projects that fail: each of the six
  project checks passes when there are projects and all are healthy in that respect, the two host checks
  when a compiler, or an SDK, lies below one of the program directories; the labels given to a check
  are those of the unhealthy projects, none for a check that passes; and the text has one line per check
  when no label has a line break.
\<close>

theorem doctor_report_is_exact:
  assumes "doctorReal ae dx d = (Inr report, d')" and "quiet (ap_others ae 0 d)"
  shows "\<exists>r. registry_at ae 0 d r \<and> report = doctor_report ae dx (Projects r) \<and>
    map (\<lambda>c. (dr_Code c, dr_Status c = Pass)) (Checks report) = probed (doctor_probe ae dx (Projects r)) \<and>
    list_all (\<lambda>c. dr_Status c = Pass \<longrightarrow> failing ae dx (Projects r) (dr_Code c) = []) (Checks report) \<and>
    (list_all (\<lambda>p. CHR 10 \<notin> set (project_label p)) (Projects r) \<longrightarrow>
       split_on (CHR 10) (RenderHuman report) = map render_line (Checks report))"
proof -
  obtain r d0 where load: "app_load ae 0 d = (Inr r, d0)"
    using assms(1) by (auto simp: doctorReal_def split: prod.splits sum.splits)
  let ?ps = "Projects r" and ?q = "doctor_probe ae dx (Projects r)"
  have report: "report = doctor_report ae dx ?ps"
    using assms(1) load doctor_loop_report[where ae = ae and dx = dx and ps = ?ps, OF refl]
    by (auto simp: doctorReal_def Let_def split: prod.splits sum.splits if_splits)
  have checks: "Checks report = map (annotate (failing ae dx ?ps)) (Checks (Check ?q))"
    by (simp add: report doctor_report_def WithProjectFailures_def)
  have codes: "map (\<lambda>c. (dr_Code c, dr_Status c = Pass)) (Checks report) = probed ?q"
    using Check_probed[of ?q] by (simp add: checks comp_def)
  have "failing ae dx ?ps (dr_Code c) = []" if c: "c \<in> set (Checks report)" "dr_Status c = Pass" for c
  proof -
    have "(dr_Code c, dr_Status c = Pass) \<in> set (map (\<lambda>c. (dr_Code c, dr_Status c = Pass)) (Checks report))"
      using c(1) by (simp add: rev_image_eqI)
    then have "(dr_Code c, True) \<in> set (probed ?q)" unfolding codes using c(2) by simp
    then show ?thesis
      by (cases "dr_Code c \<in> set project_codes")
        (auto simp: probed_def doctor_probe_def failing_def healthy_other project_codes_def list_all_iff filter_empty_conv Let_def)
  qed
  moreover have "split_on (CHR 10) (RenderHuman report) = map render_line (Checks report)"
    if "list_all (\<lambda>p. CHR 10 \<notin> set (project_label p)) ?ps"
  proof (rule RenderHuman_lines)
    have "\<And>c l. l \<in> set (failing ae dx ?ps (dr_Code c)) \<Longrightarrow> CHR 10 \<notin> set l"
      using that by (auto simp: failing_def list_all_iff)
    then show "list_all one_line (Checks report)"
      using Check_one_line[of ?q] by (auto simp: checks list_all_iff intro!: annotate_one_line)
    show "Checks report \<noteq> []" by (simp add: checks Check_def)
  qed
  ultimately show ?thesis
    using report codes app_load_Inr(1)[OF load assms(2)] by (intro exI[of _ r]) (auto simp: registry_at_def list_all_iff)
qed

section \<open>Doctor only corrects toolchains\<close>

definition without_toolchain :: "Project \<Rightarrow> Project" where
  "without_toolchain p = p\<lparr>proj_Toolchain := \<lparr>ClangdPath = '''', ClangdVersion = ''''\<rparr>\<rparr>"

lemma normalize_other_toolchain:
  assumes "normalize_project env p = Inr p" and "normalize_project env (p\<lparr>proj_Toolchain := t\<rparr>) = Inr q"
  shows "without_toolchain q = without_toolchain p"
  using assms(1)
proof (rule normalize_project_Inr)
  fix u r c d h
  assume n: "normalizePath env (UProject p) = Inr u" "normalizePath env (eng_Root (proj_Engine p)) = Inr r"
    "normalizePath env (CompilationDatabase (proj_Generation p)) = Inr d" "normalizePath env (CacheDir (proj_Generation p)) = Inr h"
    and p: "p = p\<lparr>UProject := u, proj_Engine := (proj_Engine p)\<lparr>eng_Root := r\<rparr>,
      proj_Toolchain := (proj_Toolchain p)\<lparr>ClangdPath := c\<rparr>,
      proj_Generation := (proj_Generation p)\<lparr>CompilationDatabase := d, CacheDir := h\<rparr>\<rparr>"
  from assms(2) n obtain c' where q: "q = p\<lparr>UProject := u, proj_Engine := (proj_Engine p)\<lparr>eng_Root := r\<rparr>,
      proj_Toolchain := t\<lparr>ClangdPath := c'\<rparr>, proj_Generation := (proj_Generation p)\<lparr>CompilationDatabase := d, CacheDir := h\<rparr>\<rparr>"
    by (auto simp: normalize_project_def split: sum.splits)
  show ?thesis unfolding q by (subst (2) p) (simp add: without_toolchain_def)
qed

lemma toolchain_update_value:
  assumes "settled env (Projects r)" and "update_value env (toolchain_mutation updates) r = Inr r'"
  shows "map without_toolchain (Projects r') = map without_toolchain (Projects r)" "reg_Version r' = reg_Version r"
proof -
  let ?f = "\<lambda>p. case map_of updates (proj_ID p) of Some tool \<Rightarrow> p\<lparr>proj_Toolchain := tool\<rparr> | None \<Rightarrow> p"
  from assms(2) obtain qs where n: "normalize_projects env {} {} (map ?f (Projects r)) = Inr qs" and r': "r' = r\<lparr>Projects := qs\<rparr>"
    by (auto simp: update_value_def toolchain_mutation_def normalizeAndValidate_Inr)
  have one: "without_toolchain q = without_toolchain p"
    if "normalize_project env p = Inr p" "normalize_project env (?f p) = Inr q" for p q
    using that normalize_other_toolchain[OF that(1), of _ q] by (auto split: option.splits)
  have all: "settled env ps \<Longrightarrow> list_all2 (\<lambda>p q. normalize_project env p = Inr q) (map ?f ps) qs \<Longrightarrow>
      map without_toolchain qs = map without_toolchain ps" for ps qs
  proof (induction ps arbitrary: qs)
    case (Cons p ps)
    then show ?case by (cases qs) (auto intro: one)
  qed simp
  from all[OF assms(1) normalize_projects_pointwise[OF n]] show "map without_toolchain (Projects r') = map without_toolchain (Projects r)"
    by (simp add: r')
  show "reg_Version r' = reg_Version r" by (simp add: r')
qed

text \<open>
  Doctor corrects recorded toolchains and nothing else: whatever it returns, the registry it leaves
  is the one other processes left at its last access, or that one with other toolchains in some of its
  projects; no project is added, removed, moved or otherwise changed.
\<close>

theorem doctor_changes_only_toolchains:
  assumes "sound_env (ap_paths ae)" and "polite ae" and "quiet d" and "doctorReal ae dx d = (res, d')"
  shows "disk_registry d' = disk_registry (ap_others ae 0 d) \<or>
    (\<exists>d0. disk_registry d' = disk_registry (ap_others ae 1 d0) \<or>
       (\<exists>r r'. registry_at ae 1 d0 r \<and> disk_registry d' = Some (codec_encode (ap_codec ae) r') \<and>
          map without_toolchain (Projects r') = map without_toolchain (Projects r) \<and> reg_Version r' = reg_Version r))"
proof -
  note q0 = politeD[OF assms(2,3), of 0]
  show ?thesis
  proof (cases "app_load ae 0 d")
    case (Pair loaded d0)
    show ?thesis
    proof (cases loaded)
      case (Inl e)
      with Pair assms(4) app_load_Inl[of ae 0 d e d0] show ?thesis by (auto simp: doctorReal_def)
    next
      case (Inr r)
      have load: "app_load ae 0 d = (Inr r, d0)" using Pair Inr by simp
      note d0 = app_load_Inr(3,2)[OF load q0]
      from Pair Inr assms(4) have "d' = d0 \<or> (\<exists>m u. app_update ae 1 (toolchain_mutation m) d0 = (u, d'))"
        by (auto simp: doctorReal_def Let_def split: if_splits prod.splits sum.splits)
      then show ?thesis
      proof (elim disjE exE)
        fix m u
        assume u: "app_update ae 1 (toolchain_mutation m) d0 = (u, d')"
        note q1 = politeD[OF assms(2) d0(1), of 1]
        show ?thesis
        proof (cases u)
          case (Inl e)
          with app_update_Inl(1)[OF _ q1] u show ?thesis by blast
        next
          case (Inr v)
          from u[unfolded Inr] q1 show ?thesis
          proof (rule app_update_Inr)
            fix r1 r'
            assume r1: "loadUnlocked (ap_codec ae) (ap_paths ae) (ap_io ae 1) (ap_others ae 1 d0) = Inr r1"
              and v: "update_value (ap_paths ae) (toolchain_mutation m) r1 = Inr r'"
              and w: "disk_registry d' = Some (codec_encode (ap_codec ae) r')"
            note t = toolchain_update_value[OF loaded_settled[OF assms(1) r1] v]
            have "registry_at ae 1 d0 r1" using r1 by (simp only: registry_at_def)
            then show ?thesis
              by (intro disjI2 exI[of _ d0] exI[of _ r1] exI[of _ r'] conjI t w)
          qed
        qed
      qed (use d0 in simp)
    qed
  qed
qed

section \<open>Samples\<close>

definition sample_doctor_env :: doctor_env where
  "sample_doctor_env =
     \<lparr>dx_environment = (\<lambda>_. None),
      dx_files = \<lparr>fs_Exists = (\<lambda>f. f = ubt_path ''/ue''), fs_Glob = (\<lambda>_. [])\<rparr>,
      dx_read = (\<lambda>_. None), dx_sdk = (\<lambda>_. None), dx_runner = (\<lambda>_. Inl ''''),
      dx_tree = (\<lambda>f. if f = ''/Intermediate/Build'' then Some (DirEntry ''Build'' [FileEntry ''a.rsp'']) else None)\<rparr>"

lemma doctor_no_updates:
  "(\<And>p. project_clangd dx p = None) \<Longrightarrow> ds_updates (foldl (doctor_step ae dx) st ps) = ds_updates st"
  by (induction ps arbitrary: st) (simp_all add: doctor_step_def note_toolchain_def Let_def)

definition sample_pair :: Registry where
  "sample_pair = \<lparr>reg_Version = 1, Projects = [named_project ''x'' ''X'', named_project ''y'' ''Y'']\<rparr>"

lemma sample_doctor_load: "app_load (sample_app alone) 0 (holding ''x,y'') = (Inr sample_pair, holding ''x,y'')"
  unfolding sample_pair_def by code_simp

lemma sample_doctor_run:
  "doctorReal (sample_app alone) sample_doctor_env (holding ''x,y'') =
     (Inr (doctor_report (sample_app alone) sample_doctor_env (Projects sample_pair)), holding ''x,y'')"
proof -
  have "project_clangd sample_doctor_env p = None" for p by (simp add: project_clangd_def sample_doctor_env_def)
  then show ?thesis
    unfolding doctorReal_def sample_doctor_load
    by (simp add: doctor_no_updates Let_def doctor_loop_report[OF refl, simplified])
qed

lemma sample_doctor_probe:
  "doctor_probe (sample_app alone) sample_doctor_env (Projects sample_pair) =
     \<lparr>pr_Engine = False, pr_UBT = True, pr_Dotnet = False, pr_LLVM = False, pr_MSVC = False, pr_WindowsSDK = False,
      pr_GeneratedHeaders = False, pr_ResponseFiles = True\<rparr>"
  by code_simp

theorem doctor_report_is_exact_witness:
  "map (\<lambda>c. (dr_Code c, dr_Status c = Pass))
     (Checks (doctor_report (sample_app alone) sample_doctor_env (Projects sample_pair))) =
   [(''engine'', False), (''ubt'', True), (''dotnet'', False), (''llvm'', False), (''msvc'', False), (''windows-sdk'', False),
    (''generated-headers'', False), (''response-files'', True)]"
proof -
  have q: "quiet (ap_others (sample_app alone) 0 (holding ''x,y''))"
    using sample_app_facts(2,3) by (rule politeD)
  from app_load_Inr(1)[OF sample_doctor_load q] have "registry_at (sample_app alone) 0 (holding ''x,y'') r \<longleftrightarrow> sample_pair = r" for r
    by (simp add: registry_at_def)
  with doctor_report_is_exact[OF sample_doctor_run q] sample_doctor_probe show ?thesis
    by (auto simp: probed_def)
qed

theorem doctor_changes_only_toolchains_witness:
  "doctorReal (sample_app alone) sample_doctor_env (holding ''x,y'') =
     (Inr (doctor_report (sample_app alone) sample_doctor_env (Projects sample_pair)), holding ''x,y'') \<and>
   (\<exists>d0. disk_registry (holding ''x,y'') = disk_registry (ap_others (sample_app alone) 0 d0) \<or>
      disk_registry (holding ''x,y'') = disk_registry (ap_others (sample_app alone) 1 d0) \<or>
      (\<exists>r. registry_at (sample_app alone) 1 d0 r))"
  by (intro conjI sample_doctor_run)
    (use doctor_changes_only_toolchains[OF sample_app_facts(1-3) sample_doctor_run] in blast)

end
