(* ===== verification/AppGenerate.thy ===== *)
theory AppGenerate
  imports AppDoctor RiderStale Ubtguard
begin

text \<open>
  The generation of a compilation database (\<^verbatim>\<open>generateRealScoped\<close> in \<^verbatim>\<open>internal/app/app.go\<close>): the choice
  of a clangd, the synthesis from Rider's metadata when it is there and fresh, and otherwise, or when
  that fails, the run of UnrealBuildTool, deferred while a build is running.  Each route ends in the
  validated promotion over the last good database.  The pieces are the theories of their packages.
\<close>

section \<open>The environment\<close>

text \<open>
  \<open>ge_built\<close> is the database UnrealBuildTool left in its staging directory as the decoder reads it;
  the two promotions have their own system calls, \<open>ge_wait\<close> is the fuel, the process lists and the
  sleeps of the guard, and \<open>ge_now\<close> the clock.
\<close>

record generate_env =
  ge_toolchain :: doctor_env
  ge_cache :: "string option"
  ge_mkdir :: "string \<Rightarrow> bool"
  ge_rider :: rider_env
  ge_rider_staging :: "string option"
  ge_compdb :: compdb_env
  ge_hash :: "string \<Rightarrow> string"
  ge_promote_rider :: promotion_io
  ge_promote_built :: promotion_io
  ge_fuel :: nat
  ge_processes :: "nat \<Rightarrow> string + Process list"
  ge_sleep :: "nat \<Rightarrow> string option"
  ge_pid :: int
  ge_ubt :: generate_io
  ge_built :: "string \<Rightarrow> database_file option"
  ge_now :: int

text \<open>What a generation changes: the response files and the database in the project's cache.\<close>

record cache_files =
  cf_store :: "string \<rightharpoonup> string"
  cf_database :: "database_file promotion"

datatype rider_failure =
    RiderUnavailable rider_error
  | RiderMetadataIsStale
  | RiderSynthesis rider_error
  | RiderPromotion promotion_error

datatype generation_error =
    GenReadSDK
  | GenSDK toolchain_error
  | GenClangd toolchain_error
  | GenNoCacheRoot
  | GenMakeCache
  | GenRiderStaging
  | GenNoDotnet "rider_failure option"
  | GenBusy "rider_failure option" wait_result
  | GenBuild "rider_failure option" generate_error
  | GenPromote "rider_failure option" promotion_error

section \<open>The steps\<close>

definition select_toolchain :: "generate_env \<Rightarrow> Project \<Rightarrow> (generation_error, Selection) result" where
  "select_toolchain ge p =
     (let dx = ge_toolchain ge in
      case dx_read dx (sdk_config_path (eng_Root (proj_Engine p))) of
        None \<Rightarrow> Inl GenReadSDK
      | Some sdk \<Rightarrow>
         (case ParseSDKConfig (dx_sdk dx) sdk of
            Inl e \<Rightarrow> Inl (GenSDK e)
          | Inr config \<Rightarrow>
             (case SelectClangd config (all_candidates dx p) (dx_runner dx) of
                Inl e \<Rightarrow> Inl (GenClangd e)
              | Inr sel \<Rightarrow> Inr sel)))"

definition generated :: "generate_env \<Rightarrow> Project \<Rightarrow> Selection \<Rightarrow> string \<Rightarrow> string \<Rightarrow> Project" where
  "generated ge p sel cache fingerprint =
     p\<lparr>proj_Generation := \<lparr>CompilationDatabase = path_join2 cache DatabaseName, CacheDir = cache,
         LastFingerprint = fingerprint, LastGeneratedAt = ge_now ge, InvalidationReason = ''''\<rparr>,
       proj_Toolchain := \<lparr>ClangdPath = sel_Path sel, ClangdVersion = Version_String (sel_Version sel)\<rparr>\<rparr>"

text \<open>The database \<^verbatim>\<open>WriteDatabase\<close> writes, as the decoder reads it back.\<close>

definition database_of :: "compdb_Entry list \<Rightarrow> database_file" where
  "database_of es = \<lparr>dbf_array = True, dbf_values = map (\<lambda>e. Some (json_Entry e)) es, dbf_closed = True, dbf_trailing = TrailEOF\<rparr>"

definition rider_input :: "Project \<Rightarrow> Selection \<Rightarrow> string \<Rightarrow> string \<Rightarrow> bool \<Rightarrow> RiderInput" where
  "rider_input p sel cache staging full =
     \<lparr>ri_ProjectRoot = path_dir (UProject p), ri_EngineRoot = eng_Root (proj_Engine p), ri_Target = proj_Target p,
      ri_TargetFile = '''', ri_StagingDir = staging, ri_ResponseDir = path_join2 cache ''responses'',
      ri_ClangCL = path_join2 (path_dir (sel_Path sel)) ''clang-cl.exe'', ri_EngineScopeFull = full\<rparr>"

text \<open>Synthesis from the metadata and promotion of its result.\<close>

definition rider_route :: "generate_env \<Rightarrow> Project \<Rightarrow> Selection \<Rightarrow> string \<Rightarrow> string \<Rightarrow> bool \<Rightarrow> cache_files
    \<Rightarrow> (rider_failure, string) result \<times> cache_files" where
  "rider_route ge p sel cache staging full cf =
     (case SynthesizeRider (ge_rider ge) (rider_input p sel cache staging full) (cf_store cf) of
        (Inl e, files) \<Rightarrow> (Inl (RiderSynthesis e), cf\<lparr>cf_store := rf_store files\<rparr>)
      | (Inr rider, files) \<Rightarrow>
         (case ValidateAndPromote (ge_compdb ge) (ge_hash ge) (ge_promote_rider ge)
                 (map_option database_of (rf_database files)) (path_dir (UProject p)) (eng_Root (proj_Engine p)) (cf_database cf) of
            (Inl e, db) \<Rightarrow> (Inl (RiderPromotion e), \<lparr>cf_store = rf_store files, cf_database = db\<rparr>)
          | (Inr _, db) \<Rightarrow> (Inr (rres_Fingerprint rider), \<lparr>cf_store = rf_store files, cf_database = db\<rparr>)))"

text \<open>UnrealBuildTool: first the guard, then the run, then the promotion.\<close>

definition ubt_input :: "Project \<Rightarrow> string \<Rightarrow> compdb_Input" where
  "ubt_input p dotnet =
     \<lparr>in_DotNet = dotnet, in_UBTDLL = ubt_path (eng_Root (proj_Engine p)), in_UProject = UProject p, in_Target = proj_Target p,
      in_OutputDir = '''', in_Configuration = proj_Configuration p, in_Platform = proj_Platform p\<rparr>"

definition guard_options :: "generate_env \<Rightarrow> Options" where
  "guard_options ge = \<lparr>opt_Initial = 0, opt_Max = 0, opt_Total = 0, opt_OwnPID = ge_pid ge\<rparr>"

definition build_route :: "generate_env \<Rightarrow> Project \<Rightarrow> string \<Rightarrow> rider_failure option \<Rightarrow> cache_files
    \<Rightarrow> (generation_error, string) result \<times> cache_files" where
  "build_route ge p dotnet reason cf =
     (case fst (Generate (ge_ubt ge) (ubt_input p dotnet)) of
        Inl e \<Rightarrow> (Inl (GenBuild reason e), cf)
      | Inr staging \<Rightarrow>
         (case ValidateAndPromote (ge_compdb ge) (ge_hash ge) (ge_promote_built ge) (ge_built ge staging)
                 (path_dir (UProject p)) (eng_Root (proj_Engine p)) (cf_database cf) of
            (Inl e, db) \<Rightarrow> (Inl (GenPromote reason e), cf\<lparr>cf_database := db\<rparr>)
          | (Inr r, db) \<Rightarrow> (Inr (Fingerprint r), cf\<lparr>cf_database := db\<rparr>)))"

text \<open>\<open>None\<close> when the guard has not decided within its fuel.\<close>

definition guarded_build :: "generate_env \<Rightarrow> Project \<Rightarrow> rider_failure option \<Rightarrow> cache_files
    \<Rightarrow> ((generation_error, string) result \<times> cache_files) option" where
  "guarded_build ge p reason cf =
     (case FindBundledDotnet (eng_Root (proj_Engine p)) (dx_files (ge_toolchain ge)) of
        None \<Rightarrow> Some (Inl (GenNoDotnet reason), cf)
      | Some dotnet \<Rightarrow>
         (case Wait (ge_fuel ge) (ge_processes ge) (ge_sleep ge) (guard_options ge) of
            None \<Rightarrow> None
          | Some (WaitNil, _) \<Rightarrow> Some (build_route ge p dotnet reason cf)
          | Some (busy, _) \<Rightarrow> Some (Inl (GenBusy reason busy), cf)))"

definition generate_in_cache :: "generate_env \<Rightarrow> Project \<Rightarrow> Selection \<Rightarrow> string \<Rightarrow> bool \<Rightarrow> cache_files
    \<Rightarrow> ((generation_error, string) result \<times> cache_files) option" where
  "generate_in_cache ge p sel cache full cf =
     (case RiderMetadataStaleFor (ge_rider ge) (path_dir (UProject p)) (eng_Root (proj_Engine p)) (proj_Target p) '''' full of
        None \<Rightarrow> None
      | Some (Inl e) \<Rightarrow> guarded_build ge p (Some (RiderUnavailable e)) cf
      | Some (Inr True) \<Rightarrow> guarded_build ge p (Some RiderMetadataIsStale) cf
      | Some (Inr False) \<Rightarrow>
         (case ge_rider_staging ge of
            None \<Rightarrow> Some (Inl GenRiderStaging, cf)
          | Some staging \<Rightarrow>
             (case rider_route ge p sel cache staging full cf of
                (Inr fingerprint, cf') \<Rightarrow> Some (Inr fingerprint, cf')
              | (Inl e, cf') \<Rightarrow> guarded_build ge p (Some e) cf')))"

definition generateRealScoped :: "generate_env \<Rightarrow> Project \<Rightarrow> bool \<Rightarrow> cache_files
    \<Rightarrow> ((generation_error, Project) result \<times> cache_files) option" where
  "generateRealScoped ge p full cf =
     (case select_toolchain ge p of
        Inl e \<Rightarrow> Some (Inl e, cf)
      | Inr sel \<Rightarrow>
         (case projectCache (ge_cache ge) (proj_ID p) of
            None \<Rightarrow> Some (Inl GenNoCacheRoot, cf)
          | Some cache \<Rightarrow>
              if \<not> ge_mkdir ge cache then Some (Inl GenMakeCache, cf)
              else map_option (\<lambda>(r, cf'). (map_sum id (generated ge p sel cache) r, cf'))
                     (generate_in_cache ge p sel cache full cf)))"

definition generateReal :: "generate_env \<Rightarrow> Project \<Rightarrow> cache_files \<Rightarrow> ((generation_error, Project) result \<times> cache_files) option" where
  "generateReal ge p cf = generateRealScoped ge p False cf"

section \<open>A generation keeps the last good database\<close>

lemma map_sum_id_iff [simp]:
  "map_sum id g x = Inl e \<longleftrightarrow> x = Inl e" "map_sum id g x = Inr q \<longleftrightarrow> (\<exists>y. x = Inr y \<and> q = g y)"
  by (cases x; auto)+

lemma promoted:
  assumes "ValidateAndPromote env hash ops staged projectRoot engineRoot st = (r, st')" and "pr_temporary st = None"
  shows "case r of
      Inl _ \<Rightarrow> st' = st
    | Inr v \<Rightarrow> (\<exists>db. staged = Some db \<and> Validate env hash (Some db) projectRoot engineRoot = Inr v \<and>
        pr_destination st' = Some db \<and> pr_temporary st' = None)"
proof -
  have "staged \<noteq> None" if "Validate env hash staged projectRoot engineRoot = Inr v" for v
    using that by (auto simp: Validate_iff)
  then show ?thesis
    using assms by (cases st) (auto simp: ValidateAndPromote_def Let_def split: sum.splits if_splits)
qed

text \<open>A database that is in place and passes the validation for this project and engine.\<close>

definition in_place :: "generate_env \<Rightarrow> Project \<Rightarrow> cache_files \<Rightarrow> bool" where
  "in_place ge p cf \<longleftrightarrow>
     (\<exists>db v. pr_destination (cf_database cf) = Some db \<and> pr_temporary (cf_database cf) = None \<and>
        Validate (ge_compdb ge) (ge_hash ge) (Some db) (path_dir (UProject p)) (eng_Root (proj_Engine p)) = Inr v)"

definition kept_or_in_place :: "generate_env \<Rightarrow> Project \<Rightarrow> cache_files \<Rightarrow> ('e, 'a) result \<Rightarrow> cache_files \<Rightarrow> bool" where
  "kept_or_in_place ge p cf r cf' \<longleftrightarrow>
     (case r of Inl _ \<Rightarrow> cf_database cf' = cf_database cf | Inr _ \<Rightarrow> in_place ge p cf')"

lemma rider_route_keeps:
  assumes "rider_route ge p sel cache staging full cf = (r, cf')" and "pr_temporary (cf_database cf) = None"
  shows "kept_or_in_place ge p cf r cf'"
  using assms promoted[OF _ assms(2)]
  by (fastforce simp: rider_route_def kept_or_in_place_def in_place_def split: prod.splits sum.splits)

lemma build_route_keeps:
  assumes "build_route ge p dotnet reason cf = (r, cf')" and "pr_temporary (cf_database cf) = None"
  shows "kept_or_in_place ge p cf r cf'"
  using assms promoted[OF _ assms(2)]
  by (fastforce simp: build_route_def kept_or_in_place_def in_place_def split: prod.splits sum.splits)

lemma guarded_build_keeps:
  assumes "guarded_build ge p reason cf = Some (r, cf')" and "pr_temporary (cf_database cf) = None"
  shows "kept_or_in_place ge p cf r cf'"
  using assms build_route_keeps
  by (auto simp: guarded_build_def kept_or_in_place_def split: option.splits prod.splits wait_result.splits)

lemma generate_in_cache_keeps:
  assumes "generate_in_cache ge p sel cache full cf = Some (r, cf')" and "pr_temporary (cf_database cf) = None"
  shows "kept_or_in_place ge p cf r cf'"
proof (cases "RiderMetadataStaleFor (ge_rider ge) (path_dir (UProject p)) (eng_Root (proj_Engine p)) (proj_Target p) '''' full = Some (Inr False)")
  case False
  with assms show ?thesis
    by (auto simp: generate_in_cache_def split: option.splits sum.splits bool.splits dest: guarded_build_keeps)
next
  case True
  show ?thesis
  proof (cases "ge_rider_staging ge")
    case None
    with True assms show ?thesis by (auto simp: generate_in_cache_def kept_or_in_place_def)
  next
    case (Some staging)
    obtain q cf1 where route: "rider_route ge p sel cache staging full cf = (q, cf1)" by fastforce
    note k = rider_route_keeps[OF route assms(2)]
    show ?thesis
    proof (cases q)
      case (Inl e)
      with k have same: "cf_database cf1 = cf_database cf" by (simp add: kept_or_in_place_def)
      from True Some route Inl assms(1) have "guarded_build ge p (Some e) cf1 = Some (r, cf')"
        by (simp add: generate_in_cache_def)
      from guarded_build_keeps[OF this] same assms(2) show ?thesis by (simp add: kept_or_in_place_def split: sum.splits)
    next
      case (Inr fp)
      with True Some route k assms(1) show ?thesis by (auto simp: generate_in_cache_def kept_or_in_place_def)
    qed
  qed
qed

text \<open>
  C3. A generation replaces the database or keeps the last good one: whatever goes wrong, on either
  route, the database in the project's cache is the old one; on success it has passed validation for the
  project and its engine, the project records it and its directory, which is the project's own, its
  failure reason is cleared, and nothing but the generation and the toolchain has changed.
\<close>

theorem generation_keeps_last_good_database:
  assumes "generateRealScoped ge p full cf = Some (r, cf')" and "pr_temporary (cf_database cf) = None"
  shows "case r of
      Inl _ \<Rightarrow> cf_database cf' = cf_database cf
    | Inr q \<Rightarrow> in_place ge p cf' \<and> projectCache (ge_cache ge) (proj_ID p) = Some (CacheDir (proj_Generation q)) \<and>
        CompilationDatabase (proj_Generation q) = path_join2 (CacheDir (proj_Generation q)) DatabaseName \<and>
        InvalidationReason (proj_Generation q) = '''' \<and>
        q = p\<lparr>proj_Generation := proj_Generation q, proj_Toolchain := proj_Toolchain q\<rparr>"
proof (cases r)
  case (Inl e)
  with assms show ?thesis
    by (auto simp: generateRealScoped_def kept_or_in_place_def dest!: generate_in_cache_keeps
        split: sum.splits option.splits if_splits)
next
  case (Inr q)
  then obtain sel cache fp where s: "projectCache (ge_cache ge) (proj_ID p) = Some cache"
    "generate_in_cache ge p sel cache full cf = Some (Inr fp, cf')" "q = generated ge p sel cache fp"
    using assms(1) by (auto simp: generateRealScoped_def split: sum.splits option.splits if_splits)
  have "in_place ge p cf'"
    using generate_in_cache_keeps[OF s(2) assms(2)] by (simp add: kept_or_in_place_def)
  with s Inr show ?thesis by (simp add: generated_def)
qed

text \<open>Generation keeps the identifier, as the command \<^verbatim>\<open>generate\<close> relies on.\<close>

lemma generateReal_keeps_identity:
  "keeps_identity (\<lambda>p. case generateReal ge p cf of Some (Inr q, _) \<Rightarrow> Inr q | _ \<Rightarrow> Inl '''')"
  by (auto simp: keeps_identity_def generateReal_def generateRealScoped_def generated_def
      split: option.splits sum.splits prod.splits if_splits)

section \<open>A generation ends\<close>

lemma staleness_returns:
  assumes "sound_links (rv_paths env)"
  shows "RiderMetadataStaleFor env projectRoot engineRoot target targetFile full \<noteq> None"
proof -
  have "relevantDescriptors env project engine all \<noteq> None"
    if "canonical (rv_paths env) projectRoot = Some project" "canonical (rv_paths env) engineRoot = Some engine"
    for project engine all
    using all_descriptors_returns[OF assms canonical_clean_abs[OF assms that(1)] canonical_clean_abs[OF assms that(2)]]
    by (simp add: relevantDescriptors_def)
  then show ?thesis
    by (auto simp: RiderMetadataStaleFor_def Let_def split: option.split sum.split)
qed

lemma guard_returns:
  assumes "1800 * nat second < ge_fuel ge"
  shows "Wait (ge_fuel ge) (ge_processes ge) (ge_sleep ge) (guard_options ge) \<noteq> None"
proof -
  let ?d = "default_options (guard_options ge)"
  have d: "opt_Initial ?d = 15 * second" "opt_Max ?d = 120 * second" "opt_Total ?d = 1800 * second"
    by (simp_all add: guard_options_def default_options_def)
  have "sane_options ?d" by (simp add: sane_options_def d second_def half_int64_def)
  moreover have "nat (opt_Total ?d - 0) < ge_fuel ge" using assms by (simp add: d second_def)
  ultimately show ?thesis
    unfolding Wait_def Let_def by (intro wait_loop_terminates) (simp_all add: d second_def max_delay_def)
qed

lemma generated_outcome:
  assumes "\<exists>r cf'. m = Some (r, cf') \<and> (\<forall>reason e. r = Inl (GenBuild reason e) \<longrightarrow> Q)"
  shows "\<exists>r cf'. map_option (\<lambda>(r, cf'). (map_sum id g r, cf')) m = Some (r, cf') \<and>
    (\<forall>reason e. r = Inl (GenBuild reason e) \<longrightarrow> Q)"
proof -
  from assms obtain r cf' where "m = Some (r, cf')" "\<forall>reason e. r = Inl (GenBuild reason e) \<longrightarrow> Q"
    by blast
  then show ?thesis
    by (intro exI[of _ "map_sum id g r"] exI[of _ cf']) simp
qed

text \<open>
  C4. A generation always ends: when symbolic links resolve to absolute paths, the staleness check
  returns whatever the metadata says, the guard gives up within its thirty minutes whatever processes
  run, and the project comes back generated or with an error; and UnrealBuildTool only runs when the
  guard saw no build.
\<close>

theorem generation_returns:
  assumes "sound_links (rv_paths (ge_rider ge))" and "1800 * nat second < ge_fuel ge"
  shows "\<exists>r cf'. generateRealScoped ge p full cf = Some (r, cf') \<and>
    (\<forall>reason e. r = Inl (GenBuild reason e) \<longrightarrow>
       (\<exists>trace. Wait (ge_fuel ge) (ge_processes ge) (ge_sleep ge) (guard_options ge) = Some (WaitNil, trace)))"
proof -
  have guard: "\<exists>r cf'. guarded_build ge p reason c = Some (r, cf') \<and>
    (\<forall>reason e. r = Inl (GenBuild reason e) \<longrightarrow>
       (\<exists>trace. Wait (ge_fuel ge) (ge_processes ge) (ge_sleep ge) (guard_options ge) = Some (WaitNil, trace)))" for reason c
    using guard_returns[OF assms(2)]
    by (auto simp: guarded_build_def split: option.split prod.splits wait_result.splits)
  have "\<exists>r cf'. generate_in_cache ge p sel cache full cf = Some (r, cf') \<and>
    (\<forall>reason e. r = Inl (GenBuild reason e) \<longrightarrow>
       (\<exists>trace. Wait (ge_fuel ge) (ge_processes ge) (ge_sleep ge) (guard_options ge) = Some (WaitNil, trace)))" for sel cache
    using staleness_returns[OF assms(1), of "path_dir (UProject p)" "eng_Root (proj_Engine p)" "proj_Target p" "''''" full] guard
    by (auto simp: generate_in_cache_def split: option.split sum.split bool.split prod.split)
  then have cached: "\<exists>r cf'. map_option (\<lambda>(r, cf'). (map_sum id (generated ge p sel cache) r, cf')) (generate_in_cache ge p sel cache full cf)
      = Some (r, cf') \<and> (\<forall>reason e. r = Inl (GenBuild reason e) \<longrightarrow>
       (\<exists>trace. Wait (ge_fuel ge) (ge_processes ge) (ge_sleep ge) (guard_options ge) = Some (WaitNil, trace)))" for sel cache
    by (rule generated_outcome)
  show ?thesis
  proof (cases "select_toolchain ge p")
    case (Inl e)
    then have "e \<noteq> GenBuild reason c" for reason c
      by (auto simp: select_toolchain_def Let_def split: sum.splits option.splits)
    with Inl show ?thesis by (simp add: generateRealScoped_def)
  next
    case (Inr sel)
    with cached show ?thesis by (auto simp: generateRealScoped_def split: option.split)
  qed
qed

section \<open>Samples\<close>

definition sample_generate_env :: "bool \<Rightarrow> generate_env" where
  "sample_generate_env renamed =
     \<lparr>ge_toolchain =
        \<lparr>dx_environment = (\<lambda>k. if k = ''LLVM_PATH'' then Some ''/l'' else None),
         dx_files = \<lparr>fs_Exists = (\<lambda>_. True), fs_Glob = (\<lambda>_. [''/d/8.0.0/win-x64/dotnet.exe''])\<rparr>,
         dx_read = (\<lambda>_. Some ''{}''),
         dx_sdk = (\<lambda>_. Some \<lparr>raw_Preferred = ''20.1.8'', raw_PreferredRanges = [], raw_Minimum = ''20.1.0''\<rparr>),
         dx_runner = (\<lambda>_. Inr ''clangd version 20.1.8''), dx_tree = (\<lambda>_. None)\<rparr>,
      ge_cache = Some ''/u'', ge_mkdir = (\<lambda>_. True),
      ge_rider = \<lparr>rv_paths = plain_env, rv_glob = (\<lambda>_. None), rv_read = (\<lambda>_. None), rv_lstat = (\<lambda>_. LMissing),
        rv_stat = (\<lambda>_. IsMissing), rv_mtime = (\<lambda>_. None), rv_tree = (\<lambda>_. None), rv_mkdir = (\<lambda>_. False),
        rv_denied = (\<lambda>_. False), rv_write = (\<lambda>_. False), rv_rename = (\<lambda>_. RenameFailed), rv_database = False, rv_hash = id\<rparr>,
      ge_rider_staging = None, ge_compdb = sample_compdb_env, ge_hash = (\<lambda>_. ''h''),
      ge_promote_rider = sample_promotion True, ge_promote_built = sample_promotion renamed,
      ge_fuel = 1, ge_processes = (\<lambda>_. Inr []), ge_sleep = (\<lambda>_. None), ge_pid = 1,
      ge_ubt = \<lparr>gi_runner = True, gi_staging = Some ''/u/s'', gi_log = True, gi_run = (\<lambda>_. ('''', True)), gi_stat = (\<lambda>_. True)\<rparr>,
      ge_built = (\<lambda>_. Some sample_database), ge_now = 7\<rparr>"

definition sample_generated_project :: Project where
  "sample_generated_project =
     (sample_project ''g'' ''/p/g.uproject'')\<lparr>proj_Engine := \<lparr>eng_Root = ''/e'', eng_Version = ''5.8''\<rparr>\<rparr>"

definition empty_cache :: cache_files where
  "empty_cache = \<lparr>cf_store = (\<lambda>_. None), cf_database = \<lparr>pr_destination = None, pr_temporary = None\<rparr>\<rparr>"

lemma sample_selection:
  "select_toolchain (sample_generate_env renamed) sample_generated_project =
     Inr \<lparr>sel_Path = ''/l/clangd.exe'', sel_Source = SourceLLVMPath, sel_Version = Version 20 1 8\<rparr>"
  by code_simp

lemma sample_generation:
  "case generateRealScoped (sample_generate_env True) sample_generated_project False empty_cache of
     Some (Inr q, _) \<Rightarrow> CacheDir (proj_Generation q) = ''/u/soft-ue-index/projects/g'' | _ \<Rightarrow> False"
  "case generateRealScoped (sample_generate_env False) sample_generated_project False empty_cache of
     Some (Inl e, _) \<Rightarrow> True | _ \<Rightarrow> False"
  by code_simp+

theorem generation_keeps_last_good_database_witness:
  "(\<exists>q cf'. generateRealScoped (sample_generate_env True) sample_generated_project False empty_cache = Some (Inr q, cf') \<and>
      in_place (sample_generate_env True) sample_generated_project cf' \<and>
      CacheDir (proj_Generation q) = ''/u/soft-ue-index/projects/g'') \<and>
   (\<exists>e cf'. generateRealScoped (sample_generate_env False) sample_generated_project False empty_cache = Some (Inl e, cf') \<and>
      cf_database cf' = cf_database empty_cache)"
proof -
  have t: "pr_temporary (cf_database empty_cache) = None" by (simp add: empty_cache_def)
  obtain q cf1 where q: "generateRealScoped (sample_generate_env True) sample_generated_project False empty_cache = Some (Inr q, cf1)"
    and dir: "CacheDir (proj_Generation q) = ''/u/soft-ue-index/projects/g''"
    using sample_generation(1) by (auto split: option.splits prod.splits sum.splits)
  obtain e cf2 where e: "generateRealScoped (sample_generate_env False) sample_generated_project False empty_cache = Some (Inl e, cf2)"
    using sample_generation(2) by (auto split: option.splits prod.splits sum.splits)
  from generation_keeps_last_good_database[OF q t] generation_keeps_last_good_database[OF e t] q e dir
  show ?thesis by simp
qed

lemma plain_links: "sound_links plain_env"
  by (auto simp: sound_links_def plain_env_def is_abs_clean split: if_splits)

theorem generation_returns_witness:
  "\<exists>r cf'. generateRealScoped (sample_generate_env True\<lparr>ge_fuel := 1800 * nat second + 1\<rparr>) sample_generated_project True empty_cache
     = Some (r, cf')"
proof -
  have "sound_links (rv_paths (ge_rider (sample_generate_env True\<lparr>ge_fuel := 1800 * nat second + 1\<rparr>)))"
    by (simp add: sample_generate_env_def plain_links)
  moreover have "1800 * nat second < ge_fuel (sample_generate_env True\<lparr>ge_fuel := 1800 * nat second + 1\<rparr>)" by simp
  ultimately show ?thesis using generation_returns by blast
qed

end
