(* ===== verification/AppIndex.thy ===== *)
theory AppIndex
  imports AppCommands EngineIndex
begin

text \<open>
  The command \<^verbatim>\<open>index-engine\<close> (\<^verbatim>\<open>internal/app/app.go\<close>): the part of a project's database below its
  engine is indexed offline, the index is put in the cache of the engine and the engine's fragment is
  pointed at it, all under the lock of the engine root.  The files it changes are a map from paths to
  contents, the staged database, the indexer's log and the temporaries included; every system call is an
  argument.  The lock's own file, which is created empty and never written, is not in the map.
\<close>

section \<open>The command\<close>

record IndexEngineResult =
  ixr_EngineEntries :: nat
  ixr_Key :: string
  ixr_IndexPath :: string
  ixr_FragmentPath :: string

datatype index_engine_error =
    IxReadDatabase
  | IxDecodeDatabase
  | IxNoEngineEntries
  | IxNoWorkingDirectory
  | IxNoCacheRoot
  | IxMakeDirectory string
  | IxMakeStaging
  | IxWriteDatabase
  | IxNoIndexer
  | IxBuild index_error
  | IxFragment fragment_error

record index_env =
  xe_paths :: path_env
  xe_hash :: "string \<Rightarrow> string"
  xe_read :: "string \<Rightarrow> json option option"
  xe_cache :: "string option"
  xe_mkdir :: "string \<Rightarrow> bool"
  xe_staging :: "string option"
  xe_cleanup :: bool
  xe_write :: file_write
  xe_isFile :: "string \<Rightarrow> bool"
  xe_lookPath :: "string \<Rightarrow> string option"
  xe_index :: index_io
  xe_fragment :: fragment_io
  xe_lock :: "string \<Rightarrow> (file_lock_error, bool) result"

definition engineIndexCache :: "string option \<Rightarrow> string \<Rightarrow> string option" where
  "engineIndexCache cache key = map_option (\<lambda>root. path_join [root, ''soft-ue-index'', ''engines'', key]) cache"

text \<open>Pointing the fragment at the new index, after the index is in its place.\<close>

definition publish_index :: "index_env \<Rightarrow> Project \<Rightarrow> string \<Rightarrow> string \<Rightarrow> file_map \<Rightarrow> (index_engine_error, unit) result \<times> file_map" where
  "publish_index xe p key destIdx fs =
     (case WriteFragment (xe_fragment xe) (eng_Root (proj_Engine p)) destIdx key (proj_ID p) fs of
        (Inl e, fs') \<Rightarrow> (Inl (IxFragment e), fs')
      | (Inr u, fs') \<Rightarrow> (Inr u, fs'))"

definition index_and_publish :: "index_env \<Rightarrow> Project \<Rightarrow> string \<Rightarrow> string \<Rightarrow> string \<Rightarrow> string \<Rightarrow> string \<Rightarrow> file_map
    \<Rightarrow> (index_engine_error, unit) result \<times> file_map" where
  "index_and_publish xe p key indexer staged destIdx logPath fs =
     (case BuildIndex (xe_index xe) indexer staged destIdx logPath fs of
        (Inl e, fs1) \<Rightarrow> (Inl (IxBuild e), fs1)
      | (Inr _, fs1) \<Rightarrow> publish_index xe p key destIdx fs1)"

text \<open>With the staging directory: the staged database, the indexer, the index and the fragment.\<close>

definition index_staged :: "index_env \<Rightarrow> Project \<Rightarrow> compdb_Entry list \<Rightarrow> string \<Rightarrow> string \<Rightarrow> string \<Rightarrow> file_map
    \<Rightarrow> (index_engine_error, IndexEngineResult) result \<times> file_map" where
  "index_staged xe p engineEntries key destDir staging fs =
     (let staged = path_join2 staging DatabaseName in
      case write_file (xe_write xe) staged (json_encode (JArr (map json_Entry engineEntries))) fs of
        (False, fs1) \<Rightarrow> (Inl IxWriteDatabase, fs1)
      | (True, fs1) \<Rightarrow>
         (case FindIndexer (xe_isFile xe) (xe_lookPath xe) (ClangdPath (proj_Toolchain p)) of
            None \<Rightarrow> (Inl IxNoIndexer, fs1)
          | Some indexer \<Rightarrow>
              let destIdx = path_join2 destDir ''engine.idx''; logPath = path_join2 destDir ''indexer.log'' in
              (case index_and_publish xe p key indexer staged destIdx logPath fs1 of
                 (Inl e, fs') \<Rightarrow> (Inl e, fs')
               | (Inr _, fs') \<Rightarrow>
                   (Inr \<lparr>ixr_EngineEntries = length engineEntries, ixr_Key = key, ixr_IndexPath = destIdx,
                         ixr_FragmentPath = FragmentPath (eng_Root (proj_Engine p))\<rparr>, fs'))))"

text \<open>The files below a directory, and their deferred removal, which may fail.\<close>

definition below :: "string \<Rightarrow> string \<Rightarrow> bool" where
  "below d f = has_prefix f (d @ ''/'')"

definition remove_tree :: "bool \<Rightarrow> string \<Rightarrow> file_map \<Rightarrow> file_map" where
  "remove_tree works d fs = (\<lambda>f. if works \<and> below d f then None else fs f)"

text \<open>From the entries of the engine on; the second directory is the project's cache.\<close>

definition build_engine_index :: "index_env \<Rightarrow> Project \<Rightarrow> compdb_Entry list \<Rightarrow> string \<Rightarrow> string \<Rightarrow> string
    \<Rightarrow> file_map \<Rightarrow> (index_engine_error, IndexEngineResult) result \<times> file_map" where
  "build_engine_index xe p engineEntries key destDir cache fs =
     (if \<not> xe_mkdir xe destDir then (Inl (IxMakeDirectory destDir), fs)
      else if \<not> xe_mkdir xe cache then (Inl (IxMakeDirectory cache), fs)
      else case xe_staging xe of
        None \<Rightarrow> (Inl IxMakeStaging, fs)
      | Some staging \<Rightarrow>
          (case index_staged xe p engineEntries key destDir staging fs of
             (r, fs') \<Rightarrow> (r, remove_tree (xe_cleanup xe) staging fs')))"

definition indexEngineReal :: "index_env \<Rightarrow> Project \<Rightarrow> file_map
    \<Rightarrow> (index_engine_error, IndexEngineResult) result \<times> file_map" where
  "indexEngineReal xe p fs =
     (let root = eng_Root (proj_Engine p) in
      case xe_read xe (CompilationDatabase (proj_Generation p)) of
        None \<Rightarrow> (Inl IxReadDatabase, fs)
      | Some raw \<Rightarrow>
         (case Option.bind raw (dec_list decode_Entry) of
            None \<Rightarrow> (Inl IxDecodeDatabase, fs)
          | Some entries \<Rightarrow>
              let engineEntries = fst (Split (xe_paths xe) entries root) in
              if engineEntries = [] then (Inl IxNoEngineEntries, fs)
              else (case index_Key (xe_paths xe) (xe_hash xe) root engineEntries of
                  None \<Rightarrow> (Inl IxNoWorkingDirectory, fs)
                | Some key \<Rightarrow>
                    (case engineIndexCache (xe_cache xe) key of
                       None \<Rightarrow> (Inl IxNoCacheRoot, fs)
                     | Some destDir \<Rightarrow>
                        (case projectCache (xe_cache xe) (proj_ID p) of
                           None \<Rightarrow> (Inl IxNoCacheRoot, fs)
                         | Some cache \<Rightarrow> build_engine_index xe p engineEntries key destDir cache fs)))))"

section \<open>The lock of an engine\<close>

definition engineRootLockKey :: "path_env \<Rightarrow> (string \<Rightarrow> string) \<Rightarrow> string \<Rightarrow> string" where
  "engineRootLockKey env hash engineRoot =
     (let absolute = (case go_abs env engineRoot of Some a \<Rightarrow> a | None \<Rightarrow> engineRoot)
      in take 16 (hash (to_lower (to_slash absolute))))"

definition engine_lock_path :: "index_env \<Rightarrow> string \<Rightarrow> string option" where
  "engine_lock_path xe engineRoot =
     map_option (\<lambda>root. path_join2 root ''index-engine.lock'')
       (engineIndexCache (xe_cache xe) (path_join2 ''.locks'' (engineRootLockKey (xe_paths xe) (xe_hash xe) engineRoot)))"

datatype index_command_error =
    IcFind app_error
  | IcNotGenerated string
  | IcNoEngineRoot string
  | IcNoCacheRoot
  | IcLock file_lock_error
  | IcInProgress string
  | IcFailed index_engine_error

text \<open>Whether the lock was taken, and what ran under it.\<close>

definition tryEngineIndexLock :: "index_env \<Rightarrow> string \<Rightarrow> (file_map \<Rightarrow> (index_engine_error, 'a) result \<times> file_map)
    \<Rightarrow> file_map \<Rightarrow> (index_command_error, 'a) result \<times> file_map" where
  "tryEngineIndexLock xe engineRoot body fs =
     (case engine_lock_path xe engineRoot of
        None \<Rightarrow> (Inl IcNoCacheRoot, fs)
      | Some path \<Rightarrow>
         (case xe_lock xe path of
            Inl e \<Rightarrow> (Inl (IcLock e), fs)
          | Inr False \<Rightarrow> (Inl (IcInProgress engineRoot), fs)
          | Inr True \<Rightarrow>
             (case body fs of
                (Inl e, fs') \<Rightarrow> (Inl (IcFailed e), fs')
              | (Inr r, fs') \<Rightarrow> (Inr r, fs'))))"

definition json_IndexEngineResult :: "IndexEngineResult \<Rightarrow> json" where
  "json_IndexEngineResult r =
     JObj [(''engineEntries'', JInt (int (ixr_EngineEntries r))), (''key'', JStr (ixr_Key r)),
           (''indexPath'', JStr (ixr_IndexPath r)), (''fragmentPath'', JStr (ixr_FragmentPath r))]"

definition index_text :: "bool \<Rightarrow> IndexEngineResult \<Rightarrow> string" where
  "index_text asJSON r =
     (if asJSON then json_encode (json_IndexEngineResult r) @ [CHR 10]
      else ''indexed '' @ nat_digits (ixr_EngineEntries r) @ '' engine entries -> '' @ ixr_IndexPath r @ [CHR 10]
           @ ''configured '' @ ixr_FragmentPath r @ [CHR 10])"

definition index_project :: "index_env \<Rightarrow> (string \<Rightarrow> file_info option) \<Rightarrow> Project \<Rightarrow> file_map
    \<Rightarrow> (index_command_error, IndexEngineResult) result \<times> file_map" where
  "index_project xe stat p fs =
     (if \<not> Registry.Ready stat p then (Inl (IcNotGenerated (proj_ID p)), fs)
      else if eng_Root (proj_Engine p) = '''' then (Inl (IcNoEngineRoot (proj_ID p)), fs)
      else tryEngineIndexLock xe (eng_Root (proj_Engine p)) (indexEngineReal xe p) fs)"

text \<open>The command: its text or its error, the registry's directory and the files.\<close>

definition app_indexEngine :: "app_env \<Rightarrow> index_env \<Rightarrow> Command \<Rightarrow> disk \<Rightarrow> file_map
    \<Rightarrow> (index_command_error, string) result \<times> disk \<times> file_map" where
  "app_indexEngine ae xe c d fs =
     (case app_find ae 0 (cmd_ProjectName c) d of
        (Inl e, d') \<Rightarrow> (Inl (IcFind e), d', fs)
      | (Inr p, d') \<Rightarrow>
         (case index_project xe (ap_stat ae) p fs of
            (Inl e, fs') \<Rightarrow> (Inl e, d', fs')
          | (Inr r, fs') \<Rightarrow> (Inr (index_text (cmd_JSON c) r), d', fs')))"

section \<open>What indexing changes\<close>

lemma split_entries_engine:
  "e \<in> set (fst (split_entries env root es)) \<Longrightarrow> e \<in> set es \<and> (\<exists>p. go_abs env (ce_File e) = Some p \<and> underRoot p root)"
  by (induction es) (auto split: prod.splits option.splits if_splits)

lemma Split_engine:
  "e \<in> set (fst (Split env es r)) \<Longrightarrow> e \<in> set es \<and>
     (\<exists>root p. go_abs env (path_join2 r ''Engine'') = Some root \<and> go_abs env (ce_File e) = Some p \<and> underRoot p root)"
  by (auto simp: Split_def split: option.splits dest: split_entries_engine)

text \<open>The files of a run besides the staged database: the index, its temporary and its log, the fragment and its temporary.\<close>

definition index_at :: "string \<Rightarrow> string" where
  "index_at destDir = path_join2 destDir ''engine.idx''"

definition log_at :: "string \<Rightarrow> string" where
  "log_at destDir = path_join2 destDir ''indexer.log''"

definition run_files :: "string \<Rightarrow> string \<Rightarrow> string list" where
  "run_files root destDir = [index_at destDir, index_at destDir @ ''.new'', log_at destDir, FragmentPath root, FragmentPath root @ ''.new'']"

text \<open>Names tell them apart.\<close>

lemma join_ends:
  assumes "is_abs d" and "good_part m"
  shows "\<exists>s. path_join2 d m = s @ m"
proof -
  have "\<exists>s. str_join ''/'' (xs @ [m]) = s @ m" for xs
  proof (induction xs)
    case (Cons x xs)
    then obtain s where "str_join ''/'' (xs @ [m]) = s @ m" by blast
    then have "str_join ''/'' ((x # xs) @ [m]) = (x @ ''/'' @ s) @ m" by (cases xs) simp_all
    then show ?case by blast
  qed simp
  moreover have "path_join2 d m = sep # str_join ''/'' (path_parts d @ [m])"
    using path_join2_abs[OF assms] path_clean_join[of "path_join2 d m"] by simp
  ultimately show ?thesis by (metis append_Cons)
qed

lemma run_files_distinct:
  assumes "is_abs root" and "is_abs destDir"
  shows "distinct (run_files root destDir)"
proof -
  have g: "good_part ''engine.idx''" "good_part ''indexer.log''" "good_part ''.clangd''" by (simp_all add: good_part_def)
  obtain s t u where e: "path_join2 destDir ''engine.idx'' = s @ ''engine.idx''" "path_join2 destDir ''indexer.log'' = t @ ''indexer.log''"
      "path_join2 root ''.clangd'' = u @ ''.clangd''"
    using join_ends[OF assms(2) g(1)] join_ends[OF assms(2) g(2)] join_ends[OF assms(1) g(3)] by blast
  then show ?thesis
    by (simp add: run_files_def index_at_def log_at_def FragmentPath_def e)
qed

text \<open>The entries of the engine in the project's database.\<close>

definition engine_entries :: "index_env \<Rightarrow> Project \<Rightarrow> compdb_Entry list" where
  "engine_entries xe p =
     (case Option.bind (Option.bind (xe_read xe (CompilationDatabase (proj_Generation p))) id) (dec_list decode_Entry) of
        None \<Rightarrow> []
      | Some es \<Rightarrow> fst (Split (xe_paths xe) es (eng_Root (proj_Engine p))))"

text \<open>
  What a run that got to its staging directory leaves when it fails, for every kind of failure: of all
  files only the index, the temporaries and the log may differ, the index only when the fragment is
  what failed, and the temporaries are as they were or gone, unless removing them fails or writing the
  fragment's stops halfway.
\<close>

definition run_failed :: "index_env \<Rightarrow> string \<Rightarrow> string \<Rightarrow> string \<Rightarrow> index_engine_error \<Rightarrow> file_map \<Rightarrow> file_map \<Rightarrow> bool" where
  "run_failed xe root destDir st e fs fs' \<longleftrightarrow>
     (let idx = index_at destDir; tmp = index_at destDir @ ''.new''; fragtmp = FragmentPath root @ ''.new'' in
      (\<forall>f. \<not> below st f \<and> f \<notin> {idx, tmp, log_at destDir, fragtmp} \<longrightarrow> fs' f = fs f) \<and>
      (case e of
         IxBuild b \<Rightarrow> fs' idx = fs idx \<and> fs' fragtmp = fs fragtmp \<and>
           (if b \<in> {NoIndexerRunner, CreateIndexDestination} then fs' tmp = fs tmp \<and> fs' (log_at destDir) = fs (log_at destDir)
            else xo_remove (xe_index xe) \<longrightarrow> fs' tmp = None)
       | IxFragment fe \<Rightarrow> fs' tmp = None \<and>
           (\<exists>indexer out errors. xo_run (xe_index xe) indexer [''--executor=all-TUs'', path_join2 st DatabaseName] = (out, errors, True) \<and>
              out \<noteq> '''' \<and> fs' idx = Some out \<and> fs' (log_at destDir) = Some errors) \<and>
           (fe \<notin> {WriteTemporary, MoveFragment} \<or> fo_write (xe_fragment xe) = FileRefused \<longrightarrow> fs' fragtmp = fs fragtmp) \<and>
           (fe = MoveFragment \<and> fo_remove (xe_fragment xe) \<longrightarrow> fs' fragtmp = None)
       | _ \<Rightarrow> \<forall>f \<in> {idx, tmp, log_at destDir, fragtmp}. fs' f = fs f))"

text \<open>What a successful run leaves: exactly the indexer's output and log, and the fragment that points at the index.\<close>

definition run_succeeded :: "index_env \<Rightarrow> Project \<Rightarrow> string \<Rightarrow> string \<Rightarrow> string \<Rightarrow> file_map \<Rightarrow> file_map \<Rightarrow> bool" where
  "run_succeeded xe p key destDir st fs fs' \<longleftrightarrow>
     (let frag = FragmentPath (eng_Root (proj_Engine p)) in
      fragment_conflict (read_fragment (xe_fragment xe) (fs frag)) key (proj_ID p) = None \<and>
      (\<exists>indexer out errors. FindIndexer (xe_isFile xe) (xe_lookPath xe) (ClangdPath (proj_Toolchain p)) = Some indexer \<and>
         xo_run (xe_index xe) indexer [''--executor=all-TUs'', path_join2 st DatabaseName] = (out, errors, True) \<and> out \<noteq> '''' \<and>
         (\<forall>f. \<not> below st f \<longrightarrow> fs' f =
            (fs(log_at destDir \<mapsto> errors, index_at destDir \<mapsto> out, index_at destDir @ ''.new'' := None,
                frag \<mapsto> fragmentContent (index_at destDir) key (proj_ID p), frag @ ''.new'' := None)) f)))"

lemma index_and_publish_cases:
  assumes run: "index_and_publish xe p key indexer (path_join2 st DatabaseName) (index_at destDir) (log_at destDir) fs = (r, fs')"
    and found: "FindIndexer (xe_isFile xe) (xe_lookPath xe) (ClangdPath (proj_Toolchain p)) = Some indexer"
    and root: "root = eng_Root (proj_Engine p)" and d: "distinct (run_files root destDir)"
  shows "case r of
      Inl e \<Rightarrow> (\<exists>b. e = IxBuild b) \<or> (\<exists>fe. e = IxFragment fe)
    | Inr _ \<Rightarrow> run_succeeded xe p key destDir st fs fs'"
    and "r = Inl e \<Longrightarrow> run_failed xe root destDir st e fs fs'"
proof -
  let ?idx = "index_at destDir" and ?tmp = "index_at destDir @ ''.new''" and ?frag = "FragmentPath root" and ?log = "log_at destDir"
  have ne: "?log \<noteq> ?idx" "?log \<noteq> ?tmp" "?frag \<noteq> ?idx" "?frag \<noteq> ?tmp" "?frag \<noteq> ?log" "?frag @ ''.new'' \<noteq> ?idx" "?frag @ ''.new'' \<noteq> ?tmp"
      "?frag @ ''.new'' \<noteq> ?log"
    using d unfolding run_files_def by auto
  obtain b fs1 where b: "BuildIndex (xe_index xe) indexer (path_join2 st DatabaseName) ?idx ?log fs = (b, fs1)" by fastforce
  note built = BuildIndex_atomic[OF ne(1,2), where ops = "xe_index xe" and indexerPath = indexer and
      staged = "path_join2 st DatabaseName" and fs = fs, unfolded b prod.case]
  have "(case r of
      Inl e \<Rightarrow> ((\<exists>b. e = IxBuild b) \<or> (\<exists>fe. e = IxFragment fe)) \<and> run_failed xe root destDir st e fs fs'
    | Inr _ \<Rightarrow> run_succeeded xe p key destDir st fs fs')"
  proof (cases b)
    case (Inl e)
    with run b have "r = Inl (IxBuild e)" "fs' = fs1" by (simp_all add: index_and_publish_def)
    with built Inl ne show ?thesis by (auto simp: run_failed_def Let_def)
  next
    case (Inr u)
    with built obtain out errors where o: "xo_run (xe_index xe) indexer [''--executor=all-TUs'', path_join2 st DatabaseName] = (out, errors, True)"
        "out \<noteq> ''''" and fs1: "fs1 = fs(?log \<mapsto> errors, ?idx \<mapsto> out, ?tmp := None)" by auto
    obtain w where w: "WriteFragment (xe_fragment xe) root ?idx key (proj_ID p) fs1 = (w, fs')" and r: "r = map_sum IxFragment id w"
      using run b Inr by (auto simp: index_and_publish_def publish_index_def root split: prod.split_asm sum.split_asm)
    have same: "fs1 ?frag = fs ?frag" "fs1 (?frag @ ''.new'') = fs (?frag @ ''.new'')" using ne by (simp_all add: fs1)
    show ?thesis
    proof (cases w)
      case (Inl fe)
      note f = WriteFragment_cases[OF w, unfolded Inl sum.case]
      have at: "fs' ?tmp = None" "fs' ?idx = Some out" "fs' ?log = Some errors" using f ne by (simp_all add: fs1)
      have "fs' x = fs x" if "x \<notin> {?idx, ?tmp, ?log, ?frag @ ''.new''}" for x using f that by (simp add: fs1)
      with at f same o show ?thesis by (auto simp: r Inl run_failed_def Let_def)
    next
      case (Inr v)
      with WriteFragment_cases[OF w] o found same(1) show ?thesis
        by (auto simp: r run_succeeded_def Let_def root fs1)
    qed
  qed
  then show "case r of
      Inl e \<Rightarrow> (\<exists>b. e = IxBuild b) \<or> (\<exists>fe. e = IxFragment fe)
    | Inr _ \<Rightarrow> run_succeeded xe p key destDir st fs fs'"
    and "r = Inl e \<Longrightarrow> run_failed xe root destDir st e fs fs'"
    by (cases r; simp)+
qed

text \<open>
  \<^verbatim>\<open>os.MkdirTemp\<close> makes a new directory: it is given by a clean path, and what is elsewhere already, the
  engine and the index's directory, is not below it.
\<close>

definition run_directory :: "index_env \<Rightarrow> Project \<Rightarrow> string option" where
  "run_directory xe p =
     Option.bind (index_Key (xe_paths xe) (xe_hash xe) (eng_Root (proj_Engine p)) (engine_entries xe p)) (engineIndexCache (xe_cache xe))"

definition staging_apart :: "index_env \<Rightarrow> Project \<Rightarrow> bool" where
  "staging_apart xe p \<longleftrightarrow>
     (case xe_staging xe of
        None \<Rightarrow> True
      | Some st \<Rightarrow> clean_abs st \<and> st \<noteq> ''/'' \<and>
          (case run_directory xe p of
             None \<Rightarrow> True
           | Some destDir \<Rightarrow> list_all (\<lambda>f. \<not> below st f) (run_files (eng_Root (proj_Engine p)) destDir)))"

lemma staged_below: "clean_abs st \<Longrightarrow> st \<noteq> ''/'' \<Longrightarrow> below st (path_join2 st DatabaseName)"
  using path_join2_text[of st DatabaseName]
  by (auto simp: below_def clean_abs_def has_prefix_def DatabaseName_def good_part_def)

text \<open>A file that is put below the staging directory changes nothing elsewhere.\<close>

lemma run_failed_start:
  "run_failed xe root destDir st e fs1 fs' \<Longrightarrow> \<forall>f. \<not> below st f \<longrightarrow> fs1 f = fs f \<Longrightarrow>
   \<forall>f \<in> set (run_files root destDir). \<not> below st f \<Longrightarrow> run_failed xe root destDir st e fs fs'"
  unfolding run_failed_def Let_def run_files_def by (cases e) auto

lemma run_succeeded_start:
  "run_succeeded xe p key destDir st fs1 fs' \<Longrightarrow> \<forall>f. \<not> below st f \<longrightarrow> fs1 f = fs f \<Longrightarrow>
   \<not> below st (FragmentPath (eng_Root (proj_Engine p))) \<Longrightarrow> run_succeeded xe p key destDir st fs fs'"
  unfolding run_succeeded_def Let_def by (auto simp: fun_upd_def)

lemma path_join_is_abs: "is_abs d \<Longrightarrow> is_abs (path_join (d # ms))"
  by (cases d; cases ms) (auto simp: path_join_def intro: is_abs_clean)

lemma index_staged_cases:
  assumes run: "index_staged xe p es key destDir st fs = (r, fs')" and root: "root = eng_Root (proj_Engine p)"
    and d: "distinct (run_files root destDir)" and apart: "\<forall>f \<in> set (run_files root destDir). \<not> below st f"
    and st: "clean_abs st" "st \<noteq> ''/''"
  shows "case r of
      Inl e \<Rightarrow> run_failed xe root destDir st e fs fs'
    | Inr x \<Rightarrow> x = \<lparr>ixr_EngineEntries = length es, ixr_Key = key, ixr_IndexPath = index_at destDir, ixr_FragmentPath = FragmentPath root\<rparr> \<and>
        run_succeeded xe p key destDir st fs fs'"
proof -
  obtain ok fs1 where w: "write_file (xe_write xe) (path_join2 st DatabaseName) (json_encode (JArr (map json_Entry es))) fs = (ok, fs1)"
    by fastforce
  have fs1: "\<forall>f. \<not> below st f \<longrightarrow> fs1 f = fs f" using write_file_other[OF w] staged_below[OF st] by metis
  consider e where "e \<in> {IxWriteDatabase, IxNoIndexer}" "r = Inl e" "fs' = fs1"
    | indexer q where "FindIndexer (xe_isFile xe) (xe_lookPath xe) (ClangdPath (proj_Toolchain p)) = Some indexer"
        "index_and_publish xe p key indexer (path_join2 st DatabaseName) (index_at destDir) (log_at destDir) fs1 = (q, fs')"
        "r = map_sum id (\<lambda>_. \<lparr>ixr_EngineEntries = length es, ixr_Key = key, ixr_IndexPath = index_at destDir,
              ixr_FragmentPath = FragmentPath root\<rparr>) q"
    using run w
    by (auto simp: index_staged_def Let_def index_at_def[symmetric] log_at_def[symmetric] root
        split: bool.split_asm option.split_asm prod.split_asm sum.split_asm)
  then show ?thesis
  proof cases
    case (1 e)
    then show ?thesis using fs1 apart by (auto simp: run_failed_def Let_def run_files_def)
  next
    case (2 indexer q)
    note c = index_and_publish_cases[OF 2(2,1) root d]
    show ?thesis
    proof (cases q)
      case (Inl e)
      from run_failed_start[OF c(2)[OF Inl] fs1 apart] show ?thesis by (simp add: 2(3) Inl)
    next
      case (Inr u)
      have "run_succeeded xe p key destDir st fs1 fs'" using c(1) Inr by simp
      moreover have "\<not> below st (FragmentPath (eng_Root (proj_Engine p)))" using apart by (simp add: run_files_def root)
      ultimately show ?thesis using run_succeeded_start[OF _ fs1] by (simp add: 2(3) Inr)
    qed
  qed
qed

text \<open>Removing the staging directory leaves the rest as it was.\<close>

lemma remove_tree_run:
  "\<forall>f \<in> set (run_files root destDir). \<not> below st f \<Longrightarrow> run_failed xe root destDir st e fs (remove_tree b st fs') \<longleftrightarrow> run_failed xe root destDir st e fs fs'"
  "run_succeeded xe p key destDir st fs (remove_tree b st fs') \<longleftrightarrow> run_succeeded xe p key destDir st fs fs'"
  unfolding run_failed_def run_succeeded_def Let_def run_files_def
  by (cases e; simp add: remove_tree_def) (simp add: remove_tree_def)

lemma index_project_cases:
  assumes "index_project xe stat p fs = (r, fs')"
  obtains e where "r = Inl e" "fs' = fs"
  | lock key destDir st q fs1 where "Registry.Ready stat p" "engine_lock_path xe (eng_Root (proj_Engine p)) = Some lock"
      "xe_lock xe lock = Inr True" "engine_entries xe p \<noteq> []"
      "index_Key (xe_paths xe) (xe_hash xe) (eng_Root (proj_Engine p)) (engine_entries xe p) = Some key"
      "engineIndexCache (xe_cache xe) key = Some destDir" "xe_staging xe = Some st"
      "index_staged xe p (engine_entries xe p) key destDir st fs = (q, fs1)" "fs' = remove_tree (xe_cleanup xe) st fs1"
      "r = map_sum IcFailed id q"
  using assms
  by (auto simp: index_project_def tryEngineIndexLock_def indexEngineReal_def build_engine_index_def engine_entries_def Let_def
      split: if_split_asm option.split_asm prod.split_asm sum.split_asm bool.split_asm)

text \<open>
  C29. Indexing an engine configures it only when everything else worked, and touches only its own
  files.  A run that fails, for whatever reason, leaves the engine's fragment and every other file as
  it was, up to its temporaries, its log and, when only the fragment could not be written, the index; the
  temporaries are gone again unless the system refuses, and so is the staging directory.  A run that
  succeeds held the engine's lock, indexed the engine's entries of a generated project, put the
  indexer's nonempty output where the key of those entries says and pointed the fragment, which was free
  or its own, at that very index; besides the two and the log no file differs,
  except that left-over temporaries are gone.
\<close>

theorem index_engine_configures_last:
  assumes "index_project xe stat p fs = (r, fs')" and "staging_apart xe p"
    and "xe_cache xe = Some user" and "is_abs user" and "is_abs (eng_Root (proj_Engine p))"
  shows "case r of
      Inl e \<Rightarrow> fs' (FragmentPath (eng_Root (proj_Engine p))) = fs (FragmentPath (eng_Root (proj_Engine p))) \<and>
        (fs' = fs \<or>
         (\<exists>ie key destDir st. e = IcFailed ie \<and>
            index_Key (xe_paths xe) (xe_hash xe) (eng_Root (proj_Engine p)) (engine_entries xe p) = Some key \<and>
            engineIndexCache (xe_cache xe) key = Some destDir \<and> xe_staging xe = Some st \<and>
            run_failed xe (eng_Root (proj_Engine p)) destDir st ie fs fs' \<and>
            (xe_cleanup xe \<longrightarrow> (\<forall>f. below st f \<longrightarrow> fs' f = None))))
    | Inr x \<Rightarrow> Registry.Ready stat p \<and> 0 < ixr_EngineEntries x \<and> ixr_EngineEntries x = length (engine_entries xe p) \<and>
        index_Key (xe_paths xe) (xe_hash xe) (eng_Root (proj_Engine p)) (engine_entries xe p) = Some (ixr_Key x) \<and>
        (\<exists>lock. engine_lock_path xe (eng_Root (proj_Engine p)) = Some lock \<and> xe_lock xe lock = Inr True) \<and>
        ixr_FragmentPath x = FragmentPath (eng_Root (proj_Engine p)) \<and>
        (\<exists>destDir st. engineIndexCache (xe_cache xe) (ixr_Key x) = Some destDir \<and> ixr_IndexPath x = index_at destDir \<and>
           xe_staging xe = Some st \<and> run_succeeded xe p (ixr_Key x) destDir st fs fs' \<and>
           (xe_cleanup xe \<longrightarrow> (\<forall>f. below st f \<longrightarrow> fs' f = None)))"
  using assms(1)
proof (cases rule: index_project_cases)
  case (1 e)
  then show ?thesis by simp
next
  case (2 lock key destDir st q fs1)
  let ?root = "eng_Root (proj_Engine p)"
  have "is_abs destDir" using 2(6) assms(3,4) by (auto simp: engineIndexCache_def intro: path_join_is_abs)
  then have d: "distinct (run_files ?root destDir)" by (rule run_files_distinct[OF assms(5)])
  have st: "clean_abs st" "st \<noteq> ''/''" and apart: "\<forall>f \<in> set (run_files ?root destDir). \<not> below st f"
    using assms(2) 2(5-7) by (simp_all add: staging_apart_def run_directory_def list_all_iff)
  note run = index_staged_cases[OF 2(8) refl d apart st]
  have gone: "xe_cleanup xe \<longrightarrow> (\<forall>f. below st f \<longrightarrow> fs' f = None)" by (simp add: 2(9) remove_tree_def)
  show ?thesis
  proof (cases q)
    case (Inl ie)
    have failed: "run_failed xe ?root destDir st ie fs fs'" using run Inl by (simp add: 2(9) remove_tree_run(1)[OF apart])
    have "FragmentPath ?root \<notin> set [index_at destDir, index_at destDir @ ''.new'', log_at destDir, FragmentPath ?root @ ''.new'']"
      "\<not> below st (FragmentPath ?root)"
      using d apart by (auto simp: run_files_def)
    with failed have "fs' (FragmentPath ?root) = fs (FragmentPath ?root)" unfolding run_failed_def Let_def by simp
    with failed gone 2(5-7) show ?thesis by (auto simp: 2(10) Inl)
  next
    case (Inr x)
    with run have x: "x = \<lparr>ixr_EngineEntries = length (engine_entries xe p), ixr_Key = key, ixr_IndexPath = index_at destDir,
        ixr_FragmentPath = FragmentPath ?root\<rparr>" "run_succeeded xe p key destDir st fs fs'"
      by (simp_all add: 2(9) remove_tree_run(2))
    with gone 2(1-7) show ?thesis by (simp add: 2(10) Inr)
  qed
qed

definition sample_index_env :: "bool \<Rightarrow> index_env" where
  "sample_index_env renamed =
     \<lparr>xe_paths = plain_env, xe_hash = (\<lambda>s. nat_digits (length s)),
      xe_read = (\<lambda>f. if f = ''/c/compile_commands.json'' then
        Some (Some (JArr [json_Entry (zero_Entry\<lparr>ce_Directory := ''/e'', ce_File := ''/e/Engine/a.cpp''\<rparr>),
                          json_Entry (zero_Entry\<lparr>ce_Directory := ''/p'', ce_File := ''/p/b.cpp''\<rparr>)])) else None),
      xe_cache = Some ''/u'', xe_mkdir = (\<lambda>_. True), xe_staging = Some ''/u/s'', xe_cleanup = True, xe_write = FileWritten, xe_isFile = (\<lambda>_. True),
      xe_lookPath = (\<lambda>_. None), xe_index = sample_index_io True,
      xe_fragment = \<lparr>fo_denied = False, fo_write = FileWritten, fo_rename = renamed, fo_remove = True\<rparr>, xe_lock = (\<lambda>_. Inr True)\<rparr>"

definition indexed_project :: Project where
  "indexed_project = (sample_project ''g'' ''/p/g.uproject'')\<lparr>proj_Engine := \<lparr>eng_Root = ''/e'', eng_Version = ''5.8''\<rparr>,
     proj_Toolchain := \<lparr>ClangdPath = ''/l/clangd.exe'', ClangdVersion = ''20.1.8''\<rparr>,
     proj_Generation := \<lparr>CompilationDatabase = ''/c/compile_commands.json'', CacheDir = ''/c'', LastFingerprint = ''f'',
       LastGeneratedAt = 1, InvalidationReason = ''''\<rparr>\<rparr>"

definition generated_files :: "string \<Rightarrow> file_info option" where
  "generated_files f = (if f = ''/c'' then Some Directory else Some (Regular 3))"

text \<open>A fragment of an earlier run of the same project, and a staging file an interrupted run left.\<close>

definition earlier_files :: file_map where
  "earlier_files = [''/e/.clangd'' \<mapsto> fragmentContent ''/u/x'' ''ab'' (proj_ID indexed_project), ''/e/a.cpp'' \<mapsto> ''int a;'',
     ''/u/soft-ue-index/engines/20/engine.idx.new'' \<mapsto> ''RI'']"

definition index_files :: "string list" where
  "index_files = [''/e/.clangd'', ''/e/.clangd.new'', ''/u/soft-ue-index/engines/20/engine.idx'',
     ''/u/soft-ue-index/engines/20/engine.idx.new'', ''/u/soft-ue-index/engines/20/indexer.log'', ''/u/s/compile_commands.json'']"

lemma sample_index_run:
  "map_prod id (\<lambda>fs. map fs index_files) (index_project (sample_index_env True) generated_files indexed_project earlier_files) =
     (Inr \<lparr>ixr_EngineEntries = 1, ixr_Key = ''20'', ixr_IndexPath = ''/u/soft-ue-index/engines/20/engine.idx'',
       ixr_FragmentPath = ''/e/.clangd''\<rparr>,
      [Some (fragmentContent ''/u/soft-ue-index/engines/20/engine.idx'' ''20'' (proj_ID indexed_project)), None, Some ''RIFF'', None, Some ''ok'', None])"
  "map_prod id (\<lambda>fs. map fs index_files) (index_project (sample_index_env False) generated_files indexed_project earlier_files) =
     (Inl (IcFailed (IxFragment MoveFragment)),
      [Some (fragmentContent ''/u/x'' ''ab'' (proj_ID indexed_project)), None, Some ''RIFF'', None, Some ''ok'', None])"
  by code_simp+

theorem index_engine_configures_last_witness:
  "snd (index_project (sample_index_env False) generated_files indexed_project earlier_files) ''/e/.clangd'' =
     earlier_files ''/e/.clangd'' \<and>
   snd (index_project (sample_index_env False) generated_files indexed_project earlier_files) ''/e/a.cpp'' = Some ''int a;'' \<and>
   (\<exists>destDir. run_succeeded (sample_index_env True) indexed_project ''20'' destDir ''/u/s'' earlier_files
     (snd (index_project (sample_index_env True) generated_files indexed_project earlier_files)))"
proof -
  have c: "xe_cache (sample_index_env b) = Some ''/u''" and s: "xe_staging (sample_index_env b) = Some ''/u/s''" for b
    by (simp_all add: sample_index_env_def)
  have n: "staging_apart (sample_index_env b) indexed_project" for b by (cases b; code_simp)
  have a: "is_abs ''/u''" "is_abs (eng_Root (proj_Engine indexed_project))" by (simp_all add: indexed_project_def)
  have root: "eng_Root (proj_Engine indexed_project) = ''/e''" by (simp add: indexed_project_def)
  have frag: "FragmentPath ''/e'' = ''/e/.clangd''" by code_simp
  obtain fs1 where fs1: "index_project (sample_index_env False) generated_files indexed_project earlier_files =
      (Inl (IcFailed (IxFragment MoveFragment)), fs1)" "fs1 ''/e/.clangd.new'' = None"
    using sample_index_run(2)
    by (cases "index_project (sample_index_env False) generated_files indexed_project earlier_files") (auto simp: index_files_def)
  obtain fs2 where fs2: "index_project (sample_index_env True) generated_files indexed_project earlier_files =
      (Inr \<lparr>ixr_EngineEntries = 1, ixr_Key = ''20'', ixr_IndexPath = ''/u/soft-ue-index/engines/20/engine.idx'',
       ixr_FragmentPath = ''/e/.clangd''\<rparr>, fs2)"
    using sample_index_run(1)
    by (cases "index_project (sample_index_env True) generated_files indexed_project earlier_files") (auto simp: index_files_def)
  note failed = index_engine_configures_last[OF fs1(1) n c a, unfolded root frag sum.case]
  note good = index_engine_configures_last[OF fs2 n c a, unfolded root frag sum.case]
  have dir: "index_Key (xe_paths (sample_index_env False)) (xe_hash (sample_index_env False)) ''/e'' (engine_entries (sample_index_env False) indexed_project)
      = Some ''20''" by code_simp
  have "fs1 ''/e/a.cpp'' = Some ''int a;''"
  proof -
    have e: "earlier_files ''/e/a.cpp'' = Some ''int a;''" "\<not> below ''/u/s'' ''/e/a.cpp''"
      "engineIndexCache (xe_cache (sample_index_env False)) ''20'' = Some ''/u/soft-ue-index/engines/20''" by code_simp+
    have "''/e/a.cpp'' \<notin> set (run_files ''/e'' ''/u/soft-ue-index/engines/20'')" by code_simp
    with e failed dir s show ?thesis
      unfolding run_failed_def Let_def run_files_def by (auto simp: frag)
  qed
  with failed good s show ?thesis by (auto simp: fs1(1) fs2)
qed

end
