(* ===== verification/AppWatch.thy ===== *)
theory AppWatch
  imports AppCommands Watcher LspSessions
begin

text \<open>
  Watching the registered projects (\<^verbatim>\<open>internal/app/app.go\<close>): the generation a change causes with its
  recorded failure, the start of a watcher over all projects, and the loop of the daemon that follows the
  registry, restarts the watcher when a project changes and retires the language servers of the
  projects whose files it names have changed.
\<close>

section \<open>A failed generation is recorded\<close>

definition watchPersistAttempts :: nat where
  "watchPersistAttempts = 3"

definition failure_mutation :: "string \<Rightarrow> string \<Rightarrow> mutation" where
  "failure_mutation ident cause =
     change_or_fail ident (\<lambda>q. proj_ID q = ident)
       (\<lambda>q. [q\<lparr>proj_Generation := (proj_Generation q)\<lparr>InvalidationReason := cause\<rparr>\<rparr>])"

text \<open>The attempts left, the number of the next call of the store and the last error.\<close>

fun persist_attempts :: "app_env \<Rightarrow> mutation \<Rightarrow> nat \<Rightarrow> nat \<Rightarrow> registry_error option \<Rightarrow> disk \<Rightarrow> registry_error option \<times> disk" where
  "persist_attempts ae m 0 i last_error d = (last_error, d)"
| "persist_attempts ae m (Suc n) i last_error d =
     (case app_update ae i m d of
        (Inr _, d') \<Rightarrow> (None, d')
      | (Inl e, d') \<Rightarrow> persist_attempts ae m n (Suc i) (Some e) d')"

definition persistWatchFailure :: "app_env \<Rightarrow> nat \<Rightarrow> string \<Rightarrow> string \<Rightarrow> disk \<Rightarrow> registry_error option \<times> disk" where
  "persistWatchFailure ae i ident cause d =
     persist_attempts ae (failure_mutation ident cause) watchPersistAttempts i None d"

datatype watch_failure = WatchFailed app_error | WatchFailedUnrecorded string registry_error

text \<open>What runs under the project's generation lock.\<close>

definition watch_under_lock :: "app_env \<Rightarrow> string \<Rightarrow> disk \<Rightarrow> watch_failure option \<times> disk" where
  "watch_under_lock ae ident d =
     (case app_find ae 0 ident d of
        (Inl e, d1) \<Rightarrow> (Some (WatchFailed e), d1)
      | (Inr p, d1) \<Rightarrow>
         (case ap_Generate ae p of
            Inl cause \<Rightarrow>
             (case persistWatchFailure ae 1 ident cause d1 of
                (Some e, d2) \<Rightarrow> (Some (WatchFailedUnrecorded cause e), d2)
              | (None, d2) \<Rightarrow> (Some (WatchFailed (GenerateError cause)), d2))
          | Inr q \<Rightarrow>
             (case app_update ae 1 (store_project ident q) d1 of
                (Inl e, d2) \<Rightarrow> (Some (WatchFailed (StoreError e)), d2)
              | (Inr _, d2) \<Rightarrow> (None, d2))))"

definition watch_generate :: "app_env \<Rightarrow> string \<Rightarrow> disk \<Rightarrow> watch_failure option \<times> disk" where
  "watch_generate ae ident d =
     (case projectCache (ap_cache ae) ident of
        None \<Rightarrow> (Some (WatchFailed CacheDirUnknown), d)
      | Some cache \<Rightarrow>
         (case ap_lock ae (generation_lock_path cache) of
            Inl e \<Rightarrow> (Some (WatchFailed (GenerationLock e)), d)
          | Inr _ \<Rightarrow> watch_under_lock ae ident d))"

lemma normalize_with_reason:
  assumes "normalize_project env p = Inr p"
  shows "normalize_project env (p\<lparr>proj_Generation := (proj_Generation p)\<lparr>InvalidationReason := cause\<rparr>\<rparr>) =
    Inr (p\<lparr>proj_Generation := (proj_Generation p)\<lparr>InvalidationReason := cause\<rparr>\<rparr>)"
  using assms
proof (rule normalize_project_Inr)
  fix u r c d h
  assume n: "normalizePath env (UProject p) = Inr u" "normalizePath env (eng_Root (proj_Engine p)) = Inr r"
    "normalizePath env (ClangdPath (proj_Toolchain p)) = Inr c"
    "normalizePath env (CompilationDatabase (proj_Generation p)) = Inr d" "normalizePath env (CacheDir (proj_Generation p)) = Inr h"
    and p: "p = p\<lparr>UProject := u, proj_Engine := (proj_Engine p)\<lparr>eng_Root := r\<rparr>,
      proj_Toolchain := (proj_Toolchain p)\<lparr>ClangdPath := c\<rparr>,
      proj_Generation := (proj_Generation p)\<lparr>CompilationDatabase := d, CacheDir := h\<rparr>\<rparr>"
  have "UProject p = u" "proj_Engine p = (proj_Engine p)\<lparr>eng_Root := r\<rparr>"
    "proj_Toolchain p = (proj_Toolchain p)\<lparr>ClangdPath := c\<rparr>"
    "proj_Generation p = (proj_Generation p)\<lparr>CompilationDatabase := d, CacheDir := h\<rparr>"
    by (subst p, simp)+
  with n show ?thesis
    by (cases p; cases "proj_Generation p") (auto simp: normalize_project_def)
qed

text \<open>The registry with the failure recorded for one project and everything else unchanged.\<close>

definition recorded :: "app_env \<Rightarrow> string \<Rightarrow> string \<Rightarrow> disk \<Rightarrow> bool" where
  "recorded ae ident cause d \<longleftrightarrow>
     (\<exists>i d0 r ps q qs. registry_at ae i d0 r \<and> Projects r = ps @ q # qs \<and> proj_ID q = ident \<and>
        disk_registry d = Some (codec_encode (ap_codec ae)
          (r\<lparr>Projects := ps @ q\<lparr>proj_Generation := (proj_Generation q)\<lparr>InvalidationReason := cause\<rparr>\<rparr> # qs\<rparr>)))"

lemma update_records:
  assumes "app_update ae i (failure_mutation ident cause) d = (Inr u, d')" and "quiet (ap_others ae i d)"
    and "sound_env (ap_paths ae)"
  shows "recorded ae ident cause d'"
  using assms(1,2)
proof (rule app_update_Inr)
  fix r r'
  assume r: "loadUnlocked (ap_codec ae) (ap_paths ae) (ap_io ae i) (ap_others ae i d) = Inr r"
    and v: "update_value (ap_paths ae) (failure_mutation ident cause) r = Inr r'"
    and stored: "disk_registry d' = Some (codec_encode (ap_codec ae) r')"
  note settled = loaded_settled[OF assms(3) r]
  from settled v[unfolded failure_mutation_def] show ?thesis
  proof (rule change_value)
    fix ps qs gs :: "Project list" and q :: Project
    let ?q = "q\<lparr>proj_Generation := (proj_Generation q)\<lparr>InvalidationReason := cause\<rparr>\<rparr>"
    assume p: "Projects r = ps @ q # qs" "proj_ID q = ident"
      and n: "list_all2 (\<lambda>p q. normalize_project (ap_paths ae) p = Inr q) [?q] gs" "r' = r\<lparr>Projects := ps @ gs @ qs\<rparr>"
    from settled p(1) have "normalize_project (ap_paths ae) ?q = Inr ?q" by (simp add: normalize_with_reason)
    with n(1) have "gs = [?q]" by (auto simp: list_all2_Cons1)
    with r p n(2) stored show ?thesis
      unfolding recorded_def registry_at_def
      by (intro exI[of _ i] exI[of _ d] exI[of _ r] exI[of _ ps] exI[of _ q] exI[of _ qs]) simp
  qed
qed

lemma persist_attempts_cases:
  assumes "persist_attempts ae (failure_mutation ident cause) n i last_error d = (res, d')"
    and "sound_env (ap_paths ae)" and "polite ae" and "quiet d" and "n = 0 \<Longrightarrow> last_error \<noteq> None"
  shows "res = None \<longrightarrow> recorded ae ident cause d'"
  using assms
proof (induction n arbitrary: i last_error d)
  case (Suc n)
  note q = politeD[OF Suc.prems(3,4), of i]
  obtain u d1 where u: "app_update ae i (failure_mutation ident cause) d = (u, d1)" by fastforce
  show ?case
  proof (cases u)
    case (Inl e)
    with u have "persist_attempts ae (failure_mutation ident cause) n (Suc i) (Some e) d1 = (res, d')"
      using Suc.prems(1) by simp
    moreover have "quiet d1" using app_update_Inl(2)[OF _ q] u Inl by blast
    ultimately show ?thesis using Suc.IH Suc.prems(2,3) by blast
  next
    case (Inr v)
    with u Suc.prems(1) have "d' = d1" by simp
    with update_records[OF _ q Suc.prems(2)] u Inr show ?thesis by blast
  qed
qed auto

text \<open>
  C8. A generation caused by a change never fails silently: when the generator fails, the failure is
  reported, and unless the report says that it could not be recorded, the registry holds the cause for
  that very project with every other entry unchanged.
\<close>

theorem watch_failure_is_recorded:
  assumes "sound_env (ap_paths ae)" and "polite ae" and "quiet d"
    and "watch_generate ae ident d = (res, d')"
    and "app_find ae 0 ident d = (Inr p, d1)" and "ap_Generate ae p = Inl cause"
    and "projectCache (ap_cache ae) ident = Some cache" and "ap_lock ae (generation_lock_path cache) = Inr ()"
  shows "(res = Some (WatchFailed (GenerateError cause)) \<and> recorded ae ident cause d') \<or>
    (\<exists>e. res = Some (WatchFailedUnrecorded cause e))"
proof -
  obtain o1 d2 where p: "persistWatchFailure ae 1 ident cause d1 = (o1, d2)" by fastforce
  have q1: "quiet d1" using assms(5) politeD[OF assms(2,3)] by (rule app_find_Inr)
  have "o1 = None \<longrightarrow> recorded ae ident cause d2"
    using persist_attempts_cases[OF p[unfolded persistWatchFailure_def] assms(1,2) q1] by (simp add: watchPersistAttempts_def)
  with assms(4-8) p show ?thesis
    by (auto simp: watch_generate_def watch_under_lock_def split: option.splits)
qed

definition failing_app :: app_env where
  "failing_app = (sample_app alone)\<lparr>ap_Generate := (\<lambda>_. Inl ''no dotnet'')\<rparr>"

theorem watch_failure_is_recorded_witness:
  "fst (watch_generate failing_app ''x'' (holding ''x,y'')) = Some (WatchFailed (GenerateError ''no dotnet'')) \<and>
   recorded failing_app ''x'' ''no dotnet'' (snd (watch_generate failing_app ''x'' (holding ''x,y'')))"
proof -
  have e: "sound_env (ap_paths failing_app)" "polite failing_app"
    using sample_app_facts(1)[of alone] sample_app_facts(2) by (simp_all add: failing_app_def polite_def)
  have run: "watch_generate failing_app ''x'' (holding ''x,y'') =
    (Some (WatchFailed (GenerateError ''no dotnet'')), snd (watch_generate failing_app ''x'' (holding ''x,y'')))"
    by code_simp
  have f: "app_find failing_app 0 ''x'' (holding ''x,y'') = (Inr (named_project ''x'' ''X''), holding ''x,y'')" by code_simp
  have g: "ap_Generate failing_app (named_project ''x'' ''X'') = Inl ''no dotnet''"
    and l: "ap_lock failing_app (generation_lock_path ''/cache/soft-ue-index/projects/x'') = Inr ()"
    by (simp_all add: failing_app_def sample_app_def)
  have c: "projectCache (ap_cache failing_app) ''x'' = Some ''/cache/soft-ue-index/projects/x''" by code_simp
  from watch_failure_is_recorded[OF e sample_app_facts(3) run f g c l] run show ?thesis by (metis fst_conv option.inject watch_failure.distinct(1))
qed

section \<open>Starting the watcher\<close>

definition project_roots_of :: "Project \<Rightarrow> ProjectRoots" where
  "project_roots_of p = \<lparr>root_ID = proj_ID p, ProjectRoot = path_dir (UProject p), EngineRoot = eng_Root (proj_Engine p)\<rparr>"

text \<open>The projects added so far, the errors joined and reported so far, and the watcher.\<close>

definition add_watched :: "watch_env \<Rightarrow> nat \<times> (string \<times> watch_error) list \<times> Watcher \<Rightarrow> Project \<Rightarrow>
    nat \<times> (string \<times> watch_error) list \<times> Watcher" where
  "add_watched env st p =
     (case st of (added, errors, w) \<Rightarrow>
       (case AddProject env (project_roots_of p) w of
          (Inl e, w') \<Rightarrow> (added, errors @ [(proj_ID p, e)], w')
        | (Inr _, w') \<Rightarrow> (Suc added, errors, w')))"

text \<open>What the start reports, and either its error or the watcher that runs until its context ends.\<close>

definition watch_startup :: "watch_env \<Rightarrow> Project list \<Rightarrow> (string \<times> watch_error) list \<times> ((string \<times> watch_error) list, Watcher) result" where
  "watch_startup env projects =
     (case foldl (add_watched env) (0, [], new_watcher) projects of
        (added, errors, w) \<Rightarrow> (errors, if added = 0 \<and> errors \<noteq> [] then Inl errors else Inr w))"

text \<open>Which call of the language-server manager a write becomes.\<close>

datatype source_change = ChangeRemoved string string | ChangeCreated string string | ChangeModified string string

definition source_write_call :: "SourceWrite \<Rightarrow> source_change" where
  "source_write_call c =
     (if sw_Removed c then ChangeRemoved (sw_ProjectID c) (sw_Path c)
      else if sw_ChangeType c = 1 then ChangeCreated (sw_ProjectID c) (sw_Path c)
      else ChangeModified (sw_ProjectID c) (sw_Path c))"

lemma add_watched_counts:
  "foldl (add_watched env) (a, es, w) ps = (a', es', w') \<Longrightarrow>
   length es' + a' = length es + a + length ps \<and> prefix es es'"
proof (induction ps arbitrary: a es w)
  case (Cons p ps)
  obtain a1 es1 w1 where s: "add_watched env (a, es, w) p = (a1, es1, w1)" by (cases "add_watched env (a, es, w) p")
  then have "length es1 + a1 = length es + a + 1 \<and> prefix es es1"
    by (auto simp: add_watched_def split: prod.splits sum.splits)
  with Cons.IH[of a1 es1 w1] Cons.prems s show ?case by (auto dest: prefix_order.trans)
qed simp

section \<open>Following the registry\<close>

record runtime_identity =
  ri_uproject :: string
  ri_engine :: string
  ri_clangd :: string
  ri_database :: string
  ri_cache :: string

definition runtimeIdentity :: "Project \<Rightarrow> runtime_identity" where
  "runtimeIdentity p =
     \<lparr>ri_uproject = UProject p, ri_engine = eng_Root (proj_Engine p), ri_clangd = ClangdPath (proj_Toolchain p),
      ri_database = CompilationDatabase (proj_Generation p), ri_cache = CacheDir (proj_Generation p)\<rparr>"

definition runtimeIdentities :: "Project list \<Rightarrow> (string \<times> runtime_identity) list" where
  "runtimeIdentities projects = fold (\<lambda>p. AList.update (proj_ID p) (runtimeIdentity p)) projects []"

definition json_identity :: "Project \<Rightarrow> json" where
  "json_identity p =
     (let i = runtimeIdentity p in
      JObj [(''ID'', JStr (proj_ID p)), (''UProject'', JStr (ri_uproject i)), (''Engine'', JStr (ri_engine i)),
            (''Clangd'', JStr (ri_clangd i)), (''CompilationDatabase'', JStr (ri_database i)), (''CacheDir'', JStr (ri_cache i))])"

definition watchFingerprint :: "Project list \<Rightarrow> string" where
  "watchFingerprint projects = json_encode (JArr (map json_identity projects))"

text \<open>
  The loop's variables; a watcher runs for \<open>wl_watching\<close>.  The code goes through the map of current
  identities in an arbitrary order, here the order they were entered in.
\<close>

record watch_loop =
  wl_fingerprint :: string
  wl_watching :: "Project list option"
  wl_current :: "(string \<times> runtime_identity) list"
  wl_manager :: manager

definition new_watch_loop :: "manager \<Rightarrow> watch_loop" where
  "new_watch_loop m = \<lparr>wl_fingerprint = '''', wl_watching = None, wl_current = [], wl_manager = m\<rparr>"

definition stale_keys :: "(string \<times> runtime_identity) list \<Rightarrow> (string \<times> runtime_identity) list \<Rightarrow> string list" where
  "stale_keys current nexts = map fst (filter (\<lambda>(key, previous). map_of nexts key \<noteq> Some previous) current)"

definition invalidate_keys :: "string list \<Rightarrow> manager \<Rightarrow> manager" where
  "invalidate_keys keys m = fold Invalidate_session keys m"

text \<open>A changed registry; \<open>stopped\<close> is the error the old watcher returns when it is stopped.\<close>

definition reconcile :: "Project list \<Rightarrow> string option \<Rightarrow> watch_loop \<Rightarrow> (string, watch_loop) result \<times> watch_loop" where
  "reconcile projects stopped s =
     (let fingerprint = watchFingerprint projects in
      if fingerprint = wl_fingerprint s then (Inr s, s)
      else
        let nexts = runtimeIdentities projects;
            s1 = s\<lparr>wl_manager := invalidate_keys (stale_keys (wl_current s) nexts) (wl_manager s)\<rparr>
        in case (if wl_watching s = None then None else stopped) of
             Some e \<Rightarrow> (Inl e, s1\<lparr>wl_watching := None\<rparr>)
           | None \<Rightarrow>
               let s2 = s1\<lparr>wl_watching := Some projects, wl_fingerprint := fingerprint, wl_current := nexts\<rparr>
               in (Inr s2, s2))"

text \<open>What ends the wait of a round: the context, the watcher with or without an error, or the ticker.\<close>

datatype wake = CtxDone | WatcherEnded "string option" | Tick

datatype loop_error = LoopStore registry_error | LoopWatcher string

datatype loop_outcome = LoopOn watch_loop | LoopEnd "loop_error option" watch_loop

definition after_wait :: "wake \<Rightarrow> watch_loop \<Rightarrow> loop_outcome" where
  "after_wait w s =
     (case w of
        CtxDone \<Rightarrow> LoopEnd None (s\<lparr>wl_watching := None\<rparr>)
      | WatcherEnded (Some e) \<Rightarrow> LoopEnd (Some (LoopWatcher e)) (s\<lparr>wl_watching := None\<rparr>)
      | WatcherEnded None \<Rightarrow> LoopOn (s\<lparr>wl_watching := None, wl_fingerprint := ''''\<rparr>)
      | Tick \<Rightarrow> LoopOn s)"

text \<open>One round of \<^verbatim>\<open>watchRegistry\<close>, with the registry it loads; the deferred call stops a watcher at the end.\<close>

definition watch_round :: "(registry_error, Project list) result \<Rightarrow> string option \<Rightarrow> wake \<Rightarrow> watch_loop \<Rightarrow> loop_outcome" where
  "watch_round loaded stopped w s =
     (case loaded of
        Inl e \<Rightarrow> LoopEnd (Some (LoopStore e)) (s\<lparr>wl_watching := None\<rparr>)
      | Inr projects \<Rightarrow>
         (case reconcile projects stopped s of
            (Inl e, s') \<Rightarrow> LoopEnd (Some (LoopWatcher e)) s'
          | (Inr s', _) \<Rightarrow> after_wait w s'))"

text \<open>Between rounds the manager serves requests, so it changes by any of its own steps.\<close>

inductive loop_step :: "watch_loop \<Rightarrow> watch_loop \<Rightarrow> bool" where
  round: "watch_round loaded stopped w s = LoopOn s' \<Longrightarrow> loop_step s s'"
| serve: "loop_step s (s\<lparr>wl_manager := manager_step e (wl_manager s)\<rparr>)"

definition loop_good :: "watch_loop \<Rightarrow> bool" where
  "loop_good s \<longleftrightarrow>
     (case wl_watching s of
        None \<Rightarrow> wl_fingerprint s = ''''
      | Some ps \<Rightarrow> wl_fingerprint s = watchFingerprint ps \<and> wl_current s = runtimeIdentities ps) \<and>
     manager_good (wl_manager s)"

lemma watchFingerprint_not_Nil: "watchFingerprint ps \<noteq> ''''"
  by (simp add: watchFingerprint_def)

subsection \<open>What an invalidation does to the sessions\<close>

text \<open>A project's session is out of use: gone, or to be dropped by its last user.\<close>

definition retired :: "manager \<Rightarrow> string \<Rightarrow> bool" where
  "retired m key \<longleftrightarrow> (case session_of m key of None \<Rightarrow> True | Some sid \<Rightarrow> ss_stale (mg_heap m sid))"

definition same_session :: "manager \<Rightarrow> manager \<Rightarrow> string \<Rightarrow> bool" where
  "same_session m m' key \<longleftrightarrow> session_of m' key = session_of m key \<and>
     (\<forall>sid. session_of m key = Some sid \<longrightarrow> mg_heap m' sid = mg_heap m sid)"

lemma retireLocked_session:
  "session_of (retireLocked key sid m) k = (if k = key \<and> session_of m key = Some sid then None else session_of m k)"
  "mg_heap (retireLocked key sid m) = mg_heap m"
  by (auto simp: retireLocked_def cleanupStartup_def session_of_def Let_def delete_conv)

lemma set_session_session:
  "session_of (set_session sid s m) k = session_of m k"
  "mg_heap (set_session sid s m) k' = (if k' = sid then s else mg_heap m k')"
  by (simp_all add: set_session_def session_of_def)

lemma Invalidate_session_sessions:
  "session_of (Invalidate_session key m) k =
     (case session_of m key of
        Some sid \<Rightarrow> if k = key \<and> ss_refs (mg_heap m sid) = 0 then None else session_of m k
      | None \<Rightarrow> session_of m k)"
  "mg_heap (Invalidate_session key m) sid' =
     (if session_of m key = Some sid' then (mg_heap m sid')\<lparr>ss_stale := True\<rparr> else mg_heap m sid')"
  by (auto simp: Invalidate_session_def Let_def retireLocked_session set_session_session split: option.splits)

lemma Invalidate_retires: "retired (Invalidate_session key m) key"
  by (simp add: retired_def Invalidate_session_sessions split: option.split)

lemma Invalidate_keeps_retired: "retired m k \<Longrightarrow> retired (Invalidate_session key m) k"
  by (auto simp: retired_def Invalidate_session_sessions split: option.splits)

lemma Invalidate_other:
  assumes "manager_good m" and "k \<noteq> key"
  shows "same_session m (Invalidate_session key m) k"
proof -
  have "session_of m key \<noteq> Some sid" if "session_of m k = Some sid" for sid
  proof
    assume "session_of m key = Some sid"
    then have "owner m sid = key" "owner m sid = k"
      using assms(1) that sessions_goodD unfolding manager_good_def by blast+
    with assms(2) show False by simp
  qed
  with assms(2) show ?thesis
    by (auto simp: same_session_def Invalidate_session_sessions split: option.split)
qed

lemma same_session_trans: "same_session m m1 k \<Longrightarrow> same_session m1 m2 k \<Longrightarrow> same_session m m2 k"
  by (simp add: same_session_def)

lemma invalidate_keys_Cons:
  "invalidate_keys (key # keys) m = invalidate_keys keys (Invalidate_session key m)"
  by (simp add: invalidate_keys_def)

lemma invalidate_keys_good: "manager_good m \<Longrightarrow> manager_good (invalidate_keys keys m)"
  by (induction keys arbitrary: m) (simp_all add: invalidate_keys_def kept_Invalidate)

lemma invalidate_keys_keeps_retired: "retired m k \<Longrightarrow> retired (invalidate_keys keys m) k"
  by (induction keys arbitrary: m) (simp_all add: invalidate_keys_def Invalidate_keeps_retired)

lemma invalidate_keys_retires: "k \<in> set keys \<Longrightarrow> retired (invalidate_keys keys m) k"
  by (induction keys arbitrary: m)
    (auto simp: invalidate_keys_Cons intro: invalidate_keys_keeps_retired Invalidate_retires)

lemma invalidate_keys_other:
  "manager_good m \<Longrightarrow> k \<notin> set keys \<Longrightarrow> same_session m (invalidate_keys keys m) k"
proof (induction keys arbitrary: m)
  case Nil
  then show ?case by (simp add: invalidate_keys_def same_session_def)
next
  case (Cons key keys)
  then have "same_session m (Invalidate_session key m) k" by (simp add: Invalidate_other)
  moreover have "same_session (Invalidate_session key m) (invalidate_keys keys (Invalidate_session key m)) k"
    using Cons.prems by (intro Cons.IH kept_Invalidate) auto
  ultimately show ?case unfolding invalidate_keys_Cons by (rule same_session_trans)
qed

subsection \<open>The loop\<close>

lemma runtimeIdentities_distinct: "distinct (map fst (runtimeIdentities ps))"
proof -
  have "distinct (map fst xs) \<Longrightarrow> distinct (map fst (fold (\<lambda>p. AList.update (proj_ID p) (runtimeIdentity p)) ps xs))" for xs
    by (induction ps arbitrary: xs) (simp_all add: distinct_update)
  then show ?thesis by (simp add: runtimeIdentities_def)
qed

lemma stale_keys_iff:
  assumes "distinct (map fst current)"
  shows "key \<in> set (stale_keys current nexts) \<longleftrightarrow>
    (\<exists>previous. map_of current key = Some previous \<and> map_of nexts key \<noteq> Some previous)"
  using assms by (force simp: stale_keys_def map_of_eq_Some_iff image_iff)

definition reaches_good :: "watch_loop \<Rightarrow> bool" where
  "reaches_good s \<longleftrightarrow> loop_good s \<and> distinct (map fst (wl_current s))"

lemma reconcile_good:
  assumes "reaches_good s" and "reconcile ps stopped s = (r, s1)"
  shows "manager_good (wl_manager s1) \<and> (case r of
      Inl _ \<Rightarrow> wl_watching s1 = None
    | Inr s2 \<Rightarrow> s2 = s1 \<and> reaches_good s1 \<and>
        (\<exists>qs. wl_watching s1 = Some qs \<and> watchFingerprint qs = watchFingerprint ps \<and> wl_current s1 = runtimeIdentities qs))"
proof (cases "watchFingerprint ps = wl_fingerprint s")
  case True
  then have r: "r = Inr s" "s1 = s" using assms(2) by (auto simp: reconcile_def)
  with True assms(1) watchFingerprint_not_Nil[of ps] show ?thesis
    by (auto simp: reaches_good_def loop_good_def split: option.splits)
next
  case False
  let ?m = "invalidate_keys (stale_keys (wl_current s) (runtimeIdentities ps)) (wl_manager s)"
  have "manager_good ?m"
    using assms(1) by (simp add: reaches_good_def loop_good_def invalidate_keys_good)
  with False assms(2) runtimeIdentities_distinct[of ps] show ?thesis
    by (auto simp: reconcile_def Let_def reaches_good_def loop_good_def split: option.splits if_splits)
qed

lemma loop_step_good: "loop_step s s' \<Longrightarrow> reaches_good s \<Longrightarrow> reaches_good s'"
proof (induction rule: loop_step.induct)
  case (round loaded stopped w s s')
  then obtain ps s1 where l: "loaded = Inr ps" "fst (reconcile ps stopped s) = Inr s1" "after_wait w s1 = LoopOn s'"
    by (auto simp: watch_round_def split: sum.splits prod.splits)
  then have "reaches_good s1"
    using reconcile_good[OF round(2), of ps stopped "Inr s1" "snd (reconcile ps stopped s)"]
    by (cases "reconcile ps stopped s") auto
  with l(3) show ?case
    by (auto simp: after_wait_def reaches_good_def loop_good_def split: wake.splits option.splits)
next
  case (serve s e)
  then show ?case by (simp add: reaches_good_def loop_good_def kept_step split: option.splits)
qed

interpretation following: invariant_system
  "\<lambda>s. s = new_watch_loop NewManager" loop_step reaches_good
proof unfold_locales
  show "s = new_watch_loop NewManager \<Longrightarrow> reaches_good s" for s
    using kept_new by (simp add: reaches_good_def loop_good_def new_watch_loop_def)
qed (rule loop_step_good)

text \<open>
  C7. The daemon follows the registry: in every state the loop can reach, a round that loads the
  projects of the registry and goes on watches projects that agree with them in every path the servers
  depend on.  A round that finds nothing changed leaves the loop and all sessions alone; otherwise exactly
  the sessions of the projects that were watched and are gone, or have other paths now, are retired, and
  the session of every other identifier, watched before or not, stays exactly as it was.
\<close>

theorem watch_loop_follows_registry:
  assumes "loop_step\<^sup>*\<^sup>* (new_watch_loop NewManager) s" and "reconcile ps stopped s = (Inr s2, s1)"
  shows "(\<exists>qs. wl_watching s2 = Some qs \<and> watchFingerprint qs = watchFingerprint ps \<and> wl_current s2 = runtimeIdentities qs) \<and>
    (watchFingerprint ps = wl_fingerprint s \<longrightarrow> s2 = s) \<and>
    (\<forall>key. if watchFingerprint ps \<noteq> wl_fingerprint s \<and>
          (\<exists>previous. map_of (wl_current s) key = Some previous \<and> map_of (runtimeIdentities ps) key \<noteq> Some previous)
        then retired (wl_manager s2) key else same_session (wl_manager s) (wl_manager s2) key)"
proof -
  have good: "reaches_good s" by (rule following.run_good[OF assms(1) refl])
  have same: "s2 = s" if "watchFingerprint ps = wl_fingerprint s"
    using assms(2) that by (simp add: reconcile_def)
  have "if watchFingerprint ps \<noteq> wl_fingerprint s \<and>
          (\<exists>previous. map_of (wl_current s) key = Some previous \<and> map_of (runtimeIdentities ps) key \<noteq> Some previous)
        then retired (wl_manager s2) key else same_session (wl_manager s) (wl_manager s2) key" for key
  proof (cases "watchFingerprint ps = wl_fingerprint s")
    case True
    with same show ?thesis by (simp add: same_session_def)
  next
    case False
    then have m: "wl_manager s2 = invalidate_keys (stale_keys (wl_current s) (runtimeIdentities ps)) (wl_manager s)"
      using assms(2) by (auto simp: reconcile_def Let_def split: option.splits if_splits)
    have "manager_good (wl_manager s)" and d: "distinct (map fst (wl_current s))"
      using good by (simp_all add: reaches_good_def loop_good_def)
    then show ?thesis
      using False unfolding m stale_keys_iff[OF d, symmetric]
      by (auto intro: invalidate_keys_retires invalidate_keys_other)
  qed
  with same reconcile_good[OF good assms(2)] show ?thesis by auto
qed

text \<open>Two projects with a session each; then one has moved and a third one is new.\<close>

definition watched_pair :: "Project list" where
  "watched_pair = [sample_project ''a'' ''/a/a.uproject'', sample_project ''b'' ''/b/b.uproject'']"

definition moved_pair :: "Project list" where
  "moved_pair = [sample_project ''a'' ''/x/a.uproject'', sample_project ''b'' ''/b/b.uproject'', sample_project ''c'' ''/c/c.uproject'']"

definition asked_pair :: manager where
  "asked_pair = reached [AskClient (sample_config\<lparr>cfg_ID := ''a''\<rparr>) 0, AskClient (sample_config\<lparr>cfg_ID := ''b''\<rparr>) 0]"

definition watching_pair :: watch_loop where
  "watching_pair = \<lparr>wl_fingerprint = watchFingerprint watched_pair, wl_watching = Some watched_pair,
     wl_current = runtimeIdentities watched_pair, wl_manager = asked_pair\<rparr>"

lemma watching_pair_reached: "loop_step\<^sup>*\<^sup>* (new_watch_loop NewManager) watching_pair"
proof -
  let ?w = "\<lambda>m. watching_pair\<lparr>wl_manager := m\<rparr>"
  let ?ask = "\<lambda>k m. manager_step (AskClient (sample_config\<lparr>cfg_ID := k\<rparr>) 0) m"
  have "watch_round (Inr watched_pair) None Tick (new_watch_loop NewManager) = LoopOn (?w NewManager)"
    by (simp add: watch_round_def reconcile_def Let_def new_watch_loop_def watchFingerprint_not_Nil after_wait_def
        watching_pair_def stale_keys_def invalidate_keys_def)
  then have "loop_step (new_watch_loop NewManager) (?w NewManager)" by (rule loop_step.round)
  moreover have "loop_step (?w m) (?w (?ask k m))" for k m
    using serve[of "?w m" "AskClient (sample_config\<lparr>cfg_ID := k\<rparr>) 0"] by simp
  ultimately have "loop_step\<^sup>*\<^sup>* (new_watch_loop NewManager) (?w (?ask ''b'' (?ask ''a'' NewManager)))"
    by (meson rtranclp.rtrancl_into_rtrancl rtranclp.rtrancl_refl)
  then show ?thesis by (simp add: watching_pair_def asked_pair_def)
qed

lemma watch_loop_follows_registry_witness:
  "\<exists>s2. reconcile moved_pair None watching_pair = (Inr s2, s2) \<and>
     session_of asked_pair ''a'' = Some 0 \<and> session_of asked_pair ''b'' = Some 1 \<and>
     retired (wl_manager s2) ''a'' \<and> same_session asked_pair (wl_manager s2) ''b'' \<and> same_session asked_pair (wl_manager s2) ''c''"
proof -
  have changed: "watchFingerprint moved_pair \<noteq> watchFingerprint watched_pair" by code_simp
  have ids: "map_of (runtimeIdentities watched_pair) ''a'' \<noteq> map_of (runtimeIdentities moved_pair) ''a''"
    "map_of (runtimeIdentities watched_pair) ''a'' \<noteq> None"
    "map_of (runtimeIdentities watched_pair) ''b'' = map_of (runtimeIdentities moved_pair) ''b''"
    "map_of (runtimeIdentities watched_pair) ''c'' = None"
    by (simp_all add: runtimeIdentities_def watched_pair_def moved_pair_def sample_project_def runtimeIdentity_def)
  obtain s2 where r: "reconcile moved_pair None watching_pair = (Inr s2, s2)"
    using changed by (auto simp: reconcile_def Let_def watching_pair_def)
  have "wl_manager watching_pair = asked_pair" "wl_fingerprint watching_pair = watchFingerprint watched_pair"
    "wl_current watching_pair = runtimeIdentities watched_pair" by (simp_all add: watching_pair_def)
  note f = watch_loop_follows_registry[OF watching_pair_reached r, unfolded this]
  have "retired (wl_manager s2) ''a''" "same_session asked_pair (wl_manager s2) ''b''" "same_session asked_pair (wl_manager s2) ''c''"
    using conjunct2[OF conjunct2[OF f], rule_format, of "''a''"] conjunct2[OF conjunct2[OF f], rule_format, of "''b''"]
      conjunct2[OF conjunct2[OF f], rule_format, of "''c''"] changed ids by auto
  moreover have "session_of asked_pair ''a'' = Some 0" "session_of asked_pair ''b'' = Some 1"
    by (simp_all add: asked_pair_def session_eval)
  ultimately show ?thesis using r by blast
qed

end
