(* ===== verification/AppMain.thy ===== *)
theory AppMain
  imports AppIndex AppDoctor AppWatch DaemonServer DaemonStart McpStdio
begin

text \<open>
  The program as a whole (\<^verbatim>\<open>cmd/soft-ue-index/main.go\<close> and the rest of \<^verbatim>\<open>internal/app/app.go\<close>): the choice of
  the command, the commands that need the daemon, the proxy between standard input and the daemon, the
  exit code, and the daemon itself, which runs the watching loop, the language-server manager and
  the control server together and ends all of them.
\<close>

section \<open>The lifetime lock\<close>

datatype lifetime_error = LifetimeNoUser | LifetimeLockFailed file_lock_error | DaemonAlreadyRunning

text \<open>The outcome is the path of the lock taken.\<close>

definition AcquireLifetimeLock :: "(string \<Rightarrow> string) \<Rightarrow> user_env \<Rightarrow> (string \<Rightarrow> file_lock_error + bool)
    \<Rightarrow> (lifetime_error, string) result" where
  "AcquireLifetimeLock hash env lock =
     (case DefaultDaemonLockPath hash env of
        None \<Rightarrow> Inl LifetimeNoUser
      | Some path \<Rightarrow>
         (case lock path of
            Inl e \<Rightarrow> Inl (LifetimeLockFailed e)
          | Inr acquired \<Rightarrow> if \<not> acquired then Inl DaemonAlreadyRunning else Inr path))"

section \<open>The proxy between standard input and the daemon\<close>

text \<open>
  The contexts and the writers of the two directions, what ended first (a direction, or the context
  with its error while the other result is of the requests when the flag is set), and whether the
  context's own error is its expired deadline.
\<close>

datatype proxy_end = RequestsEnded | ResponsesEnded | ContextEnded stdio_error bool

record proxy_world =
  px_request_context :: "nat \<Rightarrow> stdio_error option"
  px_response_context :: "nat \<Rightarrow> stdio_error option"
  px_taken :: "nat \<Rightarrow> nat option"
  px_accept :: "nat \<Rightarrow> write_result"
  px_end :: proxy_end
  px_deadline :: bool

text \<open>Its error, the bytes sent to the daemon, and the frames written to standard output.\<close>

definition ProxyFrames :: "scanner \<Rightarrow> FrameProxyCaps \<Rightarrow> proxy_world \<Rightarrow> string \<Rightarrow> string
    \<Rightarrow> stdio_error option \<times> string \<times> string list" where
  "ProxyFrames scan caps w reqs resps =
     (let c = normalizeFrameCaps caps;
          (e1, sent) = proxyFrames scan (nat (cap_RequestBytes c)) (nat (cap_RequestIDBytes c)) (px_request_context w)
            (px_taken w) 0 0 reqs '''';
          (e2, wr) = proxyFramesResponse (nat (cap_ResponseBytes c)) (px_response_context w) (px_accept w) 0 resps
            (newBoundedJSONWriter (nat (cap_ResponseBytes c)));
          outcome = (case px_end w of
              RequestsEnded \<Rightarrow> proxy_outcome (px_deadline w) (Some e1) (Some e2)
            | ResponsesEnded \<Rightarrow> proxy_outcome (px_deadline w) (Some e2) (Some e1)
            | ContextEnded e requestsSecond \<Rightarrow> proxy_outcome (px_deadline w) (Some e) (Some (if requestsSecond then e1 else e2)))
      in (outcome, sent, bw_out wr))"

section \<open>The commands\<close>

datatype main_error =
    NoStore
  | CommandFailed app_error
  | IndexCommandFailed index_command_error
  | UnknownCommandName string
  | WatchAlreadyRunning
  | WatchOwnership file_lock_error
  | WatchFailedWith string
  | NoExecutable
  | EnsureFailed ensure_error
  | NoPipe
  | DaemonCall string
  | ProxyFailed stdio_error
  | LifetimeFailed lifetime_error
  | DaemonWatch loop_error
  | DaemonServe
  | MissingDaemonAction

text \<open>
  The effects of the commands: the registry store (\<open>me_store\<close> tells whether it could be opened), the
  locks, the dialler, the watcher's run, the outcome of the daemon's two goroutines, the order they
  ended in, and what the MCP command meets.
\<close>

record main_env =
  me_store :: bool
  me_app :: app_env
  me_index :: index_env
  me_doctor :: doctor_env
  me_hash :: "string \<Rightarrow> string"
  me_user :: user_env
  me_lock :: "string \<Rightarrow> file_lock_error + bool"
  me_WatchLockPath :: string
  me_Watch :: "Project list \<Rightarrow> string option"
  me_dial :: dialer
  me_executable :: bool
  me_ensure :: ensure_world
  me_scan :: scanner
  me_proxy :: proxy_world
  me_stdin :: string
  me_watch_first :: bool
  me_watch_result :: "loop_error option"
  me_serve_failed :: bool

record main_outcome =
  mo_error :: "main_error option"
  mo_text :: string
  mo_disk :: disk
  mo_files :: "string \<rightharpoonup> string"

definition ended :: "main_error option \<Rightarrow> string \<Rightarrow> disk \<Rightarrow> (string \<rightharpoonup> string) \<Rightarrow> main_outcome" where
  "ended e t d fs = \<lparr>mo_error = e, mo_text = t, mo_disk = d, mo_files = fs\<rparr>"

definition of_command :: "outcome \<Rightarrow> (string \<rightharpoonup> string) \<Rightarrow> main_outcome" where
  "of_command r fs = ended (map_option CommandFailed (oc_error r)) (oc_text r) (oc_disk r) fs"

definition of_index :: "(index_command_error, string) result \<times> disk \<times> (string \<rightharpoonup> string) \<Rightarrow> main_outcome" where
  "of_index r =
     (case r of
        (Inl e, d, fs) \<Rightarrow> ended (Some (IndexCommandFailed e)) '''' d fs
      | (Inr t, d, fs) \<Rightarrow> ended None t d fs)"

text \<open>The watch command: exactly one process watches, the one that holds the lock.\<close>

definition watch_ownership :: "main_env \<Rightarrow> (main_error, unit) result" where
  "watch_ownership me =
     (if me_WatchLockPath me = '''' then
        (case AcquireLifetimeLock (me_hash me) (me_user me) (me_lock me) of
           Inl _ \<Rightarrow> Inl WatchAlreadyRunning | Inr _ \<Rightarrow> Inr ())
      else (case me_lock me (me_WatchLockPath me) of
          Inl e \<Rightarrow> Inl (WatchOwnership e)
        | Inr acquired \<Rightarrow> if \<not> acquired then Inl WatchAlreadyRunning else Inr ()))"

definition app_watch :: "main_env \<Rightarrow> disk \<Rightarrow> (string \<rightharpoonup> string) \<Rightarrow> main_outcome" where
  "app_watch me d fs =
     (case watch_ownership me of
        Inl e \<Rightarrow> ended (Some e) '''' d fs
      | Inr _ \<Rightarrow>
         (case app_load (me_app me) 0 d of
            (Inl e, d') \<Rightarrow> ended (Some (CommandFailed (StoreError e))) '''' d' fs
          | (Inr r, d') \<Rightarrow> ended (map_option WatchFailedWith (me_Watch me (Projects r))) '''' d' fs))"

text \<open>The MCP command; \<open>None\<close> would be that ensuring the daemon never returns.\<close>

definition mcp_config :: "main_env \<Rightarrow> run_config" where
  "mcp_config me = \<lparr>rc_has_start = True, rc_dialer = me_dial me, rc_PipePath = '''', rc_StartupLockPath = '''', rc_Timeout = 0\<rparr>"

definition app_mcp :: "main_env \<Rightarrow> disk \<Rightarrow> (string \<rightharpoonup> string) \<Rightarrow> main_outcome option" where
  "app_mcp me d fs =
     (if \<not> me_executable me then Some (ended (Some NoExecutable) '''' d fs)
      else case EnsureRunning (me_hash me) (me_user me) (mcp_config me) (me_ensure me) of
          None \<Rightarrow> None
        | Some running \<Rightarrow> Some
           (case en_result running of
              Inl e \<Rightarrow> ended (Some (EnsureFailed e)) '''' d fs
            | Inr _ \<Rightarrow>
               (case DefaultPipePath (me_hash me) (me_user me) of
                  None \<Rightarrow> ended (Some NoPipe) '''' d fs
                | Some pipe \<Rightarrow>
                   (case client_MCP (me_dial me) pipe of
                      Inl e \<Rightarrow> ended (Some (DaemonCall e)) '''' d fs
                    | Inr stream \<Rightarrow>
                       (case ProxyFrames (me_scan me) \<lparr>cap_RequestBytes = 0, cap_RequestIDBytes = 0, cap_ResponseBytes = 0\<rparr>
                               (me_proxy me) (me_stdin me) stream of
                          (e, _, frames) \<Rightarrow> ended (map_option ProxyFailed e) (concat frames) d fs)))))"

text \<open>The error of the goroutine that ended first, or else of the other one.\<close>

definition daemon_result :: "bool \<Rightarrow> loop_error option \<Rightarrow> bool \<Rightarrow> main_error option" where
  "daemon_result watchFirst watchErr serveFailed =
     (let watchError = map_option DaemonWatch watchErr; serveError = (if serveFailed then Some DaemonServe else None)
      in if watchFirst then (if watchError \<noteq> None then watchError else serveError)
         else (if serveError \<noteq> None then serveError else watchError))"

definition runDaemon :: "main_env \<Rightarrow> main_error option" where
  "runDaemon me =
     (case AcquireLifetimeLock (me_hash me) (me_user me) (me_lock me) of
        Inl e \<Rightarrow> Some (LifetimeFailed e)
      | Inr _ \<Rightarrow> daemon_result (me_watch_first me) (me_watch_result me) (me_serve_failed me))"

definition printed_line :: "main_env \<Rightarrow> string \<Rightarrow> disk \<Rightarrow> (string \<rightharpoonup> string) \<Rightarrow> main_outcome" where
  "printed_line me line d fs =
     ended (if ap_written (me_app me) then None else Some (CommandFailed OutputError)) (line @ [CHR 10]) d fs"

definition app_daemon :: "main_env \<Rightarrow> Command \<Rightarrow> disk \<Rightarrow> (string \<rightharpoonup> string) \<Rightarrow> main_outcome" where
  "app_daemon me c d fs =
     (case DefaultPipePath (me_hash me) (me_user me) of
        None \<Rightarrow> ended (Some NoPipe) '''' d fs
      | Some pipe \<Rightarrow>
          if cmd_DaemonAction c = ''status'' then
            (case client_Status (me_dial me) pipe of
               Inl e \<Rightarrow> ended (Some (DaemonCall e)) '''' d fs
             | Inr st \<Rightarrow>
                 if cmd_JSON c then of_command (writeJSON (ap_written (me_app me)) (JObj [(''status'', JStr st)]) d) fs
                 else printed_line me st d fs)
          else if cmd_DaemonAction c = ''stop'' then
            (case client_Stop (me_dial me) pipe of
               Inl e \<Rightarrow> ended (Some (DaemonCall e)) '''' d fs
             | Inr _ \<Rightarrow> printed_line me ''stopped'' d fs)
          else if cmd_DaemonAction c = ''run'' then ended (runDaemon me) '''' d fs
          else ended (Some MissingDaemonAction) '''' d fs)"

definition app_Run :: "main_env \<Rightarrow> Command \<Rightarrow> disk \<Rightarrow> (string \<rightharpoonup> string) \<Rightarrow> main_outcome option" where
  "app_Run me c d fs =
     (let ae = me_app me; name = cmd_Name c in
      if \<not> me_store me then Some (ended (Some NoStore) '''' d fs)
      else if name = ''list'' then Some (of_command (app_list ae (cmd_JSON c) d) fs)
      else if name = ''add'' then Some (of_command (app_add ae c d) fs)
      else if name = ''remove'' then Some (of_command (app_remove ae c d) fs)
      else if name = ''status'' then Some (of_command (app_status ae c d) fs)
      else if name = ''generate'' then Some (of_command (app_generate ae c d) fs)
      else if name = ''index-engine'' then Some (of_index (app_indexEngine ae (me_index me) c d fs))
      else if name = ''doctor'' then Some (of_command (app_doctor ae (me_doctor me) (cmd_JSON c) d) fs)
      else if name = ''watch'' then Some (app_watch me d fs)
      else if name = ''mcp'' then app_mcp me d fs
      else if name = ''daemon'' then Some (app_daemon me c d fs)
      else Some (ended (Some (UnknownCommandName name)) '''' d fs))"

text \<open>The exit code of the process and what the command did, if it was started.\<close>

definition main_run :: "main_env \<Rightarrow> string list \<Rightarrow> disk \<Rightarrow> (string \<rightharpoonup> string) \<Rightarrow> (nat \<times> main_outcome option) option" where
  "main_run me args d fs =
     (case Parse args of
        Inl _ \<Rightarrow> Some (2, None)
      | Inr c \<Rightarrow> map_option (\<lambda>r. (if mo_error r = None then 0 else 1, Some r)) (app_Run me c d fs))"

section \<open>Every accepted command line runs a command\<close>

lemma of_command_error [simp]: "mo_error (of_command r fs) = map_option CommandFailed (oc_error r)"
  by (simp add: of_command_def ended_def)

lemma printed_line_error [simp]: "mo_error (printed_line me line d fs) \<in> {None, Some (CommandFailed OutputError)}"
  by (simp add: printed_line_def ended_def)

lemma ended_error [simp]: "mo_error (ended e t d fs) = e"
  by (simp add: ended_def)

lemma runDaemon_error: "runDaemon me \<noteq> Some MissingDaemonAction \<and> runDaemon me \<noteq> Some (UnknownCommandName n)"
  by (auto simp: runDaemon_def daemon_result_def Let_def split: sum.splits option.splits if_splits)

definition misrouted :: "main_outcome \<Rightarrow> bool" where
  "misrouted r \<longleftrightarrow> mo_error r = Some MissingDaemonAction \<or> (\<exists>n. mo_error r = Some (UnknownCommandName n))"

lemma not_misrouted [simp]:
  "\<not> misrouted (of_command q fs)" "\<not> misrouted (of_index x)" "\<not> misrouted (ended (Some NoStore) t d fs)"
  by (auto simp: misrouted_def of_index_def split: prod.splits sum.splits)

lemma watch_not_misrouted: "\<not> misrouted (app_watch me d fs)"
  by (auto simp: misrouted_def app_watch_def watch_ownership_def split: sum.splits prod.splits if_splits)

lemma mcp_not_misrouted: "app_mcp me d fs = Some r \<Longrightarrow> \<not> misrouted r"
  by (auto simp: misrouted_def app_mcp_def split: if_splits option.splits sum.splits prod.splits)

lemma daemon_not_misrouted:
  assumes "cmd_DaemonAction c \<in> {''run'', ''status'', ''stop''}"
  shows "\<not> misrouted (app_daemon me c d fs)"
proof -
  have "\<not> misrouted (printed_line me line d fs)" for line
    using printed_line_error[of me line d fs] by (auto simp: misrouted_def)
  with assms runDaemon_error[of me] show ?thesis
    by (auto simp: app_daemon_def misrouted_def split: option.splits sum.splits)
qed

lemma Run_not_misrouted:
  assumes "wf_command c" and "app_Run me c d fs = Some r"
  shows "\<not> misrouted r"
  using assms watch_not_misrouted[of me d fs] mcp_not_misrouted[of me d fs r] daemon_not_misrouted[of c me d fs]
  by (auto simp: app_Run_def wf_command_def Let_def split: if_splits)

text \<open>
  The exit code tells what happened, and the router knows what the parser accepts: the process exits
  with 2 exactly when the arguments were refused, and then no command was started; with 0 exactly when
  the command succeeded; and a command that was accepted is never refused as unknown or as lacking its
  daemon action.
\<close>

theorem exit_code_tells_outcome:
  assumes "main_run me args d fs = Some (code, r)"
  shows "(code = 2 \<longleftrightarrow> (\<exists>e. Parse args = Inl e)) \<and> (code = 2 \<longleftrightarrow> r = None) \<and>
    (code = 0 \<longleftrightarrow> (\<exists>q. r = Some q \<and> mo_error q = None)) \<and> code \<in> {0, 1, 2} \<and>
    (\<forall>q. r = Some q \<longrightarrow> \<not> misrouted q)"
proof (cases "Parse args")
  case (Inl e)
  with assms show ?thesis by (simp add: main_run_def)
next
  case (Inr c)
  then have "wf_command c" by (rule Parse_sound)
  with Inr assms Run_not_misrouted[of c me d fs] show ?thesis
    by (auto simp: main_run_def split: if_splits)
qed

definition sample_main :: main_env where
  "sample_main =
     \<lparr>me_store = True, me_app = sample_app alone, me_index = sample_index_env True, me_doctor = sample_doctor_env,
      me_hash = id, me_user = \<lparr>ue_goos = ''linux'', ue_user = Some (''u'', ''/home/u''), ue_cache = Some ''/cache'', ue_temp = ''/tmp''\<rparr>,
      me_lock = (\<lambda>_. Inr True), me_WatchLockPath = '''', me_Watch = (\<lambda>_. None), me_dial = (\<lambda>_. Inl ''no daemon''),
      me_executable = True,
      me_ensure = \<lparr>ew_first = True, ew_second = True, ew_lock = (\<lambda>_. Inr True), ew_start = None, ew_begin = 0,
        ew_now = (\<lambda>_. 0), ew_poll = (\<lambda>_ _. True)\<rparr>,
      me_scan = sample_scanner,
      me_proxy = \<lparr>px_request_context = (\<lambda>_. None), px_response_context = (\<lambda>_. None), px_taken = (\<lambda>_. Some 1),
        px_accept = (\<lambda>_. WriteAll), px_end = RequestsEnded, px_deadline = False\<rparr>,
      me_stdin = '''', me_watch_first = True, me_watch_result = None, me_serve_failed = False\<rparr>"

theorem exit_code_tells_outcome_witness:
  "\<exists>q. main_run sample_main [''remove'', ''x''] (holding ''x,y'') Map.empty = Some (0, Some q) \<and>
     mo_text q = ''removed x'' @ [CHR 10] \<and> \<not> misrouted q"
proof -
  let ?run = "main_run sample_main [''remove'', ''x''] (holding ''x,y'') Map.empty"
  have run: "map_option (\<lambda>(n, r). (n, map_option mo_text r)) ?run = Some (0, Some (''removed x'' @ [CHR 10]))"
    by code_simp
  then obtain r where r: "?run = Some (0, r)" by auto
  with run exit_code_tells_outcome[OF r] show ?thesis by auto
qed

end
