(* ===== verification/AppDaemon.thy ===== *)
theory AppDaemon
  imports AppMain
begin

text \<open>
  The running daemon (\<^verbatim>\<open>runDaemon\<close> in \<^verbatim>\<open>internal/app/app.go\<close>): the watching loop and the control server run
  at once and share the manager of the language servers; whichever ends first ends the other; then
  the manager is closed and the lifetime lock released.  The steps are those of the components, in any
  interleaving.
\<close>

section \<open>The steps\<close>

text \<open>
  \<open>dr_watchDone\<close> is the result of the watching loop once it has ended, \<open>dr_first\<close> which of the two results
  was received first (\<open>True\<close> for the watching loop's), and \<open>dr_lock\<close> whether the lock is held.
\<close>

record daemon_run =
  dr_loop :: watch_loop
  dr_server :: daemon_server
  dr_watchDone :: "loop_error option option"
  dr_first :: "bool option"
  dr_cancelled :: bool
  dr_lock :: bool
  dr_result :: "main_error option option"

definition new_daemon :: daemon_run where
  "new_daemon =
     \<lparr>dr_loop = new_watch_loop NewManager, dr_server = listening_server, dr_watchDone = None, dr_first = None,
      dr_cancelled = False, dr_lock = True, dr_result = None\<rparr>"

definition update_manager :: "(manager \<Rightarrow> manager) \<Rightarrow> daemon_run \<Rightarrow> daemon_run" where
  "update_manager f s = s\<lparr>dr_loop := (dr_loop s)\<lparr>wl_manager := f (wl_manager (dr_loop s))\<rparr>\<rparr>"

text \<open>The return, with the deferred calls: the manager is closed, the context cancelled, the lock released.\<close>

definition daemon_return :: "bool \<Rightarrow> loop_error option \<Rightarrow> bool \<Rightarrow> daemon_run \<Rightarrow> daemon_run" where
  "daemon_return watchFirst watchErr serveFailed s =
     (update_manager Close_manager s)
       \<lparr>dr_cancelled := True, dr_lock := False, dr_result := Some (daemon_result watchFirst watchErr serveFailed)\<rparr>"

text \<open>
  The context may be cancelled by a signal at any time.  A start-up goes on after the return, until it
  sees that it was cancelled, so the manager's steps are always possible.
\<close>

inductive daemon_step :: "daemon_run \<Rightarrow> daemon_run \<Rightarrow> bool" where
  watching: "dr_watchDone s = None \<Longrightarrow> (w = CtxDone \<Longrightarrow> dr_cancelled s) \<Longrightarrow>
    watch_round loaded stopped w (dr_loop s) = LoopOn l \<Longrightarrow> daemon_step s (s\<lparr>dr_loop := l\<rparr>)"
| watch_ends: "dr_watchDone s = None \<Longrightarrow> (w = CtxDone \<Longrightarrow> dr_cancelled s) \<Longrightarrow>
    watch_round loaded stopped w (dr_loop s) = LoopEnd e l \<Longrightarrow> daemon_step s (s\<lparr>dr_loop := l, dr_watchDone := Some e\<rparr>)"
| querying: "daemon_step s (update_manager (manager_step e) s)"
| serving: "serve_step (dr_server s) v \<Longrightarrow> daemon_step s (s\<lparr>dr_server := v\<rparr>)"
| signalled: "daemon_step s (s\<lparr>dr_cancelled := True\<rparr>)"
| watch_first: "dr_first s = None \<Longrightarrow> dr_watchDone s = Some e \<Longrightarrow>
    daemon_step s (s\<lparr>dr_first := Some True, dr_cancelled := True\<rparr>)"
| serve_first: "dr_first s = None \<Longrightarrow> sv_phase (dr_server s) = Returned b \<Longrightarrow>
    daemon_step s (s\<lparr>dr_first := Some False, dr_cancelled := True\<rparr>)"
| returning: "dr_first s = Some f \<Longrightarrow> dr_watchDone s = Some e \<Longrightarrow> sv_phase (dr_server s) = Returned b \<Longrightarrow>
    dr_result s = None \<Longrightarrow> daemon_step s (daemon_return f e b s)"

section \<open>The invariant\<close>

text \<open>A closed manager stays closed.\<close>

lemma closed_startup:
  "mg_closed m \<Longrightarrow> mg_sessions m = [] \<Longrightarrow> mg_closed (startup_step a l p now m)"
  unfolding startup_step_def finishStartup_def op_defs
  by (simp split: option.split stage.split)

lemma closed_stays:
  assumes "manager_good m" and "mg_closed m"
  shows "mg_closed (manager_step e m)"
proof -
  have none: "mg_sessions m = []" using assms by (simp add: manager_good_def)
  show ?thesis
  proof (cases e)
    case (WatchStep p now)
    with assms(2) none show ?thesis by (simp add: watch_session_def session_of_def Let_def split: option.split prod.split)
  qed (use assms(2) none in \<open>simp_all add: client_round_def startupResult_def closed_startup Release_def
        Invalidate_session_def stop_session_def Close_manager_def session_of_def Let_def\<close>)
qed

lemma Close_manager_closed: "mg_closed (Close_manager m)"
  by (simp add: Close_manager_def Let_def)

lemma round_ends_good:
  assumes "reaches_good s" and "watch_round loaded stopped w s = LoopEnd e l"
  shows "manager_good (wl_manager l) \<and> wl_watching l = None"
proof (cases loaded)
  case (Inl err)
  with assms show ?thesis by (auto simp: watch_round_def reaches_good_def loop_good_def)
next
  case (Inr ps)
  obtain r s1 where rec: "reconcile ps stopped s = (r, s1)" by fastforce
  note g = reconcile_good[OF assms(1) rec]
  show ?thesis
  proof (cases r)
    case (Inl err)
    with Inr rec g assms(2) show ?thesis by (auto simp: watch_round_def)
  next
    case Inr2: (Inr s2)
    with Inr rec g assms(2) show ?thesis
      by (auto simp: watch_round_def after_wait_def split: wake.splits option.splits)
  qed
qed

text \<open>A manager whose running processes and open clients all belong to start-ups that have not ended.\<close>

definition nothing_but_startups :: "manager \<Rightarrow> bool" where
  "nothing_but_startups m \<longleftrightarrow>
     mg_closed m \<and> mg_sessions m = [] \<and> (\<forall>p \<in> mg_alive m \<union> mg_open m. mg_startups m p \<noteq> None)"

lemma closed_manager_empty:
  assumes "manager_good m" and "mg_closed m"
  shows "nothing_but_startups m"
proof -
  have "mg_sessions m = []" using assms by (simp add: manager_good_def)
  with manager_goodD(4,5)[OF assms(1)] assms(2) show ?thesis
    by (force simp: nothing_but_startups_def session_of_def dest: processes_goodD clients_goodD)
qed

definition daemon_good :: "daemon_run \<Rightarrow> bool" where
  "daemon_good s \<longleftrightarrow>
     manager_good (wl_manager (dr_loop s)) \<and> serve_step\<^sup>*\<^sup>* listening_server (dr_server s) \<and>
     (case dr_watchDone s of None \<Rightarrow> reaches_good (dr_loop s) | Some _ \<Rightarrow> wl_watching (dr_loop s) = None) \<and>
     (dr_first s = Some True \<longrightarrow> dr_watchDone s \<noteq> None) \<and>
     (dr_first s = Some False \<longrightarrow> (\<exists>b. sv_phase (dr_server s) = Returned b)) \<and>
     (case dr_result s of
        None \<Rightarrow> dr_lock s
      | Some r \<Rightarrow> \<not> dr_lock s \<and> mg_closed (wl_manager (dr_loop s)) \<and>
          (\<exists>f e b. dr_first s = Some f \<and> dr_watchDone s = Some e \<and> sv_phase (dr_server s) = Returned b \<and>
             r = daemon_result f e b))"

lemma serve_returned_stays: "serve_step v w \<Longrightarrow> sv_phase v = Returned b \<Longrightarrow> sv_phase w = Returned b"
  by (erule serve_step.cases)
    (auto simp: wait_handlers_def advance_handler_def close_connection_def untrack_def split: option.split handler_phase.split)

lemma daemon_good_step: "daemon_good s \<Longrightarrow> daemon_step s t \<Longrightarrow> daemon_good t"
proof (erule daemon_step.cases, goal_cases)
  case (1 s' w loaded stopped l)
  then have "reaches_good (dr_loop s)" by (simp add: daemon_good_def)
  moreover have "loop_step (dr_loop s) l" using 1 by (auto intro: loop_step.round)
  ultimately have "reaches_good l" by (rule loop_step_good[rotated])
  with 1 show ?case by (auto simp: daemon_good_def reaches_good_def loop_good_def split: option.splits)
next
  case (2 s' w loaded stopped e l)
  then have "reaches_good (dr_loop s)" by (simp add: daemon_good_def)
  from round_ends_good[OF this] 2 show ?case by (auto simp: daemon_good_def split: option.splits)
next
  case (3 s' e)
  then show ?case
    by (auto simp: daemon_good_def update_manager_def reaches_good_def loop_good_def kept_step closed_stays split: option.splits)
next
  case (4 s' v)
  then have "serve_step\<^sup>*\<^sup>* listening_server v" by (auto simp: daemon_good_def intro: rtranclp.rtrancl_into_rtrancl)
  with 4 show ?case by (auto simp: daemon_good_def dest: serve_returned_stays split: option.splits)
next
  case (8 s' f e b)
  then show ?case
    by (auto simp: daemon_good_def daemon_return_def update_manager_def Close_manager_closed kept_Close split: option.splits)
qed (auto simp: daemon_good_def split: option.splits)

lemma daemon_good_new: "daemon_good new_daemon"
  using kept_new by (simp add: daemon_good_def new_daemon_def reaches_good_def loop_good_def new_watch_loop_def)

interpretation running: invariant_system "\<lambda>s. s = new_daemon" daemon_step daemon_good
  by unfold_locales (auto intro: daemon_good_new daemon_good_step)

section \<open>The daemon can always be stopped\<close>

lemma serving_steps: "serve_step\<^sup>*\<^sup>* v w \<Longrightarrow> dr_server s = v \<Longrightarrow> daemon_step\<^sup>*\<^sup>* s (s\<lparr>dr_server := w\<rparr>)"
proof (induction rule: rtranclp_induct)
  case base
  then have "s\<lparr>dr_server := v\<rparr> = s" by (cases s) simp
  then show ?case by simp
next
  case (step w x)
  from step.IH[OF step.prems] serving[of "s\<lparr>dr_server := w\<rparr>" x] step.hyps(2) show ?case
    by (auto intro: rtranclp.rtrancl_into_rtrancl)
qed

text \<open>The watching loop ends: in its next round it sees the cancelled context.\<close>

lemma watch_can_end:
  assumes "dr_cancelled s"
  shows "\<exists>t e. daemon_step\<^sup>*\<^sup>* s t \<and> dr_watchDone t = Some e \<and> dr_server t = dr_server s \<and> dr_first t = dr_first s \<and>
    dr_result t = dr_result s \<and> (dr_watchDone s \<in> {None, Some None} \<longrightarrow> e = None)"
proof (cases "dr_watchDone s")
  case None
  obtain l l' where "reconcile [] None (dr_loop s) = (Inr l, l')"
    by (cases "watchFingerprint [] = wl_fingerprint (dr_loop s)") (auto simp: reconcile_def Let_def)
  then have "watch_round (Inr []) None CtxDone (dr_loop s) = LoopEnd None (l\<lparr>wl_watching := None\<rparr>)"
    by (simp add: watch_round_def after_wait_def)
  with None have "daemon_step s (s\<lparr>dr_loop := l\<lparr>wl_watching := None\<rparr>, dr_watchDone := Some None\<rparr>)" using assms by (intro watch_ends) auto
  then show ?thesis by (intro exI[of _ "s\<lparr>dr_loop := l\<lparr>wl_watching := None\<rparr>, dr_watchDone := Some None\<rparr>"]) (auto intro: r_into_rtranclp)
next
  case (Some e)
  then show ?thesis by (intro exI[of _ s]) auto
qed

text \<open>The server ends: its context is cancelled, then its listener fails, and it waits for its handlers.\<close>

lemma server_can_end:
  assumes "serve_step\<^sup>*\<^sup>* listening_server (dr_server s)"
  shows "\<exists>v b. daemon_step\<^sup>*\<^sup>* s (s\<lparr>dr_server := v\<rparr>) \<and> sv_phase v = Returned b \<and>
    (sv_phase (dr_server s) \<in> {Accepting, Draining False, Returned False} \<longrightarrow> \<not> b)"
proof (cases "\<exists>b. sv_phase (dr_server s) = Returned b")
  case True
  then show ?thesis by (intro exI[of _ "dr_server s"]) auto
next
  case False
  let ?v = "(dr_server s)\<lparr>sv_cancelled := True\<rparr>"
  have step: "serve_step (dr_server s) ?v" by (rule serve_context)
  have reach: "serve_step\<^sup>*\<^sup>* listening_server ?v" using assms step by (rule rtranclp.rtrancl_into_rtrancl)
  obtain e where e: "sv_phase ?v \<in> {Accepting, Draining e}" "sv_phase (dr_server s) = Draining False \<longrightarrow> \<not> e"
    using False by (cases "sv_phase (dr_server s)") auto
  from server_can_return[OF reach e(1)] obtain v where v: "serve_step\<^sup>*\<^sup>* ?v v"
      "sv_phase v = Returned (if sv_phase ?v = Accepting then False else e)" by auto
  have "daemon_step\<^sup>*\<^sup>* s (s\<lparr>dr_server := v\<rparr>)"
    using converse_rtranclp_into_rtranclp[of serve_step, OF step v(1)] by (intro serving_steps) auto
  with v(2) e(2) False show ?thesis by (intro exI[of _ v]) auto
qed

lemma daemon_way:
  assumes "daemon_good s" and "dr_result s = None"
  shows "\<exists>t r. daemon_step\<^sup>*\<^sup>* s t \<and> dr_result t = Some r \<and>
    (dr_watchDone s \<in> {None, Some None} \<and> sv_phase (dr_server s) \<in> {Accepting, Draining False, Returned False} \<longrightarrow> r = None)"
proof -
  let ?s = "s\<lparr>dr_cancelled := True\<rparr>"
  obtain t e where t: "daemon_step\<^sup>*\<^sup>* ?s t" "dr_watchDone t = Some e" "dr_server t = dr_server s" "dr_first t = dr_first s"
      "dr_result t = None" "dr_watchDone s \<in> {None, Some None} \<longrightarrow> e = None"
    using watch_can_end[of ?s] assms(2) by auto
  obtain v b where v: "daemon_step\<^sup>*\<^sup>* t (t\<lparr>dr_server := v\<rparr>)" "sv_phase v = Returned b"
      "sv_phase (dr_server s) \<in> {Accepting, Draining False, Returned False} \<longrightarrow> \<not> b"
    using server_can_end[of t] assms(1) t(3) by (auto simp: daemon_good_def)
  let ?t = "t\<lparr>dr_server := v\<rparr>"
  obtain u f where u: "daemon_step\<^sup>*\<^sup>* ?t u" "dr_first u = Some f" "dr_watchDone u = Some e" "sv_phase (dr_server u) = Returned b"
      "dr_result u = None"
  proof (cases "dr_first ?t")
    case None
    have "daemon_step ?t (?t\<lparr>dr_first := Some True, dr_cancelled := True\<rparr>)" by (rule watch_first) (use None t(2) in simp_all)
    then show thesis by (intro that[of "?t\<lparr>dr_first := Some True, dr_cancelled := True\<rparr>" True]) (use t(2,5) v(2) in \<open>simp_all add: r_into_rtranclp\<close>)
  next
    case (Some f)
    with t(2,5) v(2) show thesis by (intro that[of ?t f]) simp_all
  qed
  have "daemon_step u (daemon_return f e b u)" using u by (intro returning) auto
  moreover have "daemon_step s ?s" by (rule signalled)
  ultimately have "daemon_step\<^sup>*\<^sup>* s (daemon_return f e b u)"
    using t(1) v(1) u(1) by (meson converse_rtranclp_into_rtranclp rtranclp.rtrancl_into_rtrancl rtranclp_trans)
  moreover have "dr_result (daemon_return f e b u) = Some (daemon_result f e b)"
    by (simp add: daemon_return_def update_manager_def)
  moreover have "daemon_result f e b = None"
    if "dr_watchDone s \<in> {None, Some None}" "sv_phase (dr_server s) \<in> {Accepting, Draining False, Returned False}"
  proof -
    have "e = None" "\<not> b" using t(6) v(3) that by auto
    then show ?thesis by (simp add: daemon_result_def)
  qed
  ultimately show ?thesis by (intro exI[of _ "daemon_return f e b u"] exI[of _ "daemon_result f e b"]) simp
qed

text \<open>
  C2. The daemon can always be stopped: from every state it reaches, whatever requests, start-ups and
  watchers are at work, there is a way to its return, and to one without an error when neither part
  had failed.
\<close>

theorem daemon_can_stop:
  assumes "daemon_step\<^sup>*\<^sup>* new_daemon s" and "dr_result s = None"
  shows "\<exists>t r. daemon_step\<^sup>*\<^sup>* s t \<and> dr_result t = Some r \<and>
    (dr_watchDone s \<in> {None, Some None} \<and> sv_phase (dr_server s) \<in> {Accepting, Draining False, Returned False} \<longrightarrow> r = None)"
  by (rule daemon_way[OF running.run_good[OF assms(1) refl] assms(2)])

theorem daemon_can_stop_witness:
  "\<exists>t. daemon_step\<^sup>*\<^sup>* new_daemon t \<and> dr_result t = Some None"
proof -
  have "dr_result new_daemon = None" "dr_watchDone new_daemon = None" "sv_phase (dr_server new_daemon) = Accepting"
    by (simp_all add: new_daemon_def listening_server_def)
  with daemon_can_stop[OF rtranclp.rtrancl_refl this(1)] show ?thesis by auto
qed

section \<open>The daemon leaves nothing behind\<close>

text \<open>
  C1. A daemon that has returned leaves nothing behind: its lock is released, its watcher stopped,
  every connection it ever accepted closed with no handler running, and the manager is closed with
  no session, so that a language server that still runs or a client that is still open belongs to a
  start-up that has not seen its cancellation yet.  The error it returns is that of the part that ended
  first, or else of the other one.  Until it returns it holds the lock.
\<close>

theorem daemon_leaves_nothing_behind:
  assumes "daemon_step\<^sup>*\<^sup>* new_daemon s"
  shows "case dr_result s of
      None \<Rightarrow> dr_lock s
    | Some r \<Rightarrow> \<not> dr_lock s \<and> wl_watching (dr_loop s) = None \<and> nothing_but_startups (wl_manager (dr_loop s)) \<and>
        sv_handlers (dr_server s) = Map.empty \<and> sv_accepted (dr_server s) \<subseteq> sv_closed (dr_server s) \<and>
        (\<exists>f e b. dr_first s = Some f \<and> dr_watchDone s = Some e \<and> sv_phase (dr_server s) = Returned b \<and>
           r = daemon_result f e b)"
proof -
  have g: "daemon_good s" by (rule running.run_good[OF assms refl])
  show ?thesis
  proof (cases "dr_result s")
    case None
    with g show ?thesis by (simp add: daemon_good_def)
  next
    case (Some r)
    then obtain f e b where ends: "dr_first s = Some f" "dr_watchDone s = Some e" "sv_phase (dr_server s) = Returned b"
        "r = daemon_result f e b" "\<not> dr_lock s" "mg_closed (wl_manager (dr_loop s))"
      using g by (auto simp: daemon_good_def)
    have "serve_good (dr_server s)" using g serving.run_good by (auto simp: daemon_good_def)
    then have "sv_handlers (dr_server s) = Map.empty \<and> sv_accepted (dr_server s) \<subseteq> sv_closed (dr_server s)"
      using ends(3) by (auto simp: serve_good_def handlers_in_def)
    moreover have "nothing_but_startups (wl_manager (dr_loop s))"
      using g ends(6) by (intro closed_manager_empty) (simp_all add: daemon_good_def)
    ultimately show ?thesis using g ends Some by (simp add: daemon_good_def)
  qed
qed

theorem daemon_leaves_nothing_behind_witness:
  "\<exists>s :: daemon_run. dr_result s = Some None \<and> \<not> dr_lock s \<and> mg_closed (wl_manager (dr_loop s)) \<and> sv_handlers (dr_server s) = Map.empty"
proof -
  have n: "dr_result new_daemon = None" "dr_watchDone new_daemon = None" "sv_phase (dr_server new_daemon) = Accepting"
    by (simp_all add: new_daemon_def listening_server_def)
  from daemon_way[OF daemon_good_new n(1)] n obtain s where s: "daemon_step\<^sup>*\<^sup>* new_daemon s" "dr_result s = Some None" by auto
  from daemon_leaves_nothing_behind[OF s(1)] s(2) show ?thesis by (auto simp: nothing_but_startups_def intro!: exI[of _ s])
qed

section \<open>The commands reach the daemon\<close>

definition app_hooks :: server_hooks where
  "app_hooks = \<lparr>OnStatus = Some (Inr ''ready''), OnStop = None, OnMCP = True\<rparr>"

lemma app_hooks_status: "client_Status (to_daemon app_hooks fault) (c # cs) = Inr ''ready''"
  unfolding client_Status_def
  by (subst client_control_reply[where w = "''ready''"])
    (simp_all add: served_def app_hooks_def server_handle_frame[of _ _ _ _ "[]", simplified] replied_def read_reply_ok)

lemma app_hooks_stop: "client_Stop (to_daemon app_hooks fault) (c # cs) = Inr ()"
proof -
  have "map_sum id trim_space (client_control (to_daemon app_hooks fault) (c # cs) CmdStop) = Inr ''ok''"
    by (subst client_control_reply[where w = "''ok''"])
      (simp_all add: served_def app_hooks_def server_handle_frame[of _ _ _ _ "[]", simplified] replied_def read_reply_ok)
  then show ?thesis by (auto simp: client_Stop_def map_sum_def split: sum.splits)
qed

text \<open>
  The daemon's commands work end to end: \<^verbatim>\<open>daemon status\<close>, parsed from its arguments and run against a
  daemon of this program, prints that it is ready and exits with 0; \<^verbatim>\<open>daemon stop\<close> says that it stopped, and
  the daemon it reached has cancelled its context.
\<close>

theorem daemon_commands_work:
  assumes "me_dial me = to_daemon app_hooks fault" and "ue_user (me_user me) \<noteq> None"
    and "me_store me" and "ap_written (me_app me)"
  shows "main_run me [''daemon'', ''status''] d fs = Some (0, Some (ended None (''ready'' @ [CHR 10]) d fs)) \<and>
    main_run me [''daemon'', ''stop''] d fs = Some (0, Some (ended None (''stopped'' @ [CHR 10]) d fs)) \<and>
    hd_cancelled (served app_hooks fault CmdStop)"
proof -
  obtain c cs where pipe: "DefaultPipePath (me_hash me) (me_user me) = Some (c # cs)"
    using assms(2) by (auto simp: DefaultPipePath_def pipePath_def)
  have parsed: "Parse [''daemon'', ''status''] = Inr (zero_Command\<lparr>cmd_Name := ''daemon'', cmd_DaemonAction := ''status''\<rparr>)"
    "Parse [''daemon'', ''stop''] = Inr (zero_Command\<lparr>cmd_Name := ''daemon'', cmd_DaemonAction := ''stop''\<rparr>)"
    by code_simp+
  have "hd_cancelled (served app_hooks fault CmdStop)"
    by (simp add: served_def app_hooks_def server_handle_frame[of _ _ _ _ "[]", simplified])
  then show ?thesis
    using assms pipe
    by (simp add: main_run_def parsed app_Run_def app_daemon_def zero_Command_def app_hooks_status app_hooks_stop
        printed_line_def ended_def)
qed

theorem daemon_commands_work_witness:
  "main_run (sample_main\<lparr>me_dial := to_daemon app_hooks ''EOF''\<rparr>) [''daemon'', ''status''] (holding ''x'') Map.empty =
    Some (0, Some (ended None (''ready'' @ [CHR 10]) (holding ''x'') Map.empty))"
  by (rule daemon_commands_work[THEN conjunct1]) (simp_all add: sample_main_def sample_app_def)

end
