(* ===== verification/Spec2Isabelle.thy ===== *)
theory Spec2Isabelle
  imports Cli Ubtguard Toolchain Registry Coordinator RootBackend McpTools LspProtocol LspWaiters LspSend LspClose RiderStale EngineIndex DaemonStart DaemonServer AppQueries AppGenerate AppDaemon
begin

text \<open>
  A model of soft-ue-index, a per-user service that keeps compilation databases for Unreal Engine
  projects fresh and answers code questions about them: a registry of projects, the generation of their
  databases, a watcher that regenerates them, a manager of \<^verbatim>\<open>clangd\<close> processes, an MCP server in front of it, a
  daemon that runs the three together, and the commands of one executable.  File names below are those
  under \<^verbatim>\<open>internal\<close>; where a Go function has a name that clashes with one of the library, the model's
  has a prefix (\<open>app_list\<close> for \<^verbatim>\<open>App.list\<close>, \<open>query_Symbols\<close> for \<^verbatim>\<open>lspQueries.Symbols\<close>, \<open>unreal_Discover\<close>).

  How the program is modelled.  A Go function is a function of its arguments and of the outcomes of
  the system calls it makes, which are collected in records (\<open>path_env\<close>, \<open>io\<close>, \<open>app_env\<close>, \<open>generate_env\<close>,
  \<open>main_env\<close> and so on); files it changes are part of its state and returned.  Every error return is a
  branch: an error datatype per package and a sum.  A string is the list of its bytes.  Integers are \<open>int\<close> where
  they cannot overflow and wrap explicitly where the code multiplies durations.  Concurrency is a step
  relation or a transition function over events, in any interleaving, with the critical sections of the
  code's mutexes as the steps; its facts are invariants of all reachable states, through the locale
  \<open>invariant_system\<close>, or the existence of a run, for liveness.

  Foundations.  \<open>Prelude\<close>: strings, \<^verbatim>\<open>strconv\<close>, results, 64-bit wrap-around, the two ways to run a system.
  \<open>Paths\<close>: \<^verbatim>\<open>path/filepath\<close> for slash-separated paths.  \<open>Utf8\<close>, \<open>Json\<close>, \<open>Url\<close>, \<open>Bufio\<close>: the parts of the standard library
  the program's own guarantees rest on.

  The registry.  \<open>Registry\<close> (\<^verbatim>\<open>registry/model.go\<close>, \<^verbatim>\<open>store.go\<close>, \<^verbatim>\<open>project_lock.go\<close>): data, validation, file locks, the
  locked and atomic store; updates commit whole or not at all, and concurrent updates are serialised.

  Generation.  \<open>Toolchain\<close> (versions, ranges, candidates, the choice of a clangd), \<open>Ubtguard\<close> (is a build running,
  and the bounded wait), \<open>Compdb\<close> (validation, promotion and the run of UnrealBuildTool), \<open>RiderModules\<close>, \<open>Rider\<close> and
  \<open>RiderStale\<close> (synthesis from Rider's metadata and its staleness), \<open>EngineIndex\<close> (the prebuilt index of an engine
  and the fragment that points at it), \<open>Unreal\<close> (discovery of a project and its engine).

  Watching.  \<open>Coordinator\<close> (debounced, bounded, never overlapping generations), \<open>Watcher\<close> (events, roots and the
  walking backend), \<open>RootBackend\<close> (the overlapped reads of the Windows backend).

  Language servers.  \<open>LspWire\<close> (frames), \<open>LspTypes\<close>, \<open>LspRequests\<close> (the requests and the decoding of answers),
  \<open>LspProtocol\<close> (a server of the protocol: the requests return what it computes), \<open>LspSend\<close> (senders and the writer), \<open>LspClose\<close> (the launch of the process, the handshake, the loops and their closing),
  \<open>LspClient\<close> (dispatch, readiness of the index, open documents), \<open>LspSeed\<close> (the file opened first), \<open>LspManager\<close> (sessions:
  the operations), \<open>LspSessions\<close> (their invariant), \<open>LspWaiters\<close> (who waits and who is woken).

  The MCP server.  \<open>McpStdio\<close> (limits, request validation, bounded readers and writers, the proxy's directions),
  \<open>McpPaths\<close> (the guard on paths and URIs), \<open>McpText\<close> (budgets and excerpts), \<open>McpCalls\<close> (call hierarchies), \<open>McpServer\<close>
  (admission, the operations, the answers and their errors), \<open>McpTools\<close> (which operation answers to which tool).

  The daemon.  \<open>Daemon\<close> (endpoints, the control protocol, its handler and clients), \<open>DaemonStart\<close> (racing callers start
  one daemon), \<open>DaemonServer\<close> (the accept loop).

  The application (\<^verbatim>\<open>app/app.go\<close>).  \<open>AppQueries\<close> (the queries behind the tools, the filter on clangd's answers, a
  project's cache), \<open>AppCommands\<close> (list, add, remove, status, generate), \<open>AppIndex\<close> (index-engine), \<open>AppDoctor\<close> with
  \<open>Diagnostics\<close> (doctor), \<open>AppGenerate\<close> (the two routes to a database), \<open>AppWatch\<close> (watching the registered projects and
  following the registry), \<open>AppMain\<close> (the choice of a command, watch, mcp, daemon, the proxy, the exit code) with
  \<open>Cli\<close>, and \<open>AppDaemon\<close>, which composes the steps of \<open>AppWatch\<close>, \<open>LspSessions\<close> and \<open>DaemonServer\<close> into the running daemon.

  What the facts show.  About the whole: a daemon that has returned leaves nothing behind and can always
  be made to return; the commands of the parser are those of the router, and the exit code tells the
  outcome; the daemon's commands work end to end.  About data at rest: the registry and the
  database are replaced whole or kept, whatever fails, no concurrent change of the registry is lost,
  and the shared fragment keeps its owner.  About what a client sees: only files that resolve
  inside the project or its engine, only answers of the project's own clangd, complete unless marked, within
  the response limit, with sanitised errors.  About the moving parts: permits, processes, connections
  and start-ups are bounded and never lost, what was promised is eventually possible, and loops
  return.  Optimised routines (the nearest-module index, the selection of a clangd, the textual path
  scope, doctor's accumulated report, the bounded artifact search) equal their plain specifications.
  A synthesised database is tied to the metadata down to the content of its response files, an
  index run is bounded in every file it may touch, and the two guards on clangd's answers are compared
  for every URI.  Some facts state what the code does against its intention: a shadowed project, caches that
  meet, lost truncation, stranded waiters, a torn temporary, URIs one guard accepts and the other hides.

  Bounds and fuel.  Loops that end by their data are recursions with a measure.  \<open>Ubtguard.Wait\<close> has fuel, and
  1800 seconds of nanosecond waits, its total budget, are shown enough; \<open>AcquireFileLock\<close> waits as long as the
  lock is contended, so its fuel is a number of attempts and running out is still waiting; the polling of
  \<open>EnsureRunning\<close> and the climb of \<open>RiderStale\<close> are partial functions shown to return.  The search for build
  artifacts looks at 10000 entries and ten levels, the daemon serves 32 connections and doctor's probes keep
  32 KiB, as the code's constants say.

  Not modelled.  The file names of a Windows build (\<^verbatim>\<open>filepath\<close> is modelled for a slash as separator, so drive
  letters and the system-call wrappers of \<^verbatim>\<open>*_windows.go\<close> are left out, except the watch backend, whose
  state machine does not depend on them).  Letter case and white space beyond ASCII.  The MCP SDK, which
  decodes the arguments and calls the handlers and is not part of the repository, and \<^verbatim>\<open>RunStdio\<close> and \<^verbatim>\<open>RunIO\<close>,
  which only connect it to the bounded reader and writer.  The JSON parser, where the model starts from the value it
  returns; SHA-256, which is an argument; the registry's JSON codec, an argument with the law that decoding
  inverts encoding.  Reads that return no bytes and no error.  The goroutines that close the endpoints
  of the proxy or a file whose context ended: their effect is an error of the interrupted read.  What
  flows through the log file of the language-server process.  \<^verbatim>\<open>safeName\<close> of \<^verbatim>\<open>rider.go\<close> is not called by the
  program.  \<^verbatim>\<open>app.New\<close> only fills in defaults.  Simplified: a caller of \<open>DaemonStart\<close> that dies inside its start
  callback has not launched; a failing removal of the registry's temporary is one with the failure before
  it; a nil packet of the watch backend is only an error; the file of an engine's lock is not among the
  files of an index run.
\<close>

end
